(* ===== verification/Prelude.thy ===== *)
theory Prelude
  imports Complex_Main "HOL-Library.Sublist" "HOL-Library.Multiset"
begin

text \<open>
  Shared ground of the development: the Python values and string operations the
  modelled files use, the two transition-system locales every stateful component is
  interpreted in, and the generic lemmas on lists that the component theories share.

  Strings.  Identifiers, environment variables and wire tokens are HOL strings: a
  \<^typ>\<open>char\<close> is a code point below 256, so a \<^typ>\<open>string\<close> is exactly a Python
  string over the Latin-1 range, and \<open>py_strip\<close>, \<open>py_lower\<close> and \<open>py_int\<close> are Python's
  operations on that range.  Spoken or transcribed text, where CJK matters, is a list of
  code points (\<open>cptext\<close>).
\<close>

section \<open>Automation shared by the components\<close>

named_theorems inv_defs "the invariants of the stateful components, unfolded by name"
named_theorems py_eval "evaluation of the Python helpers on concrete values"

section \<open>Python strings\<close>

type_synonym cptext = "nat list"

definition cp_of :: "string \<Rightarrow> cptext" where
  "cp_of s = map of_char s"

definition lstrip_by :: "('a \<Rightarrow> bool) \<Rightarrow> 'a list \<Rightarrow> 'a list" where
  "lstrip_by p xs = dropWhile p xs"

definition rstrip_by :: "('a \<Rightarrow> bool) \<Rightarrow> 'a list \<Rightarrow> 'a list" where
  "rstrip_by p xs = rev (dropWhile p (rev xs))"

definition strip_by :: "('a \<Rightarrow> bool) \<Rightarrow> 'a list \<Rightarrow> 'a list" where
  "strip_by p xs = rstrip_by p (lstrip_by p xs)"

text \<open>\<open>str.isspace\<close> on code points: the Unicode white space and separator characters.\<close>

definition cp_isspace :: "nat \<Rightarrow> bool" where
  "cp_isspace c \<longleftrightarrow>
     (9 \<le> c \<and> c \<le> 13) \<or> (28 \<le> c \<and> c \<le> 32) \<or> c = 133 \<or> c = 160 \<or> c = 5760 \<or>
     (8192 \<le> c \<and> c \<le> 8202) \<or> c = 8232 \<or> c = 8233 \<or> c = 8239 \<or> c = 8287 \<or> c = 12288"

abbreviation cp_strip :: "cptext \<Rightarrow> cptext" where
  "cp_strip \<equiv> strip_by cp_isspace"

abbreviation cp_lstrip :: "cptext \<Rightarrow> cptext" where
  "cp_lstrip \<equiv> lstrip_by cp_isspace"

definition py_strip :: "string \<Rightarrow> string" where
  "py_strip = strip_by (\<lambda>c. cp_isspace (of_char c))"

definition lower_char :: "char \<Rightarrow> char" where
  "lower_char c =
     (let n = (of_char c :: nat)
      in if (65 \<le> n \<and> n \<le> 90) \<or> (192 \<le> n \<and> n \<le> 222 \<and> n \<noteq> 215) then char_of (n + 32) else c)"

definition py_lower :: "string \<Rightarrow> string" where
  "py_lower = map lower_char"

definition is_digit_char :: "char \<Rightarrow> bool" where
  "is_digit_char c \<longleftrightarrow> (let n = (of_char c :: nat) in 48 \<le> n \<and> n \<le> 57)"

definition digit_val :: "char \<Rightarrow> nat" where
  "digit_val c = (of_char c :: nat) - 48"

text \<open>The digits of an integer literal: digits, with single underscores between digits.\<close>

fun digits_value :: "bool \<Rightarrow> nat \<Rightarrow> string \<Rightarrow> nat option" where
  "digits_value prev_digit acc [] = (if prev_digit then Some acc else None)"
| "digits_value prev_digit acc (c # cs) =
     (if is_digit_char c then digits_value True (10 * acc + digit_val c) cs
      else if c = CHR ''_'' \<and> prev_digit then digits_value False acc cs
      else None)"

text \<open>Python's \<open>int(s)\<close> on a string: \<open>None\<close> is the \<open>ValueError\<close>.\<close>

definition py_int :: "string \<Rightarrow> int option" where
  "py_int s =
     (case py_strip s of
        [] \<Rightarrow> None
      | c # cs \<Rightarrow>
          (if c = CHR ''-'' then map_option (\<lambda>n. - int n) (digits_value False 0 cs)
           else if c = CHR ''+'' then map_option int (digits_value False 0 cs)
           else map_option int (digits_value False 0 (c # cs))))"

text \<open>Python's \<open>float(s)\<close>: the value of a decimal literal (as a real number, not rounded to a
  double), an infinity or a NaN; \<open>None\<close> is the \<open>ValueError\<close>.\<close>

datatype pyfloat = Fin real | PosInf | NegInf | NaN

definition opt_digits :: "string \<Rightarrow> (nat \<times> nat) option" where
  "opt_digits s =
     (if s = [] then Some (0, 0)
      else map_option (\<lambda>n. (n, length (filter is_digit_char s))) (digits_value False 0 s))"

definition float_mantissa :: "string \<Rightarrow> real option" where
  "float_mantissa s =
     (let ip = takeWhile (\<lambda>c. c \<noteq> CHR ''.'') s; rest = dropWhile (\<lambda>c. c \<noteq> CHR ''.'') s; fp = tl rest
      in case (opt_digits ip, opt_digits fp) of
           (Some (i, ni), Some (f, nf)) \<Rightarrow>
             (if ni + nf = 0 then None else Some (real i + real f / 10 ^ nf))
         | _ \<Rightarrow> None)"

definition float_exponent :: "string \<Rightarrow> int option" where
  "float_exponent s =
     (case s of
        [] \<Rightarrow> None
      | c # cs \<Rightarrow>
          (if c = CHR ''-'' then map_option (\<lambda>n. - int n) (digits_value False 0 cs)
           else if c = CHR ''+'' then map_option int (digits_value False 0 cs)
           else map_option int (digits_value False 0 (c # cs))))"

definition float_unsigned :: "string \<Rightarrow> pyfloat option" where
  "float_unsigned s =
     (if s = ''inf'' \<or> s = ''infinity'' then Some PosInf
      else if s = ''nan'' then Some NaN
      else
        let m = takeWhile (\<lambda>c. c \<noteq> CHR ''e'') s; e = dropWhile (\<lambda>c. c \<noteq> CHR ''e'') s
        in case (float_mantissa m, if e = [] then Some 0 else float_exponent (tl e)) of
             (Some v, Some k) \<Rightarrow> Some (Fin (if k \<ge> 0 then v * 10 ^ nat k else v / 10 ^ nat (- k)))
           | _ \<Rightarrow> None)"

definition neg_float :: "pyfloat \<Rightarrow> pyfloat" where
  "neg_float v = (case v of Fin r \<Rightarrow> Fin (- r) | PosInf \<Rightarrow> NegInf | NegInf \<Rightarrow> PosInf | NaN \<Rightarrow> NaN)"

definition py_float :: "string \<Rightarrow> pyfloat option" where
  "py_float s =
     (case py_lower (py_strip s) of
        [] \<Rightarrow> None
      | c # cs \<Rightarrow>
          (if c = CHR ''-'' then map_option neg_float (float_unsigned cs)
           else if c = CHR ''+'' then float_unsigned cs
           else float_unsigned (c # cs)))"

text \<open>Comparison with a finite number; every comparison with a NaN is false.\<close>

definition pf_less :: "pyfloat \<Rightarrow> real \<Rightarrow> bool" where
  "pf_less v r = (case v of Fin x \<Rightarrow> x < r | NegInf \<Rightarrow> True | PosInf \<Rightarrow> False | NaN \<Rightarrow> False)"

definition pf_greater :: "pyfloat \<Rightarrow> real \<Rightarrow> bool" where
  "pf_greater v r = (case v of Fin x \<Rightarrow> x > r | NegInf \<Rightarrow> False | PosInf \<Rightarrow> True | NaN \<Rightarrow> False)"

definition py_startswith :: "'a list \<Rightarrow> 'a list \<Rightarrow> bool" where
  "py_startswith s p \<longleftrightarrow> take (length p) s = p"

definition py_endswith :: "'a list \<Rightarrow> 'a list \<Rightarrow> bool" where
  "py_endswith s p \<longleftrightarrow> length p \<le> length s \<and> drop (length s - length p) s = p"

text \<open>The operator \<open>p in s\<close> on strings.\<close>

fun py_contains :: "'a list \<Rightarrow> 'a list \<Rightarrow> bool" where
  "py_contains [] p = (p = [])"
| "py_contains (c # cs) p = (py_startswith (c # cs) p \<or> py_contains cs p)"

text \<open>Python's \<open>round\<close> to an integer: half to even.\<close>

definition py_round :: "real \<Rightarrow> int" where
  "py_round x =
     (let f = \<lfloor>x\<rfloor>; d = x - of_int f
      in if d < 1 / 2 then f else if d > 1 / 2 then f + 1 else if even f then f else f + 1)"

lemma py_round_bounds: "x - 1 / 2 \<le> of_int (py_round x) \<and> of_int (py_round x) \<le> x + 1 / 2"
proof -
  have "of_int \<lfloor>x\<rfloor> \<le> x" "x < of_int \<lfloor>x\<rfloor> + 1" by linarith+
  then show ?thesis unfolding py_round_def Let_def by (simp split: if_split) linarith
qed

text \<open>The environment: \<open>os.environ\<close> or the mapping injected in its place.\<close>

type_synonym env_map = "string \<Rightarrow> string option"

text \<open>\<open>env.get(k)\<close> used as a truth value: present and not empty.\<close>

definition env_truthy :: "env_map \<Rightarrow> string \<Rightarrow> bool" where
  "env_truthy env k = (case env k of None \<Rightarrow> False | Some v \<Rightarrow> v \<noteq> [])"

definition env_float :: "env_map \<Rightarrow> string \<Rightarrow> real \<Rightarrow> pyfloat" where
  "env_float env k d =
     (case env k of None \<Rightarrow> Fin d
      | Some s \<Rightarrow> (case py_float s of None \<Rightarrow> Fin d | Some v \<Rightarrow> v))"

definition env_int :: "env_map \<Rightarrow> string \<Rightarrow> int \<Rightarrow> int" where
  "env_int env k d =
     (case env k of None \<Rightarrow> d | Some s \<Rightarrow> (case py_int s of None \<Rightarrow> d | Some n \<Rightarrow> n))"

definition truthy :: "string \<Rightarrow> bool" where
  "truthy v \<longleftrightarrow> py_lower (py_strip v) \<in> {''1'', ''true'', ''yes'', ''on''}"

section \<open>Generic lemmas\<close>

lemma rstrip_by_append: "\<exists>ws. xs = rstrip_by p xs @ ws \<and> (\<forall>x\<in>set ws. p x)"
proof -
  have "xs = rev (dropWhile p (rev xs)) @ rev (takeWhile p (rev xs))"
    by (metis rev_append rev_rev_ident takeWhile_dropWhile_id)
  then show ?thesis
    unfolding rstrip_by_def by (metis set_rev set_takeWhileD)
qed

lemma lstrip_by_append: "\<exists>ws. xs = ws @ lstrip_by p xs \<and> (\<forall>x\<in>set ws. p x)"
  unfolding lstrip_by_def by (metis set_takeWhileD takeWhile_dropWhile_id)

lemma strip_by_append:
  "\<exists>ws us. xs = ws @ strip_by p xs @ us \<and> (\<forall>x\<in>set ws. p x) \<and> (\<forall>x\<in>set us. p x)"
  unfolding strip_by_def
  by (metis lstrip_by_append rstrip_by_append append.assoc)

lemma filter_all_false: "(\<forall>x\<in>set xs. p x) \<Longrightarrow> filter (\<lambda>x. \<not> p x) xs = []"
  by (induction xs) auto

lemma filter_lstrip_by [simp]: "filter (\<lambda>x. \<not> p x) (lstrip_by p xs) = filter (\<lambda>x. \<not> p x) xs"
  unfolding lstrip_by_def by (induction xs) auto

lemma filter_rstrip_by [simp]: "filter (\<lambda>x. \<not> p x) (rstrip_by p xs) = filter (\<lambda>x. \<not> p x) xs"
  unfolding rstrip_by_def using filter_lstrip_by [of p "rev xs", unfolded lstrip_by_def]
  by (simp add: rev_filter [symmetric])

lemma filter_strip_by [simp]: "filter (\<lambda>x. \<not> p x) (strip_by p xs) = filter (\<lambda>x. \<not> p x) xs"
  unfolding strip_by_def by simp

lemma length_lstrip_by: "length (lstrip_by p xs) \<le> length xs"
  unfolding lstrip_by_def by (simp add: length_dropWhile_le)

lemma length_rstrip_by: "length (rstrip_by p xs) \<le> length xs"
  unfolding rstrip_by_def using length_dropWhile_le [of p "rev xs"] by simp

lemma length_strip_by: "length (strip_by p xs) \<le> length xs"
  unfolding strip_by_def by (meson length_lstrip_by length_rstrip_by le_trans)

lemma strip_by_Nil [simp]: "strip_by p [] = []" "lstrip_by p [] = []" "rstrip_by p [] = []"
  by (simp_all add: strip_by_def lstrip_by_def rstrip_by_def)

lemma strip_by_empty_iff: "strip_by p xs = [] \<longleftrightarrow> (\<forall>x\<in>set xs. p x)"
proof
  assume "strip_by p xs = []"
  then show "\<forall>x\<in>set xs. p x"
    using strip_by_append [of xs p] by auto
next
  assume "\<forall>x\<in>set xs. p x"
  then have "lstrip_by p xs = []"
    unfolding lstrip_by_def by (simp add: dropWhile_eq_Nil_conv)
  then show "strip_by p xs = []"
    by (simp add: strip_by_def)
qed

lemma lstrip_by_hd: "lstrip_by p xs \<noteq> [] \<Longrightarrow> \<not> p (hd (lstrip_by p xs))"
  unfolding lstrip_by_def using hd_dropWhile by blast

section \<open>Transition systems\<close>

text \<open>
  A deterministic component is a step function over its events; its run is a fold.  A
  component with choice (tasks of the event loop, threads) is a step relation; its
  runs are the finite sequences of steps.
\<close>

inductive steps_rel :: "('s \<Rightarrow> 'e \<Rightarrow> 's \<Rightarrow> bool) \<Rightarrow> 's \<Rightarrow> 'e list \<Rightarrow> 's \<Rightarrow> bool" for R where
  steps_nil: "steps_rel R s [] s"
| steps_cons: "R s e u \<Longrightarrow> steps_rel R u es t \<Longrightarrow> steps_rel R s (e # es) t"

inductive_cases steps_rel_NilE: "steps_rel R s [] t"
inductive_cases steps_rel_ConsE: "steps_rel R s (e # es) t"

lemma steps_one: "R s e t \<Longrightarrow> steps_rel R s [e] t"
  by (erule steps_cons) (rule steps_nil)

lemma steps_rel_append:
  "steps_rel R s es u \<Longrightarrow> steps_rel R u fs t \<Longrightarrow> steps_rel R s (es @ fs) t"
  by (induction rule: steps_rel.induct) (auto intro: steps_rel.intros)

locale fold_invariant =
  fixes step :: "'s \<Rightarrow> 'e \<Rightarrow> 's" and inv :: "'s \<Rightarrow> bool"
  assumes step_inv: "inv s \<Longrightarrow> inv (step s e)"
begin

lemma run_inv: "inv s \<Longrightarrow> inv (foldl step s es)"
  by (induction es arbitrary: s) (auto intro: step_inv)

end

locale rel_invariant =
  fixes R :: "'s \<Rightarrow> 'e \<Rightarrow> 's \<Rightarrow> bool" and inv :: "'s \<Rightarrow> bool"
  assumes rel_step_inv: "R s e t \<Longrightarrow> inv s \<Longrightarrow> inv t"
begin

lemma rel_run_inv: "steps_rel R s es t \<Longrightarrow> inv s \<Longrightarrow> inv t"
  by (induction rule: steps_rel.induct) (auto intro: rel_step_inv)

end

end
