(* ===== verification/Capability.thy ===== *)
theory Capability
  imports Prelude
begin

text \<open>
  The concurrency resolver (\<open>server/core/concurrency_capability.py\<close>,
  \<open>server/core/capability_resolver.py\<close>, and the capability part of
  \<open>server/core/diarization.py\<close>): from the profile, the environment and what the speech
  backends declare, it derives the session ceiling, the executor width, the coordinator
  mode and the size of the inference gate.

  The backend classes come from the \<open>voxedge\<close> wheel, which is not part of the
  repository: importing a class and asking it for its capability are the fields of
  \<open>backend_world\<close>, arguments of the definitions below, with \<open>None\<close> for a call that raises.
  Log text is kept as structured values (\<open>ceiling_source\<close>, \<open>clamp_warning\<close>), not as
  formatted strings.
\<close>

section \<open>The capability descriptor\<close>

record capability =
  supports_parallel :: bool
  max_concurrent :: "int option"
  is_stateful :: bool
  requires_exclusive_device :: bool
  scaling_mode :: string
  vram_mb_per_slot :: "int option"

definition default_capability :: capability where
  "default_capability =
     \<lparr>supports_parallel = False, max_concurrent = Some 1, is_stateful = True,
      requires_exclusive_device = True, scaling_mode = ''single_runtime_multiplex'',
      vram_mb_per_slot = None\<rparr>"

section \<open>Profiles and settings\<close>

text \<open>
  The fields of the profile dictionary the resolver reads.  A missing key, \<open>None\<close> and
  the empty string are one case for \<open>name\<close>, \<open>asr_backend\<close> and \<open>tts_backend\<close>, which the
  code only tests for truth or looks up.
\<close>

datatype cfg_val = VNone | VBool bool | VInt int | VStr string

record policy =
  pol_mode :: "string option"
  pol_overlap_true :: bool

record profile =
  p_name :: string
  p_env :: env_map
  p_asr_backend :: string
  p_tts_backend :: string
  p_max_sessions :: cfg_val
  p_policy :: "policy option"
  p_diarize :: bool

datatype cap_error = NotAnInteger string | NotPositive string int | NegativeValue string int

definition or_str :: "string option \<Rightarrow> string \<Rightarrow> string" where
  "or_str v d = (case v of None \<Rightarrow> d | Some s \<Rightarrow> if s = [] then d else s)"

definition target_default :: "string \<Rightarrow> int" where
  "target_default t =
     (if t = ''orin-nx'' then 2 else if t = ''orin-nano'' then 1 else if t = ''rk'' then 1
      else if t = ''desktop'' then 4 else 1)"

text \<open>The target is read off the profile's name, then off its environment block and the
  process environment (always the process's own, never an injected mapping).\<close>

definition infer_target :: "env_map \<Rightarrow> profile \<Rightarrow> string" where
  "infer_target os_env p =
     (let name = py_lower (p_name p) in
      if py_contains name ''orin-nx'' \<or> py_contains name ''orin_nx'' then ''orin-nx''
      else if py_contains name ''orin-nano'' \<or> py_contains name ''orin_nano'' then ''orin-nano''
      else if py_contains name ''rk'' \<or> py_contains name ''rockchip'' \<or> py_contains name ''recomputer''
        then ''rk''
      else if py_contains name ''desktop'' \<or> py_contains name ''ci'' then ''desktop''
      else
        let rk_platform = py_lower (or_str (p_env p ''RK_PLATFORM'') (or_str (os_env ''RK_PLATFORM'') []))
        in if rk_platform \<noteq> [] then ''rk''
        else
          let lang_mode = py_lower (or_str (p_env p ''LANGUAGE_MODE'') (or_str (os_env ''LANGUAGE_MODE'') []))
          in if lang_mode = ''rk'' then ''rk'' else ''unknown'')"

section \<open>Backend classes\<close>

definition asr_registry :: "string \<Rightarrow> (string \<times> string) option" where
  "asr_registry = map_of
     [(''jetson.trt_edge_llm'', ''voxedge.backends.jetson.trt_edge_llm_asr'', ''TRTEdgeLLMASRBackend''),
      (''jetson.paraformer_trt'', ''voxedge.backends.jetson.paraformer_trt'', ''ParaformerTRTBackend''),
      (''jetson.sensevoice_trt'', ''voxedge.backends.jetson.sensevoice_trt'', ''SenseVoiceTRTBackend''),
      (''cpu.sherpa_asr'', ''voxedge.backends.sherpa.asr'', ''SherpaASRBackend''),
      (''rk.asr'', ''voxedge.backends.rk.asr'', ''RKASRBackend''),
      (''hailo.whisper'', ''voxedge.backends.whisper'', ''WhisperASR''),
      (''rk.whisper'', ''voxedge.backends.whisper'', ''WhisperASR''),
      (''jetson.whisper_trt'', ''voxedge.backends.whisper'', ''WhisperASR'')]"

definition tts_registry :: "string \<Rightarrow> (string \<times> string) option" where
  "tts_registry = map_of
     [(''jetson.trt_edge_llm'', ''voxedge.backends.jetson.trt_edge_llm_tts'', ''TRTEdgeLLMTTSBackend''),
      (''jetson.matcha_trt'', ''voxedge.backends.jetson.matcha_trt'', ''MatchaTRTBackend''),
      (''jetson.kokoro_trt'', ''voxedge.backends.jetson.kokoro_trt'', ''KokoroTRTBackend''),
      (''jetson.moss_tts_nano'', ''voxedge.backends.jetson.moss_tts_nano'', ''MossTtsNanoBackend''),
      (''jetson.sparktts'', ''voxedge.backends.jetson.sparktts_trt'', ''SparkTTSBackend''),
      (''cpu.sherpa'', ''voxedge.backends.sherpa.tts'', ''SherpaTTSBackend''),
      (''rk.tts'', ''voxedge.backends.rk.tts'', ''RKTTSBackend'')]"

record 'c backend_world =
  bw_import :: "string \<Rightarrow> string \<Rightarrow> 'c option"
  bw_spec_cap :: "string \<Rightarrow> 'c \<Rightarrow> string \<Rightarrow> profile \<Rightarrow> capability option option"
  bw_class_cap :: "'c \<Rightarrow> profile \<Rightarrow> capability option"

definition resolve_backend_class ::
    "'c backend_world \<Rightarrow> string \<Rightarrow> (string \<Rightarrow> (string \<times> string) option) \<Rightarrow> 'c option" where
  "resolve_backend_class w spec registry =
     (if spec = [] then None
      else case registry spec of
             None \<Rightarrow> None
           | Some (module_path, cls_name) \<Rightarrow> bw_import w module_path cls_name)"

definition capability_for ::
    "'c backend_world \<Rightarrow> 'c option \<Rightarrow> profile \<Rightarrow> string \<Rightarrow> string \<Rightarrow> capability" where
  "capability_for w cls p spec kind =
     (case cls of
        None \<Rightarrow> default_capability
      | Some c \<Rightarrow>
          (let via_spec =
             (if spec \<noteq> [] \<and> kind \<noteq> []
              then (case bw_spec_cap w spec c kind p of Some (Some cap) \<Rightarrow> Some cap | _ \<Rightarrow> None)
              else None)
           in case via_spec of
                Some cap \<Rightarrow> cap
              | None \<Rightarrow> (case bw_class_cap w c p of
                          Some cap \<Rightarrow> cap
                        | None \<Rightarrow> default_capability)))"

text \<open>\<open>min()\<close> over the finite caps; \<open>None\<close> (no cap) is dropped.\<close>

fun finite_caps :: "(string \<times> int option) list \<Rightarrow> int list" where
  "finite_caps [] = []"
| "finite_caps ((_, None) # xs) = finite_caps xs"
| "finite_caps ((_, Some n) # xs) = n # finite_caps xs"

fun min_opt :: "int list \<Rightarrow> int option" where
  "min_opt [] = None"
| "min_opt (x # xs) = Some (case min_opt xs of None \<Rightarrow> x | Some m \<Rightarrow> min x m)"

datatype ceiling_source =
    Aggregate "(string \<times> int option) list"
  | CrossModal "int option" "int option" "int option"
  | TargetDefault string

definition aggregate_ceiling ::
    "capability \<Rightarrow> capability \<Rightarrow> (string \<times> capability) list \<Rightarrow> int option \<times> ceiling_source" where
  "aggregate_ceiling asr_cap tts_cap extra =
     (let items = [(''asr'', max_concurrent asr_cap), (''tts'', max_concurrent tts_cap)]
                  @ map (\<lambda>(l, c). (l, max_concurrent c)) extra
      in (min_opt (finite_caps items), Aggregate items))"

definition parallel_ok :: "capability \<Rightarrow> bool" where
  "parallel_ok cap =
     (if \<not> supports_parallel cap then False
      else case max_concurrent cap of None \<Rightarrow> True | Some n \<Rightarrow> n > 1)"

section \<open>Integer settings\<close>

definition cfg_int :: "string \<Rightarrow> cfg_val \<Rightarrow> cap_error + int option" where
  "cfg_int lbl v =
     (case v of
        VNone \<Rightarrow> Inr None
      | VInt n \<Rightarrow> Inr (Some n)
      | VBool b \<Rightarrow> Inl (NotAnInteger lbl)
      | VStr s \<Rightarrow>
          (if py_strip s = [] then Inr None
           else case py_int s of None \<Rightarrow> Inl (NotAnInteger lbl) | Some n \<Rightarrow> Inr (Some n)))"

definition parse_positive_int :: "string \<Rightarrow> cfg_val \<Rightarrow> cap_error + int option" where
  "parse_positive_int lbl v =
     (case cfg_int lbl v of
        Inl e \<Rightarrow> Inl e
      | Inr None \<Rightarrow> Inr None
      | Inr (Some n) \<Rightarrow> (if n \<le> 0 then Inl (NotPositive lbl n) else Inr (Some n)))"

definition parse_non_negative_int :: "string \<Rightarrow> cfg_val \<Rightarrow> cap_error + int option" where
  "parse_non_negative_int lbl v =
     (case cfg_int lbl v of
        Inl e \<Rightarrow> Inl e
      | Inr None \<Rightarrow> Inr None
      | Inr (Some n) \<Rightarrow> (if n < 0 then Inl (NegativeValue lbl n) else Inr (Some n)))"

definition env_val :: "env_map \<Rightarrow> string \<Rightarrow> cfg_val" where
  "env_val env k = (case env k of None \<Rightarrow> VNone | Some s \<Rightarrow> VStr s)"

section \<open>Diarization's share of the ceiling\<close>

definition diar_max_concurrent :: "env_map \<Rightarrow> int option" where
  "diar_max_concurrent env =
     (case env ''OVS_DIARIZE_MAX_CONCURRENT'' of
        None \<Rightarrow> None
      | Some raw \<Rightarrow> (case py_int (py_strip raw) of
                      None \<Rightarrow> None
                    | Some n \<Rightarrow> if n > 0 then Some n else None))"

text \<open>\<open>exists\<close> is \<open>os.path.exists\<close>, the file system's answer.\<close>

definition diarization_capability ::
    "(string \<Rightarrow> bool) \<Rightarrow> profile \<Rightarrow> env_map \<Rightarrow> capability option" where
  "diarization_capability exists p env =
     (let enabled = (truthy (or_str (env ''OVS_DIARIZE'') []) \<or> p_diarize p)
      in if \<not> enabled then None
         else
           let trt = py_strip (or_str (env ''DIAR_CAMPPLUS_ENGINE_FILE'') []);
               strict_trt = (py_lower (py_strip (or_str (env ''OVS_SPEAKER_EMB_BACKEND'') ''auto''))
                             = ''jetson_trt'');
               vram = (if trt \<noteq> [] \<and> exists trt then 90 else 120)
           in Some \<lparr>supports_parallel = \<not> strict_trt,
                    max_concurrent = (if strict_trt then Some 1 else diar_max_concurrent env),
                    is_stateful = True,
                    requires_exclusive_device = strict_trt,
                    scaling_mode = (if strict_trt then ''serialized_context'' else ''per_call_isolated''),
                    vram_mb_per_slot = Some vram\<rparr>)"

section \<open>Resolution\<close>

datatype clamp_warning =
    EnvSessionsClamped int ceiling_source int
  | ProfileSessionsClamped int ceiling_source int
  | ExecutorClamped string int int
  | InferClamped int int

record resolved_capability =
  session_ceiling :: "int option"
  executor_max_workers :: int
  coordinator_mode :: string
  ceiling_src :: ceiling_source
  asr_cap :: capability
  tts_cap :: capability
  clamp_warnings :: "clamp_warning list"
  diar_cap :: "capability option"
  asr_infer_concurrency :: int
  asr_queue_depth :: "int option"

definition inactive_cap :: capability where
  "inactive_cap =
     \<lparr>supports_parallel = True, max_concurrent = None, is_stateful = False,
      requires_exclusive_device = False, scaling_mode = ''per_call_isolated'',
      vram_mb_per_slot = None\<rparr>"

definition resolve_caps :: "'c backend_world \<Rightarrow> profile \<Rightarrow> capability \<times> capability" where
  "resolve_caps w p =
     (let asr_cls = resolve_backend_class w (p_asr_backend p) asr_registry;
          tts_cls = resolve_backend_class w (p_tts_backend p) tts_registry;
          a = capability_for w asr_cls p (p_asr_backend p) ''asr'';
          t = capability_for w tts_cls p (p_tts_backend p) ''tts''
      in (if p_asr_backend p \<noteq> [] then a else inactive_cap,
          if p_tts_backend p \<noteq> [] then t else inactive_cap))"

definition cross_modal_overlap :: "policy option \<Rightarrow> bool" where
  "cross_modal_overlap pol =
     (case pol of None \<Rightarrow> False
      | Some q \<Rightarrow> pol_mode q = Some ''concurrent'' \<and> pol_overlap_true q)"

definition resolve_ceiling ::
    "env_map \<Rightarrow> profile \<Rightarrow> bool \<Rightarrow> capability \<Rightarrow> capability \<Rightarrow> capability option
     \<Rightarrow> int option \<times> ceiling_source" where
  "resolve_ceiling os_env p overlap a t d =
     (if overlap \<and> p_asr_backend p \<noteq> [] \<and> p_tts_backend p \<noteq> [] then
        (let modal = (case (max_concurrent a, max_concurrent t) of
                        (Some m, Some n) \<Rightarrow> Some (m + n)
                      | _ \<Rightarrow> None);
             dm = (case d of None \<Rightarrow> None | Some dc \<Rightarrow> max_concurrent dc)
         in (case dm of
               None \<Rightarrow> modal
             | Some k \<Rightarrow> Some (case modal of None \<Rightarrow> k | Some c \<Rightarrow> min c k),
             CrossModal (max_concurrent a) (max_concurrent t) dm))
      else if p_asr_backend p \<noteq> [] \<or> p_tts_backend p \<noteq> [] then
        aggregate_ceiling a t (case d of None \<Rightarrow> [] | Some dc \<Rightarrow> [(''diar'', dc)])
      else
        (let target = infer_target os_env p
         in (Some (target_default target), TargetDefault target)))"

definition resolve_sessions ::
    "env_map \<Rightarrow> profile \<Rightarrow> int option \<Rightarrow> ceiling_source \<Rightarrow> int option \<Rightarrow> int option
     \<Rightarrow> int option \<times> clamp_warning list" where
  "resolve_sessions os_env p ceil src env_session profile_session =
     (case env_session of
        Some n \<Rightarrow>
          (case ceil of
             Some c \<Rightarrow> (if n > c then (Some c, [EnvSessionsClamped n src c]) else (Some n, []))
           | None \<Rightarrow> (Some n, []))
      | None \<Rightarrow>
          (case profile_session of
             Some n \<Rightarrow>
               (case ceil of
                  Some c \<Rightarrow> (if n > c then (Some c, [ProfileSessionsClamped n src c])
                             else (Some n, []))
                | None \<Rightarrow> (Some n, []))
           | None \<Rightarrow>
               (case ceil of
                  None \<Rightarrow> (Some (target_default (infer_target os_env p)), [])
                | Some c \<Rightarrow> (Some c, []))))"

definition requested_mode :: "policy option \<Rightarrow> string" where
  "requested_mode pol =
     (case pol of None \<Rightarrow> ''concurrent''
      | Some q \<Rightarrow> (case pol_mode q of None \<Rightarrow> ''concurrent'' | Some m \<Rightarrow> m))"

definition resolve_coordinator_mode ::
    "profile \<Rightarrow> policy option \<Rightarrow> capability \<Rightarrow> capability \<Rightarrow> string" where
  "resolve_coordinator_mode p pol a t =
     (let requested = requested_mode pol;
          has_asr = (p_asr_backend p \<noteq> []); has_tts = (p_tts_backend p \<noteq> [])
      in if requested = ''exclusive'' then ''exclusive''
         else if requested = ''concurrent'' \<and> (has_asr \<or> has_tts) \<and>
                 \<not> ((parallel_ok a \<and> parallel_ok t) \<or>
                    (cross_modal_overlap pol \<and> has_asr \<and> has_tts))
           then ''serialized''
         else requested)"

text \<open>The backend-specific variable is taken when its suffix occurs in the backend's name and
  it is set to a non-empty string; otherwise the global one.\<close>

fun executor_env :: "string \<Rightarrow> env_map \<Rightarrow> (string \<times> string) list \<Rightarrow> (string \<times> string) option" where
  "executor_env name env [] =
     (if env_truthy env ''OVS_TTS_STREAM_MAX_WORKERS''
      then Some (''OVS_TTS_STREAM_MAX_WORKERS'', the (env ''OVS_TTS_STREAM_MAX_WORKERS''))
      else None)"
| "executor_env name env ((sfx, key) # rest) =
     (if py_contains name sfx \<and> env_truthy env key then Some (key, the (env key))
      else executor_env name env rest)"

definition worker_suffixes :: "(string \<times> string) list" where
  "worker_suffixes =
     [(''kokoro'', ''OVS_TTS_STREAM_MAX_WORKERS_KOKORO''),
      (''matcha'', ''OVS_TTS_STREAM_MAX_WORKERS_MATCHA''),
      (''qwen3'', ''OVS_TTS_STREAM_MAX_WORKERS_QWEN3''),
      (''moss'', ''OVS_TTS_STREAM_MAX_WORKERS_MOSS'')]"

definition resolve_executor_max_workers ::
    "capability \<Rightarrow> string \<Rightarrow> env_map \<Rightarrow> int \<times> clamp_warning option" where
  "resolve_executor_max_workers tts tts_backend_name env =
     (case executor_env (py_lower tts_backend_name) env worker_suffixes of
        Some (key, s) \<Rightarrow>
          (let n = (case py_int s of None \<Rightarrow> 2 | Some n \<Rightarrow> n)
           in case max_concurrent tts of
                Some c \<Rightarrow> (if n > c then (max 1 c, Some (ExecutorClamped key n c))
                           else (max 1 n, None))
              | None \<Rightarrow> (max 1 n, None))
      | None \<Rightarrow>
          (case max_concurrent tts of
             Some c \<Rightarrow> (max 1 c, None)
           | None \<Rightarrow> (2, None)))"

text \<open>The descriptor used for the executor when the profile declares no known TTS backend.\<close>

definition undeclared_cap :: capability where
  "undeclared_cap = default_capability\<lparr>supports_parallel := False, max_concurrent := None\<rparr>"

definition or_int :: "int option \<Rightarrow> int option \<Rightarrow> int option" where
  "or_int a b = (case a of Some n \<Rightarrow> (if n \<noteq> 0 then Some n else b) | None \<Rightarrow> b)"

definition infer_width :: "capability \<Rightarrow> int option \<Rightarrow> int" where
  "infer_width a sess =
     (if supports_parallel a
      then (case or_int (max_concurrent a) (or_int sess None) of Some n \<Rightarrow> n | None \<Rightarrow> 1)
      else 1)"

definition resolve_infer_gate ::
    "capability \<Rightarrow> int option \<Rightarrow> int option \<Rightarrow> int option \<Rightarrow> int \<times> int option \<times> clamp_warning list" where
  "resolve_infer_gate a sess env_infer env_depth =
     (let declared = infer_width a sess;
          (width, warn) =
            (case env_infer of
               None \<Rightarrow> (declared, [])
             | Some n \<Rightarrow> (if n > declared then (declared, [InferClamped n declared]) else (n, [])));
          depth = (case sess of None \<Rightarrow> None | Some s \<Rightarrow> Some (max 0 (s - width)))
      in (width, (case env_depth of None \<Rightarrow> depth | Some n \<Rightarrow> Some n), warn))"

text \<open>The whole resolution, with its four parse steps in the code's order.\<close>

definition resolve ::
    "'c backend_world \<Rightarrow> (string \<Rightarrow> bool) \<Rightarrow> env_map \<Rightarrow> env_map \<Rightarrow> profile \<Rightarrow> policy option \<Rightarrow> string
     \<Rightarrow> cap_error + resolved_capability" where
  "resolve w exists os_env env p policy_arg tts_backend_name =
     (let pol = (case policy_arg of None \<Rightarrow> p_policy p | Some q \<Rightarrow> Some q);
          (a, t) = resolve_caps w p;
          d = diarization_capability exists p env;
          (ceil, src) = resolve_ceiling os_env p (cross_modal_overlap pol) a t d
      in case parse_positive_int ''OVS_MAX_CONCURRENT_SESSIONS''
                (env_val env ''OVS_MAX_CONCURRENT_SESSIONS'') of
           Inl e \<Rightarrow> Inl e
         | Inr env_session \<Rightarrow>
      (case parse_positive_int ''profile.max_concurrent_sessions'' (p_max_sessions p) of
           Inl e \<Rightarrow> Inl e
         | Inr profile_session \<Rightarrow>
        (let (sess, w1) = resolve_sessions os_env p ceil src env_session profile_session;
             mode = resolve_coordinator_mode p pol a t;
             tts_declared = (tts_registry (p_tts_backend p) \<noteq> None);
             exec_cap = (if tts_declared then t else undeclared_cap);
             (workers, w2) = resolve_executor_max_workers exec_cap tts_backend_name env
         in case parse_positive_int ''OVS_ASR_INFER_CONCURRENCY''
                   (env_val env ''OVS_ASR_INFER_CONCURRENCY'') of
              Inl e \<Rightarrow> Inl e
            | Inr env_infer \<Rightarrow>
         (case parse_non_negative_int ''OVS_ASR_INFER_QUEUE_DEPTH''
                   (env_val env ''OVS_ASR_INFER_QUEUE_DEPTH'') of
              Inl e \<Rightarrow> Inl e
            | Inr env_depth \<Rightarrow>
           (let (width, depth, w3) = resolve_infer_gate a sess env_infer env_depth
            in Inr \<lparr>session_ceiling = sess, executor_max_workers = workers,
                    coordinator_mode = mode, ceiling_src = src, asr_cap = a, tts_cap = t,
                    clamp_warnings = w1 @ (case w2 of None \<Rightarrow> [] | Some x \<Rightarrow> [x]) @ w3,
                    diar_cap = d, asr_infer_concurrency = width, asr_queue_depth = depth\<rparr>)))))"

definition resolve_executor_for_tts ::
    "'c backend_world \<Rightarrow> env_map \<Rightarrow> profile \<Rightarrow> string \<Rightarrow> int \<times> string option \<times> string" where
  "resolve_executor_for_tts w env p tts_backend_name =
     (let name = py_lower tts_backend_name;
          declared = (tts_registry (p_tts_backend p) \<noteq> None);
          cap = (if declared
                 then capability_for w (resolve_backend_class w (p_tts_backend p) tts_registry) p
                        (p_tts_backend p) ''tts''
                 else undeclared_cap);
          workers = fst (resolve_executor_max_workers cap name env);
          source = (case executor_env name env worker_suffixes of
                      Some (key, s) \<Rightarrow> key
                    | None \<Rightarrow> (if declared \<and> max_concurrent cap \<noteq> None
                               then ''concurrency_capability'' else ''default''))
      in (workers, if name = [] then None else Some name, source))"


section \<open>Lemmas\<close>

definition wf_cap :: "capability \<Rightarrow> bool" where
  "wf_cap c = (case max_concurrent c of None \<Rightarrow> True | Some n \<Rightarrow> 1 \<le> n)"

text \<open>Every capability a backend of this world declares is at least one slot wide.\<close>

definition wf_world :: "'c backend_world \<Rightarrow> bool" where
  "wf_world w \<longleftrightarrow>
     (\<forall>s c k p cap. bw_spec_cap w s c k p = Some (Some cap) \<longrightarrow> wf_cap cap) \<and>
     (\<forall>c p cap. bw_class_cap w c p = Some cap \<longrightarrow> wf_cap cap)"

lemma finite_caps_append [simp]: "finite_caps (xs @ ys) = finite_caps xs @ finite_caps ys"
  by (induction xs rule: finite_caps.induct) auto

lemma min_opt_None [simp]: "min_opt xs = None \<longleftrightarrow> xs = []"
  by (cases xs) auto

lemma min_opt_le: "min_opt xs = Some m \<Longrightarrow> x \<in> set xs \<Longrightarrow> m \<le> x"
proof (induction xs arbitrary: m)
  case (Cons y ys)
  then show ?case by (cases "min_opt ys") (auto simp: min_le_iff_disj)
qed simp

lemma min_opt_in: "min_opt xs = Some m \<Longrightarrow> m \<in> set xs"
proof (induction xs arbitrary: m)
  case (Cons y ys)
  then show ?case by (cases "min_opt ys") (auto simp: min_def split: if_splits)
qed simp

lemma finite_caps_mem: "n \<in> set (finite_caps xs) \<longleftrightarrow> (\<exists>l. (l, Some n) \<in> set xs)"
  by (induction xs rule: finite_caps.induct) auto

lemma aggregate_ceiling_le:
  assumes "fst (aggregate_ceiling a t extra) = c"
    and "max_concurrent a = Some n \<or> max_concurrent t = Some n \<or>
         (\<exists>l dc. (l, dc) \<in> set extra \<and> max_concurrent dc = Some n)"
  shows "\<exists>m. c = Some m \<and> m \<le> n"
proof -
  let ?items = "[(''asr'', max_concurrent a), (''tts'', max_concurrent t)]
                  @ map (\<lambda>(l, c). (l, max_concurrent c)) extra"
  from assms(2) have "\<exists>l. (l, Some n) \<in> set ?items"
  proof (elim disjE exE conjE)
    fix l dc
    assume "(l, dc) \<in> set extra" and "max_concurrent dc = Some n"
    then have "(l, Some n) \<in> set (map (\<lambda>(l, c). (l, max_concurrent c)) extra)"
      by (metis (mono_tags, lifting) case_prod_conv image_eqI set_map)
    then show ?thesis by (intro exI [of _ l]) simp
  qed (simp, metis)+
  then have mem: "n \<in> set (finite_caps ?items)"
    using finite_caps_mem by blast
  have c: "c = min_opt (finite_caps ?items)"
    using assms(1) by (simp only: aggregate_ceiling_def Let_def fst_conv)
  show ?thesis
  proof (cases c)
    case None
    with c mem show ?thesis by (metis length_pos_if_in_set list.size(3) min_opt_None nat_less_le)
  next
    case (Some m)
    with c mem show ?thesis by (metis min_opt_le)
  qed
qed

lemma wf_default [simp]: "wf_cap default_capability" "wf_cap inactive_cap" "wf_cap undeclared_cap"
  by (simp_all add: wf_cap_def default_capability_def inactive_cap_def undeclared_cap_def)

lemma wf_capability_for: "wf_world w \<Longrightarrow> wf_cap (capability_for w cls p s k)"
  unfolding capability_for_def wf_world_def Let_def
  by (auto split: option.splits)

lemma wf_resolve_caps:
  "wf_world w \<Longrightarrow> resolve_caps w p = (a, t) \<Longrightarrow> wf_cap a \<and> wf_cap t"
  by (auto simp: resolve_caps_def Let_def wf_capability_for split: if_splits)

lemma wf_diarization: "diarization_capability ex p env = Some d \<Longrightarrow> wf_cap d"
  by (auto simp: diarization_capability_def Let_def wf_cap_def diar_max_concurrent_def
           split: if_splits option.splits)

lemma min_opt_ge1: "(\<forall>x\<in>set xs. (1::int) \<le> x) \<Longrightarrow> min_opt xs = Some m \<Longrightarrow> 1 \<le> m"
  by (auto dest: min_opt_in)

lemma target_default_ge1 [simp]: "1 \<le> target_default t"
  by (simp add: target_default_def)

lemma wf_cap_ge1: "wf_cap c \<Longrightarrow> max_concurrent c = Some n \<Longrightarrow> 1 \<le> n"
  by (simp add: wf_cap_def)

lemma resolve_ceiling_ge1:
  assumes "wf_cap a" "wf_cap t" "\<forall>dc. d = Some dc \<longrightarrow> wf_cap dc"
    and "resolve_ceiling os_env p ov a t d = (Some c, src)"
  shows "1 \<le> c"
proof -
  have agg: "1 \<le> c" if "aggregate_ceiling a t (case d of None \<Rightarrow> [] | Some dc \<Rightarrow> [(''diar'', dc)]) = (Some c, src)"
    using that assms(1-3)
    by (auto simp: aggregate_ceiling_def Let_def wf_cap_def
             intro!: min_opt_ge1 split: option.splits)
  then show ?thesis
    using assms unfolding resolve_ceiling_def
    by (auto simp: Let_def wf_cap_def split: if_splits option.splits)
qed

lemma parse_positive_int_ge1: "parse_positive_int l v = Inr (Some n) \<Longrightarrow> 1 \<le> n"
  by (auto simp: parse_positive_int_def split: sum.splits option.splits if_splits)

lemma resolve_sessions_Some:
  "\<exists>n. fst (resolve_sessions os_env p c src es ps) = Some n \<and>
       (\<forall>m. c = Some m \<longrightarrow> n \<le> m) \<and>
       ((\<forall>x. es = Some x \<longrightarrow> 1 \<le> x) \<and> (\<forall>x. ps = Some x \<longrightarrow> 1 \<le> x) \<and> (\<forall>m. c = Some m \<longrightarrow> 1 \<le> m)
         \<longrightarrow> 1 \<le> n)"
  by (auto simp: resolve_sessions_def split: option.splits)

lemma resolve_infer_gate_bounds:
  assumes "resolve_infer_gate a sess ei ed = (width, depth, w3)"
  shows "width \<le> infer_width a sess"
    and "\<not> supports_parallel a \<Longrightarrow> (\<forall>n. ei = Some n \<longrightarrow> 1 \<le> n) \<Longrightarrow> width = 1"
    and "ed = None \<Longrightarrow> sess = Some s \<Longrightarrow> \<exists>q. depth = Some q \<and> 0 \<le> q \<and> s \<le> width + q"
  using assms by (auto simp: resolve_infer_gate_def infer_width_def Let_def
                       split: option.splits if_splits)

text \<open>What a successful resolution is made of: one elimination rule the properties share.\<close>

lemma resolve_InrE:
  assumes "resolve w ex os_env env p pa name = Inr r"
  obtains a t d c src es ps ei ed w1 w3 where
    "resolve_caps w p = (a, t)" "diarization_capability ex p env = d"
    "resolve_ceiling os_env p (cross_modal_overlap (case pa of None \<Rightarrow> p_policy p | Some q \<Rightarrow> Some q)) a t d
       = (c, src)"
    "parse_positive_int ''OVS_MAX_CONCURRENT_SESSIONS'' (env_val env ''OVS_MAX_CONCURRENT_SESSIONS'') = Inr es"
    "parse_positive_int ''profile.max_concurrent_sessions'' (p_max_sessions p) = Inr ps"
    "parse_positive_int ''OVS_ASR_INFER_CONCURRENCY'' (env_val env ''OVS_ASR_INFER_CONCURRENCY'') = Inr ei"
    "parse_non_negative_int ''OVS_ASR_INFER_QUEUE_DEPTH'' (env_val env ''OVS_ASR_INFER_QUEUE_DEPTH'') = Inr ed"
    "resolve_sessions os_env p c src es ps = (session_ceiling r, w1)"
    "resolve_infer_gate a (session_ceiling r) ei ed = (asr_infer_concurrency r, asr_queue_depth r, w3)"
    "coordinator_mode r = resolve_coordinator_mode p (case pa of None \<Rightarrow> p_policy p | Some q \<Rightarrow> Some q) a t"
    "executor_max_workers r = fst (resolve_executor_max_workers
        (if tts_registry (p_tts_backend p) \<noteq> None then t else undeclared_cap) name env)"
    "asr_cap r = a" "tts_cap r = t" "diar_cap r = d"
proof -
  let ?pol = "case pa of None \<Rightarrow> p_policy p | Some q \<Rightarrow> Some q"
  obtain a t where caps: "resolve_caps w p = (a, t)" by fastforce
  obtain c src where ceil:
    "resolve_ceiling os_env p (cross_modal_overlap ?pol) a t (diarization_capability ex p env) = (c, src)"
    by fastforce
  show thesis
    using assms that [OF caps refl ceil]
    by (auto simp: resolve_def Let_def caps ceil split: sum.splits prod.splits)
qed


section \<open>Properties\<close>

text \<open>Whatever the environment and the profile ask for,
  the resolved session ceiling is a number, at least 1 when every backend declares at least
  one slot, and never above what any declared backend (or enabled diarization) declares,
  unless the profile opts into cross-modal overlap.\<close>

theorem session_ceiling_only_downgrades:
  assumes "resolve w ex os_env env p pa name = Inr r" and "wf_world w"
    and "\<not> cross_modal_overlap (case pa of None \<Rightarrow> p_policy p | Some q \<Rightarrow> Some q)"
    and "p_asr_backend p \<noteq> [] \<or> p_tts_backend p \<noteq> []"
  shows "\<exists>n. session_ceiling r = Some n \<and> 1 \<le> n \<and>
           (\<forall>m. max_concurrent (asr_cap r) = Some m \<longrightarrow> n \<le> m) \<and>
           (\<forall>m. max_concurrent (tts_cap r) = Some m \<longrightarrow> n \<le> m) \<and>
           (\<forall>dc m. diar_cap r = Some dc \<and> max_concurrent dc = Some m \<longrightarrow> n \<le> m)"
proof -
  from assms(1) obtain a t d c src es ps w1 where caps: "resolve_caps w p = (a, t)"
    and d: "diarization_capability ex p env = d"
    and ceil: "resolve_ceiling os_env p (cross_modal_overlap (case pa of None \<Rightarrow> p_policy p | Some q \<Rightarrow> Some q)) a t d = (c, src)"
    and es: "parse_positive_int ''OVS_MAX_CONCURRENT_SESSIONS'' (env_val env ''OVS_MAX_CONCURRENT_SESSIONS'') = Inr es"
    and ps: "parse_positive_int ''profile.max_concurrent_sessions'' (p_max_sessions p) = Inr ps"
    and sess: "resolve_sessions os_env p c src es ps = (session_ceiling r, w1)"
    and rs: "asr_cap r = a" "tts_cap r = t" "diar_cap r = d"
    by (rule resolve_InrE)
  have wf: "wf_cap a" "wf_cap t" "\<forall>dc. d = Some dc \<longrightarrow> wf_cap dc"
    using wf_resolve_caps [OF assms(2) caps] wf_diarization d by blast+
  have ge: "\<forall>m. c = Some m \<longrightarrow> 1 \<le> m"
    using resolve_ceiling_ge1 [OF wf] ceil by blast
  from resolve_sessions_Some [of os_env p c src es ps] sess obtain n
    where n: "session_ceiling r = Some n" "\<forall>m. c = Some m \<longrightarrow> n \<le> m" "1 \<le> n"
    using parse_positive_int_ge1 es ps ge by (metis fst_conv)
  have agg: "fst (aggregate_ceiling a t (case d of None \<Rightarrow> [] | Some dc \<Rightarrow> [(''diar'', dc)])) = c"
    using ceil assms(3,4) by (auto simp: resolve_ceiling_def)
  have le: "n \<le> m" if "max_concurrent a = Some m \<or> max_concurrent t = Some m \<or>
      (\<exists>dc. d = Some dc \<and> max_concurrent dc = Some m)" for m
    using aggregate_ceiling_le [OF agg, of m] that n(2) by fastforce
  show ?thesis using n le rs by blast
qed


text \<open>A concrete world for the witnesses: an ASR backend with four parallel slots, a TTS backend
  with two, neither needing more than the class import.\<close>

definition demo_world :: "unit backend_world" where
  "demo_world =
     \<lparr>bw_import = (\<lambda>_ _. Some ()),
      bw_spec_cap = (\<lambda>_ _ kind _. Some (Some (default_capability\<lparr>supports_parallel := True,
          max_concurrent := (if kind = ''asr'' then Some 4 else Some 2)\<rparr>))),
      bw_class_cap = (\<lambda>_ _. None)\<rparr>"

definition demo_profile :: profile where
  "demo_profile =
     \<lparr>p_name = ''orin-nx'', p_env = (\<lambda>_. None), p_asr_backend = ''rk.asr'', p_tts_backend = ''rk.tts'',
      p_max_sessions = VInt 9, p_policy = None, p_diarize = False\<rparr>"

lemma wf_demo_world: "wf_world demo_world"
  by (auto simp: wf_world_def demo_world_def wf_cap_def)

lemmas resolve_eval =
  resolve_def resolve_caps_def resolve_backend_class_def asr_registry_def tts_registry_def
  capability_for_def default_capability_def diarization_capability_def or_str_def truthy_def
  py_strip_def strip_by_def rstrip_by_def lstrip_by_def py_lower_def resolve_ceiling_def
  cross_modal_overlap_def aggregate_ceiling_def parse_positive_int_def cfg_int_def env_val_def
  resolve_sessions_def resolve_coordinator_mode_def requested_mode_def parallel_ok_def
  resolve_executor_max_workers_def worker_suffixes_def env_truthy_def resolve_infer_gate_def
  infer_width_def or_int_def parse_non_negative_int_def py_startswith_def demo_world_def
  demo_profile_def undeclared_cap_def

lemma demo_resolves:
  "\<exists>r. resolve demo_world (\<lambda>_. False) (\<lambda>_. None) (\<lambda>_. None) demo_profile None [] = Inr r"
  by (simp add: resolve_eval)

theorem session_ceiling_only_downgrades_witness:
  "\<exists>r n. resolve demo_world (\<lambda>_. False) (\<lambda>_. None) (\<lambda>_. None) demo_profile None [] = Inr r \<and>
         session_ceiling r = Some n \<and> 1 \<le> n"
proof -
  obtain r where r: "resolve demo_world (\<lambda>_. False) (\<lambda>_. None) (\<lambda>_. None) demo_profile None [] = Inr r"
    using demo_resolves by blast
  have h: "\<not> cross_modal_overlap (case None of None \<Rightarrow> p_policy demo_profile | Some q \<Rightarrow> Some q)"
    "p_asr_backend demo_profile \<noteq> [] \<or> p_tts_backend demo_profile \<noteq> []"
    by (simp_all add: demo_profile_def cross_modal_overlap_def)
  show ?thesis
    using r session_ceiling_only_downgrades [OF r wf_demo_world h] by blast
qed

text \<open>the inference gate never runs wider than the backend declares: a backend that is not
  parallel is given exactly one permit, a parallel one at most its declared (or, without a
  cap, the admitted) width; and unless the operator overrides the queue depth, every admitted
  session has a place in the runtime or in the queue, so an admitted burst is never rejected.\<close>

theorem infer_gate_fits_backend:
  assumes "resolve w ex os_env env p pa name = Inr r"
  shows "(\<not> supports_parallel (asr_cap r) \<longrightarrow> asr_infer_concurrency r = 1) \<and>
         asr_infer_concurrency r \<le> infer_width (asr_cap r) (session_ceiling r) \<and>
         (env ''OVS_ASR_INFER_QUEUE_DEPTH'' = None \<longrightarrow>
            (\<exists>s q. session_ceiling r = Some s \<and> asr_queue_depth r = Some q \<and> 0 \<le> q \<and>
                   s \<le> asr_infer_concurrency r + q))"
proof -
  from assms obtain c src es ps ei ed w1 w3 where
    sess: "resolve_sessions os_env p c src es ps = (session_ceiling r, w1)"
    and gate: "resolve_infer_gate (asr_cap r) (session_ceiling r) ei ed
                 = (asr_infer_concurrency r, asr_queue_depth r, w3)"
    and ei: "parse_positive_int ''OVS_ASR_INFER_CONCURRENCY'' (env_val env ''OVS_ASR_INFER_CONCURRENCY'') = Inr ei"
    and ed: "parse_non_negative_int ''OVS_ASR_INFER_QUEUE_DEPTH'' (env_val env ''OVS_ASR_INFER_QUEUE_DEPTH'') = Inr ed"
    by (elim resolve_InrE) blast
  obtain s where s: "session_ceiling r = Some s"
    using resolve_sessions_Some [of os_env p c src es ps] sess by (metis fst_conv)
  have "ed = None" if "env ''OVS_ASR_INFER_QUEUE_DEPTH'' = None"
    using ed that by (simp add: env_val_def parse_non_negative_int_def cfg_int_def)
  then show ?thesis
    using resolve_infer_gate_bounds [OF gate] parse_positive_int_ge1 ei s by metis
qed

theorem infer_gate_fits_backend_witness:
  "\<exists>r. resolve demo_world (\<lambda>_. False) (\<lambda>_. None) (\<lambda>_. None) demo_profile None [] = Inr r \<and>
       asr_infer_concurrency r \<le> infer_width (asr_cap r) (session_ceiling r)"
proof -
  obtain r where r: "resolve demo_world (\<lambda>_. False) (\<lambda>_. None) (\<lambda>_. None) demo_profile None [] = Inr r"
    using demo_resolves by blast
  then show ?thesis using infer_gate_fits_backend [OF r] by blast
qed

text \<open>the execution policy. A profile that asks for exclusive execution always gets it; with
  at least one declared backend, the resolved mode is concurrent only if it was asked for and
  either both capabilities allow parallel work or both backends are declared under an
  explicit cross-modal overlap; any other requested mode passes through unchanged.\<close>

theorem coordinator_mode_spec:
  "(requested_mode pol = ''exclusive'' \<longleftrightarrow> resolve_coordinator_mode p pol a t = ''exclusive'') \<and>
   (resolve_coordinator_mode p pol a t = ''concurrent'' \<longleftrightarrow>
      requested_mode pol = ''concurrent'' \<and>
      ((p_asr_backend p = [] \<and> p_tts_backend p = []) \<or> (parallel_ok a \<and> parallel_ok t) \<or>
       (cross_modal_overlap pol \<and> p_asr_backend p \<noteq> [] \<and> p_tts_backend p \<noteq> []))) \<and>
   resolve_coordinator_mode p pol a t
     \<in> {requested_mode pol} \<union> (if requested_mode pol = ''concurrent'' then {''serialized''} else {})"
  by (auto simp: resolve_coordinator_mode_def Let_def)

lemma executor_bounds:
  "1 \<le> fst (resolve_executor_max_workers cap name env) \<and>
   (wf_cap cap \<longrightarrow> (\<forall>c. max_concurrent cap = Some c \<longrightarrow>
      fst (resolve_executor_max_workers cap name env) \<le> c))"
  by (auto simp: resolve_executor_max_workers_def wf_cap_def Let_def split: option.splits)

lemma py_lower_idem [simp]: "py_lower (py_lower s) = py_lower s"
proof -
  have "lower_char (lower_char c) = lower_char c" for c
    by (auto simp: lower_char_def Let_def)
  then show ?thesis by (simp add: py_lower_def)
qed

text \<open>the executor width is usable and capped: at least one worker, and never more than a
  capability that declares at least one slot; and the projection used by the server's startup
  computes the same width as the full resolution.\<close>

theorem executor_entrypoints_agree:
  assumes "resolve w ex os_env env p pa name = Inr r"
  shows "fst (resolve_executor_for_tts w env p name) = executor_max_workers r \<and>
         1 \<le> executor_max_workers r \<and>
         (tts_registry (p_tts_backend p) \<noteq> None \<and> wf_cap (tts_cap r) \<longrightarrow>
            (\<forall>c. max_concurrent (tts_cap r) = Some c \<longrightarrow> executor_max_workers r \<le> c))"
proof -
  from assms obtain a t where caps: "resolve_caps w p = (a, t)"
    and ex: "executor_max_workers r = fst (resolve_executor_max_workers
        (if tts_registry (p_tts_backend p) \<noteq> None then t else undeclared_cap) name env)"
    and t: "tts_cap r = t"
    by (elim resolve_InrE) blast
  have nonempty: "p_tts_backend p \<noteq> []" if "tts_registry (p_tts_backend p) \<noteq> None"
    using that by (auto simp: tts_registry_def)
  have lower: "resolve_executor_max_workers c (py_lower n) env = resolve_executor_max_workers c n env"
    for c n by (simp add: resolve_executor_max_workers_def)
  show ?thesis
    using caps nonempty executor_bounds
    by (auto simp: ex t resolve_executor_for_tts_def Let_def lower resolve_caps_def)
qed

theorem executor_entrypoints_agree_witness:
  "\<exists>r. resolve demo_world (\<lambda>_. False) (\<lambda>_. None) (\<lambda>_. None) demo_profile None [] = Inr r \<and>
       fst (resolve_executor_for_tts demo_world (\<lambda>_. None) demo_profile []) = executor_max_workers r"
proof -
  obtain r where r: "resolve demo_world (\<lambda>_. False) (\<lambda>_. None) (\<lambda>_. None) demo_profile None [] = Inr r"
    using demo_resolves by blast
  then show ?thesis using executor_entrypoints_agree [OF r] by blast
qed

end
