(* ===== verification/Limiter.thy ===== *)
theory Limiter
  imports Capability
begin

text \<open>
  The session limiter (\<open>server/core/session_limiter.py\<close>): the process-wide admission gate
  for voice sessions.  A limiter is its limit, its active count and the release flags of
  the tokens it has handed out (the \<open>SessionToken\<close> objects, numbered in the order they
  were created).  The Prometheus gauge and counters are best effort: each operation that
  touches one takes a flag saying whether the metrics call succeeded, because a failure
  must not disturb the slot accounting.  The lock makes each counter update atomic, so an
  interleaving of threads is a sequence of these operations.

  The slot-pool interface below is what the request handlers rely on: acquiring takes a
  fresh token or changes nothing, releasing gives back exactly one token, once.
\<close>

section \<open>The slot-pool interface\<close>

locale slot_pool =
  fixes try_acq :: "'s \<Rightarrow> 't option \<times> 's"
    and rel :: "'t \<Rightarrow> 's \<Rightarrow> 's"
    and held :: "'s \<Rightarrow> 't set"
    and cap :: "'s \<Rightarrow> nat"
    and inv :: "'s \<Rightarrow> bool"
  assumes inv_acq: "inv s \<Longrightarrow> inv (snd (try_acq s))"
    and inv_rel: "inv s \<Longrightarrow> inv (rel t s)"
    and cap_acq: "cap (snd (try_acq s)) = cap s"
    and cap_rel: "cap (rel t s) = cap s"
    and acq_Some: "inv s \<Longrightarrow> try_acq s = (Some t, s') \<Longrightarrow> t \<notin> held s \<and> held s' = insert t (held s)"
    and acq_None: "inv s \<Longrightarrow> try_acq s = (None, s') \<Longrightarrow> held s' = held s \<and> cap s \<le> card (held s)"
    and held_rel: "inv s \<Longrightarrow> held (rel t s) = held s - {t}"
    and held_cap: "inv s \<Longrightarrow> finite (held s) \<and> card (held s) \<le> cap s"
begin

text \<open>A client that releases what it acquired leaves the pool as it found it, whatever the
  other clients did meanwhile to other tokens.\<close>

lemma scoped_use:
  assumes "inv s" and "try_acq s = (Some t, s1)" and "inv s2" and "held s2 = insert t H" and "t \<notin> H"
  shows "held (rel t s2) = H"
  using assms held_rel [of s2 t] by auto

lemma double_release:
  assumes "inv s"
  shows "held (rel t (rel t s)) = held (rel t s)"
  using assms by (simp add: held_rel inv_rel)

lemma acquire_iff_free:
  assumes "inv s"
  shows "fst (try_acq s) \<noteq> None \<longleftrightarrow> card (held s) < cap s"
proof (cases "try_acq s")
  case (Pair r s')
  show ?thesis
  proof (cases r)
    case None
    with Pair acq_None [OF assms] show ?thesis by auto
  next
    case (Some t)
    then have "t \<notin> held s" and h: "held s' = insert t (held s)"
      using acq_Some [OF assms] Pair by auto
    moreover have "inv s'" "cap s' = cap s"
      using inv_acq [OF assms] cap_acq [of s] Pair by auto
    ultimately have "Suc (card (held s)) \<le> cap s"
      using held_cap [OF assms] held_cap [of s'] by simp
    with Pair Some show ?thesis by simp
  qed
qed

end

section \<open>The limiter\<close>

record token =
  tok_acquired_at_count :: int
  tok_released :: bool

record limiter =
  lim_limit :: int
  lim_active :: int
  lim_tokens :: "token list"
  lim_gauge :: int

datatype limiter_error = LimitNotPositive int

definition new_limiter :: "int \<Rightarrow> int \<Rightarrow> limiter_error + limiter" where
  "new_limiter gauge limit =
     (if limit \<le> 0 then Inl (LimitNotPositive limit)
      else Inr \<lparr>lim_limit = limit, lim_active = 0, lim_tokens = [], lim_gauge = gauge\<rparr>)"

definition available :: "limiter \<Rightarrow> int" where
  "available l = max 0 (lim_limit l - lim_active l)"

definition try_acquire :: "bool \<Rightarrow> limiter \<Rightarrow> nat option \<times> limiter" where
  "try_acquire metrics_ok l =
     (if lim_active l \<ge> lim_limit l then (None, l)
      else
        let current = lim_active l + 1;
            l1 = l\<lparr>lim_active := current\<rparr>;
            l2 = (if metrics_ok then l1\<lparr>lim_gauge := lim_gauge l1 + 1\<rparr> else l1);
            tok = \<lparr>tok_acquired_at_count = current, tok_released = False\<rparr>
        in (Some (length (lim_tokens l)), l2\<lparr>lim_tokens := lim_tokens l2 @ [tok]\<rparr>))"

text \<open>\<open>_release\<close>: a second release returns before touching the count or the metric.  A token is
  named by its number; a number no token has been given yet is not a token.\<close>

definition release_token :: "bool \<Rightarrow> nat \<Rightarrow> limiter \<Rightarrow> limiter" where
  "release_token metrics_ok k l =
     (if k < length (lim_tokens l) then
        (if tok_released (lim_tokens l ! k) then l
         else
           let l1 = l\<lparr>lim_tokens := (lim_tokens l)[k := (lim_tokens l ! k)\<lparr>tok_released := True\<rparr>]\<rparr>;
               l2 = (if lim_active l1 > 0 then l1\<lparr>lim_active := lim_active l1 - 1\<rparr> else l1)
           in (if metrics_ok then l2\<lparr>lim_gauge := lim_gauge l2 - 1\<rparr> else l2))
      else l)"

definition snapshot :: "limiter \<Rightarrow> int \<times> int" where
  "snapshot l = (lim_limit l, lim_active l)"

section \<open>The module's singleton and the admission helpers\<close>

record admission =
  adm_limiter :: "limiter option"
  adm_gauge :: int
  adm_rejected_http :: nat
  adm_rejected_ws :: nat

text \<open>The limiter's own \<open>_parse_int\<close> accepts a \<open>bool\<close> (an \<open>int\<close> in Python); the resolver called after
  it does not.\<close>

definition parse_int :: "string \<Rightarrow> cfg_val \<Rightarrow> cap_error + int option" where
  "parse_int lbl v =
     (case v of VBool b \<Rightarrow> Inr (Some (if b then 1 else 0)) | _ \<Rightarrow> cfg_int lbl v)"

definition resolve_limit ::
    "'c backend_world \<Rightarrow> (string \<Rightarrow> bool) \<Rightarrow> env_map \<Rightarrow> profile \<Rightarrow> cap_error + int" where
  "resolve_limit w exists env p =
     (case parse_int ''OVS_MAX_CONCURRENT_SESSIONS'' (env_val env ''OVS_MAX_CONCURRENT_SESSIONS'') of
        Inl e \<Rightarrow> Inl e
      | Inr _ \<Rightarrow>
        (case parse_int ''profile.max_concurrent_sessions'' (p_max_sessions p) of
           Inl e \<Rightarrow> Inl e
         | Inr _ \<Rightarrow>
           (case resolve w exists env env p None [] of
              Inl e \<Rightarrow> Inl e
            | Inr r \<Rightarrow> Inr (case session_ceiling r of
                             None \<Rightarrow> target_default (infer_target env p)
                           | Some n \<Rightarrow> n))))"

datatype init_error = BadSetting cap_error | BadLimit limiter_error

definition init_limiter ::
    "'c backend_world \<Rightarrow> (string \<Rightarrow> bool) \<Rightarrow> env_map \<Rightarrow> profile \<Rightarrow> admission \<Rightarrow> init_error + admission" where
  "init_limiter w exists env p a =
     (case resolve_limit w exists env p of
        Inl e \<Rightarrow> Inl (BadSetting e)
      | Inr limit \<Rightarrow>
          (case new_limiter (adm_gauge a) limit of
             Inl e \<Rightarrow> Inl (BadLimit e)
           | Inr l \<Rightarrow> Inr (a\<lparr>adm_limiter := Some l\<rparr>)))"

datatype http_reject = Http503Unavailable | Http429TooMany int int

text \<open>Entering \<open>acquire_http\<close>: the token, or the HTTP exception; leaving it releases the token.\<close>

definition acquire_http_enter :: "bool \<Rightarrow> admission \<Rightarrow> (http_reject + nat) \<times> admission" where
  "acquire_http_enter metrics_ok a =
     (case adm_limiter a of
        None \<Rightarrow> (Inl Http503Unavailable, a)
      | Some l \<Rightarrow>
          (case try_acquire metrics_ok l of
             (None, l') \<Rightarrow>
               (Inl (Http429TooMany (lim_active l) (lim_limit l)),
                a\<lparr>adm_limiter := Some l',
                  adm_rejected_http := (if metrics_ok then Suc (adm_rejected_http a) else adm_rejected_http a)\<rparr>)
           | (Some k, l') \<Rightarrow> (Inr k, a\<lparr>adm_limiter := Some l'\<rparr>)))"

definition acquire_http_exit :: "bool \<Rightarrow> nat \<Rightarrow> admission \<Rightarrow> admission" where
  "acquire_http_exit metrics_ok k a =
     a\<lparr>adm_limiter := map_option (release_token metrics_ok k) (adm_limiter a)\<rparr>"

datatype ws_info = WsOk | WsNoLimiter | WsTooMany int int

definition try_acquire_ws_token :: "bool \<Rightarrow> admission \<Rightarrow> (nat option \<times> ws_info) \<times> admission" where
  "try_acquire_ws_token metrics_ok a =
     (case adm_limiter a of
        None \<Rightarrow> ((None, WsNoLimiter), a)
      | Some l \<Rightarrow>
          (case try_acquire metrics_ok l of
             (None, l') \<Rightarrow> ((None, WsTooMany (lim_active l) (lim_limit l)), a\<lparr>adm_limiter := Some l'\<rparr>)
           | (Some k, l') \<Rightarrow> ((Some k, WsOk), a\<lparr>adm_limiter := Some l'\<rparr>)))"

text \<open>The close frame: its code, and the counts its JSON reason carries.\<close>

datatype ws_close = WsClose int "(int \<times> int) option"

definition close_ws_rejected :: "bool \<Rightarrow> ws_info \<Rightarrow> admission \<Rightarrow> ws_close \<times> admission" where
  "close_ws_rejected metrics_ok info a =
     (case info of
        WsNoLimiter \<Rightarrow> (WsClose 1011 None, a)
      | _ \<Rightarrow>
          (let snap = (case info of WsTooMany cur lmt \<Rightarrow> (cur, lmt) | _ \<Rightarrow> (0, 0))
           in (WsClose 4429 (Some snap),
               a\<lparr>adm_rejected_ws := (if metrics_ok then Suc (adm_rejected_ws a) else adm_rejected_ws a)\<rparr>)))"

definition try_acquire_ws :: "bool \<Rightarrow> admission \<Rightarrow> (nat option \<times> ws_close option) \<times> admission" where
  "try_acquire_ws metrics_ok a =
     (case try_acquire_ws_token metrics_ok a of
        ((Some k, _), a') \<Rightarrow> ((Some k, None), a')
      | ((None, info), a') \<Rightarrow>
          (let (frame, a'') = close_ws_rejected metrics_ok info a' in ((None, Some frame), a'')))"

section \<open>The accounting invariant\<close>

definition held_tokens :: "limiter \<Rightarrow> nat set" where
  "held_tokens l = {k. k < length (lim_tokens l) \<and> \<not> tok_released (lim_tokens l ! k)}"

definition limiter_inv :: "limiter \<Rightarrow> bool" where
  "limiter_inv l \<longleftrightarrow> 0 < lim_limit l \<and> lim_active l = int (card (held_tokens l)) \<and>
                    lim_active l \<le> lim_limit l"

lemma finite_held [simp]: "finite (held_tokens l)"
  by (simp add: held_tokens_def)

lemma new_limiter_inv: "new_limiter g n = Inr l \<Longrightarrow> limiter_inv l"
  by (auto simp: new_limiter_def limiter_inv_def held_tokens_def split: if_splits)

lemma held_try_acquire:
  "try_acquire m l = (Some k, l') \<Longrightarrow> k \<notin> held_tokens l \<and> held_tokens l' = insert k (held_tokens l)"
  by (auto simp: try_acquire_def held_tokens_def Let_def nth_append less_Suc_eq split: if_splits)

lemma try_acquire_fields:
  "lim_limit (snd (try_acquire m l)) = lim_limit l"
  "try_acquire m l = (Some k, l') \<Longrightarrow> lim_active l' = lim_active l + 1 \<and> lim_active l < lim_limit l"
  "try_acquire m l = (None, l') \<Longrightarrow> l' = l \<and> lim_limit l \<le> lim_active l"
  by (auto simp: try_acquire_def Let_def split: if_splits)

lemma try_acquire_inv:
  assumes "limiter_inv l"
  shows "limiter_inv (snd (try_acquire m l))"
proof (cases "try_acquire m l")
  case (Pair r l')
  show ?thesis
  proof (cases r)
    case None
    with Pair assms try_acquire_fields(3) show ?thesis by fastforce
  next
    case (Some k)
    with Pair assms held_try_acquire [of m l k l'] try_acquire_fields(2) [of m l k l']
      try_acquire_fields(1) [of m l]
    show ?thesis by (simp add: limiter_inv_def)
  qed
qed

lemma held_release [simp]: "held_tokens (release_token m k l) = held_tokens l - {k}"
  by (auto simp: release_token_def held_tokens_def Let_def nth_list_update)

lemma release_fields:
  "lim_limit (release_token m k l) = lim_limit l"
  "limiter_inv l \<Longrightarrow>
   lim_active (release_token m k l) = (if k \<in> held_tokens l then lim_active l - 1 else lim_active l)"
proof -
  show "lim_limit (release_token m k l) = lim_limit l"
    by (simp add: release_token_def Let_def)
  assume inv: "limiter_inv l"
  have "lim_active l > 0" if "k \<in> held_tokens l"
    using inv that by (auto simp: limiter_inv_def card_gt_0_iff)
  then show "lim_active (release_token m k l) = (if k \<in> held_tokens l then lim_active l - 1 else lim_active l)"
    by (auto simp: release_token_def Let_def held_tokens_def)
qed

lemma release_inv:
  assumes "limiter_inv l"
  shows "limiter_inv (release_token m k l)"
  proof -
  have "Suc (card (held_tokens l - {k})) = card (held_tokens l)" if "k \<in> held_tokens l"
    using that by (intro card_Suc_Diff1) simp_all
  then show ?thesis
    using assms release_fields(1) [of m k l] release_fields(2) [of l m k]
    by (cases "k \<in> held_tokens l") (auto simp: limiter_inv_def)
qed

interpretation limiter_pool: slot_pool "try_acquire m" "release_token m'" held_tokens
    "\<lambda>l. nat (lim_limit l)" limiter_inv for m m'
proof (unfold_locales, goal_cases)
  case (1 l) then show ?case by (rule try_acquire_inv)
next
  case (2 l k) then show ?case by (rule release_inv)
next
  case (3 l) show ?case by (simp add: try_acquire_fields)
next
  case (4 k l) show ?case by (simp add: release_fields)
next
  case (5 l k l') then show ?case using held_try_acquire by blast
next
  case (6 l l') then show ?case using try_acquire_fields(3) [of m l l'] by (auto simp: limiter_inv_def)
next
  case (7 l k) show ?case by simp
next
  case (8 l) then show ?case by (auto simp: limiter_inv_def)
qed

text \<open>Threads interleave as sequences of these events.\<close>

datatype lim_event = TryAcquire bool | Release bool nat

fun limiter_step :: "limiter \<Rightarrow> lim_event \<Rightarrow> limiter" where
  "limiter_step l (TryAcquire m) = snd (try_acquire m l)"
| "limiter_step l (Release m k) = release_token m k l"

text \<open>While every metrics call succeeds, the gauge moves with the active count.\<close>

definition gauge_tracks :: "int \<Rightarrow> limiter \<Rightarrow> bool" where
  "gauge_tracks base l \<longleftrightarrow> limiter_inv l \<and> lim_gauge l = base + lim_active l"

lemma gauge_acquire: "gauge_tracks b l \<Longrightarrow> gauge_tracks b (snd (try_acquire True l))"
  using try_acquire_inv [of l True]
  by (auto simp: gauge_tracks_def try_acquire_def Let_def split: if_splits)

lemma gauge_release: "gauge_tracks b l \<Longrightarrow> gauge_tracks b (release_token True k l)"
  using release_inv [of l True k] release_fields(2) [of l True k]
  by (auto simp: gauge_tracks_def release_token_def Let_def held_tokens_def limiter_inv_def card_gt_0_iff)

interpretation limiter_run: fold_invariant limiter_step limiter_inv
proof
  show "limiter_inv l \<Longrightarrow> limiter_inv (limiter_step l e)" for l e
    by (cases e) (simp_all add: try_acquire_inv release_inv)
qed

lemma limiter_run_limit: "lim_limit (foldl limiter_step l es) = lim_limit l"
proof (induction es arbitrary: l)
  case (Cons e es)
  then show ?case by (cases e) (simp_all add: try_acquire_fields release_fields)
qed simp

fun metrics_fine :: "lim_event \<Rightarrow> bool" where
  "metrics_fine (TryAcquire m) = m"
| "metrics_fine (Release m k) = m"

lemma limiter_run_gauge:
  "list_all metrics_fine es \<Longrightarrow> gauge_tracks b l \<Longrightarrow> gauge_tracks b (foldl limiter_step l es)"
proof (induction es arbitrary: l)
  case (Cons e es)
  then show ?case by (cases e) (auto intro: gauge_acquire gauge_release)
qed simp

lemma parse_positive_int_parse_int:
  "parse_positive_int lbl v = Inr n \<Longrightarrow> \<exists>m. parse_int lbl v = Inr m"
  by (cases v) (auto simp: parse_int_def parse_positive_int_def split: sum.splits)

section \<open>Properties\<close>

text \<open>C1: the admission gate. In every interleaving of acquires and releases (double releases
  and failing metrics calls included) that starts from a fresh limiter, the active count is
  the number of tokens handed out and not yet released, lies between 0 and the limit, a
  further acquire succeeds exactly when it is below the limit, and with working metrics the
  gauge equals the count.\<close>

theorem limiter_accounting:
  assumes "new_limiter g n = Inr l0" and "l = foldl limiter_step l0 es"
  shows "lim_active l = int (card (held_tokens l)) \<and> 0 \<le> lim_active l \<and> lim_active l \<le> n \<and>
         (\<forall>m. fst (try_acquire m l) \<noteq> None \<longleftrightarrow> lim_active l < n) \<and>
         (list_all metrics_fine es \<longrightarrow> lim_gauge l = g + lim_active l)"
proof -
  have l0: "limiter_inv l0" "lim_limit l0 = n" "gauge_tracks g l0"
    using assms(1) new_limiter_inv [OF assms(1)]
    by (auto simp: new_limiter_def gauge_tracks_def split: if_splits)
  have inv: "limiter_inv l" and lim: "lim_limit l = n"
    using limiter_run.run_inv l0 assms(2) limiter_run_limit by auto
  moreover have "list_all metrics_fine es \<Longrightarrow> lim_gauge l = g + lim_active l"
    using limiter_run_gauge [OF _ l0(3)] assms(2) by (simp add: gauge_tracks_def)
  moreover have "fst (try_acquire m l) \<noteq> None \<longleftrightarrow> lim_active l < n" for m
    using limiter_pool.acquire_iff_free [OF inv, of m] inv lim by (auto simp: limiter_inv_def)
  ultimately show ?thesis by (simp add: limiter_inv_def)
qed

theorem limiter_accounting_witness:
  "\<exists>l. foldl limiter_step \<lparr>lim_limit = 2, lim_active = 0, lim_tokens = [], lim_gauge = 0\<rparr>
         [TryAcquire True, TryAcquire False, TryAcquire True, Release True 0, Release True 0] = l \<and>
       lim_active l = 1 \<and> 0 \<le> lim_active l \<and> lim_active l \<le> 2"
proof -
  let ?l0 = "\<lparr>lim_limit = 2, lim_active = 0, lim_tokens = [], lim_gauge = 0\<rparr>"
  let ?es = "[TryAcquire True, TryAcquire False, TryAcquire True, Release True 0, Release True 0]"
  have n: "new_limiter 0 2 = Inr ?l0" by (simp add: new_limiter_def)
  have "lim_active (foldl limiter_step ?l0 ?es) = 1"
    by (simp add: try_acquire_def release_token_def Let_def)
  then show ?thesis using limiter_accounting [OF n refl, of ?es] by simp
qed

text \<open>the HTTP admission context. With a limiter in place, entering fails with 429 exactly
  when the limiter is full and then changes no slot; a successful entry takes a fresh slot, and
  leaving after any interleaved traffic gives back that slot and only that one.\<close>

theorem acquire_http_scoped:
  assumes "adm_limiter a = Some l" and "limiter_inv l"
  shows "(fst (acquire_http_enter m a) = Inl (Http429TooMany (lim_active l) (lim_limit l))
            \<longleftrightarrow> lim_active l = lim_limit l) \<and>
         (\<forall>a' e. acquire_http_enter m a = (Inl e, a') \<longrightarrow> adm_limiter a' = Some l) \<and>
         (\<forall>k a' l' es. acquire_http_enter m a = (Inr k, a') \<and> adm_limiter a' = Some l' \<longrightarrow>
            k \<notin> held_tokens l \<and>
            (\<forall>b. adm_limiter b = Some (foldl limiter_step l' es) \<longrightarrow>
               map_option held_tokens (adm_limiter (acquire_http_exit m' k b))
                 = Some (held_tokens (foldl limiter_step l' es) - {k})))"
proof -
  have full: "fst (try_acquire m l) = None \<longleftrightarrow> lim_active l = lim_limit l"
    using limiter_pool.acquire_iff_free [OF assms(2), of m] assms(2) by (auto simp: limiter_inv_def)
  show ?thesis
  proof (cases "try_acquire m l")
    case (Pair r l1)
    show ?thesis
    proof (cases r)
      case None
      with Pair full assms try_acquire_fields(3) [of m l l1] show ?thesis
        by (auto simp: acquire_http_enter_def)
    next
      case (Some k)
      with Pair full assms held_try_acquire [of m l k l1] show ?thesis
        by (auto simp: acquire_http_enter_def acquire_http_exit_def)
    qed
  qed
qed

theorem acquire_http_scoped_witness:
  "fst (acquire_http_enter True
     \<lparr>adm_limiter = Some \<lparr>lim_limit = 1, lim_active = 0, lim_tokens = [], lim_gauge = 0\<rparr>,
      adm_gauge = 0, adm_rejected_http = 0, adm_rejected_ws = 0\<rparr>) = Inr 0 \<and>
   fst (acquire_http_enter True
     \<lparr>adm_limiter = Some \<lparr>lim_limit = 1, lim_active = 0, lim_tokens = [], lim_gauge = 0\<rparr>,
      adm_gauge = 0, adm_rejected_http = 0, adm_rejected_ws = 0\<rparr>) \<noteq> Inl (Http429TooMany 0 1)"
proof -
  let ?l = "\<lparr>lim_limit = 1, lim_active = 0, lim_tokens = [], lim_gauge = 0\<rparr>"
  let ?a = "\<lparr>adm_limiter = Some ?l, adm_gauge = 0, adm_rejected_http = 0, adm_rejected_ws = 0\<rparr>"
  have h: "adm_limiter ?a = Some ?l" "limiter_inv ?l"
    by (simp_all add: limiter_inv_def held_tokens_def)
  have "fst (acquire_http_enter True ?a) = Inr 0"
    by (simp add: acquire_http_enter_def try_acquire_def Let_def)
  with acquire_http_scoped [OF h, of True] show ?thesis by simp
qed

text \<open>the limit the server starts with. Whenever the settings parse and every backend
  declares at least one slot, \<open>init_limiter\<close> installs an empty limiter with a positive limit;
  the resolver always returns a ceiling, so the target-table fallback in \<open>resolve_limit\<close> is
  never taken.\<close>

theorem init_limiter_succeeds:
  assumes "resolve w ex env env p None [] = Inr r" and "wf_world w"
  shows "\<exists>n l. session_ceiling r = Some n \<and> resolve_limit w ex env p = Inr n \<and>
               init_limiter w ex env p a = Inr (a\<lparr>adm_limiter := Some l\<rparr>) \<and>
               lim_limit l = n \<and> held_tokens l = {} \<and> limiter_inv l"
proof -
  from assms(1) obtain a0 t d c src es ps w1 where caps: "resolve_caps w p = (a0, t)"
    and d: "diarization_capability ex p env = d"
    and ceil: "resolve_ceiling env p (cross_modal_overlap (case None of None \<Rightarrow> p_policy p | Some q \<Rightarrow> Some q)) a0 t d = (c, src)"
    and es: "parse_positive_int ''OVS_MAX_CONCURRENT_SESSIONS'' (env_val env ''OVS_MAX_CONCURRENT_SESSIONS'') = Inr es"
    and ps: "parse_positive_int ''profile.max_concurrent_sessions'' (p_max_sessions p) = Inr ps"
    and sess: "resolve_sessions env p c src es ps = (session_ceiling r, w1)"
    by (rule resolve_InrE)
  have "\<forall>m. c = Some m \<longrightarrow> 1 \<le> m"
    using resolve_ceiling_ge1 ceil wf_resolve_caps [OF assms(2) caps] wf_diarization d by metis
  then obtain n where n: "session_ceiling r = Some n" "1 \<le> n"
    using resolve_sessions_Some [of env p c src es ps] sess parse_positive_int_ge1 es ps
    by (metis fst_conv)
  obtain e where e: "parse_int ''OVS_MAX_CONCURRENT_SESSIONS'' (env_val env ''OVS_MAX_CONCURRENT_SESSIONS'') = Inr e"
    using es parse_positive_int_parse_int by blast
  obtain v where v: "parse_int ''profile.max_concurrent_sessions'' (p_max_sessions p) = Inr v"
    using ps parse_positive_int_parse_int by blast
  have lim: "resolve_limit w ex env p = Inr n"
    using assms(1) n e v by (simp add: resolve_limit_def)
  obtain l where l: "new_limiter (adm_gauge a) n = Inr l" "lim_limit l = n" "held_tokens l = {}"
    using n(2) by (auto simp: new_limiter_def held_tokens_def)
  then show ?thesis
    using lim n new_limiter_inv by (auto simp: init_limiter_def)
qed

theorem init_limiter_succeeds_witness:
  "\<exists>n. resolve_limit demo_world (\<lambda>_. False) (\<lambda>_. None) demo_profile = Inr n"
proof -
  obtain r where r: "resolve demo_world (\<lambda>_. False) (\<lambda>_. None) (\<lambda>_. None) demo_profile None [] = Inr r"
    using demo_resolves by blast
  show ?thesis
    using init_limiter_succeeds [OF r wf_demo_world] by blast
qed

end
