(* ===== verification/InferGate.thy ===== *)
theory InferGate
  imports Prelude
begin

text \<open>
  The ASR inference gate (\<open>server/core/asr_infer_gate.py\<close>): at most \<open>concurrency\<close> tasks are
  inside the ASR runtime, the others wait in a bounded FIFO queue.  A task number stands
  for one call of \<open>acquire()\<close>; its future is pending, granted (a result was set: the task
  owns a permit) or cancelled.  The event loop runs a task only between its suspension
  points, so the steps are: the entry of \<open>acquire\<close> up to the \<open>await\<close>; the resumption after
  a grant; a cancellation request arriving at a suspended task; the resumption of a
  cancelled task; the exit of the critical section.  The wait times only feed a
  statistic and are not modelled.
\<close>

section \<open>State and operations\<close>

datatype fut_state = FPending | FGranted | FCancelled

datatype task_phase = PIdle | PWaiting | PCancelling | PHolding | PDone | PRejected

record gate =
  g_concurrency :: nat
  g_max_waiting :: "nat option"
  g_running :: int
  g_waiters :: "nat list"
  g_fut :: "nat \<Rightarrow> fut_state"
  g_phase :: "nat \<Rightarrow> task_phase"
  g_total_acquired :: nat
  g_total_rejected :: nat
  g_max_observed_queue :: nat

datatype gate_error = ConcurrencyTooSmall int | MaxWaitingNegative int

definition new_gate :: "int \<Rightarrow> int option \<Rightarrow> gate_error + gate" where
  "new_gate concurrency max_waiting =
     (if concurrency < 1 then Inl (ConcurrencyTooSmall concurrency)
      else if (case max_waiting of None \<Rightarrow> False | Some m \<Rightarrow> m < 0)
        then Inl (MaxWaitingNegative (the max_waiting))
      else Inr \<lparr>g_concurrency = nat concurrency, g_max_waiting = map_option nat max_waiting,
                g_running = 0, g_waiters = [], g_fut = (\<lambda>_. FPending), g_phase = (\<lambda>_. PIdle),
                g_total_acquired = 0, g_total_rejected = 0, g_max_observed_queue = 0\<rparr>)"

text \<open>The process singleton: \<open>None\<close> until \<open>init\<close> or the first \<open>get\<close>.\<close>

definition init_gate :: "int \<Rightarrow> int option \<Rightarrow> gate option \<Rightarrow> gate_error + gate option" where
  "init_gate concurrency max_waiting s =
     (case new_gate concurrency max_waiting of Inl e \<Rightarrow> Inl e | Inr g \<Rightarrow> Inr (Some g))"

definition get_gate :: "gate option \<Rightarrow> gate_error + (gate \<times> gate option)" where
  "get_gate s =
     (case s of Some g \<Rightarrow> Inr (g, s)
      | None \<Rightarrow> (case new_gate 1 None of Inl e \<Rightarrow> Inl e | Inr g \<Rightarrow> Inr (g, Some g)))"

definition reset_gate :: "gate option \<Rightarrow> gate option" where
  "reset_gate s = None"

record gate_snapshot =
  gs_concurrency :: nat
  gs_max_waiting :: "nat option"
  gs_running :: int
  gs_waiting :: nat
  gs_total_acquired :: nat
  gs_total_rejected :: nat
  gs_max_observed_queue :: nat

definition gate_snapshot_of :: "gate \<Rightarrow> gate_snapshot" where
  "gate_snapshot_of g =
     \<lparr>gs_concurrency = g_concurrency g, gs_max_waiting = g_max_waiting g,
      gs_running = g_running g, gs_waiting = length (g_waiters g),
      gs_total_acquired = g_total_acquired g, gs_total_rejected = g_total_rejected g,
      gs_max_observed_queue = g_max_observed_queue g\<rparr>"

text \<open>The loop of \<open>_wake_next\<close>: pop waiters until one is not done.\<close>

fun pop_live :: "(nat \<Rightarrow> fut_state) \<Rightarrow> nat list \<Rightarrow> (nat \<times> nat list) option" where
  "pop_live f [] = None"
| "pop_live f (t # ws) = (if f t = FPending then Some (t, ws) else pop_live f ws)"

definition wake_next :: "gate \<Rightarrow> gate" where
  "wake_next g =
     (case pop_live (g_fut g) (g_waiters g) of
        Some (t, ws) \<Rightarrow> g\<lparr>g_waiters := ws, g_fut := (g_fut g)(t := FGranted)\<rparr>
      | None \<Rightarrow> g\<lparr>g_waiters := [], g_running := g_running g - 1\<rparr>)"

definition acquire_start :: "nat \<Rightarrow> gate \<Rightarrow> gate" where
  "acquire_start t g =
     (if g_running g < int (g_concurrency g) then
        g\<lparr>g_running := g_running g + 1, g_phase := (g_phase g)(t := PHolding),
          g_total_acquired := Suc (g_total_acquired g)\<rparr>
      else if (case g_max_waiting g of None \<Rightarrow> False | Some m \<Rightarrow> length (g_waiters g) \<ge> m) then
        g\<lparr>g_total_rejected := Suc (g_total_rejected g), g_phase := (g_phase g)(t := PRejected)\<rparr>
      else
        g\<lparr>g_waiters := g_waiters g @ [t], g_fut := (g_fut g)(t := FPending),
          g_phase := (g_phase g)(t := PWaiting),
          g_max_observed_queue := max (g_max_observed_queue g) (Suc (length (g_waiters g)))\<rparr>)"

definition resume_granted :: "nat \<Rightarrow> gate \<Rightarrow> gate" where
  "resume_granted t g =
     g\<lparr>g_phase := (g_phase g)(t := PHolding), g_total_acquired := Suc (g_total_acquired g)\<rparr>"

text \<open>\<open>task.cancel()\<close> on the suspended task: a pending future is cancelled with it; a future
  that already holds its result keeps it, and the task will resume with the cancellation.\<close>

definition cancel_waiting :: "nat \<Rightarrow> gate \<Rightarrow> gate" where
  "cancel_waiting t g =
     g\<lparr>g_phase := (g_phase g)(t := PCancelling),
       g_fut := (if g_fut g t = FPending then (g_fut g)(t := FCancelled) else g_fut g)\<rparr>"

text \<open>The \<open>except CancelledError\<close> branch.\<close>

definition resume_cancelled :: "nat \<Rightarrow> gate \<Rightarrow> gate" where
  "resume_cancelled t g =
     (let g1 = (if g_fut g t = FGranted then wake_next g
                else g\<lparr>g_waiters := remove1 t (g_waiters g)\<rparr>)
      in g1\<lparr>g_phase := (g_phase g1)(t := PDone)\<rparr>)"

definition release_permit :: "nat \<Rightarrow> gate \<Rightarrow> gate" where
  "release_permit t g = wake_next (g\<lparr>g_phase := (g_phase g)(t := PDone)\<rparr>)"

section \<open>Interleavings\<close>

datatype gate_event = Start nat | Granted nat | CancelReq nat | CancelResume nat | Exit nat

inductive gate_step :: "gate \<Rightarrow> gate_event \<Rightarrow> gate \<Rightarrow> bool" where
  start: "g_phase g t = PIdle \<Longrightarrow> gate_step g (Start t) (acquire_start t g)"
| granted: "g_phase g t = PWaiting \<Longrightarrow> g_fut g t = FGranted \<Longrightarrow>
            gate_step g (Granted t) (resume_granted t g)"
| cancel_req: "g_phase g t = PWaiting \<Longrightarrow> gate_step g (CancelReq t) (cancel_waiting t g)"
| cancel_resume: "g_phase g t = PCancelling \<Longrightarrow> gate_step g (CancelResume t) (resume_cancelled t g)"
| exit: "g_phase g t = PHolding \<Longrightarrow> gate_step g (Exit t) (release_permit t g)"

inductive_cases gate_step_StartE: "gate_step g (Start t) g'"
inductive_cases gate_step_ExitE: "gate_step g (Exit t) g'"

section \<open>The invariant\<close>

text \<open>The owners of a permit: tasks in the critical section, and tasks whose future has been
  granted and that have not resumed yet.\<close>

definition owners :: "gate \<Rightarrow> nat set" where
  "owners g = {t. g_phase g t = PHolding \<or>
                  ((g_phase g t = PWaiting \<or> g_phase g t = PCancelling) \<and> g_fut g t = FGranted)}"

definition waiters_ok :: "gate \<Rightarrow> bool" where
  "waiters_ok g \<longleftrightarrow> distinct (g_waiters g) \<and>
     (\<forall>t\<in>set (g_waiters g). (g_phase g t = PWaiting \<and> g_fut g t = FPending) \<or>
                              (g_phase g t = PCancelling \<and> g_fut g t = FCancelled)) \<and>
     (\<forall>t. g_phase g t = PWaiting \<and> g_fut g t = FPending \<longrightarrow> t \<in> set (g_waiters g)) \<and>
     (\<forall>t. g_phase g t = PWaiting \<longrightarrow> g_fut g t \<noteq> FCancelled) \<and>
     (\<forall>t. g_phase g t = PCancelling \<longrightarrow> g_fut g t \<noteq> FPending)"

definition gate_inv :: "gate \<Rightarrow> bool" where
  "gate_inv g \<longleftrightarrow>
     1 \<le> g_concurrency g \<and> finite (owners g) \<and> g_running g = int (card (owners g)) \<and>
     card (owners g) \<le> g_concurrency g \<and> waiters_ok g \<and>
     (g_waiters g \<noteq> [] \<longrightarrow> card (owners g) = g_concurrency g) \<and>
     (\<forall>m. g_max_waiting g = Some m \<longrightarrow> length (g_waiters g) \<le> m)"

lemma pop_live_Some:
  "pop_live f ws = Some (t, ws') \<Longrightarrow>
   \<exists>pre. ws = pre @ t # ws' \<and> (\<forall>x\<in>set pre. f x \<noteq> FPending) \<and> f t = FPending"
proof (induction ws)
  case (Cons w ws)
  show ?case
  proof (cases "f w = FPending")
    case True
    with Cons.prems have "w # ws = [] @ t # ws' \<and> (\<forall>x\<in>set []. f x \<noteq> FPending) \<and> f t = FPending"
      by simp
    then show ?thesis by blast
  next
    case False
    from Cons.prems False have "pop_live f ws = Some (t, ws')" by simp
    from Cons.IH [OF this] obtain pre where
      pre: "ws = pre @ t # ws'" "\<forall>x\<in>set pre. f x \<noteq> FPending" "f t = FPending"
      by blast
    then have "w # ws = (w # pre) @ t # ws' \<and> (\<forall>x\<in>set (w # pre). f x \<noteq> FPending) \<and> f t = FPending"
      using False by simp
    then show ?thesis by blast
  qed
qed simp

lemma pop_live_None: "pop_live f ws = None \<longleftrightarrow> (\<forall>x\<in>set ws. f x \<noteq> FPending)"
  by (induction ws) auto

text \<open>Giving a permit back.  The caller has just stopped being an owner (\<open>t\<close> is done), so the
  running count is one above the owners; \<open>wake_next\<close> restores the invariant.\<close>

definition permit_free :: "gate \<Rightarrow> bool" where
  "permit_free g \<longleftrightarrow>
     1 \<le> g_concurrency g \<and> finite (owners g) \<and> g_running g = int (card (owners g)) + 1 \<and>
     card (owners g) + 1 \<le> g_concurrency g \<and> waiters_ok g \<and>
     (g_waiters g \<noteq> [] \<longrightarrow> card (owners g) + 1 = g_concurrency g) \<and>
     (\<forall>m. g_max_waiting g = Some m \<longrightarrow> length (g_waiters g) \<le> m)"

lemma wake_next_inv:
  assumes "permit_free g"
  shows "gate_inv (wake_next g)"
proof (cases "pop_live (g_fut g) (g_waiters g)")
  case None
  then have np: "\<forall>x\<in>set (g_waiters g). g_fut g x \<noteq> FPending" by (simp add: pop_live_None)
  have wk: "wake_next g = g\<lparr>g_waiters := [], g_running := g_running g - 1\<rparr>"
    using None by (simp add: wake_next_def)
  have ok: "waiters_ok g" using assms by (simp add: permit_free_def)
  then have "\<forall>t. \<not> (g_phase g t = PWaiting \<and> g_fut g t = FPending)"
    using np unfolding waiters_ok_def by blast
  then have "waiters_ok (wake_next g)" using ok by (simp add: waiters_ok_def wk)
  moreover have "owners (wake_next g) = owners g" by (simp add: owners_def wk)
  ultimately show ?thesis
    using assms by (simp add: permit_free_def gate_inv_def wk)
next
  case (Some p)
  obtain t ws where p: "p = (t, ws)" by fastforce
  from Some p pop_live_Some obtain pre where
    ws: "g_waiters g = pre @ t # ws" "\<forall>x\<in>set pre. g_fut g x \<noteq> FPending" "g_fut g t = FPending"
    by metis
  have ph: "g_phase g t = PWaiting" and notown: "t \<notin> owners g"
    using assms ws by (auto simp: permit_free_def waiters_ok_def owners_def)
  have own: "owners (wake_next g) = insert t (owners g)"
    using Some p ph by (auto simp: wake_next_def owners_def)
  have wk: "wake_next g = g\<lparr>g_waiters := ws, g_fut := (g_fut g)(t := FGranted)\<rparr>"
    using Some p by (simp add: wake_next_def)
  have ok: "waiters_ok g" using assms by (simp add: permit_free_def)
  have pending: "x \<in> set ws" if "g_phase g x = PWaiting" "g_fut g x = FPending" "x \<noteq> t" for x
  proof -
    have "x \<in> set (pre @ t # ws)" using ok that ws(1) unfolding waiters_ok_def by metis
    with ws(2) that show ?thesis by auto
  qed
  have "waiters_ok (wake_next g)"
    unfolding waiters_ok_def wk using ok pending ws(1) ph
    by (intro conjI) (auto simp: waiters_ok_def)
  moreover have "card (owners (wake_next g)) = Suc (card (owners g))" "finite (owners (wake_next g))"
    using own notown assms by (simp_all add: permit_free_def)
  ultimately show ?thesis
    using assms ws(1) wk by (auto simp: permit_free_def gate_inv_def)
qed

lemma acquire_start_inv:
  assumes "gate_inv g" and "g_phase g t = PIdle"
  shows "gate_inv (acquire_start t g)"
proof -
  have nt: "t \<notin> owners g" "t \<notin> set (g_waiters g)"
    using assms by (auto simp: gate_inv_def owners_def waiters_ok_def)
  consider (run) "g_running g < int (g_concurrency g)"
    | (full) "\<not> g_running g < int (g_concurrency g)"
        "case g_max_waiting g of None \<Rightarrow> False | Some m \<Rightarrow> length (g_waiters g) \<ge> m"
    | (queue) "\<not> g_running g < int (g_concurrency g)"
        "\<not> (case g_max_waiting g of None \<Rightarrow> False | Some m \<Rightarrow> length (g_waiters g) \<ge> m)"
    by blast
  then show ?thesis
  proof cases
    case run
    then have "owners (acquire_start t g) = insert t (owners g)"
      by (auto simp: acquire_start_def owners_def)
    moreover have "waiters_ok (acquire_start t g)" "g_waiters g = []"
      using run assms nt by (auto simp: acquire_start_def waiters_ok_def gate_inv_def)
    ultimately show ?thesis
      using run assms nt by (auto simp: acquire_start_def gate_inv_def)
  next
    case full
    then have "owners (acquire_start t g) = owners g"
      using nt by (auto simp: acquire_start_def owners_def)
    moreover have "waiters_ok (acquire_start t g)"
      using full assms nt by (auto simp: acquire_start_def waiters_ok_def gate_inv_def)
    ultimately show ?thesis
      using full assms by (auto simp: acquire_start_def gate_inv_def)
  next
    case queue
    then have "owners (acquire_start t g) = owners g"
      using nt by (auto simp: acquire_start_def owners_def)
    moreover have "waiters_ok (acquire_start t g)"
      using queue assms nt by (auto simp: acquire_start_def waiters_ok_def gate_inv_def)
    ultimately show ?thesis
      using queue assms by (auto simp: acquire_start_def gate_inv_def split: option.splits)
  qed
qed

lemma release_permit_inv:
  assumes "gate_inv g" and "g_phase g t = PHolding"
  shows "gate_inv (release_permit t g)"
proof -
  let ?g = "g\<lparr>g_phase := (g_phase g)(t := PDone)\<rparr>"
  have t: "t \<in> owners g" and own: "owners ?g = owners g - {t}"
    using assms(2) by (auto simp: owners_def)
  have "Suc (card (owners ?g)) = card (owners g)"
    using t assms(1) own by (simp only: own) (intro card_Suc_Diff1, auto simp: gate_inv_def)
  moreover have "waiters_ok ?g"
    using assms by (auto simp: gate_inv_def waiters_ok_def)
  ultimately have "permit_free ?g"
    using assms(1) own by (auto simp: gate_inv_def permit_free_def)
  then show ?thesis unfolding release_permit_def by (rule wake_next_inv)
qed

lemma wake_next_phase [simp]: "g_phase (wake_next g) = g_phase g"
  by (simp add: wake_next_def split: option.splits prod.splits)

lemma wake_next_phase_upd:
  "t \<notin> set (g_waiters g) \<Longrightarrow>
   (wake_next g)\<lparr>g_phase := (g_phase g)(t := p)\<rparr> = wake_next (g\<lparr>g_phase := (g_phase g)(t := p)\<rparr>)"
  by (simp add: wake_next_def split: option.splits prod.splits)

lemma resume_cancelled_inv:
  assumes "gate_inv g" and "g_phase g t = PCancelling"
  shows "gate_inv (resume_cancelled t g)"
proof (cases "g_fut g t = FGranted")
  case True
  let ?g = "g\<lparr>g_phase := (g_phase g)(t := PDone)\<rparr>"
  have t: "t \<in> owners g" and own: "owners ?g = owners g - {t}" and nw: "t \<notin> set (g_waiters g)"
    using assms True by (auto simp: owners_def gate_inv_def waiters_ok_def)
  have "Suc (card (owners ?g)) = card (owners g)"
    using t assms(1) own by (simp only: own) (intro card_Suc_Diff1, auto simp: gate_inv_def)
  moreover have "waiters_ok ?g"
    using assms nw by (auto simp: gate_inv_def waiters_ok_def)
  ultimately have "permit_free ?g"
    using assms(1) own by (auto simp: gate_inv_def permit_free_def)
  then have "gate_inv (wake_next ?g)" by (rule wake_next_inv)
  then show ?thesis
    using True wake_next_phase_upd [OF nw, of PDone] by (simp add: resume_cancelled_def Let_def)
next
  case False
  then have "owners (resume_cancelled t g) = owners g"
    using assms by (auto simp: resume_cancelled_def owners_def Let_def)
  moreover have "waiters_ok (resume_cancelled t g)"
    using assms False by (auto simp: resume_cancelled_def gate_inv_def waiters_ok_def Let_def)
  moreover have "g_waiters (resume_cancelled t g) = remove1 t (g_waiters g)"
      "g_running (resume_cancelled t g) = g_running g"
      "g_concurrency (resume_cancelled t g) = g_concurrency g"
      "g_max_waiting (resume_cancelled t g) = g_max_waiting g"
    using False by (simp_all add: resume_cancelled_def Let_def)
  moreover have "length (remove1 t (g_waiters g)) \<le> length (g_waiters g)"
    by (simp add: length_remove1)
  moreover have "remove1 t (g_waiters g) \<noteq> [] \<Longrightarrow> g_waiters g \<noteq> []"
    by auto
  ultimately show ?thesis
    using assms(1) unfolding gate_inv_def by (metis order.trans)
qed

lemma gate_step_inv: "gate_step g e g' \<Longrightarrow> gate_inv g \<Longrightarrow> gate_inv g'"
proof (induction rule: gate_step.induct)
  case (start g t) then show ?case by (simp add: acquire_start_inv)
next
  case (granted g t)
  then have "owners (resume_granted t g) = owners g" "waiters_ok (resume_granted t g)"
    by (auto simp: resume_granted_def owners_def waiters_ok_def gate_inv_def)
  with granted show ?case by (auto simp: resume_granted_def gate_inv_def)
next
  case (cancel_req g t)
  then have "owners (cancel_waiting t g) = owners g" "waiters_ok (cancel_waiting t g)"
    by (auto simp: cancel_waiting_def owners_def waiters_ok_def gate_inv_def)
  with cancel_req show ?case by (auto simp: cancel_waiting_def gate_inv_def)
next
  case (cancel_resume g t) then show ?case by (simp add: resume_cancelled_inv)
next
  case (exit g t) then show ?case by (simp add: release_permit_inv)
qed

interpretation gate_run: rel_invariant gate_step gate_inv
  by unfold_locales (rule gate_step_inv)

lemma new_gate_inv: "new_gate c m = Inr g \<Longrightarrow> gate_inv g"
  by (auto simp: new_gate_def gate_inv_def owners_def waiters_ok_def split: if_splits)

lemma gate_step_conf:
  "gate_step g e g' \<Longrightarrow> g_concurrency g' = g_concurrency g \<and> g_max_waiting g' = g_max_waiting g"
  by (induction rule: gate_step.induct)
    (auto simp: acquire_start_def resume_granted_def cancel_waiting_def resume_cancelled_def
      release_permit_def wake_next_def Let_def split: option.splits)

lemma gate_conf_run:
  "steps_rel gate_step g es g' \<Longrightarrow>
   g_concurrency g' = g_concurrency g \<and> g_max_waiting g' = g_max_waiting g"
  by (induction rule: steps_rel.induct) (auto dest: gate_step_conf)

section \<open>First in, first out\<close>

fun before :: "'a \<Rightarrow> 'a \<Rightarrow> 'a list \<Rightarrow> bool" where
  "before a b [] = False"
| "before a b (x # xs) = (if x = a then b \<in> set xs else before a b xs)"

lemma before_in_set: "before a b xs \<Longrightarrow> a \<in> set xs \<and> b \<in> set xs"
  by (induction xs) (auto split: if_splits)

lemma before_append: "before a b xs \<Longrightarrow> before a b (xs @ ys)"
  by (induction xs) (auto split: if_splits)

lemma before_remove1: "t \<noteq> a \<Longrightarrow> t \<noteq> b \<Longrightarrow> before a b xs \<Longrightarrow> before a b (remove1 t xs)"
  by (induction xs) (auto split: if_splits)

lemma before_pop_live:
  "before a b xs \<Longrightarrow> f a = FPending \<Longrightarrow> pop_live f xs = Some (t, ws) \<Longrightarrow> t = a \<or> (t \<noteq> b \<and> before a b ws) \<or> \<not> distinct xs"
  by (induction xs) (auto split: if_splits dest: before_in_set)

text \<open>\<open>a\<close> was queued before \<open>b\<close>: while \<open>a\<close> is still pending, \<open>b\<close> is behind it or gone.\<close>

definition fifo_inv :: "nat \<Rightarrow> nat \<Rightarrow> gate \<Rightarrow> bool" where
  "fifo_inv a b g \<longleftrightarrow> gate_inv g \<and> g_phase g a \<noteq> PIdle \<and> g_phase g b \<noteq> PIdle \<and>
     (g_fut g b = FCancelled \<or> g_fut g a \<noteq> FPending \<or>
      (g_fut g b = FPending \<and> before a b (g_waiters g)))"

lemma wake_next_fifo:
  assumes "g_fut g b = FCancelled \<or> g_fut g a \<noteq> FPending \<or>
             (g_fut g b = FPending \<and> before a b (g_waiters g))"
    and d: "distinct (g_waiters g)"
  shows "g_fut (wake_next g) b = FCancelled \<or> g_fut (wake_next g) a \<noteq> FPending \<or>
         (g_fut (wake_next g) b = FPending \<and> before a b (g_waiters (wake_next g)))"
proof (cases "pop_live (g_fut g) (g_waiters g)")
  case None
  then have "\<forall>x\<in>set (g_waiters g). g_fut g x \<noteq> FPending" by (simp add: pop_live_None)
  then show ?thesis using assms None before_in_set by (fastforce simp: wake_next_def)
next
  case (Some p)
  obtain t ws where p: "p = (t, ws)" by fastforce
  have "g_fut g t = FPending" using Some p pop_live_Some by metis
  then show ?thesis
    using assms Some p before_pop_live [of a b "g_waiters g" "g_fut g" t ws]
    by (auto simp: wake_next_def)
qed

lemma gate_step_fifo:
  assumes "gate_step g e g'" and "fifo_inv a b g"
  shows "fifo_inv a b g'"
proof -
  have inv: "gate_inv g" and ph: "g_phase g a \<noteq> PIdle" "g_phase g b \<noteq> PIdle"
    and f: "g_fut g b = FCancelled \<or> g_fut g a \<noteq> FPending \<or>
            (g_fut g b = FPending \<and> before a b (g_waiters g))"
    using assms(2) by (simp_all add: fifo_inv_def)
  have inv': "gate_inv g'" by (rule gate_step_inv [OF assms(1) inv])
  have d: "distinct (g_waiters g)" using inv by (simp add: gate_inv_def waiters_ok_def)
  from assms(1) show ?thesis
  proof cases
    case (start t)
    then have "t \<noteq> a" "t \<noteq> b" using ph by auto
    then show ?thesis using start ph f inv' before_append [of a b "g_waiters g" "[t]"]
      by (auto simp: fifo_inv_def acquire_start_def)
  next
    case (granted t)
    then show ?thesis using ph f inv' by (auto simp: fifo_inv_def resume_granted_def)
  next
    case (cancel_req t)
    then show ?thesis using ph f inv' by (auto simp: fifo_inv_def cancel_waiting_def)
  next
    case (cancel_resume t)
    show ?thesis
    proof (cases "g_fut g t = FGranted")
      case True
      then show ?thesis using cancel_resume ph inv' wake_next_fifo [OF f d]
        by (auto simp: fifo_inv_def resume_cancelled_def Let_def)
    next
      case False
      have "g_fut g t \<noteq> FPending" using cancel_resume inv by (auto simp: gate_inv_def waiters_ok_def)
      then have "before a b (g_waiters g) \<Longrightarrow> g_fut g a = FPending \<Longrightarrow> g_fut g b = FPending \<Longrightarrow>
          before a b (remove1 t (g_waiters g))"
        using before_remove1 [of t a b "g_waiters g"] by auto
      then show ?thesis using cancel_resume ph f inv' False
        by (auto simp: fifo_inv_def resume_cancelled_def Let_def)
    qed
  next
    case (exit t)
    then show ?thesis
      using ph inv' wake_next_fifo [of "g\<lparr>g_phase := (g_phase g)(t := PDone)\<rparr>" b a] f d
      by (auto simp: fifo_inv_def release_permit_def)
  qed
qed

interpretation gate_fifo: rel_invariant gate_step "fifo_inv a b" for a b
  by unfold_locales (rule gate_step_fifo)

section \<open>Properties\<close>

text \<open>C2: In every interleaving of entries, grants, cancellations and exits, starting from a fresh
  gate: the tasks inside the ASR runtime never exceed the configured width, the running count is
  exactly the number of permits owned (none is lost by a cancellation, none is created), the
  queue never exceeds its bound, and nobody waits while a permit is idle.\<close>
theorem gate_safe:
  assumes "new_gate c m = Inr g0" and "steps_rel gate_step g0 es g"
  shows "finite {t. g_phase g t = PHolding} \<and>
         int (card {t. g_phase g t = PHolding}) \<le> c \<and>
         g_running g = int (card (owners g)) \<and> g_running g \<le> c \<and>
         (\<forall>k. m = Some k \<longrightarrow> int (length (g_waiters g)) \<le> k) \<and>
         (g_waiters g \<noteq> [] \<longrightarrow> g_running g = c)"
proof -
  have inv: "gate_inv g"
    using gate_run.rel_run_inv [OF assms(2)] new_gate_inv [OF assms(1)] by blast
  have conf: "int (g_concurrency g) = c \<and> g_max_waiting g = map_option nat m \<and> (\<forall>k. m = Some k \<longrightarrow> 0 \<le> k)"
    using gate_conf_run [OF assms(2)] assms(1) by (auto simp: new_gate_def split: if_splits)
  have sub: "{t. g_phase g t = PHolding} \<subseteq> owners g" by (auto simp: owners_def)
  with inv have "card {t. g_phase g t = PHolding} \<le> card (owners g)" "finite {t. g_phase g t = PHolding}"
    by (auto simp: gate_inv_def card_mono finite_subset)
  with inv conf show ?thesis by (auto simp: gate_inv_def)
qed

theorem gate_safe_witness:
  "(\<exists>g0 g. new_gate 1 (Some 1) = Inr g0 \<and> steps_rel gate_step g0 [Start 0, Start 1] g \<and>
     g_waiters g = [1] \<and> g_running g = 1)"
proof -
  define g0 where "g0 = projr (new_gate 1 (Some 1))"
  define g where "g = acquire_start 1 (acquire_start 0 g0)"
  have new: "new_gate 1 (Some 1) = Inr g0" by (simp add: g0_def new_gate_def)
  have idle: "g_phase g0 0 = PIdle" "g_phase (acquire_start 0 g0) 1 = PIdle"
    by (simp_all add: g0_def new_gate_def acquire_start_def)
  have run: "steps_rel gate_step g0 [Start 0, Start 1] g"
    unfolding g_def by (rule steps_rel.intros gate_step.start idle)+
  have w: "g_waiters g = [1]" by (simp add: g_def g0_def new_gate_def acquire_start_def)
  from gate_safe [OF new run] w have "g_running g = 1" by simp
  with new run w show ?thesis by blast
qed

text \<open>C3: The queue is fair: once \<open>a\<close> waits ahead of \<open>b\<close>, then whatever the gate does afterwards,
  \<open>b\<close> is never given a permit while \<open>a\<close> is still waiting for one.\<close>
theorem gate_fifo_order:
  assumes "new_gate c m = Inr g0" and "steps_rel gate_step g0 es g"
    and "before a b (g_waiters g)" and "g_phase g a = PWaiting" and "g_phase g b = PWaiting"
    and "steps_rel gate_step g fs g'" and "g_fut g' b = FGranted"
  shows "g_fut g' a \<noteq> FPending"
proof -
  have inv: "gate_inv g"
    using gate_run.rel_run_inv [OF assms(2)] new_gate_inv [OF assms(1)] by blast
  then have "fifo_inv a b g"
    using assms(3-5) before_in_set [OF assms(3)]
    by (auto simp: fifo_inv_def gate_inv_def waiters_ok_def)
  then have "fifo_inv a b g'" by (rule gate_fifo.rel_run_inv [OF assms(6)])
  with assms(7) show ?thesis by (auto simp: fifo_inv_def)
qed

theorem gate_fifo_order_witness:
  "\<exists>g0 g g'. new_gate 1 None = Inr g0 \<and> steps_rel gate_step g0 [Start 9, Start 0, Start 1] g \<and>
     steps_rel gate_step g [Exit 9, Granted 0, Exit 0] g' \<and> g_fut g' 1 = FGranted \<and>
     g_fut g' 0 \<noteq> FPending"
proof -
  define g0 where "g0 = projr (new_gate 1 None)"
  define g where "g = acquire_start 1 (acquire_start 0 (acquire_start 9 g0))"
  define g' where "g' = release_permit 0 (resume_granted 0 (release_permit 9 g))"
  note defs = g0_def new_gate_def acquire_start_def
  have new: "new_gate 1 None = Inr g0" by (simp add: g0_def new_gate_def)
  have idle: "g_phase g0 9 = PIdle" "g_phase (acquire_start 9 g0) 0 = PIdle"
    "g_phase (acquire_start 0 (acquire_start 9 g0)) 1 = PIdle"
    by (simp_all add: defs)
  have run: "steps_rel gate_step g0 [Start 9, Start 0, Start 1] g"
    unfolding g_def by (rule steps_rel.intros gate_step.start idle)+
  have g: "g_waiters g = [0, 1]" "g_phase g 0 = PWaiting" "g_phase g 1 = PWaiting"
    "g_phase g 9 = PHolding"
    by (simp_all add: g_def defs)
  have ph: "g_phase (release_permit 9 g) 0 = PWaiting" "g_fut (release_permit 9 g) 0 = FGranted"
    "g_phase (resume_granted 0 (release_permit 9 g)) 0 = PHolding"
    by (simp_all add: g_def defs release_permit_def resume_granted_def wake_next_def)
  have run': "steps_rel gate_step g [Exit 9, Granted 0, Exit 0] g'"
    unfolding g'_def by (rule steps_rel.intros gate_step.exit gate_step.granted ph g)+
  have last: "g_fut g' 1 = FGranted"
    by (simp add: g'_def g_def defs release_permit_def resume_granted_def wake_next_def)
  have "before 0 1 (g_waiters g)" using g by simp
  from gate_fifo_order [OF new run this g(2,3) run' last] new run run' last
  show ?thesis
    by blast
qed

end
