(* ===== verification/BackendManager.thy ===== *)
theory BackendManager
  imports Prelude
begin

text \<open>
  The life cycle of an ASR or TTS backend (\<open>server/core/backend_manager.py\<close>): start, request
  admission, hot reload with drain and rollback.  A backend is a value of type \<open>'b\<close>; the
  factory, the preloader, the unloader and the profile loader are outside this file, so what
  each call of them does (return, or raise with a message) is given to the operation as an
  outcome record.  The coroutine \<open>reload\<close> suspends once, in the drain: its locals at that
  point are the value \<open>Draining\<close>, and \<open>_reload_lock\<close> is held exactly while it is present.
  \<open>_state_lock\<close> is never held across a suspension other than the condition wait, which
  releases it, so each critical section is one step.  Closing the WebSocket sessions acts
  on the snapshot of the handle set taken when the drain begins and is part of that step.
  Metrics are the \<open>Emit\<close> entries of the log.
\<close>

section \<open>State\<close>

datatype bstate = INIT | READY | DRAINING | RELOADING | FAILED

text \<open>A WebSocket handle: has it a socket, and a task that is not done?\<close>

record ws_handle =
  wh_id :: nat
  wh_socket :: bool
  wh_live_task :: bool

datatype 'b action =
    EmitState bstate
  | EmitReload string
  | CloseWs nat
  | CancelTask nat
  | Unload 'b
  | ApplyProfile string
  | CallFactory
  | Preload 'b

record 'b reload_locals =
  rl_old :: 'b
  rl_old_name :: "string option"
  rl_old_ref :: "string option"
  rl_ref :: "string option"
  rl_waiting :: bool

record 'b manager =
  m_name :: string
  m_state :: bstate
  m_current :: "'b option"
  m_inflight :: int
  m_requests :: "(nat \<times> 'b) list"
  m_initial_ref :: "string option"
  m_last_ref :: "string option"
  m_profile :: "string option"
  m_ws :: "ws_handle list"
  m_reload :: "'b reload_locals option"
  m_log :: "'b action list"

datatype mgr_error =
    BadName string
  | StartInState bstate
  | StartRaised string
  | BackendUnavailable bstate
  | ReloadInProgress
  | BackendNotReady bstate
  | HotReloadNotSupported
  | InvalidProfile string
  | ArtifactsMissing "string list"
  | DrainTimedOut int
  | ReloadAndRollbackFailed string string

text \<open>The status of the \<open>HTTPException\<close>; the others are a \<open>ValueError\<close> or \<open>RuntimeError\<close>.\<close>

fun mgr_http_status :: "mgr_error \<Rightarrow> nat option" where
  "mgr_http_status (BackendUnavailable _) = Some 503"
| "mgr_http_status ReloadInProgress = Some 409"
| "mgr_http_status (BackendNotReady _) = Some 409"
| "mgr_http_status HotReloadNotSupported = Some 400"
| "mgr_http_status (InvalidProfile _) = Some 400"
| "mgr_http_status (ArtifactsMissing _) = Some 400"
| "mgr_http_status (DrainTimedOut _) = Some 409"
| "mgr_http_status (ReloadAndRollbackFailed _ _) = Some 500"
| "mgr_http_status _ = None"

definition act :: "'b action \<Rightarrow> 'b manager \<Rightarrow> 'b manager" where
  "act a m = m\<lparr>m_log := m_log m @ [a]\<rparr>"

definition set_state :: "bstate \<Rightarrow> 'b manager \<Rightarrow> 'b manager" where
  "set_state s m = act (EmitState s) (m\<lparr>m_state := s\<rparr>)"

definition new_manager :: "string \<Rightarrow> string option \<Rightarrow> string option \<Rightarrow> mgr_error + 'b manager" where
  "new_manager name initial_ref profile =
     (if name \<noteq> ''tts'' \<and> name \<noteq> ''asr'' then Inl (BadName name)
      else Inr \<lparr>m_name = name, m_state = INIT, m_current = None, m_inflight = 0,
                m_requests = [], m_initial_ref = initial_ref, m_last_ref = None,
                m_profile = profile, m_ws = [], m_reload = None, m_log = [EmitState INIT]\<rparr>)"

section \<open>Start, shutdown and queries\<close>

text \<open>Building a backend: the factory, then the preloader on what it returned.  The result
  keeps the backend the factory produced even when the preload raises.\<close>

record 'b build =
  bd_factory :: "string + 'b"
  bd_preload :: "string option"

definition build_backend :: "'b build \<Rightarrow> 'b manager \<Rightarrow> ((string \<times> 'b option) + 'b) \<times> 'b manager" where
  "build_backend bd m =
     (case bd_factory bd of
        Inl e \<Rightarrow> (Inl (e, None), act CallFactory m)
      | Inr b \<Rightarrow>
          (case bd_preload bd of
             Some e \<Rightarrow> (Inl (e, Some b), act (Preload b) (act CallFactory m))
           | None \<Rightarrow> (Inr b, act (Preload b) (act CallFactory m))))"

definition mgr_start :: "'b build \<Rightarrow> 'b manager \<Rightarrow> mgr_error option \<times> 'b manager" where
  "mgr_start bd m =
     (if m_state m \<noteq> INIT then (Some (StartInState (m_state m)), m)
      else (case build_backend bd m of
              (Inl (e, _), m1) \<Rightarrow> (Some (StartRaised e), set_state FAILED m1)
            | (Inr b, m1) \<Rightarrow>
                (None, set_state READY
                   (m1\<lparr>m_current := Some b,
                       m_last_ref := (if m_initial_ref m1 \<noteq> None \<and> m_last_ref m1 = None
                                      then m_initial_ref m1 else m_last_ref m1)\<rparr>))))"

definition mgr_shutdown :: "'b manager \<Rightarrow> 'b manager" where
  "mgr_shutdown m =
     (let m1 = set_state DRAINING m;
          m2 = (case m_current m1 of None \<Rightarrow> m1 | Some b \<Rightarrow> act (Unload b) m1)
      in set_state FAILED (m2\<lparr>m_current := None\<rparr>))"

definition mgr_is_ready :: "'b manager \<Rightarrow> bool" where
  "mgr_is_ready m \<longleftrightarrow> m_state m = READY \<and> m_current m \<noteq> None"

definition get_backend_unsafe :: "'b manager \<Rightarrow> mgr_error + 'b" where
  "get_backend_unsafe m =
     (if m_state m \<noteq> READY \<or> m_current m = None then Inl (BackendUnavailable (m_state m))
      else Inr (the (m_current m)))"

record mgr_status_t =
  ms_state :: bstate
  ms_profile :: "string option"
  ms_inflight_http :: int
  ms_inflight_ws :: nat

definition mgr_status :: "'b manager \<Rightarrow> mgr_status_t" where
  "mgr_status m = \<lparr>ms_state = m_state m, ms_profile = (if m_profile m = Some [] then None else m_profile m),
                   ms_inflight_http = m_inflight m, ms_inflight_ws = length (m_ws m)\<rparr>"

section \<open>Request admission\<close>

text \<open>\<open>acquire\<close> up to its \<open>yield\<close>, and its \<open>finally\<close>.  \<open>m_requests\<close> holds, for each context
  that is open, the local \<open>backend\<close> the handler uses.\<close>

definition mgr_acquire :: "nat \<Rightarrow> 'b manager \<Rightarrow> (mgr_error + 'b) \<times> 'b manager" where
  "mgr_acquire r m =
     (if m_state m \<noteq> READY \<or> m_current m = None then (Inl (BackendUnavailable (m_state m)), m)
      else let b = the (m_current m)
           in (Inr b, m\<lparr>m_inflight := m_inflight m + 1, m_requests := (r, b) # m_requests m\<rparr>))"

definition mgr_release :: "nat \<times> 'b \<Rightarrow> 'b manager \<Rightarrow> 'b manager" where
  "mgr_release rb m =
     (let n = m_inflight m - 1
      in m\<lparr>m_requests := remove1 rb (m_requests m),
           m_inflight := (if n \<le> 0 then max 0 n else n)\<rparr>)"

definition register_ws :: "ws_handle \<Rightarrow> 'b manager \<Rightarrow> 'b manager" where
  "register_ws h m = m\<lparr>m_ws := (if h \<in> set (m_ws m) then m_ws m else m_ws m @ [h])\<rparr>"

definition unregister_ws :: "ws_handle \<Rightarrow> 'b manager \<Rightarrow> 'b manager" where
  "unregister_ws h m = m\<lparr>m_ws := removeAll h (m_ws m)\<rparr>"

section \<open>Reload\<close>

text \<open>Closing a handle: its socket is closed (a failure is logged and ignored), then its task
  is cancelled when it is still running.\<close>

definition close_actions :: "ws_handle \<Rightarrow> 'b action list" where
  "close_actions h = (if wh_socket h then [CloseWs (wh_id h)] else []) @
                     (if wh_live_task h then [CancelTask (wh_id h)] else [])"

definition force_close_ws_sessions :: "'b manager \<Rightarrow> 'b manager" where
  "force_close_ws_sessions m = m\<lparr>m_log := m_log m @ concat (map close_actions (m_ws m))\<rparr>"

text \<open>What the code outside answers before the drain: whether a backend supports hot reload,
  the profile preview (a message when it cannot be loaded) and its missing artifacts.\<close>

record ('b, 'p) precheck =
  pc_supports_hot_reload :: "'b \<Rightarrow> bool"
  pc_load_profile_kind :: "string \<Rightarrow> string + 'p"
  pc_find_missing :: "'p \<Rightarrow> string list"

definition reload_precheck ::
    "('b, 'p) precheck \<Rightarrow> string option \<Rightarrow> 'b manager \<Rightarrow> mgr_error option" where
  "reload_precheck pc ref m =
     (if m_reload m \<noteq> None then Some ReloadInProgress
      else if m_state m \<noteq> READY \<or> m_current m = None then Some (BackendNotReady (m_state m))
      else if \<not> pc_supports_hot_reload pc (the (m_current m)) then Some HotReloadNotSupported
      else (case ref of
              None \<Rightarrow> None
            | Some r \<Rightarrow>
                (case pc_load_profile_kind pc r of
                   Inl e \<Rightarrow> Some (InvalidProfile e)
                 | Inr p \<Rightarrow>
                     (case pc_find_missing pc p of
                        [] \<Rightarrow> None
                      | ms \<Rightarrow> Some (ArtifactsMissing ms)))))"

text \<open>\<open>self._last_profile_ref or (name of the current profile)\<close>: an empty ref is false.\<close>

definition rollback_ref :: "'b manager \<Rightarrow> string option" where
  "rollback_ref m =
     (case m_last_ref m of
        Some r \<Rightarrow> (if r \<noteq> [] then Some r else m_profile m)
      | None \<Rightarrow> m_profile m)"

definition reload_enter ::
    "('b, 'p) precheck \<Rightarrow> string option \<Rightarrow> 'b manager \<Rightarrow> mgr_error option \<times> 'b manager" where
  "reload_enter pc ref m =
     (case reload_precheck pc ref m of
        Some e \<Rightarrow> (Some e, m)
      | None \<Rightarrow>
          let m1 = force_close_ws_sessions (set_state DRAINING m)
          in (None, m1\<lparr>m_reload := Some \<lparr>rl_old = the (m_current m), rl_old_name = m_profile m,
                          rl_old_ref = rollback_ref m, rl_ref = ref,
                          rl_waiting = (m_inflight m \<noteq> 0)\<rparr>\<rparr>))"

definition reload_drain_timeout :: "'b manager \<Rightarrow> mgr_error \<times> 'b manager" where
  "reload_drain_timeout m =
     (DrainTimedOut (m_inflight m),
      (act (EmitReload ''drain_timeout'') (set_state READY m))\<lparr>m_reload := None\<rparr>)"

text \<open>The task running \<open>reload\<close> is cancelled in the drain: \<open>async with\<close> releases the reload
  lock, no other statement runs (\<open>CancelledError\<close> is not an \<open>Exception\<close>).\<close>

definition reload_cancelled :: "'b manager \<Rightarrow> 'b manager" where
  "reload_cancelled m = m\<lparr>m_reload := None\<rparr>"

text \<open>\<open>apply_profile\<close>: an exception, or success; either way the name of the profile that is
  current afterwards.\<close>

record apply_outcome =
  ap_error :: "string option"
  ap_profile :: "string option"

record 'b swap_outcome =
  so_apply :: apply_outcome
  so_build :: "'b build"
  so_rb_apply :: apply_outcome
  so_rb_build :: "'b build"

datatype reload_result =
    Reloaded (rr_old: "string option") (rr_new: "string option")
  | RolledBack (rr_error: string) (rr_old: "string option")

definition apply_profile_to :: "apply_outcome \<Rightarrow> string \<Rightarrow> 'b manager \<Rightarrow> string option \<times> 'b manager" where
  "apply_profile_to ap ref m = (ap_error ap, act (ApplyProfile ref) (m\<lparr>m_profile := ap_profile ap\<rparr>))"

definition apply_and_build ::
    "string option \<Rightarrow> apply_outcome \<Rightarrow> 'b build \<Rightarrow> 'b manager \<Rightarrow> ((string \<times> 'b option) + 'b) \<times> 'b manager" where
  "apply_and_build ref ap bd m =
     (case ref of
        None \<Rightarrow> build_backend bd m
      | Some r \<Rightarrow>
          (case apply_profile_to ap r m of
             (Some e, m1) \<Rightarrow> (Inl (e, None), m1)
           | (None, m1) \<Rightarrow> build_backend bd m1))"

definition reload_rollback ::
    "'b swap_outcome \<Rightarrow> 'b reload_locals \<Rightarrow> string \<Rightarrow> 'b option \<Rightarrow> 'b manager \<Rightarrow>
     (mgr_error + reload_result) \<times> 'b manager" where
  "reload_rollback so rl exc new m =
     (let m1 = act (EmitReload ''fail'') m;
          m2 = (case new of None \<Rightarrow> m1 | Some b \<Rightarrow> act (Unload b) m1);
          ref = (if rl_ref rl \<noteq> None then rl_old_ref rl else None)
      in (case apply_and_build ref (so_rb_apply so) (so_rb_build so) m2 of
            (Inr restored, m3) \<Rightarrow>
              (Inr (RolledBack exc (rl_old_name rl)),
               act (EmitReload ''rollback'') (set_state READY (m3\<lparr>m_current := Some restored\<rparr>)))
          | (Inl (rb, _), m3) \<Rightarrow>
              (Inl (ReloadAndRollbackFailed exc rb), set_state FAILED (m3\<lparr>m_current := None\<rparr>))))"

definition reload_swap ::
    "'b swap_outcome \<Rightarrow> 'b reload_locals \<Rightarrow> 'b manager \<Rightarrow> (mgr_error + reload_result) \<times> 'b manager" where
  "reload_swap so rl m =
     (let m1 = act (Unload (rl_old rl)) ((set_state RELOADING m)\<lparr>m_current := None\<rparr>)
      in (case apply_and_build (rl_ref rl) (so_apply so) (so_build so) m1 of
            (Inr b, m2) \<Rightarrow>
              let m3 = m2\<lparr>m_current := Some b,
                          m_last_ref := (if rl_ref rl \<noteq> None then rl_ref rl else m_last_ref m2)\<rparr>;
                  m4 = act (EmitReload ''success'') (set_state READY m3)
              in (Inr (Reloaded (rl_old_name rl)
                         (if rl_ref rl \<noteq> None \<and> rl_ref rl \<noteq> Some [] then m_profile m4 else rl_old_name rl)),
                  m4\<lparr>m_reload := None\<rparr>)
          | (Inl (e, new), m2) \<Rightarrow>
              let (res, m3) = reload_rollback so rl e new m2 in (res, m3\<lparr>m_reload := None\<rparr>)))"

section \<open>Interleavings\<close>

datatype ('b, 'p) mgr_event =
    EvStart "'b build"
  | EvAcquire nat
  | EvRelease "nat \<times> 'b"
  | EvRegister ws_handle
  | EvUnregister ws_handle
  | EvReload "('b, 'p) precheck" "string option"
  | EvDrained "'b swap_outcome"
  | EvDrainTimeout
  | EvReloadCancelled

inductive mgr_step :: "'b manager \<Rightarrow> ('b, 'p) mgr_event \<Rightarrow> 'b manager \<Rightarrow> bool" where
  step_start: "mgr_step m (EvStart bd) (snd (mgr_start bd m))"
| step_acquire: "mgr_step m (EvAcquire r) (snd (mgr_acquire r m))"
| step_release: "rb \<in> set (m_requests m) \<Longrightarrow> mgr_step m (EvRelease rb) (mgr_release rb m)"
| step_register: "mgr_step m (EvRegister h) (register_ws h m)"
| step_unregister: "mgr_step m (EvUnregister h) (unregister_ws h m)"
| step_reload: "mgr_step m (EvReload pc ref) (snd (reload_enter pc ref m))"
| step_drained: "m_reload m = Some rl \<Longrightarrow> m_inflight m = 0 \<Longrightarrow>
                 mgr_step m (EvDrained so) (snd (reload_swap so rl m))"
| step_timeout: "m_reload m = Some rl \<Longrightarrow> rl_waiting rl \<Longrightarrow>
                 mgr_step m EvDrainTimeout (snd (reload_drain_timeout m))"
| step_cancelled: "m_reload m = Some rl \<Longrightarrow> rl_waiting rl \<Longrightarrow>
                   mgr_step m EvReloadCancelled (reload_cancelled m)"

definition mgr_inv :: "'b manager \<Rightarrow> bool" where
  "mgr_inv m \<longleftrightarrow>
     m_inflight m = int (length (m_requests m)) \<and>
     (\<forall>rb\<in>set (m_requests m). m_current m = Some (snd rb)) \<and>
     m_state m \<noteq> RELOADING \<and>
     (m_state m = READY \<or> m_state m = DRAINING \<longleftrightarrow> m_current m \<noteq> None) \<and>
     (case m_reload m of None \<Rightarrow> True
      | Some rl \<Rightarrow> m_state m = DRAINING \<and> m_current m = Some (rl_old rl))"

lemma act_simps [simp]:
  "m_name (act a m) = m_name m" "m_state (act a m) = m_state m" "m_current (act a m) = m_current m"
  "m_inflight (act a m) = m_inflight m" "m_requests (act a m) = m_requests m"
  "m_initial_ref (act a m) = m_initial_ref m" "m_last_ref (act a m) = m_last_ref m"
  "m_profile (act a m) = m_profile m" "m_ws (act a m) = m_ws m" "m_reload (act a m) = m_reload m"
  "m_log (act a m) = m_log m @ [a]"
  by (simp_all add: act_def)

lemma set_state_simps [simp]:
  "m_name (set_state s m) = m_name m" "m_state (set_state s m) = s"
  "m_current (set_state s m) = m_current m" "m_inflight (set_state s m) = m_inflight m"
  "m_requests (set_state s m) = m_requests m" "m_initial_ref (set_state s m) = m_initial_ref m"
  "m_last_ref (set_state s m) = m_last_ref m" "m_profile (set_state s m) = m_profile m"
  "m_ws (set_state s m) = m_ws m" "m_reload (set_state s m) = m_reload m"
  "m_log (set_state s m) = m_log m @ [EmitState s]"
  by (simp_all add: set_state_def)

lemma build_backend_frame:
  assumes "build_backend bd m = (res, m')"
  shows "m_requests m' = m_requests m \<and> m_inflight m' = m_inflight m \<and> m_current m' = m_current m \<and>
         m_state m' = m_state m \<and> m_reload m' = m_reload m \<and> m_last_ref m' = m_last_ref m \<and>
         m_initial_ref m' = m_initial_ref m \<and> m_profile m' = m_profile m \<and>
         (\<exists>as. m_log m' = m_log m @ as \<and> (\<forall>b. Unload b \<notin> set as))"
  using assms by (auto simp: build_backend_def split: sum.splits option.splits)

lemma apply_and_build_frame:
  assumes "apply_and_build ref ap bd m = (res, m')"
  shows "m_requests m' = m_requests m \<and> m_inflight m' = m_inflight m \<and> m_current m' = m_current m \<and>
         m_state m' = m_state m \<and> m_reload m' = m_reload m \<and> m_last_ref m' = m_last_ref m \<and>
         (\<exists>as. m_log m' = m_log m @ as \<and> (\<forall>b. Unload b \<notin> set as))"
proof (cases ref)
  case None
  then show ?thesis using assms build_backend_frame [of bd m res m'] by (simp add: apply_and_build_def)
next
  case (Some r)
  show ?thesis
  proof (cases "ap_error ap")
    case None
    then have "build_backend bd (act (ApplyProfile r) (m\<lparr>m_profile := ap_profile ap\<rparr>)) = (res, m')"
      using Some assms by (simp add: apply_and_build_def apply_profile_to_def)
    then show ?thesis using build_backend_frame by fastforce
  next
    case (Some e)
    then show ?thesis using assms \<open>ref = Some r\<close>
      by (auto simp: apply_and_build_def apply_profile_to_def)
  qed
qed

lemma reload_rollback_frame:
  assumes "reload_rollback so rl e new m = (res, m')"
  shows "m_requests m' = m_requests m \<and> m_inflight m' = m_inflight m \<and> m_last_ref m' = m_last_ref m"
  using assms
  by (auto simp: reload_rollback_def Let_def split: prod.splits sum.splits option.splits if_splits
      dest!: apply_and_build_frame)

text \<open>The two ways a build can end, as one fact about its outcome record.\<close>

definition build_ok :: "'b build \<Rightarrow> 'b \<Rightarrow> bool" where
  "build_ok bd b \<longleftrightarrow> bd_factory bd = Inr b \<and> bd_preload bd = None"

definition swap_ok :: "string option \<Rightarrow> apply_outcome \<Rightarrow> 'b build \<Rightarrow> 'b \<Rightarrow> bool" where
  "swap_ok ref ap bd b \<longleftrightarrow> (ref = None \<or> ap_error ap = None) \<and> build_ok bd b"

lemma apply_and_build_Inr:
  "apply_and_build ref ap bd m = (r, m') \<Longrightarrow> r = Inr b \<longleftrightarrow> swap_ok ref ap bd b"
  by (auto simp: apply_and_build_def build_backend_def apply_profile_to_def build_ok_def swap_ok_def
      split: option.splits sum.splits prod.splits)

lemma rollback_cases:
  assumes "reload_rollback so rl e new m = (res, m')"
    and ref: "ref = (if rl_ref rl \<noteq> None then rl_old_ref rl else None)"
  shows "(\<exists>b. swap_ok ref (so_rb_apply so) (so_rb_build so) b \<and>
              res = Inr (RolledBack e (rl_old_name rl)) \<and> m_current m' = Some b \<and> m_state m' = READY) \<or>
         ((\<forall>b. \<not> swap_ok ref (so_rb_apply so) (so_rb_build so) b) \<and>
              (\<exists>rb. res = Inl (ReloadAndRollbackFailed e rb)) \<and> m_current m' = None \<and> m_state m' = FAILED)"
proof -
  let ?m2 = "case new of None \<Rightarrow> act (EmitReload ''fail'') m | Some b \<Rightarrow> act (Unload b) (act (EmitReload ''fail'') m)"
  obtain r m3 where ab: "apply_and_build ref (so_rb_apply so) (so_rb_build so) ?m2 = (r, m3)"
    by fastforce
  note iff = apply_and_build_Inr [OF ab]
  show ?thesis
  proof (cases r)
    case (Inr b)
    have "res = Inr (RolledBack e (rl_old_name rl)) \<and>
          m' = act (EmitReload ''rollback'') (set_state READY (m3\<lparr>m_current := Some b\<rparr>))"
      using assms(1) ab unfolding reload_rollback_def Let_def ref [symmetric] Inr by simp
    then show ?thesis using iff [of b] Inr by auto
  next
    case (Inl p)
    obtain rb nb where p: "p = (rb, nb)" by fastforce
    have "res = Inl (ReloadAndRollbackFailed e rb) \<and> m' = set_state FAILED (m3\<lparr>m_current := None\<rparr>)"
      using assms(1) ab unfolding reload_rollback_def Let_def ref [symmetric] Inl p by simp
    then show ?thesis using iff Inl by auto
  qed
qed

text \<open>The three outcomes of the swap, with the state each of them leaves.\<close>

lemma reload_swap_cases:
  assumes "reload_swap so rl m = (res, m')"
    and ref: "ref = (if rl_ref rl \<noteq> None then rl_old_ref rl else None)"
  shows "(\<exists>b. swap_ok (rl_ref rl) (so_apply so) (so_build so) b \<and>
              (\<exists>new. res = Inr (Reloaded (rl_old_name rl) new)) \<and>
              m_current m' = Some b \<and> m_state m' = READY \<and>
              m_last_ref m' = (if rl_ref rl \<noteq> None then rl_ref rl else m_last_ref m)) \<or>
         ((\<forall>b. \<not> swap_ok (rl_ref rl) (so_apply so) (so_build so) b) \<and> m_last_ref m' = m_last_ref m \<and>
          ((\<exists>b e. swap_ok ref (so_rb_apply so) (so_rb_build so) b \<and>
              res = Inr (RolledBack e (rl_old_name rl)) \<and> m_current m' = Some b \<and> m_state m' = READY) \<or>
           ((\<forall>b. \<not> swap_ok ref (so_rb_apply so) (so_rb_build so) b) \<and>
              (\<exists>e rb. res = Inl (ReloadAndRollbackFailed e rb)) \<and>
              m_current m' = None \<and> m_state m' = FAILED)))"
proof -
  let ?m1 = "act (Unload (rl_old rl)) ((set_state RELOADING m)\<lparr>m_current := None\<rparr>)"
  obtain r m2 where ab: "apply_and_build (rl_ref rl) (so_apply so) (so_build so) ?m1 = (r, m2)"
    by fastforce
  note iff = apply_and_build_Inr [OF ab] and frame = apply_and_build_frame [OF ab]
  show ?thesis
  proof (cases r)
    case (Inr b)
    then have "m_current m' = Some b \<and> m_state m' = READY \<and> (\<exists>new. res = Inr (Reloaded (rl_old_name rl) new)) \<and>
        m_last_ref m' = (if rl_ref rl \<noteq> None then rl_ref rl else m_last_ref m)"
      using assms(1) ab frame unfolding reload_swap_def Let_def by auto
    then show ?thesis using iff [of b] Inr by blast
  next
    case (Inl p)
    obtain e new where p: "p = (e, new)" by fastforce
    obtain res3 m3 where rb: "reload_rollback so rl e new m2 = (res3, m3)" by fastforce
    have "res = res3 \<and> m' = m3\<lparr>m_reload := None\<rparr>"
      using assms(1) ab rb unfolding reload_swap_def Let_def Inl p by simp
    moreover have "m_last_ref m3 = m_last_ref m"
      using reload_rollback_frame [OF rb] frame by simp
    moreover have "\<forall>b. \<not> swap_ok (rl_ref rl) (so_apply so) (so_build so) b"
      using iff Inl by auto
    ultimately show ?thesis using rollback_cases [OF rb ref] by auto
  qed
qed

lemma reload_swap_frame:
  assumes "reload_swap so rl m = (res, m')"
  shows "m_requests m' = m_requests m \<and> m_inflight m' = m_inflight m \<and> m_reload m' = None"
  using assms
  by (auto simp: reload_swap_def Let_def split: prod.splits sum.splits
      dest!: apply_and_build_frame reload_rollback_frame)

lemma mgr_step_inv: "mgr_step m e m' \<Longrightarrow> mgr_inv m \<Longrightarrow> mgr_inv m'"
proof (induction rule: mgr_step.induct)
  case (step_start m bd)
  show ?case
  proof (cases "m_state m = INIT")
    case True
    obtain r m1 where bd: "build_backend bd m = (r, m1)" by fastforce
    show ?thesis
      using True bd step_start build_backend_frame [OF bd]
      by (cases r) (auto simp: mgr_start_def mgr_inv_def split: option.splits)
  next
    case False
    then show ?thesis using step_start by (simp add: mgr_start_def)
  qed
next
  case (step_acquire m r)
  then show ?case by (auto simp: mgr_acquire_def mgr_inv_def Let_def split: option.splits)
next
  case (step_release rb m)
  have "\<forall>x\<in>set (remove1 rb (m_requests m)). m_current m = Some (snd x)"
    using step_release(2) by (metis mgr_inv_def notin_set_remove1)
  then show ?case using step_release
    by (simp add: mgr_release_def mgr_inv_def Let_def length_remove1 split: option.splits)
      (cases "m_requests m"; fastforce)
next
  case (step_register m h)
  then show ?case by (auto simp: register_ws_def mgr_inv_def split: option.splits)
next
  case (step_unregister m h)
  then show ?case by (auto simp: unregister_ws_def mgr_inv_def split: option.splits)
next
  case (step_reload m pc ref)
  show ?case
  proof (cases "reload_precheck pc ref m")
    case None
    then have "m_state m = READY" "m_current m \<noteq> None"
      by (auto simp: reload_precheck_def split: if_splits)
    then show ?thesis using step_reload None
      by (auto simp: reload_enter_def mgr_inv_def Let_def force_close_ws_sessions_def)
  next
    case (Some e)
    then show ?thesis using step_reload by (simp add: reload_enter_def)
  qed
next
  case (step_drained m rl so)
  obtain res m' where sw: "reload_swap so rl m = (res, m')" by fastforce
  have "m_requests m = []" using step_drained by (simp add: mgr_inv_def)
  then show ?case
    using step_drained sw reload_swap_frame [OF sw] reload_swap_cases [OF sw refl]
    by (auto simp: mgr_inv_def)
next
  case (step_timeout m rl)
  then show ?case by (auto simp: reload_drain_timeout_def mgr_inv_def split: option.splits)
next
  case (step_cancelled m rl)
  then show ?case by (auto simp: reload_cancelled_def mgr_inv_def)
qed

interpretation mgr_run: rel_invariant mgr_step mgr_inv
  by unfold_locales (rule mgr_step_inv)

lemma new_manager_inv: "new_manager name ref p = Inr m \<Longrightarrow> mgr_inv m"
  by (auto simp: new_manager_def mgr_inv_def split: if_splits)

text \<open>A manager left in \<open>DRAINING\<close> by a cancelled reload: no operation leads out of it.\<close>

definition mgr_stuck :: "'b manager \<Rightarrow> bool" where
  "mgr_stuck m \<longleftrightarrow> m_state m = DRAINING \<and> m_reload m = None"

lemma mgr_step_stuck: "mgr_step m e m' \<Longrightarrow> mgr_stuck m \<Longrightarrow> mgr_stuck m'"
  by (induction rule: mgr_step.induct)
    (auto simp: mgr_stuck_def mgr_start_def mgr_acquire_def mgr_release_def register_ws_def Let_def
      unregister_ws_def reload_enter_def reload_precheck_def)

interpretation mgr_stuck_run: rel_invariant mgr_step mgr_stuck
  by unfold_locales (rule mgr_step_stuck)

lemma reload_enter_log:
  "Unload b \<notin> set (drop (length (m_log m)) (m_log (snd (reload_enter pc ref m))))"
  by (auto simp: reload_enter_def Let_def force_close_ws_sessions_def close_actions_def split: option.splits)

lemma mgr_step_unload:
  assumes "mgr_step m e m'" and "Unload b \<in> set (drop (length (m_log m)) (m_log m'))"
  shows "m_inflight m = 0 \<and> (\<exists>so rl. e = EvDrained so \<and> m_reload m = Some rl)"
  using assms
proof (induction rule: mgr_step.induct)
  case (step_start m bd)
  obtain r m1 where "build_backend bd m = (r, m1)" by fastforce
  with step_start show ?case using build_backend_frame [of bd m r m1]
    by (cases r) (auto simp: mgr_start_def split: if_splits)
next
  case (step_reload m pc ref)
  then show ?case by (simp add: reload_enter_log)
qed (auto simp: mgr_acquire_def mgr_release_def register_ws_def unregister_ws_def Let_def
    reload_drain_timeout_def reload_cancelled_def)

section \<open>Properties\<close>

text \<open>C4: In every interleaving of starts, requests, WebSocket registrations and reloads (with their
  timeouts and cancellations): the in-flight count is the number of open request contexts, all
  of them hold the backend that is live now, a READY manager has a backend, and a step unloads
  a backend only when it completes the drain of a reload and no request is in flight.\<close>
theorem reload_never_unloads_in_use:
  assumes "new_manager name ref0 p0 = Inr m0" and "steps_rel mgr_step m0 es m"
    and "mgr_step m e m'"
  shows "m_inflight m = int (length (m_requests m)) \<and>
         (\<forall>rb\<in>set (m_requests m). m_current m = Some (snd rb)) \<and>
         (m_state m = READY \<longrightarrow> m_current m \<noteq> None) \<and>
         (Unload b \<in> set (drop (length (m_log m)) (m_log m')) \<longrightarrow>
            m_requests m = [] \<and> m_state m = DRAINING \<and> m_reload m \<noteq> None)"
proof -
  have inv: "mgr_inv m" using mgr_run.rel_run_inv [OF assms(2)] new_manager_inv [OF assms(1)] by blast
  show ?thesis
    using inv mgr_step_unload [OF assms(3), of b] by (auto simp: mgr_inv_def split: option.splits)
qed

definition demo_build :: "nat \<Rightarrow> nat build" where
  "demo_build b = \<lparr>bd_factory = Inr b, bd_preload = None\<rparr>"

definition demo_pc :: "(nat, unit) precheck" where
  "demo_pc = \<lparr>pc_supports_hot_reload = (\<lambda>_. True), pc_load_profile_kind = (\<lambda>_. Inr ()),
             pc_find_missing = (\<lambda>_. [])\<rparr>"

definition demo_ready :: "nat manager" where
  "demo_ready = snd (mgr_start (demo_build 7) (projr (new_manager ''asr'' None (Some ''base''))))"

definition demo_draining :: "nat manager" where
  "demo_draining = snd (reload_enter demo_pc (Some ''next'') demo_ready)"

definition demo_swap :: "nat swap_outcome" where
  "demo_swap = \<lparr>so_apply = \<lparr>ap_error = Some ''bad'', ap_profile = None\<rparr>, so_build = demo_build 8,
               so_rb_apply = \<lparr>ap_error = None, ap_profile = Some ''base''\<rparr>, so_rb_build = demo_build 9\<rparr>"

lemmas demo_mgr_defs = demo_draining_def demo_ready_def demo_build_def demo_pc_def demo_swap_def
  new_manager_def mgr_start_def build_backend_def reload_enter_def reload_precheck_def
  rollback_ref_def force_close_ws_sessions_def act_def set_state_def

theorem reload_never_unloads_in_use_witness:
  "\<exists>m0 (es :: (nat, unit) mgr_event list) m m'. new_manager ''asr'' None (Some ''base'') = Inr m0 \<and>
     steps_rel mgr_step m0 es m \<and> mgr_step m (EvDrained demo_swap :: (nat, unit) mgr_event) m' \<and>
     Unload 7 \<in> set (drop (length (m_log m)) (m_log m')) \<and> m_requests m = [] \<and> m_current m' = Some 9"
proof -
  define m0 :: "nat manager" where "m0 = projr (new_manager ''asr'' None (Some ''base''))"
  define m' where "m' = snd (reload_swap demo_swap (the (m_reload demo_draining)) demo_draining)"
  have new: "new_manager ''asr'' None (Some ''base'') = Inr m0" by (simp add: m0_def new_manager_def)
  have "mgr_step m0 (EvStart (demo_build 7) :: (nat, unit) mgr_event) demo_ready"
    using step_start [of m0 "demo_build 7"] by (simp add: demo_ready_def m0_def)
  moreover have "mgr_step demo_ready (EvReload demo_pc (Some ''next'')) demo_draining"
    using step_reload [of demo_ready demo_pc "Some ''next''"] by (simp add: demo_draining_def)
  ultimately have run: "steps_rel mgr_step m0 [EvStart (demo_build 7), EvReload demo_pc (Some ''next'')] demo_draining"
    by (blast intro: steps_rel.intros)
  have "m_reload demo_draining = Some (the (m_reload demo_draining))" "m_inflight demo_draining = 0"
    by (simp_all add: demo_mgr_defs)
  then have step: "mgr_step demo_draining (EvDrained demo_swap :: (nat, unit) mgr_event) m'"
    unfolding m'_def by (rule step_drained)
  have un: "Unload 7 \<in> set (drop (length (m_log demo_draining)) (m_log m'))" "m_current m' = Some 9"
    by (simp_all add: m'_def demo_mgr_defs reload_swap_def reload_rollback_def apply_and_build_def
        apply_profile_to_def Let_def)
  from reload_never_unloads_in_use [OF new run step, of 7] un(1) have "m_requests demo_draining = []" by blast
  with new run step un show ?thesis by (intro exI conjI)
qed

text \<open>A reload is refused, with the manager untouched, unless it is the only one, the manager is
  READY with a backend that supports hot reload, and the new profile (if any) loads and misses
  no artifact; an accepted one stops admission, keeps the old backend and closes exactly the
  registered WebSocket sessions.\<close>
theorem reload_entry_spec:
  "(fst (reload_enter pc ref m) = None \<longleftrightarrow>
      m_reload m = None \<and> mgr_is_ready m \<and> pc_supports_hot_reload pc (the (m_current m)) \<and>
      (case ref of None \<Rightarrow> True
       | Some r \<Rightarrow> (case pc_load_profile_kind pc r of Inl _ \<Rightarrow> False
                   | Inr p \<Rightarrow> pc_find_missing pc p = []))) \<and>
   (case reload_enter pc ref m of
      (Some e, m') \<Rightarrow> m' = m \<and> mgr_http_status e \<in> {Some 400, Some 409}
    | (None, m') \<Rightarrow>
        m_state m' = DRAINING \<and> m_current m' = m_current m \<and> m_requests m' = m_requests m \<and>
        m_log m' = m_log m @ EmitState DRAINING # concat (map close_actions (m_ws m)) \<and>
        (\<exists>rl. m_reload m' = Some rl \<and> Some (rl_old rl) = m_current m) \<and>
        (\<forall>r. fst (mgr_acquire r m') = Inl (BackendUnavailable DRAINING)))"
proof -
  have status: "mgr_http_status e \<in> {Some 400, Some 409}" if "reload_precheck pc ref m = Some e" for e
    using that by (auto simp: reload_precheck_def split: if_splits option.splits sum.splits list.splits)
  have none: "reload_precheck pc ref m = None \<longleftrightarrow>
      m_reload m = None \<and> mgr_is_ready m \<and> pc_supports_hot_reload pc (the (m_current m)) \<and>
      (case ref of None \<Rightarrow> True
       | Some r \<Rightarrow> (case pc_load_profile_kind pc r of Inl _ \<Rightarrow> False
                   | Inr p \<Rightarrow> pc_find_missing pc p = []))"
    by (auto simp: reload_precheck_def mgr_is_ready_def split: option.splits sum.splits list.splits)
  show ?thesis
  proof (cases "reload_precheck pc ref m")
    case None
    then have "m_current m \<noteq> None" using none by (simp add: mgr_is_ready_def)
    then show ?thesis using None none
      by (simp add: reload_enter_def Let_def force_close_ws_sessions_def mgr_acquire_def)
  next
    case (Some e)
    then show ?thesis using none status by (simp add: reload_enter_def)
  qed
qed

text \<open>C5: Once drained, a reload ends in one of three ways, decided by whether the new profile and
  backend come up and, if not, whether the old ones do: the new backend is live and its
  reference remembered; a rebuilt old one is live and the remembered reference unchanged; or
  the manager is FAILED without backend and a 500 is raised.  A drain timeout leaves the old
  backend live with its requests.\<close>
theorem reload_outcome:
  fixes so rl m
  defines "rb_ref \<equiv> (if rl_ref rl \<noteq> None then rl_old_ref rl else None)"
  shows
  "(case reload_swap so rl m of (res, m') \<Rightarrow>
      m_reload m' = None \<and> m_requests m' = m_requests m \<and>
      (if \<exists>b. swap_ok (rl_ref rl) (so_apply so) (so_build so) b
       then m_state m' = READY \<and> (\<exists>b. m_current m' = Some b \<and> swap_ok (rl_ref rl) (so_apply so) (so_build so) b) \<and>
            (\<exists>new. res = Inr (Reloaded (rl_old_name rl) new)) \<and>
            m_last_ref m' = (if rl_ref rl \<noteq> None then rl_ref rl else m_last_ref m)
       else m_last_ref m' = m_last_ref m \<and>
         (if \<exists>b. swap_ok rb_ref (so_rb_apply so) (so_rb_build so) b
          then m_state m' = READY \<and> (\<exists>b. m_current m' = Some b \<and> swap_ok rb_ref (so_rb_apply so) (so_rb_build so) b) \<and>
               (\<exists>e. res = Inr (RolledBack e (rl_old_name rl)))
          else m_state m' = FAILED \<and> m_current m' = None \<and>
               (\<exists>e. res = Inl e \<and> mgr_http_status e = Some 500)))) \<and>
   (case reload_drain_timeout m of (e, m') \<Rightarrow>
      m_state m' = READY \<and> m_current m' = m_current m \<and> m_requests m' = m_requests m \<and>
      m_reload m' = None \<and> e = DrainTimedOut (m_inflight m))"
proof -
  obtain res m' where sw: "reload_swap so rl m = (res, m')" by fastforce
  from reload_swap_frame [OF sw] reload_swap_cases [OF sw] show ?thesis
    unfolding rb_ref_def sw by (auto simp: reload_drain_timeout_def)
qed

text \<open>A reload whose task is cancelled while it waits for requests to drain leaves the manager in
  \<open>DRAINING\<close> with the reload lock free, and nothing leads out of that state: from then on
  every request is refused with 503 and every reload with 409.\<close>
theorem cancelled_reload_is_stuck:
  assumes "m_state m = DRAINING" and "steps_rel mgr_step (reload_cancelled m) es m'"
  shows "m_state m' = DRAINING \<and> fst (mgr_acquire r m') = Inl (BackendUnavailable DRAINING) \<and>
         fst (reload_enter pc ref m') = Some (BackendNotReady DRAINING)"
proof -
  have "mgr_stuck (reload_cancelled m)" using assms(1) by (simp add: mgr_stuck_def reload_cancelled_def)
  then have "mgr_stuck m'" by (rule mgr_stuck_run.rel_run_inv [OF assms(2)])
  then show ?thesis
    by (simp add: mgr_stuck_def mgr_acquire_def reload_enter_def reload_precheck_def)
qed

theorem cancelled_reload_is_stuck_witness:
  "m_state demo_draining = DRAINING \<and>
   (\<exists>m'. steps_rel mgr_step (reload_cancelled demo_draining) [EvReload demo_pc None] m' \<and>
         fst (mgr_acquire 1 m') = Inl (BackendUnavailable DRAINING))"
proof -
  have st: "m_state demo_draining = DRAINING" by (simp add: demo_mgr_defs)
  let ?m = "reload_cancelled demo_draining"
  have run: "steps_rel mgr_step ?m [EvReload demo_pc None] (snd (reload_enter demo_pc None ?m))"
    by (rule steps_rel.intros step_reload)+
  from cancelled_reload_is_stuck [OF st run, of 1 demo_pc None] st run show ?thesis by blast
qed

section \<open>The two managers of the process\<close>

type_synonym 'b managers = "('b manager \<times> 'b manager) option"

datatype init_error = InitTwice | InitName mgr_error

definition init_backend_managers ::
    "string option \<Rightarrow> string option \<Rightarrow> 'b managers \<Rightarrow> init_error + 'b managers" where
  "init_backend_managers initial_ref profile s =
     (if s \<noteq> None then Inl InitTwice
      else (case (new_manager ''tts'' initial_ref profile, new_manager ''asr'' initial_ref profile) of
              (Inr t, Inr a) \<Rightarrow> Inr (Some (t, a))
            | (Inl e, _) \<Rightarrow> Inl (InitName e)
            | (_, Inl e) \<Rightarrow> Inl (InitName e)))"

definition tts_manager :: "'b managers \<Rightarrow> 'b manager option" where
  "tts_manager s = map_option fst s"

definition asr_manager :: "'b managers \<Rightarrow> 'b manager option" where
  "asr_manager s = map_option snd s"

lemma init_backend_managers_ok:
  "\<exists>t a. init_backend_managers ref p None = Inr (Some (t, a)) \<and> mgr_inv t \<and> mgr_inv a \<and>
         m_name t = ''tts'' \<and> m_name a = ''asr'' \<and> m_initial_ref a = ref"
  by (simp add: init_backend_managers_def new_manager_def mgr_inv_def)

end
