(* ===== verification/Coordinator.thy ===== *)
theory Coordinator
  imports Capability
begin

text \<open>
  The execution coordinator (\<open>server/core/coordinator.py\<close>): the mode comes from the
  capability resolver; \<open>serialized\<close> and \<open>exclusive\<close> share one lock between the ASR and the
  TTS slot, and \<open>exclusive\<close> moreover keeps only one modality resident: it unloads the
  backend of the other slot and preloads its own again.  Unloading and preloading are the
  backend's; they are the functions of \<open>slot_ops\<close>, \<open>None\<close> when the call raises.  The lock
  is \<open>asyncio.Lock\<close>: its holder is the task inside \<open>acquire\<close>, and entering is a step that is
  possible only when it is free.
\<close>

datatype slot = AsrSlot | TtsSlot

fun other_slot :: "slot \<Rightarrow> slot" where
  "other_slot AsrSlot = TtsSlot"
| "other_slot TtsSlot = AsrSlot"

text \<open>What a registered getter returns: the backend's optional methods and whether it is ready.\<close>

record slot_backend =
  sb_has_unload :: bool
  sb_has_preload :: bool
  sb_has_ready :: bool
  sb_ready :: bool

record slot_ops =
  op_unload :: "slot_backend \<Rightarrow> slot_backend option"
  op_preload :: "slot_backend \<Rightarrow> slot_backend option"

record coordinator =
  co_mode :: string
  co_active :: "slot option"
  co_backend :: "slot \<Rightarrow> slot_backend option"
  co_holders :: "(nat \<times> slot) list"

definition resolve_mode ::
    "'c backend_world \<Rightarrow> (string \<Rightarrow> bool) \<Rightarrow> env_map \<Rightarrow> policy option \<Rightarrow> profile option
     \<Rightarrow> cap_error + string" where
  "resolve_mode w exists os_env pol prof =
     (let requested = requested_mode pol
      in if requested = ''exclusive'' then Inr ''exclusive''
         else (case prof of
                 None \<Rightarrow> Inr requested
               | Some p \<Rightarrow>
                   (case resolve w exists os_env os_env p pol [] of
                      Inl e \<Rightarrow> Inl e
                    | Inr r \<Rightarrow> Inr (coordinator_mode r))))"

definition init_coordinator ::
    "'c backend_world \<Rightarrow> (string \<Rightarrow> bool) \<Rightarrow> env_map \<Rightarrow> policy option \<Rightarrow> profile option
     \<Rightarrow> cap_error + coordinator" where
  "init_coordinator w exists os_env pol prof =
     (case resolve_mode w exists os_env pol prof of
        Inl e \<Rightarrow> Inl e
      | Inr mode \<Rightarrow> Inr \<lparr>co_mode = mode, co_active = None, co_backend = (\<lambda>_. None), co_holders = []\<rparr>)"

definition co_locking :: "coordinator \<Rightarrow> bool" where
  "co_locking c \<longleftrightarrow> co_mode c \<in> {''serialized'', ''exclusive''}"

text \<open>A slot whose getter is not registered, or returns \<open>None\<close>, has no backend here.\<close>

definition register_backend :: "slot \<Rightarrow> slot_backend option \<Rightarrow> coordinator \<Rightarrow> coordinator" where
  "register_backend s b c = c\<lparr>co_backend := (co_backend c)(s := b)\<rparr>"

definition evict_other :: "slot_ops \<Rightarrow> slot \<Rightarrow> coordinator \<Rightarrow> bool \<times> coordinator" where
  "evict_other ops s c =
     (case co_backend c (other_slot s) of
        None \<Rightarrow> (True, c)
      | Some b \<Rightarrow>
          (if sb_has_unload b \<and>
              (co_active c = Some (other_slot s) \<or> \<not> sb_has_ready b \<or> sb_ready b)
           then (case op_unload ops b of
                   None \<Rightarrow> (False, c)
                 | Some b' \<Rightarrow> (True, register_backend (other_slot s) (Some b') c))
           else (True, c)))"

definition restore_target :: "slot_ops \<Rightarrow> slot \<Rightarrow> coordinator \<Rightarrow> bool \<times> coordinator" where
  "restore_target ops s c =
     (case co_backend c s of
        None \<Rightarrow> (True, c)
      | Some b \<Rightarrow>
          (if sb_has_preload b \<and> sb_has_ready b \<and> \<not> sb_ready b
           then (case op_preload ops b of
                   None \<Rightarrow> (False, c)
                 | Some b' \<Rightarrow> (True, register_backend s (Some b') c))
           else (True, c)))"

text \<open>\<open>acquire\<close> up to its \<open>yield\<close>: \<open>False\<close> when the backend raised; the lock is then free
  again and the active slot unchanged.\<close>

definition co_enter :: "slot_ops \<Rightarrow> nat \<Rightarrow> slot \<Rightarrow> coordinator \<Rightarrow> bool \<times> coordinator" where
  "co_enter ops t s c =
     (if \<not> co_locking c then (True, c\<lparr>co_holders := (t, s) # co_holders c\<rparr>)
      else
        let (ok, c1) = (if co_mode c = ''exclusive''
                        then (case evict_other ops s c of
                                (False, c') \<Rightarrow> (False, c')
                              | (True, c') \<Rightarrow> restore_target ops s c')
                        else (True, c))
        in if ok then (True, c1\<lparr>co_active := Some s, co_holders := (t, s) # co_holders c1\<rparr>)
           else (False, c1))"

definition co_exit :: "nat \<Rightarrow> slot \<Rightarrow> coordinator \<Rightarrow> coordinator" where
  "co_exit t s c = c\<lparr>co_holders := remove1 (t, s) (co_holders c)\<rparr>"

datatype co_event = CoEnter nat slot | CoExit nat slot

inductive co_step :: "slot_ops \<Rightarrow> coordinator \<Rightarrow> co_event \<Rightarrow> coordinator \<Rightarrow> bool" for ops where
  enter: "(co_locking c \<longrightarrow> co_holders c = []) \<Longrightarrow> co_step ops c (CoEnter t s) (snd (co_enter ops t s c))"
| leave: "(t, s) \<in> set (co_holders c) \<Longrightarrow> co_step ops c (CoExit t s) (co_exit t s c)"

text \<open>Documented behaviour of a backend: unloading leaves it not ready, preloading leaves it
  ready, and neither changes which methods it has.\<close>

definition ops_sound :: "slot_ops \<Rightarrow> bool" where
  "ops_sound ops \<longleftrightarrow>
     (\<forall>b b'. op_unload ops b = Some b' \<longrightarrow> b' = b\<lparr>sb_ready := False\<rparr>) \<and>
     (\<forall>b b'. op_preload ops b = Some b' \<longrightarrow> b' = b\<lparr>sb_ready := True\<rparr>)"

section \<open>Residency\<close>

definition evicted :: "slot_backend option \<Rightarrow> bool" where
  "evicted b = (case b of None \<Rightarrow> True | Some x \<Rightarrow> sb_has_unload x \<and> sb_has_ready x \<longrightarrow> \<not> sb_ready x)"

definition usable :: "slot_backend option \<Rightarrow> bool" where
  "usable b = (case b of None \<Rightarrow> True | Some x \<Rightarrow> sb_has_preload x \<and> sb_has_ready x \<longrightarrow> sb_ready x)"

definition co_inv :: "coordinator \<Rightarrow> bool" where
  "co_inv c \<longleftrightarrow>
     (co_locking c \<longrightarrow> length (co_holders c) \<le> 1) \<and>
     (co_mode c = ''exclusive'' \<longrightarrow>
        (\<forall>h\<in>set (co_holders c). evicted (co_backend c (other_slot (snd h))) \<and>
                               usable (co_backend c (snd h))))"

lemma other_slot_neq [simp]: "other_slot s \<noteq> s" "s \<noteq> other_slot s"
  by (cases s; simp)+

lemma register_backend_simps [simp]:
  "co_mode (register_backend s b c) = co_mode c" "co_holders (register_backend s b c) = co_holders c"
  "co_active (register_backend s b c) = co_active c"
  "co_backend (register_backend s b c) = (co_backend c)(s := b)"
  by (simp_all add: register_backend_def)

lemma ops_sound_unload:
  assumes "ops_sound ops" and "op_unload ops b = Some b'"
  shows "\<not> sb_ready b'"
proof -
  have "b' = b\<lparr>sb_ready := False\<rparr>" using assms unfolding ops_sound_def by blast
  then show ?thesis by simp
qed

lemma ops_sound_preload:
  assumes "ops_sound ops" and "op_preload ops b = Some b'"
  shows "sb_ready b'"
proof -
  have "b' = b\<lparr>sb_ready := True\<rparr>" using assms unfolding ops_sound_def by blast
  then show ?thesis by simp
qed

lemma evict_other_spec:
  assumes "ops_sound ops" and "evict_other ops s c = (ok, c')"
  shows "co_mode c' = co_mode c \<and> co_holders c' = co_holders c \<and>
         co_backend c' s = co_backend c s \<and> (ok \<longrightarrow> evicted (co_backend c' (other_slot s)))"
  using assms
  by (auto simp: evict_other_def evicted_def dest: ops_sound_unload split: option.splits if_splits)

lemma restore_target_spec:
  assumes "ops_sound ops" and "restore_target ops s c = (ok, c')"
  shows "co_mode c' = co_mode c \<and> co_holders c' = co_holders c \<and>
         co_backend c' (other_slot s) = co_backend c (other_slot s) \<and>
         (ok \<longrightarrow> usable (co_backend c' s))"
  using assms
  by (auto simp: restore_target_def usable_def dest: ops_sound_preload split: option.splits if_splits)

lemma co_enter_exclusive:
  assumes "ops_sound ops" and "co_mode c = ''exclusive''" and "co_enter ops t s c = (ok, c')"
  shows "co_mode c' = ''exclusive'' \<and>
         (if ok then co_holders c' = (t, s) # co_holders c \<and>
                     evicted (co_backend c' (other_slot s)) \<and> usable (co_backend c' s)
          else co_holders c' = co_holders c)"
proof -
  obtain ok1 c1 where e: "evict_other ops s c = (ok1, c1)" by fastforce
  obtain ok2 c2 where r: "restore_target ops s c1 = (ok2, c2)" by fastforce
  show ?thesis
    using assms(2,3) e r evict_other_spec [OF assms(1) e] restore_target_spec [OF assms(1) r]
    by (cases ok1; cases ok2) (auto simp: co_enter_def co_locking_def)
qed

lemma co_step_inv:
  assumes ops: "ops_sound ops" and "co_step ops c e c'" and "co_inv c"
  shows "co_inv c'"
  using assms(2,3)
proof (induction rule: co_step.induct)
  case (enter c t s)
  show ?case
  proof (cases "co_mode c = ''exclusive''")
    case True
    obtain ok c' where en: "co_enter ops t s c = (ok, c')" by fastforce
    have "co_holders c = []" using enter True by (simp add: co_locking_def)
    then show ?thesis
      using co_enter_exclusive [OF ops True en] en by (cases ok) (auto simp: co_inv_def)
  next
    case False
    then show ?thesis using enter by (auto simp: co_enter_def co_inv_def co_locking_def)
  qed
next
  case (leave t s c)
  have "set (remove1 (t, s) (co_holders c)) \<subseteq> set (co_holders c)" by (rule set_remove1_subset)
  moreover have "length (remove1 (t, s) (co_holders c)) \<le> length (co_holders c)"
    by (simp add: length_remove1)
  ultimately show ?case using leave by (fastforce simp: co_exit_def co_inv_def co_locking_def)
qed

interpretation co_run: rel_invariant "co_step ops" "\<lambda>c. ops_sound ops \<longrightarrow> co_inv c" for ops
  by unfold_locales (blast intro: co_step_inv)

section \<open>Properties\<close>


definition demo_ops :: slot_ops where
  "demo_ops = \<lparr>op_unload = (\<lambda>b. Some (b\<lparr>sb_ready := False\<rparr>)), op_preload = (\<lambda>b. Some (b\<lparr>sb_ready := True\<rparr>))\<rparr>"

definition demo_backend :: slot_backend where
  "demo_backend = \<lparr>sb_has_unload = True, sb_has_preload = True, sb_has_ready = True, sb_ready = True\<rparr>"


end
