(* ===== verification/Watchdog.thy ===== *)
theory Watchdog
  imports Prelude
begin

text \<open>
  The accelerator watchdog (\<open>server/core/gpu_watchdog.py\<close>): platform detection, one probe per
  platform, and the hysteresis between raw probe results and the cached health flag that
  \<open>/readyz\<close> reads.  The host is an argument: the file system, the search path, the outcome of
  running a command, and the optional \<open>pycuda\<close>/\<open>pynvml\<close> libraries.  \<open>Path.exists\<close> may raise
  \<open>PermissionError\<close> when a parent directory is not searchable (every supported Python
  below 3.12 lets it through): that is \<open>None\<close>.  Publishing to the metrics registry is not
  modelled.
\<close>

section \<open>The host\<close>

datatype proc_outcome = ProcTimeout | ProcNotFound | ProcRaised | ProcExit int

text \<open>A library probe: it raised, or the number of devices it saw.\<close>

type_synonym dev_probe = "nat option"

record freq_entry =
  fe_exists :: "bool option"
  fe_read :: "string option"

record host =
  h_env :: env_map
  h_exists :: "string \<Rightarrow> bool option"
  h_read :: "string \<Rightarrow> string option"
  h_which :: "string \<Rightarrow> bool"
  h_run :: "string list \<Rightarrow> proc_outcome"
  h_devfreq :: "freq_entry list option"
  h_pycuda :: dev_probe
  h_nvml :: dev_probe

definition parse_interval :: "env_map \<Rightarrow> pyfloat" where
  "parse_interval env =
     (case env ''OVS_GPU_WATCHDOG_INTERVAL_S'' of
        None \<Rightarrow> Fin 5
      | Some raw \<Rightarrow>
          (if py_strip raw = [] then Fin 5
           else case py_float raw of
                  None \<Rightarrow> Fin 5
                | Some v \<Rightarrow> (if pf_less v 1 then Fin 1 else v)))"

definition run_command :: "host \<Rightarrow> string list \<Rightarrow> bool \<times> string" where
  "run_command h cmd =
     (case h_run h cmd of
        ProcTimeout \<Rightarrow> (False, ''probe_timeout'')
      | ProcNotFound \<Rightarrow> (False, ''probe_unavailable'')
      | ProcRaised \<Rightarrow> (False, ''probe_failed'')
      | ProcExit rc \<Rightarrow> (if rc \<noteq> 0 then (False, ''probe_failed'') else (True, ''ok'')))"

section \<open>Platform detection\<close>

definition env_lower :: "env_map \<Rightarrow> string \<Rightarrow> string" where
  "env_lower env k = py_lower (py_strip (case env k of None \<Rightarrow> [] | Some v \<Rightarrow> v))"

definition detect_rest :: "host \<Rightarrow> string option" where
  "detect_rest h =
     (case h_exists h ''/etc/nv_tegra_release'' of
        None \<Rightarrow> None
      | Some True \<Rightarrow> Some ''jetson''
      | Some False \<Rightarrow>
          (if h_which h ''tegrastats'' then Some ''jetson''
           else if h_which h ''hailortcli'' then Some ''hailo''
           else if h_which h ''nvidia-smi'' then Some ''desktop_cuda''
           else Some ''cpu_only''))"

definition detect_platform :: "host \<Rightarrow> string option" where
  "detect_platform h =
     (if env_lower (h_env h) ''LANGUAGE_MODE'' = ''rk'' \<or>
         py_startswith (env_lower (h_env h) ''RK_PLATFORM'') ''rk'' \<or>
         py_startswith (env_lower (h_env h) ''ASR_PLATFORM'') ''rk'' then Some ''rk''
      else (case h_exists h ''/sys/class/devfreq'' of
              None \<Rightarrow> None
            | Some False \<Rightarrow> detect_rest h
            | Some True \<Rightarrow>
                (case h_exists h ''/sys/kernel/debug/rknpu'' of
                   None \<Rightarrow> None
                 | Some True \<Rightarrow> Some ''rk''
                 | Some False \<Rightarrow> detect_rest h)))"

section \<open>Probes\<close>

text \<open>A probe returns a verdict and a reason token, or raises (\<open>None\<close>).\<close>

type_synonym verdict = "bool \<times> string"

definition check_jetson :: "host \<Rightarrow> verdict option" where
  "check_jetson h =
     (case h_exists h ''/etc/nv_tegra_release'' of
        None \<Rightarrow> None
      | Some _ \<Rightarrow>
          (let (ok, reason) = run_command h [''tegrastats'', ''--interval'', ''1000'']
           in if h_which h ''tegrastats'' \<and> (reason = ''probe_timeout'' \<or> ok) then Some (True, ''ok'')
              else if h_which h ''nvidia-smi'' then Some (run_command h [''nvidia-smi'', ''-L''])
              else (case h_pycuda h of
                      Some n \<Rightarrow> (if n > 0 then Some (True, ''ok'') else Some (False, ''probe_unavailable''))
                    | None \<Rightarrow> Some (False, ''probe_unavailable''))))"

text \<open>\<open>raw.lstrip("-").isdigit()\<close> on a non-empty reading (ASCII digits; other Unicode digits do
  not occur in a \<open>cur_freq\<close> file).\<close>

definition freq_number :: "string \<Rightarrow> bool" where
  "freq_number s =
     (let raw = py_strip s; d = lstrip_by (\<lambda>c. c = CHR ''-'') raw
      in raw \<noteq> [] \<and> d \<noteq> [] \<and> list_all is_digit_char d)"

fun scan_devfreq :: "freq_entry list \<Rightarrow> verdict option" where
  "scan_devfreq [] = Some (False, ''probe_unavailable'')"
| "scan_devfreq (e # es) =
     (case fe_exists e of
        None \<Rightarrow> None
      | Some False \<Rightarrow> scan_devfreq es
      | Some True \<Rightarrow>
          (case fe_read e of
             None \<Rightarrow> scan_devfreq es
           | Some s \<Rightarrow> (if freq_number s then Some (True, ''ok'') else scan_devfreq es)))"

definition check_devfreq :: "host \<Rightarrow> verdict option" where
  "check_devfreq h =
     (case h_exists h ''/sys/class/devfreq'' of
        None \<Rightarrow> None
      | Some False \<Rightarrow> Some (False, ''probe_unavailable'')
      | Some True \<Rightarrow> (case h_devfreq h of None \<Rightarrow> None | Some es \<Rightarrow> scan_devfreq es))"

definition check_rk :: "host \<Rightarrow> verdict option" where
  "check_rk h =
     (case h_exists h ''/sys/kernel/debug/rknpu/load'' of
        None \<Rightarrow> None
      | Some False \<Rightarrow> check_devfreq h
      | Some True \<Rightarrow>
          (case h_read h ''/sys/kernel/debug/rknpu/load'' of
             None \<Rightarrow> check_devfreq h
           | Some content \<Rightarrow> (if py_strip content \<noteq> [] then Some (True, ''ok'') else check_devfreq h)))"

definition check_hailo :: "host \<Rightarrow> verdict option" where
  "check_hailo h =
     (if \<not> h_which h ''hailortcli'' then Some (False, ''probe_unavailable'')
      else (let (ok, reason) = run_command h [''hailortcli'', ''fw-control'', ''identify'']
            in if ok then Some (True, ''ok'') else Some (False, reason)))"

definition check_desktop_cuda :: "host \<Rightarrow> verdict option" where
  "check_desktop_cuda h =
     (case h_nvml h of
        Some n \<Rightarrow> (if n > 0 then Some (True, ''ok'') else Some (False, ''probe_unavailable''))
      | None \<Rightarrow> (if h_which h ''nvidia-smi'' then Some (run_command h [''nvidia-smi'', ''-L''])
                else Some (False, ''probe_unavailable'')))"

definition check_cpu_only :: "host \<Rightarrow> verdict option" where
  "check_cpu_only h = Some (True, ''cpu_only'')"

definition probe_for :: "string \<Rightarrow> host \<Rightarrow> verdict option" where
  "probe_for platform =
     (if platform = ''jetson'' then check_jetson
      else if platform = ''rk'' then check_rk
      else if platform = ''hailo'' then check_hailo
      else if platform = ''desktop_cuda'' then check_desktop_cuda
      else check_cpu_only)"

definition check_once :: "string \<Rightarrow> host \<Rightarrow> verdict" where
  "check_once platform h =
     (case probe_for platform h of Some v \<Rightarrow> v | None \<Rightarrow> (False, ''probe_failed''))"

section \<open>The cached status\<close>

record wstatus =
  w_ok :: bool
  w_platform :: string
  w_reason :: string
  w_last_checked :: "real option"
  w_cons_fail :: nat
  w_cons_succ :: nat
  w_last_duration :: "real option"
  w_checks :: nat
  w_failures :: nat

definition init_status :: wstatus where
  "init_status =
     \<lparr>w_ok = True, w_platform = ''unknown'', w_reason = ''ok'', w_last_checked = None,
      w_cons_fail = 0, w_cons_succ = 0, w_last_duration = None, w_checks = 0, w_failures = 0\<rparr>"

record check =
  ck_ok :: bool
  ck_reason :: string
  ck_duration :: real
  ck_now :: real

definition apply_success :: "wstatus \<Rightarrow> wstatus" where
  "apply_success st =
     (let st1 = st\<lparr>w_cons_succ := w_cons_succ st + 1, w_cons_fail := 0\<rparr>
      in if \<not> w_ok st1 \<and> w_cons_succ st1 \<ge> 5 then st1\<lparr>w_ok := True, w_reason := ''ok''\<rparr> else st1)"

definition apply_failure :: "string \<Rightarrow> wstatus \<Rightarrow> wstatus" where
  "apply_failure reason st =
     (let st1 = st\<lparr>w_failures := w_failures st + 1, w_cons_fail := w_cons_fail st + 1, w_cons_succ := 0\<rparr>;
          st2 = (if w_ok st1 \<and> w_cons_fail st1 \<ge> 3 then st1\<lparr>w_ok := False, w_reason := reason\<rparr> else st1)
      in if \<not> w_ok st2 then st2\<lparr>w_reason := reason\<rparr> else st2)"

definition apply_check_result :: "wstatus \<Rightarrow> check \<Rightarrow> wstatus" where
  "apply_check_result st c =
     (let st1 = st\<lparr>w_last_checked := Some (ck_now c), w_last_duration := Some (ck_duration c),
                   w_checks := w_checks st + 1\<rparr>
      in if ck_ok c then apply_success st1 else apply_failure (ck_reason c) st1)"

text \<open>The loop: seed the platform, then one probe per iteration; the crash guard marks the status
  when the loop itself dies of something other than a cancellation.\<close>

definition seed_platform :: "host \<Rightarrow> wstatus \<Rightarrow> wstatus" where
  "seed_platform h st =
     (case detect_platform h of
        Some p \<Rightarrow> st\<lparr>w_platform := p, w_reason := ''ok''\<rparr>
      | None \<Rightarrow> st\<lparr>w_platform := ''cpu_only''\<rparr>)"

definition loop_iteration :: "wstatus \<Rightarrow> host \<times> real \<times> real \<Rightarrow> wstatus" where
  "loop_iteration st x =
     (case x of (h, dur, now) \<Rightarrow>
        (case check_once (w_platform st) h of (ok, reason) \<Rightarrow>
           apply_check_result st \<lparr>ck_ok = ok, ck_reason = reason, ck_duration = dur, ck_now = now\<rparr>))"

definition run_loop :: "host \<Rightarrow> (host \<times> real \<times> real) list \<Rightarrow> wstatus \<Rightarrow> wstatus" where
  "run_loop h0 xs st = foldl loop_iteration (seed_platform h0 st) xs"

definition crash_guard :: "wstatus \<Rightarrow> wstatus" where
  "crash_guard st = st\<lparr>w_ok := False, w_reason := ''watchdog_task_crashed''\<rparr>"

text \<open>The background task: absent, running or done, with the stop flag.\<close>

datatype wtask = NoTask | Running | TaskDone

definition watchdog_start :: "wtask \<times> bool \<Rightarrow> wtask \<times> bool" where
  "watchdog_start s = (case s of (t, stopping) \<Rightarrow> if t = Running then (t, stopping) else (Running, False))"

definition watchdog_stop :: "wtask \<times> bool \<Rightarrow> wtask \<times> bool" where
  "watchdog_stop s = (NoTask, True)"

section \<open>Hysteresis\<close>

text \<open>Health as a function of the raw results alone, the newest first: it is lost when the last
  three results failed and regained when the last five succeeded.\<close>

fun health :: "bool list \<Rightarrow> bool" where
  "health [] = True"
| "health (r # rs) =
     (if health rs then take 3 (r # rs) \<noteq> [False, False, False]
      else take 5 (r # rs) = [True, True, True, True, True])"

fun last_failure :: "check list \<Rightarrow> string" where
  "last_failure [] = ''ok''"
| "last_failure (c # cs) = (if ck_ok c then last_failure cs else ck_reason c)"

lemma apply_simps [simp]:
  "w_cons_succ (apply_check_result st c) = (if ck_ok c then Suc (w_cons_succ st) else 0)"
  "w_cons_fail (apply_check_result st c) = (if ck_ok c then 0 else Suc (w_cons_fail st))"
  "w_checks (apply_check_result st c) = Suc (w_checks st)"
  "w_failures (apply_check_result st c) = (if ck_ok c then w_failures st else Suc (w_failures st))"
  "w_platform (apply_check_result st c) = w_platform st"
  "w_ok (apply_check_result st c) =
     (if ck_ok c then w_ok st \<or> Suc (w_cons_succ st) \<ge> 5 else w_ok st \<and> \<not> Suc (w_cons_fail st) \<ge> 3)"
  by (auto simp: apply_check_result_def apply_success_def apply_failure_def Let_def)

lemma reason_apply:
  "\<not> w_ok (apply_check_result st c) \<Longrightarrow>
   w_reason (apply_check_result st c) = (if ck_ok c then w_reason st else ck_reason c)"
  by (auto simp: apply_check_result_def apply_success_def apply_failure_def Let_def split: if_splits)

lemma run_of_true: "n \<le> length (takeWhile (\<lambda>x. x) xs) \<longleftrightarrow> take n xs = replicate n True"
proof (induction xs arbitrary: n)
  case (Cons x xs)
  then show ?case by (cases n) (auto simp: Cons)
qed (auto dest: arg_cong [where f = length])

lemma run_of_false: "n \<le> length (takeWhile Not xs) \<longleftrightarrow> take n xs = replicate n False"
proof (induction xs arbitrary: n)
  case (Cons x xs)
  then show ?case by (cases n) (auto simp: Cons)
qed (auto dest: arg_cong [where f = length])

definition hyst_rel :: "check list \<Rightarrow> wstatus \<Rightarrow> bool" where
  "hyst_rel cs st \<longleftrightarrow>
     (let h = rev (map ck_ok cs)
      in w_ok st = health h \<and> w_cons_succ st = length (takeWhile (\<lambda>x. x) h) \<and>
         w_cons_fail st = length (takeWhile Not h) \<and> w_checks st = length cs \<and>
         w_failures st = length (filter (\<lambda>c. \<not> ck_ok c) cs) \<and>
         (\<not> w_ok st \<longrightarrow> w_reason st = last_failure (rev cs)))"

lemma hyst_step:
  assumes "hyst_rel cs st"
  shows "hyst_rel (cs @ [c]) (apply_check_result st c)"
proof -
  let ?h = "rev (map ck_ok cs)"
  have eqs: "w_ok st = health ?h" "w_cons_succ st = length (takeWhile (\<lambda>x. x) ?h)"
    "w_cons_fail st = length (takeWhile Not ?h)" "w_checks st = length cs"
    "w_failures st = length (filter (\<lambda>c. \<not> ck_ok c) cs)"
    "\<not> w_ok st \<longrightarrow> w_reason st = last_failure (rev cs)"
    using assms by (simp_all add: hyst_rel_def Let_def)
  have rep: "replicate 5 True = [True, True, True, True, True]" "replicate 3 False = [False, False, False]"
    by (simp_all add: numeral_eq_Suc)
  have t: "Suc (length (takeWhile (\<lambda>x. x) ?h)) \<ge> 5 \<longleftrightarrow> take 5 (True # ?h) = [True, True, True, True, True]"
    using run_of_true [of 5 "True # ?h"] by (simp add: rep)
  have f: "Suc (length (takeWhile Not ?h)) \<ge> 3 \<longleftrightarrow> take 3 (False # ?h) = [False, False, False]"
    using run_of_false [of 3 "False # ?h"] by (simp add: rep)
  have ok: "w_ok (apply_check_result st c) = health (ck_ok c # ?h)"
    by (cases "ck_ok c"; cases "health ?h") (use t f in \<open>simp_all add: eqs\<close>)
  have reason: "\<not> w_ok (apply_check_result st c) \<longrightarrow>
      w_reason (apply_check_result st c) = last_failure (rev (cs @ [c]))"
    using reason_apply [of st c] eqs(6) by auto
  show ?thesis
    unfolding hyst_rel_def Let_def using ok reason eqs by simp
qed

lemma hyst_run: "w_ok st \<and> w_cons_succ st = 0 \<and> w_cons_fail st = 0 \<and> w_checks st = 0 \<and> w_failures st = 0
    \<Longrightarrow> hyst_rel cs (foldl apply_check_result st cs)"
proof (induction cs rule: rev_induct)
  case Nil
  then show ?case by (simp add: hyst_rel_def)
next
  case (snoc c cs)
  then show ?case using hyst_step by simp
qed

text \<open>The results the loop feeds to the status, probe by probe.\<close>

fun loop_checks :: "string \<Rightarrow> (host \<times> real \<times> real) list \<Rightarrow> check list" where
  "loop_checks p [] = []"
| "loop_checks p ((h, dur, now) # xs) =
     \<lparr>ck_ok = fst (check_once p h), ck_reason = snd (check_once p h), ck_duration = dur, ck_now = now\<rparr>
     # loop_checks p xs"

lemma run_loop_checks:
  "foldl loop_iteration st xs = foldl apply_check_result st (loop_checks (w_platform st) xs)"
proof (induction xs arbitrary: st)
  case (Cons x xs)
  obtain h dur now where x: "x = (h, dur, now)" by (cases x)
  have "loop_iteration st x = apply_check_result st \<lparr>ck_ok = fst (check_once (w_platform st) h),
      ck_reason = snd (check_once (w_platform st) h), ck_duration = dur, ck_now = now\<rparr>"
    by (simp add: x loop_iteration_def split_beta)
  then show ?case by (simp add: x Cons.IH)
qed simp

lemma length_loop_checks [simp]: "length (loop_checks p xs) = length xs"
  by (induction p xs rule: loop_checks.induct) auto

lemma run_loop_hyst:
  "hyst_rel (loop_checks (w_platform (seed_platform h0 init_status)) xs) (run_loop h0 xs init_status)"
proof -
  let ?st = "seed_platform h0 init_status"
  have "w_ok ?st \<and> w_cons_succ ?st = 0 \<and> w_cons_fail ?st = 0 \<and> w_checks ?st = 0 \<and> w_failures ?st = 0"
    by (simp add: seed_platform_def init_status_def split: option.split)
  from hyst_run [OF this] show ?thesis by (simp add: run_loop_def run_loop_checks)
qed

section \<open>Properties\<close>

text \<open>C7: From startup on, after any sequence of probes of the host: the cached flag is exactly the
  three-failures / five-successes hysteresis of the raw results, the counters count them, and
  while it is down the reason is the one of the latest failed probe.\<close>
theorem watchdog_hysteresis:
  "let st = run_loop h0 xs init_status;
       cs = loop_checks (w_platform (seed_platform h0 init_status)) xs
   in w_ok st = health (rev (map ck_ok cs)) \<and>
      w_checks st = length xs \<and>
      w_failures st = length (filter (\<lambda>c. \<not> ck_ok c) cs) \<and>
      (w_ok st \<or> w_reason st = last_failure (rev cs))"
  using run_loop_hyst [of h0 xs] by (auto simp: hyst_rel_def Let_def)

text \<open>When the debug file system is not searchable (a process without root on a board that has
  \<open>/sys/class/devfreq\<close>, every Jetson included), detection raises, the platform becomes
  \<open>cpu_only\<close>, and from then on the watchdog reports healthy whatever the accelerator does.\<close>
theorem unreadable_debugfs_masks_failures:
  assumes "h_exists h0 ''/sys/class/devfreq'' = Some True"
    and "h_exists h0 ''/sys/kernel/debug/rknpu'' = None"
    and "h_env h0 = (\<lambda>_. None)"
  shows "w_ok (run_loop h0 xs init_status)"
proof -
  have "detect_platform h0 = None"
    using assms by (simp add: detect_platform_def env_lower_def py_lower_def py_strip_def py_startswith_def)
  then have p: "w_platform (seed_platform h0 init_status) = ''cpu_only''"
    by (simp add: seed_platform_def)
  have ok: "c \<in> set (loop_checks ''cpu_only'' xs) \<Longrightarrow> ck_ok c" for c
    by (induction "''cpu_only''" xs rule: loop_checks.induct)
      (auto simp: check_once_def probe_for_def check_cpu_only_def)
  have healthy: "list_all (\<lambda>x. x) h \<Longrightarrow> health h" for h
    by (induction h) auto
  have "health (rev (map ck_ok (loop_checks ''cpu_only'' xs)))"
    by (rule healthy) (use ok in \<open>auto simp: list_all_iff\<close>)
  then show ?thesis using run_loop_hyst [of h0 xs] p by (simp add: hyst_rel_def Let_def)
qed

definition demo_host :: host where
  "demo_host = \<lparr>h_env = (\<lambda>_. None),
     h_exists = (\<lambda>p. if p = ''/sys/kernel/debug/rknpu'' then None else Some True),
     h_read = (\<lambda>_. None), h_which = (\<lambda>_. True), h_run = (\<lambda>_. ProcExit 1),
     h_devfreq = Some [], h_pycuda = None, h_nvml = None\<rparr>"

theorem unreadable_debugfs_masks_failures_witness:
  "w_ok (run_loop demo_host (replicate 9 (demo_host, 0, 0)) init_status) \<and>
   check_once ''jetson'' demo_host = (False, ''probe_failed'')"
  using unreadable_debugfs_masks_failures [of demo_host "replicate 9 (demo_host, 0, 0)"]
  by (simp add: demo_host_def check_once_def probe_for_def check_jetson_def run_command_def)

end
