(* ===== verification/Segmenter.thy ===== *)
theory Segmenter
  imports Prelude
begin

text \<open>
  Automatic segmentation of long uploads (\<open>server/core/asr_segmenter.py\<close>): configuration, the
  fixed-length slicer, the packing of VAD speech regions, the choice between them, and the
  joining of the decoded texts.  Seconds are real numbers (the code's doubles without
  rounding); text is a list of code points.  The speech recogniser and the VAD session are
  arguments.  The slicing loop is a partial function whose value is \<open>Some\<close> exactly when it
  returns, and it is proved to return for every input.
\<close>

section \<open>Configuration\<close>

definition auto_segment_enabled :: "env_map \<Rightarrow> bool" where
  "auto_segment_enabled env =
     (case env ''OVS_ASR_AUTO_SEGMENT'' of
        None \<Rightarrow> True
      | Some raw \<Rightarrow> (if py_strip raw = [] then True else truthy raw))"

text \<open>What the segmenter reads of a backend: its name, and the four limit attributes in the
  order they are tried, \<open>None\<close> when absent or not convertible by \<open>float\<close>.\<close>

record 'r seg_backend =
  sg_name :: string
  sg_limits :: "pyfloat option list"
  sg_transcribe :: "'r"

definition seg_backend_name :: "'r seg_backend \<Rightarrow> string" where
  "seg_backend_name b = py_lower (py_strip (sg_name b))"

definition backend_chunks_internally :: "'r seg_backend \<Rightarrow> bool" where
  "backend_chunks_internally b \<longleftrightarrow>
     seg_backend_name b \<in> {''paraformer_trt'', ''trt_edgellm'', ''sherpa_asr''} \<or>
     py_startswith (seg_backend_name b) ''rk:''"

definition backend_declared_limit :: "'r seg_backend \<Rightarrow> real option" where
  "backend_declared_limit b = (if seg_backend_name b = ''sensevoice_trt'' then Some 10.5 else None)"

fun first_positive :: "pyfloat option list \<Rightarrow> pyfloat option" where
  "first_positive [] = None"
| "first_positive (None # vs) = first_positive vs"
| "first_positive (Some v # vs) = (if pf_greater v 0 then Some v else first_positive vs)"

definition resolve_max_segment_seconds :: "'r seg_backend \<Rightarrow> env_map \<Rightarrow> pyfloat" where
  "resolve_max_segment_seconds b env =
     (let from_env = (if env_truthy env ''OVS_ASR_MAX_SEGMENT_SECONDS''
                      then Some (env_float env ''OVS_ASR_MAX_SEGMENT_SECONDS'' 10.5) else None)
      in case from_env of
           Some v \<Rightarrow> (if pf_greater v 0 then v
                     else (case first_positive (sg_limits b) of Some w \<Rightarrow> w
                           | None \<Rightarrow> (if backend_chunks_internally b then Fin 0 else Fin 10.5)))
         | None \<Rightarrow> (case first_positive (sg_limits b) of Some w \<Rightarrow> w
                   | None \<Rightarrow> (if backend_chunks_internally b then Fin 0 else Fin 10.5)))"

text \<open>\<open>max(0.0, v)\<close>: a NaN is not greater than \<open>0.0\<close>, so \<open>0.0\<close> is kept.\<close>

definition clamp0 :: "pyfloat \<Rightarrow> pyfloat" where
  "clamp0 v = (if pf_greater v 0 then v else Fin 0)"

definition resolve_overlap_seconds :: "env_map \<Rightarrow> pyfloat" where
  "resolve_overlap_seconds env = clamp0 (env_float env ''OVS_ASR_SEGMENT_OVERLAP_SECONDS'' 0.4)"

definition resolve_vad_backend :: "env_map \<Rightarrow> string" where
  "resolve_vad_backend env =
     py_lower (py_strip (if env_truthy env ''OVS_ASR_SEGMENT_VAD''
                         then the (env ''OVS_ASR_SEGMENT_VAD'') else ''silero''))"

section \<open>Clips\<close>

record wav_clip =
  wc_rate :: nat
  wc_channels :: nat
  wc_width :: nat
  wc_frames_n :: nat
  wc_bytes :: "nat list"

definition wc_duration :: "wav_clip \<Rightarrow> real" where
  "wc_duration c = (if wc_rate c \<noteq> 0 then real (wc_frames_n c) / real (wc_rate c) else 0)"

text \<open>The frame range of a slice, and the clip it makes (the WAV header carries its fields).\<close>

definition slice_range :: "wav_clip \<Rightarrow> real \<Rightarrow> real \<Rightarrow> int \<times> int" where
  "slice_range c s e =
     (let i0 = max 0 (py_round (s * real (wc_rate c)));
          i1 = min (int (wc_frames_n c)) (py_round (e * real (wc_rate c)))
      in (i0, if i1 \<le> i0 then min (int (wc_frames_n c)) (i0 + 1) else i1))"

definition slice_wav :: "wav_clip \<Rightarrow> real \<Rightarrow> real \<Rightarrow> wav_clip" where
  "slice_wav c s e =
     (let bpf = wc_channels c * wc_width c;
          (i0, i1) = slice_range c s e;
          payload = drop (nat i0 * bpf) (take (nat i1 * bpf) (wc_bytes c))
      in \<lparr>wc_rate = wc_rate c, wc_channels = wc_channels c, wc_width = wc_width c,
          wc_frames_n = (if bpf = 0 then 0 else length payload div bpf), wc_bytes = payload\<rparr>)"

text \<open>Little-endian signed 16-bit samples; an odd number of bytes makes \<open>frombuffer\<close> raise.\<close>

definition sint16 :: "nat \<Rightarrow> nat \<Rightarrow> int" where
  "sint16 lo hi = (let v = int (lo + 256 * hi) in if v \<ge> 32768 then v - 65536 else v)"

fun pcm16 :: "nat list \<Rightarrow> int list option" where
  "pcm16 [] = Some []"
| "pcm16 [b] = None"
| "pcm16 (lo # hi # bs) = map_option ((#) (sint16 lo hi)) (pcm16 bs)"

fun channel_means :: "nat \<Rightarrow> nat \<Rightarrow> int list \<Rightarrow> real list" where
  "channel_means 0 ch xs = []"
| "channel_means (Suc n) ch xs =
     (real_of_int (sum_list (take ch xs)) / real ch) # channel_means n ch (drop ch xs)"

datatype mono = MonoRaised | MonoUnsupported | Mono "real list"

definition mono_float32 :: "wav_clip \<Rightarrow> mono" where
  "mono_float32 c =
     (if wc_width c \<noteq> 2 then MonoUnsupported
      else case pcm16 (wc_bytes c) of
             None \<Rightarrow> MonoRaised
           | Some pcm \<Rightarrow>
               (let xs = (if wc_channels c > 1
                          then channel_means (length pcm div wc_channels c) (wc_channels c) pcm
                          else map real_of_int pcm)
                in Mono (map (\<lambda>x. x / 32768) xs)))"

section \<open>Fixed slices\<close>

definition seg_eps :: real where "seg_eps = 1 / 10 ^ 9"

partial_function (option) slice_loop ::
    "real \<Rightarrow> real \<Rightarrow> real \<Rightarrow> real \<Rightarrow> (real \<times> real) list \<Rightarrow> (real \<times> real) list option" where
  "slice_loop dur mx stp start acc =
     (if start < dur - seg_eps
      then (let e = min dur (start + mx); acc' = acc @ [(start, e)]
            in if e \<ge> dur - seg_eps then Some acc' else slice_loop dur mx stp (start + stp) acc')
      else Some acc)"

text \<open>Folding a tail shorter than half a second into the slice before it.\<close>

definition fold_tail :: "real \<Rightarrow> (real \<times> real) list \<Rightarrow> (real \<times> real) list" where
  "fold_tail mx bs =
     (if length bs \<ge> 2 \<and> snd (last bs) - fst (last bs) < 0.5
      then (let prev_start = fst (bs ! (length bs - 2)); tail_end = snd (last bs)
            in take (length bs - 2) bs @ [(max prev_start (tail_end - mx), tail_end)])
      else bs)"

definition eff_overlap :: "pyfloat \<Rightarrow> real \<Rightarrow> real" where
  "eff_overlap ov mx =
     (case clamp0 ov of Fin v \<Rightarrow> min v (mx / 2) | PosInf \<Rightarrow> mx / 2 | _ \<Rightarrow> 0)"

definition fixed_segment_bounds :: "real \<Rightarrow> real \<Rightarrow> pyfloat \<Rightarrow> (real \<times> real) list option" where
  "fixed_segment_bounds dur mx ov =
     (if dur \<le> 0 \<or> mx \<le> 0 then Some []
      else if dur \<le> mx then Some [(0, dur)]
      else map_option (fold_tail mx) (slice_loop dur mx (mx - eff_overlap ov mx) 0 []))"

subsection \<open>The slices the loop produces\<close>

text \<open>The k-th slice, and what a complete run of the loop from \<open>start\<close> appends.\<close>

definition slice_at :: "real \<Rightarrow> real \<Rightarrow> real \<Rightarrow> real \<Rightarrow> nat \<Rightarrow> real \<times> real" where
  "slice_at dur mx stp start k = (start + real k * stp, min dur (start + real k * stp + mx))"

definition slices_upto :: "real \<Rightarrow> real \<Rightarrow> real \<Rightarrow> real \<Rightarrow> nat \<Rightarrow> (real \<times> real) list" where
  "slices_upto dur mx stp start n = map (slice_at dur mx stp start) [0..<n]"

text \<open>\<open>n\<close> is the number of slices: the last one is the first to reach the end.\<close>

definition slice_count :: "real \<Rightarrow> real \<Rightarrow> real \<Rightarrow> real \<Rightarrow> nat \<Rightarrow> bool" where
  "slice_count dur mx stp start n \<longleftrightarrow> 0 < n \<and>
     (\<forall>k < n. start + real k * stp < dur - seg_eps) \<and>
     (\<forall>k < n - 1. start + real k * stp + mx < dur - seg_eps) \<and>
     dur - seg_eps \<le> start + real (n - 1) * stp + mx"

lemma seg_eps_pos: "0 < seg_eps" by (simp add: seg_eps_def)

lemma slices_upto_Suc:
  "slices_upto dur mx stp start (Suc n) =
   slice_at dur mx stp start 0 # slices_upto dur mx stp (start + stp) n"
  unfolding slices_upto_def upt_conv_Cons [OF zero_less_Suc] map_Suc_upt [symmetric]
  by (simp add: slice_at_def algebra_simps)

lemma slice_count_Suc:
  assumes "slice_count dur mx stp (start + stp) n" and "start < dur - seg_eps"
    and "start + mx < dur - seg_eps"
  shows "slice_count dur mx stp start (Suc n)"
proof -
  have n: "0 < n" using assms(1) by (simp add: slice_count_def)
  have shift: "start + real (Suc k) * stp = (start + stp) + real k * stp" for k
    by (simp add: algebra_simps)
  have "start + real k * stp < dur - seg_eps" if "k < Suc n" for k
    using assms that by (cases k) (auto simp: slice_count_def shift simp del: of_nat_Suc)
  moreover have "start + real k * stp + mx < dur - seg_eps" if "k < n" for k
  proof (cases k)
    case (Suc j)
    then have "j < n - 1" using that by simp
    then show ?thesis using assms(1) Suc by (simp add: slice_count_def shift del: of_nat_Suc)
  qed (use assms(3) in simp)
  moreover have "dur - seg_eps \<le> start + real n * stp + mx"
    using assms(1) shift [of "n - 1"] n by (simp add: slice_count_def)
  ultimately show ?thesis by (simp add: slice_count_def)
qed

text \<open>The loop returns, with the steps as measure, and its result is those slices.\<close>

lemma slice_loop_returns:
  assumes "stp \<le> mx" and "start < dur - seg_eps" and "dur - start \<le> real m * stp + mx"
  shows "\<exists>n. slice_count dur mx stp start n \<and>
             slice_loop dur mx stp start acc = Some (acc @ slices_upto dur mx stp start n)"
  using assms(2,3)
proof (induction m arbitrary: start acc)
  case 0
  then have "dur - seg_eps \<le> min dur (start + mx)" using seg_eps_pos by auto
  then have "slice_loop dur mx stp start acc = Some (acc @ slices_upto dur mx stp start 1)"
    using 0 by (subst slice_loop.simps) (simp add: Let_def slices_upto_def slice_at_def)
  moreover have "slice_count dur mx stp start 1"
    using 0 seg_eps_pos by (simp add: slice_count_def)
  ultimately show ?case by blast
next
  case (Suc m)
  show ?case
  proof (cases "dur - seg_eps \<le> min dur (start + mx)")
    case True
    then have "slice_loop dur mx stp start acc = Some (acc @ slices_upto dur mx stp start 1)"
      using Suc.prems by (subst slice_loop.simps) (simp add: Let_def slices_upto_def slice_at_def)
    moreover have "slice_count dur mx stp start 1"
      using True Suc.prems by (simp add: slice_count_def)
    ultimately show ?thesis by blast
  next
    case False
    then have far: "start + mx < dur - seg_eps" using seg_eps_pos by auto
    let ?acc = "acc @ [(start, min dur (start + mx))]"
    have loop: "slice_loop dur mx stp start acc = slice_loop dur mx stp (start + stp) ?acc"
      using far Suc.prems(1) slice_loop.simps [of dur mx stp start acc] by (simp add: Let_def)
    have next_start: "start + stp < dur - seg_eps" using far assms(1) by linarith
    have "dur - (start + stp) \<le> real m * stp + mx" using Suc.prems by (simp add: algebra_simps)
    from Suc.IH [OF next_start this, of ?acc] obtain n where
      "slice_count dur mx stp (start + stp) n"
      "slice_loop dur mx stp (start + stp) ?acc = Some (?acc @ slices_upto dur mx stp (start + stp) n)"
      by blast
    then show ?thesis
      using loop slice_count_Suc [OF _ Suc.prems(1) far] slices_upto_Suc [of dur mx stp start n]
      by (intro exI [of _ "Suc n"]) (simp add: slice_at_def)
  qed
qed

lemma eff_overlap_bounds: "0 < mx \<Longrightarrow> 0 \<le> eff_overlap ov mx \<and> eff_overlap ov mx \<le> mx / 2"
  by (auto simp: eff_overlap_def clamp0_def pf_greater_def split: pyfloat.splits)

text \<open>What the slicer returns, in every case.\<close>

lemma fixed_segment_bounds_cases:
  assumes "0 < dur" and "0 < mx"
  shows "(dur \<le> mx \<and> fixed_segment_bounds dur mx ov = Some [(0, dur)]) \<or>
         (mx < dur \<and> (\<exists>n. slice_count dur mx (mx - eff_overlap ov mx) 0 n \<and>
            fixed_segment_bounds dur mx ov =
              Some (fold_tail mx (slices_upto dur mx (mx - eff_overlap ov mx) 0 n)))) \<or>
         (mx < dur \<and> dur \<le> seg_eps \<and> fixed_segment_bounds dur mx ov = Some [])"
proof (cases "dur \<le> mx")
  case True
  then show ?thesis using assms by (simp add: fixed_segment_bounds_def)
next
  case False
  let ?stp = "mx - eff_overlap ov mx"
  have stp: "0 < ?stp" "?stp \<le> mx" using eff_overlap_bounds [OF assms(2), of ov] assms(2) by auto
  show ?thesis
  proof (cases "0 < dur - seg_eps")
    case True
    obtain m :: nat where "dur / ?stp < real m" using reals_Archimedean2 by blast
    then have "dur - 0 \<le> real m * ?stp + mx" using stp assms by (simp add: field_simps)
    from slice_loop_returns [OF stp(2) True this, of "[]"] obtain n where
      "slice_count dur mx ?stp 0 n" "slice_loop dur mx ?stp 0 [] = Some (slices_upto dur mx ?stp 0 n)"
      by auto
    then show ?thesis using False assms by (auto simp: fixed_segment_bounds_def)
  next
    case tiny: False
    then show ?thesis using False assms
      by (simp add: fixed_segment_bounds_def slice_loop.simps fold_tail_def)
  qed
qed

lemma set_slices_upto: "x \<in> set (slices_upto dur mx stp start n) \<longleftrightarrow> (\<exists>k<n. x = slice_at dur mx stp start k)"
  by (auto simp: slices_upto_def)

definition covers :: "(real \<times> real) list \<Rightarrow> real \<Rightarrow> bool" where
  "covers bs t \<longleftrightarrow> (\<exists>x\<in>set bs. fst x \<le> t \<and> t < snd x)"

definition fits :: "real \<Rightarrow> real \<Rightarrow> real \<times> real \<Rightarrow> bool" where
  "fits dur mx x \<longleftrightarrow> 0 \<le> fst x \<and> fst x < snd x \<and> snd x \<le> dur \<and> snd x - fst x \<le> mx"

lemma slices_fit:
  assumes "slice_count dur mx stp 0 n" and "0 < mx" and "0 \<le> stp" and "k < n"
  shows "fits dur mx (slice_at dur mx stp 0 k)"
proof -
  have "0 \<le> real k * stp" using assms(3) by simp
  moreover have "real k * stp < dur - seg_eps" using assms(1,4) by (simp add: slice_count_def)
  ultimately show ?thesis using assms(2) seg_eps_pos by (auto simp: fits_def slice_at_def)
qed

lemma slice_end: "slice_count dur mx stp 0 n \<Longrightarrow> k < n - 1 \<Longrightarrow> snd (slice_at dur mx stp 0 k) = real k * stp + mx"
  using seg_eps_pos by (auto simp: slice_count_def slice_at_def min_def)

lemma slices_cover_upto:
  assumes "slice_count dur mx stp 0 n" and "stp \<le> mx" and "0 \<le> t"
  shows "k < n \<Longrightarrow> t < snd (slice_at dur mx stp 0 k) \<Longrightarrow>
         \<exists>j\<le>k. fst (slice_at dur mx stp 0 j) \<le> t \<and> t < snd (slice_at dur mx stp 0 j)"
proof (induction k)
  case 0
  then show ?case using assms(3) by (auto simp: slice_at_def)
next
  case (Suc k)
  show ?case
  proof (cases "t < snd (slice_at dur mx stp 0 k)")
    case True
    then show ?thesis using Suc le_SucI Suc_lessD by blast
  next
    case False
    then have "real k * stp + mx \<le> t" using slice_end [OF assms(1), of k] Suc.prems(1) by simp
    then have "fst (slice_at dur mx stp 0 (Suc k)) \<le> t" using assms(2) by (simp add: slice_at_def algebra_simps)
    then show ?thesis using Suc.prems by blast
  qed
qed

lemma slices_cover:
  assumes "slice_count dur mx stp 0 n" and "stp \<le> mx" and "0 \<le> t" and "t < dur - seg_eps"
  shows "\<exists>j<n. fst (slice_at dur mx stp 0 j) \<le> t \<and> t < snd (slice_at dur mx stp 0 j)"
proof -
  have n: "0 < n" and "dur - seg_eps \<le> 0 + real (n - 1) * stp + mx"
    using assms(1) unfolding slice_count_def by blast+
  then have "t < snd (slice_at dur mx stp 0 (n - 1))"
    using assms(4) seg_eps_pos by (auto simp: slice_at_def)
  then obtain j where j: "j \<le> n - 1"
      "fst (slice_at dur mx stp 0 j) \<le> t \<and> t < snd (slice_at dur mx stp 0 j)"
    using slices_cover_upto [OF assms(1-3), of "n - 1"] n by auto
  then have "j < n" using n by linarith
  with j show ?thesis by blast
qed

text \<open>The slices after the fold, written out.\<close>

lemma fold_tail_slices:
  assumes "slice_count dur mx stp 0 n"
  shows "fold_tail mx (slices_upto dur mx stp 0 n) = slices_upto dur mx stp 0 n \<or>
         (2 \<le> n \<and> snd (slice_at dur mx stp 0 (n - 1)) - real (n - 1) * stp < 0.5 \<and>
          fold_tail mx (slices_upto dur mx stp 0 n) =
            slices_upto dur mx stp 0 (n - 2) @
            [(max (real (n - 2) * stp) (snd (slice_at dur mx stp 0 (n - 1)) - mx),
              snd (slice_at dur mx stp 0 (n - 1)))])"
proof -
  let ?bs = "slices_upto dur mx stp 0 n"
  have n: "0 < n" using assms by (simp add: slice_count_def)
  have len: "length ?bs = n" by (simp add: slices_upto_def)
  have last: "last ?bs = slice_at dur mx stp 0 (n - 1)"
    using n by (simp add: slices_upto_def last_map)
  have nth: "2 \<le> n \<Longrightarrow> ?bs ! (n - 2) = slice_at dur mx stp 0 (n - 2)" by (simp add: slices_upto_def)
  have tk: "take (n - 2) ?bs = slices_upto dur mx stp 0 (n - 2)"
    by (simp add: slices_upto_def take_map)
  show ?thesis
    unfolding fold_tail_def len last Let_def tk using nth by (auto simp: slice_at_def)
qed

lemma merged_fits: "0 \<le> p \<Longrightarrow> p < e \<Longrightarrow> e \<le> dur \<Longrightarrow> 0 < mx \<Longrightarrow> fits dur mx (max p (e - mx), e)"
  by (auto simp: fits_def max_def)

lemma fold_tail_fits:
  assumes "slice_count dur mx stp 0 n" and "0 < mx" and "0 < stp"
    and "x \<in> set (fold_tail mx (slices_upto dur mx stp 0 n))"
  shows "fits dur mx x"
proof -
  note fit = slices_fit [OF assms(1,2) less_imp_le [OF assms(3)]]
  have n: "0 < n" using assms(1) by (simp add: slice_count_def)
  let ?e = "snd (slice_at dur mx stp 0 (n - 1))"
  have last: "fits dur mx (slice_at dur mx stp 0 (n - 1))" using fit n by simp
  have e: "real (n - 1) * stp < ?e" "?e \<le> dur" "0 \<le> real (n - 1) * stp"
    using last assms(3) by (auto simp: fits_def slice_at_def)
  have "real (n - 2) * stp \<le> real (n - 1) * stp" using assms(3) by (intro mult_right_mono) auto
  then have "real (n - 2) * stp < ?e" using e(1) by linarith
  then have merged: "fits dur mx (max (real (n - 2) * stp) (?e - mx), ?e)"
    using e(2) assms(2,3) by (intro merged_fits) auto
  from fold_tail_slices [OF assms(1)] show ?thesis
  proof
    assume "fold_tail mx (slices_upto dur mx stp 0 n) = slices_upto dur mx stp 0 n"
    then show ?thesis using assms(4) fit by (auto simp: set_slices_upto)
  next
    assume "2 \<le> n \<and> ?e - real (n - 1) * stp < 0.5 \<and>
          fold_tail mx (slices_upto dur mx stp 0 n) =
            slices_upto dur mx stp 0 (n - 2) @ [(max (real (n - 2) * stp) (?e - mx), ?e)]"
    then have "x \<in> set (slices_upto dur mx stp 0 (n - 2)) \<or> x = (max (real (n - 2) * stp) (?e - mx), ?e)"
      using assms(4) by auto
    then show ?thesis using fit merged by (auto simp: set_slices_upto)
  qed
qed

lemma fold_tail_covers:
  assumes sc: "slice_count dur mx (mx - ov) 0 n" and ov: "1 / 4 \<le> ov" "ov \<le> mx"
    and len: "2 \<le> length (fold_tail mx (slices_upto dur mx (mx - ov) 0 n))"
    and t: "0 \<le> t" "t < dur - seg_eps"
  shows "covers (fold_tail mx (slices_upto dur mx (mx - ov) 0 n)) t"
proof -
  let ?stp = "mx - ov" and ?s = "slice_at dur mx (mx - ov) 0"
  let ?e = "snd (?s (n - 1))" and ?p = "real (n - 2) * (mx - ov)"
  obtain j where j: "j < n" "fst (?s j) \<le> t" "t < snd (?s j)"
    using slices_cover [OF sc _ t] ov by auto
  from fold_tail_slices [OF sc] show ?thesis
  proof
    assume "fold_tail mx (slices_upto dur mx ?stp 0 n) = slices_upto dur mx ?stp 0 n"
    moreover have "?s j \<in> set (slices_upto dur mx ?stp 0 n)" using j(1) by (auto simp: set_slices_upto)
    ultimately show ?thesis using j(2,3) unfolding covers_def by metis
  next
    assume folded: "2 \<le> n \<and> ?e - real (n - 1) * ?stp < 0.5 \<and>
      fold_tail mx (slices_upto dur mx ?stp 0 n) = slices_upto dur mx ?stp 0 (n - 2) @ [(max ?p (?e - mx), ?e)]"
    then have "length (slices_upto dur mx ?stp 0 (n - 2)) \<ge> 1" using len by simp
    then have n3: "3 \<le> n" by (simp add: slices_upto_def)
    have cov: "covers (fold_tail mx (slices_upto dur mx ?stp 0 n)) t"
      if "(\<exists>k<n - 2. fst (?s k) \<le> t \<and> t < snd (?s k)) \<or> (max ?p (?e - mx) \<le> t \<and> t < ?e)"
    proof -
      let ?q = "(max ?p (?e - mx), ?e)"
      have "(\<exists>k<n - 2. ?s k \<in> set (slices_upto dur mx ?stp 0 (n - 2)) \<and> fst (?s k) \<le> t \<and> t < snd (?s k)) \<or>
            (fst ?q \<le> t \<and> t < snd ?q)"
        using that set_slices_upto [of _ dur mx ?stp 0 "n - 2"] by auto
      then show ?thesis using folded unfolding covers_def by auto
    qed
    have e: "dur - seg_eps \<le> ?e"
    proof -
      have "dur - seg_eps \<le> 0 + real (n - 1) * ?stp + mx" using sc unfolding slice_count_def by blast
      then show ?thesis using seg_eps_pos by (auto simp: slice_at_def)
    qed
    show ?thesis
    proof (cases "j < n - 2")
      case True
      then show ?thesis using j cov by blast
    next
      case False
      have "?p \<le> real j * ?stp" using False ov by (intro mult_right_mono) auto
      then have pt: "?p \<le> t" using j(2) by (simp add: slice_at_def)
      show ?thesis
      proof (cases "?e - mx \<le> t")
        case True
        then show ?thesis using cov pt e t(2) by auto
      next
        case before: False
        have n1: "real (n - 1) = real (n - 2) + 1" and n3': "real (n - 3) = real (n - 2) - 1"
          using n3 by (simp_all add: of_nat_diff)
        have "snd (?s (n - 3)) = real (n - 3) * ?stp + mx" using slice_end [OF sc] n3 by simp
        then have "snd (?s (n - 3)) = ?p + ov" by (simp add: n3' algebra_simps)
        moreover have "?e - mx < ?p + ov"
        proof -
          have "?e - (real (n - 2) + 1) * ?stp < 0.5" using folded n1 by metis
          then have "?e - (?p + ?stp) < 0.5" by (simp only: distrib_right mult_1)
          then show ?thesis using ov(1) by linarith
        qed
        moreover have "fst (?s (n - 3)) \<le> ?p" using ov by (simp add: slice_at_def n3' algebra_simps)
        ultimately have "fst (?s (n - 3)) \<le> t \<and> t < snd (?s (n - 3))" using before pt by linarith
        moreover have "n - 3 < n - 2" using n3 by linarith
        ultimately show ?thesis using cov by blast
      qed
    qed
  qed
qed

section \<open>Speech regions\<close>

datatype vad_event = VadNone | SpeechStart | SpeechEnd

text \<open>The session's \<open>process\<close> on one window, \<open>None\<close> when it raises.\<close>

type_synonym 's vad_process = "'s \<Rightarrow> real list \<Rightarrow> (vad_event \<times> 's) option"

text \<open>\<open>int(getattr(session, "WINDOW_16K", 256) or 256)\<close>\<close>

definition vad_window :: "nat \<Rightarrow> nat" where
  "vad_window w = (if w = 0 then 256 else w)"

function scan_windows ::
    "'s vad_process \<Rightarrow> nat \<Rightarrow> real list \<Rightarrow> nat \<Rightarrow> nat option \<Rightarrow> (nat \<times> nat) list \<Rightarrow> 's
     \<Rightarrow> (nat option \<times> (nat \<times> nat) list) option" where
  "scan_windows proc w rest i start regions ses =
     (if length rest < vad_window w then Some (start, regions)
      else (case proc ses (take (vad_window w) rest) of
              None \<Rightarrow> None
            | Some (ev, ses') \<Rightarrow>
                (let (start', regions') =
                   (case ev of
                      SpeechStart \<Rightarrow> (if start = None then Some i else start, regions)
                    | SpeechEnd \<Rightarrow> (case start of
                                      None \<Rightarrow> (None, regions)
                                    | Some s \<Rightarrow> (None, regions @ [(s, i + vad_window w)]))
                    | VadNone \<Rightarrow> (start, regions))
                 in scan_windows proc w (drop (vad_window w) rest) (i + vad_window w) start' regions' ses')))"
  by pat_completeness auto
termination
  by (relation "measure (\<lambda>(proc, w, rest, _). length rest)") (auto simp: vad_window_def)

declare scan_windows.simps [simp del]

definition pad_region :: "nat \<Rightarrow> nat \<Rightarrow> nat \<times> nat \<Rightarrow> (real \<times> real) list" where
  "pad_region rate tot r =
     (case r of (s, e) \<Rightarrow>
        (if real e - real s < 0.1 * real rate then []
         else (let pad = nat \<lfloor>0.1 * real rate\<rfloor>; s' = s - pad; e' = min tot (e + pad)
               in [(real s' / real rate, real e' / real rate)])))"

definition speech_regions_from_vad ::
    "'s vad_process \<Rightarrow> 's \<Rightarrow> nat \<Rightarrow> real list \<Rightarrow> nat \<Rightarrow> (real \<times> real) list option" where
  "speech_regions_from_vad proc ses w samples rate =
     (case scan_windows proc w samples 0 None [] ses of
        None \<Rightarrow> None
      | Some (start, regions) \<Rightarrow>
          (let tot = length samples;
               regions' = (case start of None \<Rightarrow> regions | Some s \<Rightarrow> regions @ [(s, tot)])
           in Some (concat (map (pad_region rate tot) regions'))))"

fun group_loop ::
    "real \<Rightarrow> pyfloat \<Rightarrow> (real \<times> real) list \<Rightarrow> (real \<times> real) option \<Rightarrow> (real \<times> real) list
     \<Rightarrow> (real \<times> real) list option" where
  "group_loop mx ov [] cur segs = Some (case cur of None \<Rightarrow> segs | Some c \<Rightarrow> segs @ [c])"
| "group_loop mx ov ((start, end) # rs) cur segs =
     (if end - start > mx then
        (let segs' = (case cur of None \<Rightarrow> segs | Some c \<Rightarrow> segs @ [c])
         in case fixed_segment_bounds (end - start) mx ov of
              None \<Rightarrow> None
            | Some bs \<Rightarrow> group_loop mx ov rs None (segs' @ map (\<lambda>(s, e). (start + s, start + e)) bs))
      else (case cur of
              None \<Rightarrow> group_loop mx ov rs (Some (start, end)) segs
            | Some (cs, ce) \<Rightarrow>
                (if end - cs \<le> mx then group_loop mx ov rs (Some (cs, end)) segs
                 else group_loop mx ov rs (Some (start, end)) (segs @ [(cs, ce)]))))"

definition group_regions :: "(real \<times> real) list \<Rightarrow> real \<Rightarrow> pyfloat \<Rightarrow> (real \<times> real) list option" where
  "group_regions regions mx ov = group_loop mx ov regions None []"

text \<open>The outcome of building a VAD session: it raised or returned nothing (\<open>None\<close>), or a session
  with its window size.\<close>

record 's vad_setup =
  vs_session :: "('s \<times> nat) option"
  vs_process :: "'s vad_process"

datatype plan = PlanRaised | Plan "(real \<times> real) list" string

definition fixed_plan :: "real \<Rightarrow> real \<Rightarrow> pyfloat \<Rightarrow> string \<Rightarrow> plan option" where
  "fixed_plan dur mx ov strategy = map_option (\<lambda>bs. Plan bs strategy) (fixed_segment_bounds dur mx ov)"

definition plan_vad :: "'s vad_setup \<Rightarrow> real list \<Rightarrow> nat \<Rightarrow> (real \<times> real) list option" where
  "plan_vad v samples rate =
     (case vs_session v of
        None \<Rightarrow> None
      | Some (ses, w) \<Rightarrow> speech_regions_from_vad (vs_process v) ses w samples rate)"

definition plan_segments ::
    "'s vad_setup \<Rightarrow> wav_clip \<Rightarrow> real \<Rightarrow> pyfloat \<Rightarrow> string \<Rightarrow> plan option" where
  "plan_segments v c mx ov vad_backend =
     (let dur = wc_duration c in
      if dur \<le> mx then Some (Plan [(0, dur)] ''single'')
      else if vad_backend \<in> {''none'', ''off'', ''disabled'', []} then fixed_plan dur mx ov ''fixed''
      else (case mono_float32 c of
              MonoRaised \<Rightarrow> Some PlanRaised
            | MonoUnsupported \<Rightarrow> fixed_plan dur mx ov ''fixed_vad_unavailable''
            | Mono samples \<Rightarrow>
                (if wc_rate c \<noteq> 16000 then fixed_plan dur mx ov ''fixed_vad_unavailable''
                 else (case plan_vad v samples (wc_rate c) of
                         None \<Rightarrow> fixed_plan dur mx ov ''fixed_vad_unavailable''
                       | Some [] \<Rightarrow> fixed_plan dur mx ov ''fixed_vad_empty''
                       | Some regions \<Rightarrow>
                           (case group_regions regions mx ov of
                              None \<Rightarrow> None
                            | Some [] \<Rightarrow> fixed_plan dur mx ov ''fixed_vad_empty''
                            | Some bs \<Rightarrow> Some (Plan bs ''vad''))))))"

section \<open>Joining the texts\<close>

definition is_cjk :: "nat \<Rightarrow> bool" where
  "is_cjk cp \<longleftrightarrow>
     (0x3000 \<le> cp \<and> cp \<le> 0x303F) \<or> (0x3040 \<le> cp \<and> cp \<le> 0x30FF) \<or> (0x3400 \<le> cp \<and> cp \<le> 0x4DBF) \<or>
     (0x4E00 \<le> cp \<and> cp \<le> 0x9FFF) \<or> (0xF900 \<le> cp \<and> cp \<le> 0xFAFF) \<or> (0xFF00 \<le> cp \<and> cp \<le> 0xFFEF) \<or>
     (0x20000 \<le> cp \<and> cp \<le> 0x2FA1F) \<or> (0xAC00 \<le> cp \<and> cp \<le> 0xD7AF)"

text \<open>Is the repeat of length \<open>n\<close> one that may be dropped?\<close>

definition droppable :: "cptext \<Rightarrow> cptext \<Rightarrow> nat \<Rightarrow> bool" where
  "droppable prev cur n \<longleftrightarrow>
     (let head = take n cur; before = take (length prev - n) prev; after = drop n cur
      in py_endswith prev head \<and>
         (list_all is_cjk head \<or>
          ((before = [] \<or> cp_isspace (last before)) \<and> (after = [] \<or> cp_isspace (hd after)))))"

fun strip_from :: "cptext \<Rightarrow> cptext \<Rightarrow> nat \<Rightarrow> cptext" where
  "strip_from prev cur 0 = cur"
| "strip_from prev cur (Suc n) =
     (if droppable prev cur (Suc n) then cp_lstrip (drop (Suc n) cur) else strip_from prev cur n)"

definition strip_overlap_repeat :: "cptext \<Rightarrow> cptext \<Rightarrow> cptext" where
  "strip_overlap_repeat prev cur =
     (if prev = [] \<or> cur = [] then cur
      else strip_from prev cur (min (min (length prev) (length cur)) 60))"

definition join_piece :: "cptext \<Rightarrow> cptext \<Rightarrow> cptext" where
  "join_piece out raw =
     (let piece = cp_strip raw in
      if piece = [] then out
      else if out = [] then piece
      else (let p = strip_overlap_repeat out piece in
            if p = [] then out
            else if cp_isspace (last out) \<or> cp_isspace (hd p) then out @ p
            else if is_cjk (last out) \<and> is_cjk (hd p) then out @ p
            else out @ [32] @ p))"

definition join_segment_texts :: "cptext list \<Rightarrow> cptext" where
  "join_segment_texts parts = foldl join_piece [] parts"

section \<open>The entry point\<close>

text \<open>What the \<open>wave\<close> module reads from the payload; \<open>None\<close> when it raises.\<close>

definition probe_wav :: "wav_clip option \<Rightarrow> wav_clip option" where
  "probe_wav w =
     (case w of
        None \<Rightarrow> None
      | Some c \<Rightarrow>
          (if wc_rate c = 0 \<or> wc_frames_n c = 0 \<or> wc_bytes c = [] then None
           else Some (c\<lparr>wc_channels := (if wc_channels c = 0 then 1 else wc_channels c),
                        wc_width := (if wc_width c = 0 then 2 else wc_width c)\<rparr>)))"

definition wav_duration_seconds :: "wav_clip option \<Rightarrow> real" where
  "wav_duration_seconds w = (case probe_wav w of None \<Rightarrow> 0 | Some c \<Rightarrow> wc_duration c)"

record decoded_segment =
  ds_index :: nat
  ds_start :: real
  ds_end :: real
  ds_text :: cptext
  ds_language :: "string option"

record segmented =
  st_text :: cptext
  st_language :: "string option"
  st_segments :: "decoded_segment list"
  st_duration :: real
  st_strategy :: string

definition ds_duration :: "decoded_segment \<Rightarrow> real" where
  "ds_duration d = max 0 (ds_end d - ds_start d)"

type_synonym recognizer = "wav_clip \<Rightarrow> cptext \<times> string option"

fun decode_segments ::
    "recognizer \<Rightarrow> wav_clip \<Rightarrow> nat \<Rightarrow> (real \<times> real) list \<Rightarrow> decoded_segment list" where
  "decode_segments rec c i [] = []"
| "decode_segments rec c i ((s, e) # bs) =
     (let (text, lang) = rec (slice_wav c s e)
      in \<lparr>ds_index = i, ds_start = s, ds_end = e, ds_text = text, ds_language = lang\<rparr>
         # decode_segments rec c (Suc i) bs)"

text \<open>\<open>max(dict.fromkeys(languages), key=languages.count)\<close>: the first of the most frequent.\<close>

fun best_by_count :: "string list \<Rightarrow> string option \<Rightarrow> string list \<Rightarrow> string option" where
  "best_by_count all best [] = best"
| "best_by_count all best (l # ls) =
     (case best of
        None \<Rightarrow> best_by_count all (Some l) ls
      | Some b \<Rightarrow> best_by_count all (if count_list all l > count_list all b then Some l else Some b) ls)"

definition segment_languages :: "decoded_segment list \<Rightarrow> string list" where
  "segment_languages ds =
     concat (map (\<lambda>d. case ds_language d of None \<Rightarrow> [] | Some l \<Rightarrow> if l = [] then [] else [l]) ds)"

definition resolve_language :: "string list \<Rightarrow> string option" where
  "resolve_language ls = best_by_count ls None (rev (remdups (rev ls)))"

datatype seg_outcome = SingleShot | SegRaised | Segmented segmented

definition transcribe_bounds ::
    "recognizer \<Rightarrow> wav_clip \<Rightarrow> (real \<times> real) list \<Rightarrow> string \<Rightarrow> segmented" where
  "transcribe_bounds rec c bs strategy =
     (let ds = decode_segments rec c 0 bs
      in \<lparr>st_text = join_segment_texts (map ds_text ds),
          st_language = resolve_language (segment_languages ds),
          st_segments = ds, st_duration = wc_duration c, st_strategy = strategy\<rparr>)"

text \<open>The outer \<open>None\<close> would be a run that does not return.\<close>

definition maybe_transcribe_segmented ::
    "recognizer seg_backend \<Rightarrow> wav_clip option \<Rightarrow> env_map \<Rightarrow> 's vad_setup \<Rightarrow> seg_outcome option" where
  "maybe_transcribe_segmented b wav env v =
     (if \<not> auto_segment_enabled env then Some SingleShot
      else
        (case resolve_max_segment_seconds b env of
           Fin mx \<Rightarrow>
             (if mx \<le> 0 then Some SingleShot
              else (case probe_wav wav of
                      None \<Rightarrow> Some SingleShot
                    | Some c \<Rightarrow>
                        (if wc_duration c \<le> mx then Some SingleShot
                         else (case plan_segments v c mx (resolve_overlap_seconds env)
                                      (resolve_vad_backend env) of
                                 None \<Rightarrow> None
                               | Some PlanRaised \<Rightarrow> Some SegRaised
                               | Some (Plan bs strategy) \<Rightarrow>
                                   (if length bs \<le> 1 then Some SingleShot
                                    else Some (Segmented (transcribe_bounds (sg_transcribe b) c bs strategy)))))))
         | _ \<Rightarrow> Some SingleShot))"

section \<open>Lemmas on planning\<close>

lemma first_positive_greater: "first_positive vs = Some v \<Longrightarrow> pf_greater v 0"
  by (induction vs rule: first_positive.induct) (auto split: if_splits)

lemma resolve_max_cases: "resolve_max_segment_seconds b env = v \<Longrightarrow> pf_greater v 0 \<or> v = Fin 0"
  by (auto simp: resolve_max_segment_seconds_def Let_def pf_greater_def
      dest!: first_positive_greater split: option.splits if_splits pyfloat.splits)

lemma fixed_bounds_short:
  assumes "0 < dur" and "0 < mx"
  shows "\<exists>bs. fixed_segment_bounds dur mx ov = Some bs \<and> (\<forall>x\<in>set bs. fits dur mx x)"
proof -
  have stp: "0 < mx - eff_overlap ov mx" using eff_overlap_bounds [OF assms(2), of ov] assms(2) by linarith
  from fixed_segment_bounds_cases [OF assms, of ov] show ?thesis
  proof (elim disjE conjE exE)
    fix n
    assume "slice_count dur mx (mx - eff_overlap ov mx) 0 n"
      and "fixed_segment_bounds dur mx ov =
             Some (fold_tail mx (slices_upto dur mx (mx - eff_overlap ov mx) 0 n))"
    then show ?thesis using fold_tail_fits [OF _ assms(2) stp] by blast
  qed (use assms in \<open>auto simp: fits_def\<close>)
qed

definition short :: "real \<Rightarrow> real \<times> real \<Rightarrow> bool" where
  "short mx x \<longleftrightarrow> snd x - fst x \<le> mx"

lemma fits_short: "fits dur mx x \<Longrightarrow> short mx x"
  by (simp add: fits_def short_def)

lemma group_loop_short:
  "0 < mx \<Longrightarrow> list_all (short mx) segs \<Longrightarrow> pred_option (short mx) cur \<Longrightarrow>
   \<exists>bs. group_loop mx ov rs cur segs = Some bs \<and> list_all (short mx) bs"
proof (induction mx ov rs cur segs rule: group_loop.induct)
  case (1 mx ov cur segs)
  then show ?case by (auto split: option.splits)
next
  case (2 mx ov start stop rs cur segs)
  show ?case
  proof (cases "stop - start > mx")
    case True
    let ?segs = "case cur of None \<Rightarrow> segs | Some c \<Rightarrow> segs @ [c]"
    obtain bs where bs: "fixed_segment_bounds (stop - start) mx ov = Some bs"
      "\<forall>x\<in>set bs. fits (stop - start) mx x"
      using fixed_bounds_short [of "stop - start" mx ov] True "2.prems"(1) by auto
    have "list_all (short mx) ?segs" using "2.prems"(2,3) by (auto split: option.splits)
    moreover have "list_all (short mx) (map (\<lambda>(s, e). (start + s, start + e)) bs)"
      using bs(2) by (auto simp: list_all_iff short_def fits_def)
    ultimately have "list_all (short mx) (?segs @ map (\<lambda>(s, e). (start + s, start + e)) bs)"
      by (simp add: list_all_append)
    from 2(1) [OF True refl bs(1) "2.prems"(1) this] show ?thesis using True bs(1) by simp
  next
    case False
    then have now: "short mx (start, stop)" by (simp add: short_def)
    show ?thesis
    proof (cases cur)
      case None
      then show ?thesis using 2 now False by simp
    next
      case (Some c)
      obtain cs ce where c: "c = (cs, ce)" by fastforce
      then have "short mx (cs, ce)" using "2.prems"(3) Some by simp
      show ?thesis
      proof (cases "stop - cs \<le> mx")
        case True
        then have "short mx (cs, stop)" by (simp add: short_def)
        then show ?thesis using 2(3) [OF False Some c [symmetric] True] "2.prems" Some c True False by simp
      next
        case far: False
        then show ?thesis
          using 2(4) [OF False Some c [symmetric] far] "2.prems" \<open>short mx (cs, ce)\<close> Some c False now by simp
      qed
    qed
  qed
qed

lemma group_regions_short:
  "0 < mx \<Longrightarrow> \<exists>bs. group_regions rs mx ov = Some bs \<and> list_all (short mx) bs"
  unfolding group_regions_def by (rule group_loop_short) simp_all

lemma plan_segments_short:
  assumes "0 < mx" and "mx < wc_duration c"
  shows "plan_segments v c mx ov vb = Some PlanRaised \<or>
         (\<exists>bs st. plan_segments v c mx ov vb = Some (Plan bs st) \<and> list_all (short mx) bs)"
proof -
  have dur: "0 < wc_duration c" using assms by linarith
  obtain bs where bs: "fixed_segment_bounds (wc_duration c) mx ov = Some bs" "list_all (short mx) bs"
    using fixed_bounds_short [OF dur assms(1)] fits_short by (metis list_all_iff)
  have fixed: "fixed_plan (wc_duration c) mx ov st = Some (Plan bs st)" for st
    using bs by (simp add: fixed_plan_def)
  show ?thesis
  proof (cases "plan_vad v (case mono_float32 c of Mono xs \<Rightarrow> xs | _ \<Rightarrow> []) (wc_rate c)")
    case None
    then show ?thesis
      using assms(2) fixed bs(2) by (auto simp: plan_segments_def Let_def split: mono.splits)
  next
    case (Some regions)
    obtain gs where "group_regions regions mx ov = Some gs" "list_all (short mx) gs"
      using group_regions_short [OF assms(1)] by blast
    with Some show ?thesis
      using assms(2) fixed bs(2)
      by (auto simp: plan_segments_def Let_def split: mono.splits list.splits)
  qed
qed

lemma length_decode_segments [simp]: "length (decode_segments rec c i bs) = length bs"
  by (induction bs arbitrary: i) (auto simp: split_beta)

lemma decode_segments_bounds:
  "map (\<lambda>d. (ds_start d, ds_end d)) (decode_segments rec c i bs) = bs"
  by (induction bs arbitrary: i) (auto simp: split_beta)

text \<open>A slice within the limit has at most one frame more than the limit's worth.\<close>

lemma slice_frames_bound:
  assumes "short mx (s, e)" and "0 < mx"
  shows "real (wc_frames_n (slice_wav c s e)) \<le> mx * real (wc_rate c) + 1"
proof -
  let ?r = "real (wc_rate c)"
  obtain i0 i1 where i: "slice_range c s e = (i0, i1)" by fastforce
  have "e * ?r - s * ?r \<le> mx * ?r"
    using assms(1) by (simp add: short_def left_diff_distrib [symmetric] mult_right_mono)
  then have diff: "of_int (py_round (e * ?r)) - of_int (py_round (s * ?r)) \<le> mx * ?r + 1"
    using py_round_bounds [of "e * ?r"] py_round_bounds [of "s * ?r"] by linarith
  have nn: "0 \<le> mx * ?r" using assms(2) by simp
  have i0: "0 \<le> i0" "py_round (s * ?r) \<le> i0" using i by (auto simp: slice_range_def Let_def)
  have "i1 \<le> py_round (e * ?r) \<or> i1 \<le> i0 + 1"
    using i by (auto simp: slice_range_def Let_def split: if_splits)
  then have "real_of_int (i1 - i0) \<le> mx * ?r + 1"
  proof
    assume "i1 \<le> py_round (e * ?r)"
    then have "i1 - i0 \<le> py_round (e * ?r) - py_round (s * ?r)" using i0 by linarith
    then show ?thesis using diff by linarith
  qed (use nn in linarith)
  moreover have "real (nat i1 - nat i0) \<le> real_of_int (i1 - i0) \<or> nat i1 - nat i0 = 0"
    using i0 by linarith
  ultimately have n: "real (nat i1 - nat i0) \<le> mx * ?r + 1" using nn by auto
  let ?b = "wc_channels c * wc_width c"
  have "wc_frames_n (slice_wav c s e) \<le> nat i1 - nat i0"
  proof (cases "?b = 0")
    case False
    have "length (drop (nat i0 * ?b) (take (nat i1 * ?b) (wc_bytes c))) \<le> (nat i1 - nat i0) * ?b"
      by (simp add: diff_mult_distrib)
    then have "length (drop (nat i0 * ?b) (take (nat i1 * ?b) (wc_bytes c))) div ?b \<le> nat i1 - nat i0"
      using False by (metis div_le_mono nonzero_mult_div_cancel_right)
    then show ?thesis using i False by (simp add: slice_wav_def Let_def)
  qed (use i in \<open>simp add: slice_wav_def Let_def\<close>)
  then show ?thesis using n by linarith
qed

section \<open>Lemmas on the texts\<close>

lemma strip_from_spec:
  "\<exists>pre ws. cur = pre @ ws @ strip_from prev cur n \<and> py_endswith prev pre \<and> length pre \<le> n \<and>
            list_all cp_isspace ws"
proof (induction n)
  case 0
  show ?case by (intro exI [of _ "[]"]) (simp add: py_endswith_def)
next
  case (Suc n)
  show ?case
  proof (cases "droppable prev cur (Suc n)")
    case True
    obtain ws where ws: "drop (Suc n) cur = ws @ cp_lstrip (drop (Suc n) cur)" "\<forall>x\<in>set ws. cp_isspace x"
      using lstrip_by_append [of "drop (Suc n) cur" cp_isspace] by auto
    have eq: "strip_from prev cur (Suc n) = cp_lstrip (drop (Suc n) cur)" using True by simp
    have "cur = take (Suc n) cur @ ws @ strip_from prev cur (Suc n)"
      unfolding eq ws(1) [symmetric] by (rule append_take_drop_id [symmetric])
    moreover have "py_endswith prev (take (Suc n) cur)" using True by (simp add: droppable_def Let_def)
    moreover have "length (take (Suc n) cur) \<le> Suc n" "list_all cp_isspace ws"
      using ws(2) by (simp_all add: list_all_iff)
    ultimately show ?thesis by blast
  next
    case False
    then show ?thesis using Suc le_SucI by fastforce
  qed
qed

lemma strip_overlap_repeat_spec:
  "\<exists>pre ws. cur = pre @ ws @ strip_overlap_repeat prev cur \<and> py_endswith prev pre \<and> length pre \<le> 60 \<and>
            list_all cp_isspace ws"
proof (cases "prev = [] \<or> cur = []")
  case True
  then show ?thesis
    by (intro exI [of _ "[]"]) (auto simp: strip_overlap_repeat_def py_endswith_def)
next
  case False
  obtain pre ws where "cur = pre @ ws @ strip_from prev cur (min (min (length prev) (length cur)) 60)"
    "py_endswith prev pre" "length pre \<le> min (min (length prev) (length cur)) 60" "list_all cp_isspace ws"
    using strip_from_spec by blast
  then show ?thesis using False
    by (intro exI [of _ pre] exI [of _ ws]) (simp add: strip_overlap_repeat_def)
qed

section \<open>Properties\<close>



text \<open>A clip (or a VAD region) that exceeds the limit by less than the fold threshold allows
  yields a single slice that starts after its beginning: the audio before \<open>dur - mx\<close> is in no
  slice.  With the default limit and overlap this is any length between 10.5 and 10.6 s.\<close>
theorem short_overrun_drops_head:
  assumes "1 / 2 \<le> mx" and "mx + seg_eps < dur" and "dur < mx - eff_overlap ov mx + 1 / 2"
  shows "fixed_segment_bounds dur mx ov = Some [(dur - mx, dur)] \<and>
         (\<forall>t. t < dur - mx \<longrightarrow> \<not> covers (the (fixed_segment_bounds dur mx ov)) t)"
proof -
  let ?o = "eff_overlap ov mx"
  have o: "0 \<le> ?o" "?o \<le> mx / 2" using eff_overlap_bounds [of mx ov] assms(1) by auto
  have stp: "mx - ?o < dur - seg_eps" "dur \<le> (mx - ?o) + mx" using assms o by linarith+
  have first: "min dur mx = mx" "\<not> dur - seg_eps \<le> mx" "0 < dur - seg_eps"
    using assms seg_eps_pos by auto
  have second: "min dur ((mx - ?o) + mx) = dur" "dur - seg_eps \<le> dur" using stp seg_eps_pos by auto
  have "slice_loop dur mx (mx - ?o) (mx - ?o) [(0, mx)] = Some [(0, mx), (mx - ?o, dur)]"
    using stp(1) second by (subst slice_loop.simps) (simp add: Let_def)
  then have "slice_loop dur mx (mx - ?o) 0 [] = Some [(0, mx), (mx - ?o, dur)]"
    using first by (subst slice_loop.simps) (simp add: Let_def)
  then have "fixed_segment_bounds dur mx ov = Some [(dur - mx, dur)]"
    using assms seg_eps_pos by (simp add: fixed_segment_bounds_def fold_tail_def Let_def)
  then show ?thesis by (simp add: covers_def)
qed

theorem short_overrun_drops_head_witness:
  "fixed_segment_bounds 10.55 10.5 (Fin 0.4) = Some [(0.05, 10.55)]"
  using short_overrun_drops_head [of "10.5" "10.55" "Fin 0.4"]
  by (simp add: seg_eps_def eff_overlap_def clamp0_def pf_greater_def)

text \<open>The segmented decode always returns; when it decodes in segments there are at least two,
  the clip was longer than the limit, every chunk handed to the recogniser holds at most the
  limit's worth of frames plus one, and the text is the join of the segments' texts.\<close>
theorem segmented_decode_fits:
  "\<exists>out. maybe_transcribe_segmented b wav env v = Some out \<and>
     (case out of
        Segmented r \<Rightarrow>
          (\<exists>mx c. resolve_max_segment_seconds b env = Fin mx \<and> probe_wav wav = Some c \<and>
             0 < mx \<and> mx < wc_duration c \<and> 2 \<le> length (st_segments r) \<and>
             list_all (\<lambda>d. real (wc_frames_n (slice_wav c (ds_start d) (ds_end d)))
                           \<le> mx * real (wc_rate c) + 1) (st_segments r) \<and>
             st_text r = join_segment_texts (map ds_text (st_segments r)))
      | _ \<Rightarrow> True)"
proof (cases "auto_segment_enabled env")
  case enabled: True
  show ?thesis
  proof (cases "resolve_max_segment_seconds b env")
    case (Fin mx)
    show ?thesis
    proof (cases "mx \<le> 0")
      case False
      show ?thesis
      proof (cases "probe_wav wav")
        case (Some c)
        show ?thesis
        proof (cases "wc_duration c \<le> mx")
          case long: False
          have mx: "0 < mx" "mx < wc_duration c" using False long by auto
          from plan_segments_short [OF mx, of v "resolve_overlap_seconds env" "resolve_vad_backend env"]
          show ?thesis
          proof (elim disjE exE conjE)
            fix bs st
            assume plan: "plan_segments v c mx (resolve_overlap_seconds env) (resolve_vad_backend env)
                            = Some (Plan bs st)" and short: "list_all (short mx) bs"
            show ?thesis
            proof (cases "length bs \<le> 1")
              case few: False
              let ?ds = "decode_segments (sg_transcribe b) c 0 bs"
              have "list_all (\<lambda>x. real (wc_frames_n (slice_wav c (fst x) (snd x)))
                           \<le> mx * real (wc_rate c) + 1) (map (\<lambda>d. (ds_start d, ds_end d)) ?ds)"
                using short slice_frames_bound [OF _ mx(1)]
                unfolding decode_segments_bounds by (auto simp: list_all_iff)
              then show ?thesis
                using enabled Fin False Some long plan few mx
                by (simp add: maybe_transcribe_segmented_def transcribe_bounds_def Let_def list_all_iff)
            qed (use enabled Fin False Some long plan in \<open>simp add: maybe_transcribe_segmented_def\<close>)
          qed (use enabled Fin False Some long in \<open>simp add: maybe_transcribe_segmented_def\<close>)
        qed (use enabled Fin False Some in \<open>simp add: maybe_transcribe_segmented_def\<close>)
      qed (use enabled Fin False in \<open>simp add: maybe_transcribe_segmented_def\<close>)
    qed (use enabled Fin in \<open>simp add: maybe_transcribe_segmented_def\<close>)
  qed (use enabled in \<open>simp_all add: maybe_transcribe_segmented_def\<close>)
qed (simp add: maybe_transcribe_segmented_def)

text \<open>Joining loses no text: adding a part leaves what was joined unchanged and appends the part
  without a leading run that the joined text already ends with (at most 60 characters) and
  the white space around it, after at most one space.\<close>
theorem join_conserves_text:
  "\<exists>pre ws sep rest.
     join_segment_texts (parts @ [raw]) = join_segment_texts parts @ sep @ rest \<and>
     cp_strip raw = pre @ ws @ rest \<and> py_endswith (join_segment_texts parts) pre \<and>
     length pre \<le> 60 \<and> list_all cp_isspace ws \<and> sep \<in> {[], [32]}"
proof -
  let ?out = "join_segment_texts parts" and ?piece = "cp_strip raw"
  have step: "join_segment_texts (parts @ [raw]) = join_piece ?out raw"
    by (simp add: join_segment_texts_def)
  have none: "py_endswith ?out []" by (simp add: py_endswith_def)
  show ?thesis
  proof (cases "?piece = [] \<or> ?out = []")
    case True
    then have "join_segment_texts (parts @ [raw]) = ?out @ [] @ ?piece"
      unfolding step by (cases "?piece = []") (simp_all add: join_piece_def Let_def)
    moreover have "?piece = [] @ [] @ ?piece" "length ([] :: nat list) \<le> 60" by simp_all
    ultimately show ?thesis using none by (metis insertI1 list.pred_inject(1))
  next
    case False
    obtain pre ws where "?piece = pre @ ws @ strip_overlap_repeat ?out ?piece" "py_endswith ?out pre"
      "length pre \<le> 60" "list_all cp_isspace ws"
      using strip_overlap_repeat_spec by blast
    moreover have "\<exists>sep\<in>{[], [32]}. join_piece ?out raw = ?out @ sep @ strip_overlap_repeat ?out ?piece"
      using False by (auto simp: join_piece_def Let_def)
    ultimately show ?thesis unfolding step by blast
  qed
qed

end
