(* ===== verification/Vad.thy ===== *)
theory Vad
  imports Segmenter
begin

text \<open>
  The streaming voice activity detectors (\<open>server/core/vad.py\<close>): the Silero session (512-sample
  windows with 64 samples of context, a recurrent model) and the WebRTC session (30 ms frames
  of bytes), both driving the same speech/silence counter.  The ONNX model and
  \<open>webrtcvad\<close> are arguments; a rate that \<open>webrtcvad\<close> does not support makes it raise and is
  outside the model.  Both session classes run the same loop over the buffered input, here
  \<open>window_loop\<close>; a frame of zero bytes (a rate below 17 Hz) would never end and is
  excluded by its first test.
\<close>

section \<open>The speech counter\<close>

record speech =
  sp_in :: bool
  sp_silence :: nat

text \<open>One window's verdict: an onset, an endpoint after \<open>thr\<close> silent windows, or nothing.\<close>

definition speech_step :: "nat \<Rightarrow> bool \<Rightarrow> speech \<Rightarrow> vad_event \<times> speech" where
  "speech_step thr voiced sp =
     (if voiced then
        (if \<not> sp_in sp then SpeechStart else VadNone, \<lparr>sp_in = True, sp_silence = 0\<rparr>)
      else if sp_in sp then
        (if sp_silence sp + 1 \<ge> thr then (SpeechEnd, \<lparr>sp_in = False, sp_silence = 0\<rparr>)
         else (VadNone, sp\<lparr>sp_silence := sp_silence sp + 1\<rparr>))
      else (VadNone, sp))"

function window_loop ::
    "nat \<Rightarrow> ('s \<Rightarrow> 'a list \<Rightarrow> vad_event \<times> 's) \<Rightarrow> 's \<Rightarrow> 'a list \<Rightarrow> nat
     \<Rightarrow> (vad_event \<times> nat) list \<times> 's \<times> 'a list" where
  "window_loop w stp s buf i =
     (if w = 0 \<or> length buf < w then ([], s, buf)
      else (let (ev, s') = stp s (take w buf);
                (evs, s'', rest) = window_loop w stp s' (drop w buf) (i + w)
            in (if ev = VadNone then evs else (ev, i) # evs, s'', rest)))"
  by pat_completeness auto
termination
  by (relation "measure (\<lambda>(w, stp, s, buf, i). length buf)") auto

declare window_loop.simps [simp del]

text \<open>\<open>min(max(end - previous_leftover, 0), len(samples))\<close>\<close>

definition clamp_offset :: "int \<Rightarrow> nat \<Rightarrow> int" where
  "clamp_offset pos n = min (max pos 0) (int n)"

section \<open>Silero\<close>

record 'm silero =
  si_model :: 'm
  si_context :: "real list"
  si_leftover :: "real list"
  si_speech :: speech

datatype vad_error = BadRate int | UnknownBackend string

definition silence_steps :: "nat \<Rightarrow> nat" where
  "silence_steps silence_ms = max 1 (nat \<lceil>real silence_ms / 32\<rceil>)"

definition new_silero :: "'m \<Rightarrow> 'm silero" where
  "new_silero m0 = \<lparr>si_model = m0, si_context = replicate 64 0, si_leftover = [],
                    si_speech = \<lparr>sp_in = False, sp_silence = 0\<rparr>\<rparr>"

definition init_silero :: "int \<Rightarrow> 'm \<Rightarrow> vad_error + 'm silero" where
  "init_silero sample_rate m0 =
     (if sample_rate \<noteq> 16000 then Inl (BadRate sample_rate) else Inr (new_silero m0))"

text \<open>The model: from its state and the 576 input samples to a probability and a new state.\<close>

type_synonym 'm silero_model = "'m \<Rightarrow> real list \<Rightarrow> real \<times> 'm"

definition silero_step ::
    "'m silero_model \<Rightarrow> real \<Rightarrow> nat \<Rightarrow> ('m \<times> real list \<times> speech) \<Rightarrow> real list
     \<Rightarrow> vad_event \<times> ('m \<times> real list \<times> speech)" where
  "silero_step run threshold thr s window =
     (case s of (m, context, sp) \<Rightarrow>
        (let input = context @ window;
             (prob, m') = run m input;
             (ev, sp') = speech_step thr (prob \<ge> threshold) sp
         in (ev, (m', drop (length input - 64) input, sp'))))"

datatype samples = F32 "real list" | I16 "int list"

fun to_f32 :: "samples \<Rightarrow> real list" where
  "to_f32 (F32 xs) = xs"
| "to_f32 (I16 xs) = map (\<lambda>x. real_of_int x / 32768) xs"

definition silero_process_events ::
    "'m silero_model \<Rightarrow> real \<Rightarrow> nat \<Rightarrow> 'm silero \<Rightarrow> samples \<Rightarrow> (vad_event \<times> int) list \<times> 'm silero" where
  "silero_process_events run threshold thr ses smp =
     (let xs = to_f32 smp;
          previous = length (si_leftover ses);
          (evs, (m, context, sp), rest) =
            window_loop 512 (silero_step run threshold thr)
              (si_model ses, si_context ses, si_speech ses) (si_leftover ses @ xs) 0
      in (map (\<lambda>(ev, i). (ev, clamp_offset (int (i + 512) - int previous) (length xs))) evs,
          \<lparr>si_model = m, si_context = context, si_leftover = rest, si_speech = sp\<rparr>))"

text \<open>\<open>process\<close>, of both classes: the last event of the block.\<close>

definition last_event :: "(vad_event \<times> int) list \<Rightarrow> vad_event" where
  "last_event evs = (if evs = [] then VadNone else fst (last evs))"

definition silero_process ::
    "'m silero_model \<Rightarrow> real \<Rightarrow> nat \<Rightarrow> 'm silero \<Rightarrow> samples \<Rightarrow> vad_event \<times> 'm silero" where
  "silero_process run threshold thr ses smp =
     (let (evs, ses') = silero_process_events run threshold thr ses smp in (last_event evs, ses'))"

definition silero_reset :: "'m \<Rightarrow> 'm silero \<Rightarrow> 'm silero" where
  "silero_reset m0 ses = new_silero m0"

section \<open>WebRTC\<close>

record webrtc =
  wr_leftover :: "nat list"
  wr_speech :: speech

definition new_webrtc :: webrtc where
  "new_webrtc = \<lparr>wr_leftover = [], wr_speech = \<lparr>sp_in = False, sp_silence = 0\<rparr>\<rparr>"

definition webrtc_frame_bytes :: "nat \<Rightarrow> nat" where
  "webrtc_frame_bytes sample_rate = sample_rate * 60 div 1000"

definition silence_frames :: "nat \<Rightarrow> nat" where
  "silence_frames silence_ms = max 1 (silence_ms div 30)"

definition trunc_int :: "real \<Rightarrow> int" where
  "trunc_int x = (if x \<ge> 0 then \<lfloor>x\<rfloor> else \<lceil>x\<rceil>)"

fun to_i16 :: "samples \<Rightarrow> int list" where
  "to_i16 (I16 xs) = xs"
| "to_i16 (F32 xs) = map (\<lambda>x. trunc_int (max (-1) (min 1 x) * 32767)) xs"

text \<open>\<open>tobytes\<close>: two little-endian bytes per sample.\<close>

definition sample_bytes :: "int \<Rightarrow> nat list" where
  "sample_bytes x = (let v = nat (x mod 65536) in [v mod 256, v div 256])"

definition tobytes :: "int list \<Rightarrow> nat list" where
  "tobytes xs = concat (map sample_bytes xs)"

definition webrtc_step ::
    "(nat list \<Rightarrow> bool) \<Rightarrow> nat \<Rightarrow> speech \<Rightarrow> nat list \<Rightarrow> vad_event \<times> speech" where
  "webrtc_step is_speech thr sp frame = speech_step thr (is_speech frame) sp"

definition webrtc_process_events ::
    "(nat list \<Rightarrow> bool) \<Rightarrow> nat \<Rightarrow> nat \<Rightarrow> webrtc \<Rightarrow> samples \<Rightarrow> (vad_event \<times> int) list \<times> webrtc" where
  "webrtc_process_events is_speech fb thr ses smp =
     (let xs = to_i16 smp;
          previous = length (wr_leftover ses) div 2;
          (evs, sp, rest) = window_loop fb (webrtc_step is_speech thr) (wr_speech ses)
                              (wr_leftover ses @ tobytes xs) 0
      in (map (\<lambda>(ev, i). (ev, clamp_offset (int ((i + fb) div 2) - int previous) (length xs))) evs,
          \<lparr>wr_leftover = rest, wr_speech = sp\<rparr>))"

definition webrtc_process ::
    "(nat list \<Rightarrow> bool) \<Rightarrow> nat \<Rightarrow> nat \<Rightarrow> webrtc \<Rightarrow> samples \<Rightarrow> vad_event \<times> webrtc" where
  "webrtc_process is_speech fb thr ses smp =
     (let (evs, ses') = webrtc_process_events is_speech fb thr ses smp in (last_event evs, ses'))"

definition webrtc_reset :: "webrtc \<Rightarrow> webrtc" where
  "webrtc_reset ses = new_webrtc"

section \<open>The factory\<close>

datatype vad_choice = NoVad | UseSilero | UseWebrtc

definition create_vad :: "string \<Rightarrow> int \<Rightarrow> vad_error + vad_choice" where
  "create_vad backend sample_rate =
     (if backend \<in> {[], ''none'', ''off'', ''disabled''} then Inr NoVad
      else if backend = ''silero'' then
        (if sample_rate \<noteq> 16000 then Inl (BadRate sample_rate) else Inr UseSilero)
      else if backend \<in> {''webrtc'', ''webrtcvad''} then Inr UseWebrtc
      else Inl (UnknownBackend backend))"

section \<open>The contract of a window step\<close>

text \<open>Onsets and endpoints alternate: \<open>inside\<close> says whether the state is within speech.\<close>

fun alternates :: "bool \<Rightarrow> vad_event list \<Rightarrow> bool" where
  "alternates b [] = True"
| "alternates b (e # es) = (e = (if b then SpeechEnd else SpeechStart) \<and> alternates (\<not> b) es)"

definition flips :: "bool \<Rightarrow> vad_event list \<Rightarrow> bool" where
  "flips b es = (if even (length es) then b else \<not> b)"

locale vad_machine =
  fixes stp :: "'s \<Rightarrow> 'a list \<Rightarrow> vad_event \<times> 's" and inside :: "'s \<Rightarrow> bool"
  assumes contract:
    "case stp s w of (ev, s') \<Rightarrow>
       (case ev of VadNone \<Rightarrow> inside s' = inside s
        | SpeechStart \<Rightarrow> \<not> inside s \<and> inside s'
        | SpeechEnd \<Rightarrow> inside s \<and> \<not> inside s')"
begin

lemma loop_alternates:
  "window_loop w stp s buf i = (evs, s', rest) \<Longrightarrow>
   alternates (inside s) (map fst evs) \<and> inside s' = flips (inside s) (map fst evs)"
proof (induction "length buf" arbitrary: s buf i evs s' rest rule: less_induct)
  case less
  show ?case
  proof (cases "w = 0 \<or> length buf < w")
    case True
    then show ?thesis using less.prems by (simp add: window_loop.simps flips_def)
  next
    case False
    obtain ev s1 where st: "stp s (take w buf) = (ev, s1)" by fastforce
    obtain evs1 s2 rest1 where rec: "window_loop w stp s1 (drop w buf) (i + w) = (evs1, s2, rest1)"
      by (metis prod_cases3)
    have res: "evs = (if ev = VadNone then evs1 else (ev, i) # evs1)" "s' = s2"
      using less.prems False st rec by (subst (asm) window_loop.simps, simp)+
    have "length (drop w buf) < length buf" using False by auto
    from less.hyps [OF this rec]
    have "alternates (inside s1) (map fst evs1)" "inside s2 = flips (inside s1) (map fst evs1)" by auto
    then show ?thesis
      using contract [of s "take w buf"] st res by (cases ev) (auto simp: flips_def)
  qed
qed

end

lemma speech_step_contract:
  "case speech_step thr voiced sp of (ev, sp') \<Rightarrow>
     (case ev of VadNone \<Rightarrow> sp_in sp' = sp_in sp
      | SpeechStart \<Rightarrow> \<not> sp_in sp \<and> sp_in sp'
      | SpeechEnd \<Rightarrow> sp_in sp \<and> \<not> sp_in sp')"
  by (simp add: speech_step_def)

interpretation silero_vad: vad_machine "silero_step run threshold thr" "\<lambda>s. sp_in (snd (snd s))"
  for run threshold thr
proof
  fix s :: "'a \<times> real list \<times> speech" and w
  obtain m ctx sp where s: "s = (m, ctx, sp)" by (metis prod_cases3)
  obtain prob m' where "run m (ctx @ w) = (prob, m')" by fastforce
  then show "case silero_step run threshold thr s w of (ev, s') \<Rightarrow>
       (case ev of VadNone \<Rightarrow> sp_in (snd (snd s')) = sp_in (snd (snd s))
        | SpeechStart \<Rightarrow> \<not> sp_in (snd (snd s)) \<and> sp_in (snd (snd s'))
        | SpeechEnd \<Rightarrow> sp_in (snd (snd s)) \<and> \<not> sp_in (snd (snd s')))"
    using speech_step_contract [where thr = thr and voiced = "prob \<ge> threshold" and sp = sp]
    by (simp add: silero_step_def s split: prod.splits vad_event.splits)
qed

interpretation webrtc_vad: vad_machine "webrtc_step is_speech thr" sp_in for is_speech thr
  by unfold_locales (simp add: webrtc_step_def speech_step_contract)

section \<open>Feeding blocks\<close>

lemma window_loop_cont:
  assumes "\<not> (w = 0 \<or> length buf < w)" and "stp s (take w buf) = (ev, s')"
    and "window_loop w stp s' (drop w buf) (i + w) = (evs, s'', rest)"
  shows "window_loop w stp s buf i = (if ev = VadNone then evs else (ev, i) # evs, s'', rest)"
  using assms by (subst window_loop.simps) simp

lemma window_loop_stop: "w = 0 \<or> length buf < w \<Longrightarrow> window_loop w stp s buf i = ([], s, buf)"
  by (subst window_loop.simps) simp

lemma window_loop_rest: "window_loop w stp s buf i = (e, s', rest) \<Longrightarrow> length rest \<le> length buf"
proof (induction "length buf" arbitrary: s buf i e rule: less_induct)
  case less
  show ?case
  proof (cases "w = 0 \<or> length buf < w")
    case True
    then show ?thesis using less.prems window_loop_stop [OF True, of stp s i] by auto
  next
    case False
    obtain ev s1 where st: "stp s (take w buf) = (ev, s1)" by fastforce
    obtain e1 s2 rest1 where rec: "window_loop w stp s1 (drop w buf) (i + w) = (e1, s2, rest1)"
      by (metis prod_cases3)
    then have "s2 = s'" "rest1 = rest"
      using less.prems window_loop_cont [where stp = stp, OF False st rec] by auto
    moreover have "length (drop w buf) < length buf" using False by auto
    ultimately show ?thesis using less.hyps rec by fastforce
  qed
qed

lemma window_loop_append:
  "window_loop w stp s buf i = (e1, s1, rest) \<Longrightarrow>
   window_loop w stp s1 (rest @ ext) (i + (length buf - length rest)) = (e2, s2, rest2) \<Longrightarrow>
   window_loop w stp s (buf @ ext) i = (e1 @ e2, s2, rest2)"
proof (induction "length buf" arbitrary: s buf i e1 s1 rest rule: less_induct)
  case less
  show ?case
  proof (cases "w = 0 \<or> length buf < w")
    case True
    then show ?thesis using less.prems window_loop_stop [OF True, of stp s i] by auto
  next
    case False
    obtain ev s' where st: "stp s (take w buf) = (ev, s')" by fastforce
    obtain evs1 sx restx where rec: "window_loop w stp s' (drop w buf) (i + w) = (evs1, sx, restx)"
      by (metis prod_cases3)
    have res: "e1 = (if ev = VadNone then evs1 else (ev, i) # evs1)" "s1 = sx" "rest = restx"
      using less.prems(1) window_loop_cont [where stp = stp, OF False st rec] by auto
    have short: "length (drop w buf) < length buf" using False by auto
    have "length restx \<le> length (drop w buf)" by (rule window_loop_rest [OF rec])
    then have idx: "i + w + (length (drop w buf) - length restx) = i + (length buf - length rest)"
      using False res by auto
    have "window_loop w stp sx (restx @ ext) (i + w + (length (drop w buf) - length restx)) = (e2, s2, rest2)"
      unfolding idx using less.prems(2) res(2,3) by simp
    from less.hyps [OF short rec this]
    have "window_loop w stp s' (drop w buf @ ext) (i + w) = (evs1 @ e2, s2, rest2)" .
    moreover have "\<not> (w = 0 \<or> length (buf @ ext) < w)" "stp s (take w (buf @ ext)) = (ev, s')"
        "drop w (buf @ ext) = drop w buf @ ext"
      using False st by simp_all
    ultimately have "window_loop w stp s (buf @ ext) i =
        (if ev = VadNone then evs1 @ e2 else (ev, i) # (evs1 @ e2), s2, rest2)"
      using window_loop_cont [where stp = stp and buf = "buf @ ext" and s = s and ev = ev and s' = s'
          and i = i and evs = "evs1 @ e2" and s'' = s2 and rest = rest2] by simp
    then show ?thesis using res(1) by simp
  qed
qed

lemma window_loop_shift:
  "window_loop w stp s buf i = (e, s', rest) \<Longrightarrow>
   window_loop w stp s buf (i + k) = (map (\<lambda>(ev, j). (ev, j + k)) e, s', rest)"
proof (induction "length buf" arbitrary: s buf i e rule: less_induct)
  case less
  show ?case
  proof (cases "w = 0 \<or> length buf < w")
    case True
    then show ?thesis
      using less.prems window_loop_stop [OF True, of stp s i] window_loop_stop [OF True, of stp s "i + k"] by auto
  next
    case False
    obtain ev s1 where st: "stp s (take w buf) = (ev, s1)" by fastforce
    obtain e1 s2 rest1 where rec: "window_loop w stp s1 (drop w buf) (i + w) = (e1, s2, rest1)"
      by (metis prod_cases3)
    have res: "e = (if ev = VadNone then e1 else (ev, i) # e1)" "s2 = s'" "rest1 = rest"
      using less.prems window_loop_cont [where stp = stp, OF False st rec] by auto
    have short: "length (drop w buf) < length buf" using False by auto
    have "window_loop w stp s1 (drop w buf) (i + k + w) = (map (\<lambda>(ev, j). (ev, j + k)) e1, s2, rest1)"
    proof -
      have "i + k + w = i + w + k" by simp
      then show ?thesis using less.hyps [OF short, of s1 "i + w" e1] rec res by metis
    qed
    from window_loop_cont [where stp = stp, OF False st this] show ?thesis using res by simp
  qed
qed

text \<open>Every reported window starts at a multiple of the window size and lies in the buffer; what is
  left over is a suffix whose start is a multiple too.\<close>

lemma window_loop_ends:
  "window_loop w stp s buf i = (e, s', rest) \<Longrightarrow>
   (\<forall>x\<in>set e. \<exists>k. snd x = i + k * w \<and> (k + 1) * w \<le> length buf) \<and>
   (\<exists>n. length buf = n * w + length rest) \<and> (0 < w \<longrightarrow> length rest < w)"
proof (induction "length buf" arbitrary: s buf i e rule: less_induct)
  case less
  show ?case
  proof (cases "w = 0 \<or> length buf < w")
    case True
    then have "e = []" "rest = buf" using less.prems window_loop_stop [OF True, of stp s i] by auto
    then show ?thesis using True by (auto intro: exI [of _ 0])
  next
    case False
    obtain ev s1 where st: "stp s (take w buf) = (ev, s1)" by fastforce
    obtain e1 s2 rest1 where rec: "window_loop w stp s1 (drop w buf) (i + w) = (e1, s2, rest1)"
      by (metis prod_cases3)
    have res: "e = (if ev = VadNone then e1 else (ev, i) # e1)" "s2 = s'" "rest1 = rest"
      using less.prems window_loop_cont [where stp = stp, OF False st rec] by auto
    have short: "length (drop w buf) < length buf" using False by auto
    have IH: "\<forall>x\<in>set e1. \<exists>k. snd x = i + w + k * w \<and> (k + 1) * w \<le> length (drop w buf)"
      "\<exists>n. length (drop w buf) = n * w + length rest" "0 < w \<longrightarrow> length rest < w"
      using less.hyps [OF short, of s1 "i + w" e1] rec res by auto
    have "\<exists>k. snd x = i + k * w \<and> (k + 1) * w \<le> length buf" if "x \<in> set e" for x
    proof (cases "x \<in> set e1")
      case True
      then obtain k where "snd x = i + w + k * w" "(k + 1) * w \<le> length (drop w buf)" using IH(1) by blast
      then show ?thesis using False by (intro exI [of _ "k + 1"]) (auto simp: algebra_simps)
    next
      case x: False
      then have "snd x = i" using that res(1) by (auto split: if_splits)
      then show ?thesis using False by (intro exI [of _ 0]) auto
    qed
    moreover obtain n where "length (drop w buf) = n * w + length rest" using IH(2) by blast
    then have "length buf = (n + 1) * w + length rest" using False by auto
    ultimately show ?thesis using IH(3) by blast
  qed
qed

text \<open>Both sessions are this block operation, with \<open>c\<close> buffer cells per sample.\<close>

definition block_process ::
    "nat \<Rightarrow> nat \<Rightarrow> ('s \<Rightarrow> 'a list \<Rightarrow> vad_event \<times> 's) \<Rightarrow> 's \<times> 'a list \<Rightarrow> 'a list
     \<Rightarrow> (vad_event \<times> int) list \<times> ('s \<times> 'a list)" where
  "block_process c w stp s xs =
     (let (evs, core, rest) = window_loop w stp (fst s) (snd s @ xs) 0
      in (map (\<lambda>(ev, i). (ev, clamp_offset (int ((i + w) div c) - int (length (snd s) div c)) (length xs div c))) evs,
          (core, rest)))"

text \<open>Feeding blocks one after the other, with positions counted from the first block.\<close>

fun feed :: "('s \<Rightarrow> 'b \<Rightarrow> (vad_event \<times> int) list \<times> 's) \<Rightarrow> ('b \<Rightarrow> nat) \<Rightarrow> 's \<Rightarrow> 'b list \<Rightarrow> nat
             \<Rightarrow> (vad_event \<times> int) list \<times> 's" where
  "feed proc len s [] base = ([], s)"
| "feed proc len s (b # bs) base =
     (let (evs, s') = proc s b; (evs', s'') = feed proc len s' bs (base + len b)
      in (map (\<lambda>(ev, p). (ev, p + int base)) evs @ evs', s''))"

definition positions :: "nat \<Rightarrow> nat \<Rightarrow> (vad_event \<times> nat) list \<Rightarrow> (vad_event \<times> int) list" where
  "positions c w evs = map (\<lambda>(ev, i). (ev, int ((i + w) div c))) evs"

lemma positions_append: "positions c w (xs @ ys) = positions c w xs @ positions c w ys"
  by (simp add: positions_def)

lemma block_process_positions:
  assumes "0 < c" and "c dvd w" and "0 < w" and "c dvd length seen" and "c dvd length xs"
    and loop: "window_loop w stp s0 seen 0 = (e0, s, left)"
    and step: "window_loop w stp s (left @ xs) 0 = (e1, s1, left1)"
  shows "map (\<lambda>(ev, p). (ev, p + int (length seen div c)))
           (fst (block_process c w stp (s, left) xs))
         = positions c w (map (\<lambda>(ev, j). (ev, j + (length seen - length left))) e1)"
proof -
  obtain n where n: "length seen = n * w + length left" using window_loop_ends [OF loop] by blast
  have nw: "c dvd n * w" using assms(2) by simp
  then have cl: "c dvd length left" using assms(4) n by (metis dvd_add_right_iff)
  have cell: "clamp_offset (int ((i + w) div c) - int (length left div c)) (length xs div c)
                + int (length seen div c) = int ((i + (length seen - length left) + w) div c)"
    if x: "(ev, i) \<in> set e1" for ev i
  proof -
    obtain k where k: "i = k * w" "(k + 1) * w \<le> length (left @ xs)"
      using window_loop_ends [OF step] x by force
    have short: "length left < w" using window_loop_ends [OF loop] assms(3) by blast
    obtain a where a: "w = c * a" using assms(2) by blast
    obtain b where b: "length left = c * b" using cl by blast
    obtain d where d: "length xs = c * d" using assms(5) by blast
    have seen: "length seen = c * (n * a + b)" using n a b by (simp add: algebra_simps)
    have iw: "i + w = c * ((k + 1) * a)" using k(1) a by (simp add: algebra_simps)
    have "c * ((k + 1) * a) \<le> c * (b + d)" using k a b d by (simp add: algebra_simps)
    then have le: "(k + 1) * a \<le> b + d" using assms(1) by simp
    have "b \<le> a" using short a b assms(1) by simp
    then have ge: "b \<le> (k + 1) * a" by simp
    have idx: "i + (length seen - length left) + w = c * ((k + 1) * a + n * a)"
      using iw seen b by (simp add: algebra_simps)
    have lhs: "clamp_offset (int ((i + w) div c) - int (length left div c)) (length xs div c) =
        int ((k + 1) * a) - int b"
      unfolding iw b d using assms(1) le ge by (simp add: clamp_offset_def del: of_nat_mult mult_Suc)
    have "length seen div c = n * a + b" using assms(1) seen by simp
    moreover have "(i + (length seen - length left) + w) div c = (k + 1) * a + n * a"
      unfolding idx using assms(1) by simp
    ultimately show ?thesis using lhs ge by simp
  qed
  show ?thesis
    using cell by (auto simp: block_process_def step positions_def)
qed

lemma feed_positions:
  assumes "0 < c" and "c dvd w" and "0 < w"
    and proc: "\<And>s b. proc s b = block_process c w stp s (raw b)"
    and len: "\<And>b. length (raw b) = c * len b"
  shows "c dvd length seen \<Longrightarrow> window_loop w stp s0 seen 0 = (e0, s, left) \<Longrightarrow>
         window_loop w stp s0 (seen @ concat (map raw bs)) 0 = (e, s', left') \<Longrightarrow>
         feed proc len (s, left) bs (length seen div c) = (evs, fin) \<Longrightarrow>
         positions c w e = positions c w e0 @ evs \<and> fin = (s', left')"
proof (induction bs arbitrary: seen e0 s left evs fin)
  case Nil
  then show ?case by (simp add: positions_def)
next
  case (Cons b bs)
  obtain e1 s1 left1 where step: "window_loop w stp s (left @ raw b) 0 = (e1, s1, left1)"
    by (metis prod_cases3)
  let ?k = "length seen - length left"
  let ?e1 = "map (\<lambda>(ev, j). (ev, j + ?k)) e1"
  have raw: "c dvd length (raw b)" using len by simp
  have shifted: "window_loop w stp s (left @ raw b) (0 + ?k) = (?e1, s1, left1)"
    by (rule window_loop_shift [OF step])
  have all: "window_loop w stp s0 (seen @ raw b) 0 = (e0 @ ?e1, s1, left1)"
    by (rule window_loop_append [OF Cons.prems(2) shifted])
  obtain pe ps where pb: "proc (s, left) b = (pe, ps)" by (cases "proc (s, left) b") auto
  have ps: "ps = (s1, left1)" and pe: "pe = fst (block_process c w stp (s, left) (raw b))"
    using pb step by (auto simp: proc block_process_def)
  have base: "length seen div c + len b = length (seen @ raw b) div c"
    using Cons.prems(1) assms(1) len by (auto elim!: dvdE simp: distrib_left [symmetric] simp del: distrib_left)
  obtain evs' fin' where rest: "feed proc len (s1, left1) bs (length (seen @ raw b) div c) = (evs', fin')"
    by (cases "feed proc len (s1, left1) bs (length (seen @ raw b) div c)") auto
  have "evs = positions c w ?e1 @ evs'" and "fin = fin'"
    using Cons.prems(4) pb ps rest
      block_process_positions [OF assms(1-3) Cons.prems(1) raw Cons.prems(2) step] pe
    by (auto simp: base)
  moreover have "c dvd length (seen @ raw b)" using Cons.prems(1) raw by simp
  moreover have "window_loop w stp s0 ((seen @ raw b) @ concat (map raw bs)) 0 = (e, s', left')"
    using Cons.prems(3) by simp
  ultimately show ?case
    using Cons.IH [OF _ all _ rest] by (simp add: positions_append)
qed

lemma tobytes_append: "tobytes (xs @ ys) = tobytes xs @ tobytes ys"
  by (simp add: tobytes_def)

lemma length_tobytes: "length (tobytes xs) = 2 * length xs"
  by (induction xs) (simp_all add: tobytes_def sample_bytes_def Let_def)

text \<open>The two sessions as block operations on their state without the record.\<close>

definition silero_pack :: "('m \<times> real list \<times> speech) \<times> real list \<Rightarrow> 'm silero" where
  "silero_pack s = (case s of ((m, context, sp), left) \<Rightarrow>
     \<lparr>si_model = m, si_context = context, si_leftover = left, si_speech = sp\<rparr>)"

definition webrtc_pack :: "speech \<times> nat list \<Rightarrow> webrtc" where
  "webrtc_pack s = \<lparr>wr_leftover = snd s, wr_speech = fst s\<rparr>"

lemma silero_as_block:
  "silero_process_events run threshold thr (silero_pack s) b =
   map_prod id silero_pack (block_process 1 512 (silero_step run threshold thr) s (to_f32 b))"
  by (cases s) (auto simp: silero_process_events_def silero_pack_def block_process_def Let_def split: prod.splits)

lemma webrtc_as_block:
  "webrtc_process_events is_speech fb thr (webrtc_pack s) b =
   map_prod id webrtc_pack (block_process 2 fb (webrtc_step is_speech thr) s (tobytes (to_i16 b)))"
  by (cases s) (auto simp: webrtc_process_events_def webrtc_pack_def block_process_def Let_def length_tobytes
      split: prod.splits)

lemma feed_pack:
  assumes "\<And>s b. proc (pack s) b = map_prod id pack (proc' s b)"
  shows "feed proc len (pack s) bs base = map_prod id pack (feed proc' len s bs base)"
proof (induction bs arbitrary: s base)
  case (Cons b bs)
  then show ?case by (cases "proc' s b") (simp add: assms split_beta)
qed simp

text \<open>Blocks fed from a fresh state give what one block with all of the input gives.\<close>

lemma feed_fresh:
  assumes "0 < c" and "c dvd w" and "0 < w" and len: "\<And>b. length (raw b) = c * len b"
  shows "feed (\<lambda>s b. block_process c w stp s (raw b)) len (s0, []) bs 0 =
         block_process c w stp (s0, []) (concat (map raw bs))"
proof -
  let ?all = "concat (map raw bs)"
  obtain e s' left' where all: "window_loop w stp s0 ?all 0 = (e, s', left')" by (metis prod_cases3)
  obtain evs fin where fd: "feed (\<lambda>s b. block_process c w stp s (raw b)) len (s0, []) bs (length ([] :: 'b list) div c) = (evs, fin)"
    by (cases "feed (\<lambda>s b. block_process c w stp s (raw b)) len (s0, []) bs (length ([] :: 'b list) div c)") auto
  have nil: "window_loop w stp s0 [] 0 = ([], s0, [])" using assms(3) by (simp add: window_loop_stop)
  have "positions c w e = positions c w [] @ evs \<and> fin = (s', left')"
    by (rule feed_positions [OF assms(1-3) refl len _ nil _ fd]) (use all in simp_all)
  moreover have "fst (block_process c w stp (s0, []) ?all) = positions c w e"
  proof -
    have "c dvd length ?all" by (induction bs) (simp_all add: len)
    from block_process_positions [OF assms(1-3) _ this nil, of e s' left'] all
    show ?thesis by (simp add: positions_def split_def)
  qed
  moreover have "snd (block_process c w stp (s0, []) ?all) = (s', left')"
    using all by (simp add: block_process_def)
  ultimately show ?thesis using fd by (simp add: positions_def prod_eq_iff)
qed

lemma silero_feed_pack:
  "feed (silero_process_events run threshold thr) len (silero_pack s) bs base =
   map_prod id silero_pack
     (feed (\<lambda>s b. block_process 1 512 (silero_step run threshold thr) s (to_f32 b)) len s bs base)"
  by (rule feed_pack) (rule silero_as_block)

lemma webrtc_feed_pack:
  "feed (webrtc_process_events is_speech fb thr) len (webrtc_pack s) bs base =
   map_prod id webrtc_pack
     (feed (\<lambda>s b. block_process 2 fb (webrtc_step is_speech thr) s (tobytes (to_i16 b))) len s bs base)"
  by (rule feed_pack) (rule webrtc_as_block)

section \<open>Properties\<close>

text \<open>C9: How the audio is cut into blocks does not matter to the Silero session: feeding any list
  of blocks to a fresh session reports the same onsets and endpoints, at the same absolute
  sample positions, and ends in the same state as feeding all the audio at once.\<close>
theorem silero_blocks_independent:
  "feed (silero_process_events run threshold thr) (\<lambda>b. length (to_f32 b)) (new_silero m0) blocks 0
   = silero_process_events run threshold thr (new_silero m0) (F32 (concat (map to_f32 blocks)))"
proof -
  let ?core = "(m0, replicate 64 0, \<lparr>sp_in = False, sp_silence = 0\<rparr>)"
  have new: "new_silero m0 = silero_pack (?core, [])" by (simp add: new_silero_def silero_pack_def)
  have "feed (\<lambda>s b. block_process 1 512 (silero_step run threshold thr) s (to_f32 b))
          (\<lambda>b. length (to_f32 b)) (?core, []) blocks 0 =
        block_process 1 512 (silero_step run threshold thr) (?core, []) (concat (map to_f32 blocks))"
    by (rule feed_fresh) simp_all
  then show ?thesis unfolding new silero_feed_pack silero_as_block by simp
qed

text \<open>The same for the WebRTC session, whenever a frame is a whole number of samples (all the
  rates \<open>webrtcvad\<close> supports).\<close>
theorem webrtc_blocks_independent:
  assumes "0 < fb" and "even fb"
  shows "feed (webrtc_process_events is_speech fb thr) (\<lambda>b. length (to_i16 b)) new_webrtc blocks 0
   = webrtc_process_events is_speech fb thr new_webrtc (I16 (concat (map to_i16 blocks)))"
proof -
  let ?core = "\<lparr>sp_in = False, sp_silence = 0\<rparr>"
  have new: "new_webrtc = webrtc_pack (?core, [])" by (simp add: new_webrtc_def webrtc_pack_def)
  have "feed (\<lambda>s b. block_process 2 fb (webrtc_step is_speech thr) s (tobytes (to_i16 b)))
          (\<lambda>b. length (to_i16 b)) (?core, []) blocks 0 =
        block_process 2 fb (webrtc_step is_speech thr) (?core, []) (concat (map (\<lambda>b. tobytes (to_i16 b)) blocks))"
    by (rule feed_fresh) (use assms in \<open>simp_all add: length_tobytes\<close>)
  moreover have "concat (map (\<lambda>b. tobytes (to_i16 b)) blocks) = tobytes (concat (map to_i16 blocks))"
    by (induction blocks) (simp_all add: tobytes_append, simp add: tobytes_def)
  ultimately show ?thesis unfolding new webrtc_feed_pack webrtc_as_block by simp
qed

theorem webrtc_blocks_independent_witness:
  "feed (webrtc_process_events (\<lambda>f. True) 960 13) (\<lambda>b. length (to_i16 b)) new_webrtc
     [I16 [1, 2], F32 [0.5]] 0
   = webrtc_process_events (\<lambda>f. True) 960 13 new_webrtc (I16 [1, 2, 16383])"
  using webrtc_blocks_independent [of 960 "\<lambda>f. True" 13 "[I16 [1, 2], F32 [0.5]]"]
  by (simp add: trunc_int_def)

text \<open>In both sessions onsets and endpoints alternate, starting with an onset, and the session is
  within speech exactly when the number of reported events is odd.\<close>
theorem vad_events_alternate:
  "(case silero_process_events run threshold thr (new_silero m0) b of (evs, ses) \<Rightarrow>
      alternates False (map fst evs) \<and> sp_in (si_speech ses) = odd (length evs)) \<and>
   (case webrtc_process_events is_speech fb thr new_webrtc b of (evs, ses) \<Rightarrow>
      alternates False (map fst evs) \<and> sp_in (wr_speech ses) = odd (length evs))"
proof -
  have fst_map: "fst \<circ> (\<lambda>(ev :: vad_event, i). (ev, f i)) = fst" for f :: "nat \<Rightarrow> int"
    by (auto simp: fun_eq_iff)
  obtain evs m ctx sp rest where s:
    "window_loop 512 (silero_step run threshold thr) (m0, replicate 64 0, \<lparr>sp_in = False, sp_silence = 0\<rparr>)
       (to_f32 b) 0 = (evs, (m, ctx, sp), rest)"
    by (metis prod_cases3)
  obtain evs' sp' rest' where w:
    "window_loop fb (webrtc_step is_speech thr) \<lparr>sp_in = False, sp_silence = 0\<rparr> (tobytes (to_i16 b)) 0
       = (evs', sp', rest')"
    by (metis prod_cases3)
  show ?thesis
    using silero_vad.loop_alternates [OF s] webrtc_vad.loop_alternates [OF w]
    by (simp add: silero_process_events_def webrtc_process_events_def new_silero_def new_webrtc_def s w
        fst_map flips_def split: if_splits)
qed

end
