(* ===== verification/WorkerIO.thy ===== *)
theory WorkerIO
  imports Prelude
begin

text \<open>
  The multiplexer between concurrent requests and one worker subprocess
  (\<open>server/core/worker_io.py\<close>): a counting semaphore of request slots, the map from request ids
  to the queues of the requests in flight, a lock around the worker's standard input, the
  reader thread and \<open>close\<close>.  A request is a task number \<open>t\<close>; \<open>wi_rid t\<close> is its id.  Every
  step is one critical section or one operation that no lock protects, in the order of the
  code, and any task, the reader and \<open>close\<close> interleave between them.  Bytes that arrive on
  the worker's output, failing writes, time-outs and abandoned generators are events chosen
  from outside.
\<close>

section \<open>State\<close>

datatype wevent = Chunk | DoneEv | CancelledEv | WorkerExit

datatype wresult = Finished | Saturated | ExitError | WriteError | TimedOut | Abandoned

datatype wphase =
    WIdle
  | WWaiting
  | WSlot
  | WChecked
  | WRegistered
  | WReading
  | WEnded wresult

datatype wline = RequestLine string | CancelLine string

record wio =
  wi_max :: nat
  wi_free :: nat
  wi_queueing :: bool
  wi_closed :: bool
  wi_inflight :: "string \<Rightarrow> nat option"
  wi_queue :: "nat \<Rightarrow> wevent list"
  wi_phase :: "nat \<Rightarrow> wphase"
  wi_rid :: "nat \<Rightarrow> string"
  wi_sync :: "nat \<Rightarrow> bool"
  wi_orphans :: nat
  wi_leaked :: nat
  wi_written :: "wline list"

text \<open>\<open>OVS_WORKER_IO_QUEUE_WHEN_SATURATED\<close>, default \<open>"1"\<close>\<close>

definition queue_when_saturated :: "env_map \<Rightarrow> bool" where
  "queue_when_saturated env =
     (py_lower (py_strip (case env ''OVS_WORKER_IO_QUEUE_WHEN_SATURATED'' of None \<Rightarrow> ''1'' | Some v \<Rightarrow> v))
        \<notin> {''0'', ''false'', ''no'', ''off''})"

definition new_wio :: "int \<Rightarrow> env_map \<Rightarrow> (nat \<Rightarrow> string) \<Rightarrow> (nat \<Rightarrow> bool) \<Rightarrow> wio" where
  "new_wio concurrency env rid sync =
     (let n = nat (max 1 concurrency)
      in \<lparr>wi_max = n, wi_free = n, wi_queueing = queue_when_saturated env, wi_closed = False,
          wi_inflight = (\<lambda>_. None), wi_queue = (\<lambda>_. []), wi_phase = (\<lambda>_. WIdle), wi_rid = rid,
          wi_sync = sync, wi_orphans = 0, wi_leaked = 0, wi_written = []\<rparr>)"

definition set_phase :: "nat \<Rightarrow> wphase \<Rightarrow> wio \<Rightarrow> wio" where
  "set_phase t p m = m\<lparr>wi_phase := (wi_phase m)(t := p)\<rparr>"

section \<open>Requests\<close>

text \<open>Taking a slot.  In queueing mode the asynchronous variant blocks an executor thread in
  \<open>acquire\<close>, the synchronous one its own.\<close>

definition wio_start :: "nat \<Rightarrow> wio \<Rightarrow> wio" where
  "wio_start t m =
     (if wi_queueing m then set_phase t WWaiting m
      else if wi_free m = 0 then set_phase t (WEnded Saturated) m
      else set_phase t WSlot (m\<lparr>wi_free := wi_free m - 1\<rparr>))"

definition wio_grant :: "nat \<Rightarrow> wio \<Rightarrow> wio" where
  "wio_grant t m = set_phase t WSlot (m\<lparr>wi_free := wi_free m - 1\<rparr>)"

text \<open>The awaiting task is cancelled.  Cancelling the task cancels the future it awaits; the thread
  behind it keeps waiting for the semaphore.\<close>

definition wio_abandon_wait :: "nat \<Rightarrow> wio \<Rightarrow> wio" where
  "wio_abandon_wait t m = set_phase t (WEnded Abandoned) (m\<lparr>wi_orphans := wi_orphans m + 1\<rparr>)"

text \<open>Such a thread gets the semaphore.  The done-callback then runs on a cancelled future:
  \<open>f.result()\<close> raises \<open>CancelledError\<close>, which the callback swallows without a release.\<close>

definition wio_late_acquire :: "wio \<Rightarrow> wio" where
  "wio_late_acquire m = m\<lparr>wi_orphans := wi_orphans m - 1, wi_free := wi_free m - 1,
                          wi_leaked := wi_leaked m + 1\<rparr>"

text \<open>\<open>cancel(req_id)\<close>: a line to the worker unless closed.\<close>

definition wio_cancel :: "string \<Rightarrow> wio \<Rightarrow> wio" where
  "wio_cancel rid m =
     (if wi_closed m then m else m\<lparr>wi_written := wi_written m @ [CancelLine rid]\<rparr>)"

text \<open>The \<open>finally\<close> of a request that got past its first check: forget it, give the slot back,
  and tell the worker when an asynchronous request did not reach a terminal event.\<close>

definition wio_finish :: "nat \<Rightarrow> wresult \<Rightarrow> wio \<Rightarrow> wio" where
  "wio_finish t r m =
     (let m1 = m\<lparr>wi_inflight := (wi_inflight m)(wi_rid m t := None), wi_free := wi_free m + 1\<rparr>;
          m2 = (if r \<noteq> Finished \<and> \<not> wi_sync m t then wio_cancel (wi_rid m t) m1 else m1)
      in set_phase t (WEnded r) m2)"

definition wio_check :: "nat \<Rightarrow> wio \<Rightarrow> wio" where
  "wio_check t m =
     (if wi_closed m then set_phase t (WEnded ExitError) (m\<lparr>wi_free := wi_free m + 1\<rparr>)
      else set_phase t WChecked m)"

definition wio_register :: "nat \<Rightarrow> wio \<Rightarrow> wio" where
  "wio_register t m =
     set_phase t WRegistered
       (m\<lparr>wi_inflight := (wi_inflight m)(wi_rid m t := Some t), wi_queue := (wi_queue m)(t := [])\<rparr>)"

text \<open>The write under the input lock; \<open>ok\<close> is whether the pipe took the line.\<close>

definition wio_write :: "bool \<Rightarrow> nat \<Rightarrow> wio \<Rightarrow> wio" where
  "wio_write ok t m =
     (if wi_closed m then wio_finish t ExitError m
      else if \<not> ok then wio_finish t WriteError m
      else set_phase t WReading (m\<lparr>wi_written := wi_written m @ [RequestLine (wi_rid m t)]\<rparr>))"

text \<open>Taking the next event off the queue and yielding it.\<close>

definition wio_receive :: "nat \<Rightarrow> wio \<Rightarrow> wio" where
  "wio_receive t m =
     (case wi_queue m t of
        [] \<Rightarrow> m
      | e # q \<Rightarrow>
          (let m1 = m\<lparr>wi_queue := (wi_queue m)(t := q)\<rparr>
           in case e of
                WorkerExit \<Rightarrow> wio_finish t ExitError m1
              | Chunk \<Rightarrow> m1
              | _ \<Rightarrow> wio_finish t Finished m1))"

section \<open>The reader and close\<close>

definition wio_put :: "nat \<Rightarrow> wevent \<Rightarrow> wio \<Rightarrow> wio" where
  "wio_put t e m = m\<lparr>wi_queue := (wi_queue m)(t := wi_queue m t @ [e])\<rparr>"

definition wio_dispatch :: "string \<Rightarrow> wevent \<Rightarrow> wio \<Rightarrow> wio" where
  "wio_dispatch rid e m =
     (if rid = [] then m else case wi_inflight m rid of None \<Rightarrow> m | Some t \<Rightarrow> wio_put t e m)"

text \<open>Every queue in flight gets the sentinel, and the map is emptied: the end of the reader thread
  and the second half of \<open>close\<close>.\<close>

definition wio_wake_all :: "wio \<Rightarrow> wio" where
  "wio_wake_all m =
     m\<lparr>wi_queue := (\<lambda>t. if wi_inflight m (wi_rid m t) = Some t then wi_queue m t @ [WorkerExit] else wi_queue m t),
       wi_inflight := (\<lambda>_. None)\<rparr>"

definition wio_set_closed :: "wio \<Rightarrow> wio" where
  "wio_set_closed m = m\<lparr>wi_closed := True\<rparr>"

datatype wio_event =
    Start nat | Grant nat | AbandonWait nat | LateAcquire | Check nat | Register nat
  | Write nat bool | Receive nat | GiveUp nat wresult | Dispatch string wevent | WakeAll | SetClosed
  | CancelCall string

definition wio_step_fun :: "wio_event \<Rightarrow> wio \<Rightarrow> wio" where
  "wio_step_fun e m =
     (case e of
        Start t \<Rightarrow> wio_start t m | Grant t \<Rightarrow> wio_grant t m | AbandonWait t \<Rightarrow> wio_abandon_wait t m
      | LateAcquire \<Rightarrow> wio_late_acquire m | Check t \<Rightarrow> wio_check t m | Register t \<Rightarrow> wio_register t m
      | Write t ok \<Rightarrow> wio_write ok t m | Receive t \<Rightarrow> wio_receive t m | GiveUp t r \<Rightarrow> wio_finish t r m
      | Dispatch rid ev \<Rightarrow> wio_dispatch rid ev m | WakeAll \<Rightarrow> wio_wake_all m
      | SetClosed \<Rightarrow> wio_set_closed m | CancelCall rid \<Rightarrow> wio_cancel rid m)"

definition wio_enabled :: "wio_event \<Rightarrow> wio \<Rightarrow> bool" where
  "wio_enabled e m =
     (case e of
        Start t \<Rightarrow> wi_phase m t = WIdle
      | Grant t \<Rightarrow> wi_phase m t = WWaiting \<and> 0 < wi_free m
      | AbandonWait t \<Rightarrow> wi_phase m t = WWaiting \<and> \<not> wi_sync m t
      | LateAcquire \<Rightarrow> 0 < wi_orphans m \<and> 0 < wi_free m
      | Check t \<Rightarrow> wi_phase m t = WSlot
      | Register t \<Rightarrow> wi_phase m t = WChecked
      | Write t ok \<Rightarrow> wi_phase m t = WRegistered
      | Receive t \<Rightarrow> wi_phase m t = WReading \<and> wi_queue m t \<noteq> []
      | GiveUp t r \<Rightarrow> wi_phase m t = WReading \<and> r \<in> {TimedOut, Abandoned}
      | Dispatch rid ev \<Rightarrow> ev \<noteq> WorkerExit
      | _ \<Rightarrow> True)"

inductive wio_step :: "wio \<Rightarrow> wio_event \<Rightarrow> wio \<Rightarrow> bool" where
  step: "wio_enabled e m \<Longrightarrow> wio_step m e (wio_step_fun e m)"

section \<open>Slots\<close>

definition holds_slot :: "wphase \<Rightarrow> bool" where
  "holds_slot p \<longleftrightarrow> p \<in> {WSlot, WChecked, WRegistered, WReading}"

definition slot_holders :: "wio \<Rightarrow> nat set" where
  "slot_holders m = {t. holds_slot (wi_phase m t)}"

definition wio_inv :: "wio \<Rightarrow> bool" where
  "wio_inv m \<longleftrightarrow> finite (slot_holders m) \<and>
                 wi_free m + card (slot_holders m) + wi_leaked m = wi_max m"

lemma holders_set_phase:
  "slot_holders (set_phase t p m) =
     (if holds_slot p then insert t (slot_holders m) else slot_holders m - {t})"
  by (auto simp: slot_holders_def set_phase_def)

lemma set_phase_simps [simp]:
  "wi_free (set_phase t p m) = wi_free m" "wi_leaked (set_phase t p m) = wi_leaked m"
  "wi_max (set_phase t p m) = wi_max m" "wi_written (set_phase t p m) = wi_written m"
  "wi_closed (set_phase t p m) = wi_closed m" "wi_phase (set_phase t p m) = (wi_phase m)(t := p)"
  by (simp_all add: set_phase_def)

lemma wio_cancel_simps [simp]:
  "wi_free (wio_cancel r m) = wi_free m" "wi_leaked (wio_cancel r m) = wi_leaked m"
  "wi_max (wio_cancel r m) = wi_max m" "wi_phase (wio_cancel r m) = wi_phase m"
  "wi_closed (wio_cancel r m) = wi_closed m" "wi_closed m \<Longrightarrow> wio_cancel r m = m"
  by (simp_all add: wio_cancel_def)

lemma slot_holders_phase: "wi_phase m' = wi_phase m \<Longrightarrow> slot_holders m' = slot_holders m"
  by (simp add: slot_holders_def)

text \<open>Moves of one task: it takes a slot, keeps it, or gives it back.\<close>

lemma inv_take:
  assumes "wio_inv m" and "wi_free m' + 1 = wi_free m" and "wi_leaked m' = wi_leaked m"
    and "wi_max m' = wi_max m" and "t \<notin> slot_holders m" and "slot_holders m' = insert t (slot_holders m)"
  shows "wio_inv m'"
  using assms by (simp add: wio_inv_def)

lemma inv_give:
  assumes "wio_inv m" and "wi_free m' = wi_free m + 1" and "wi_leaked m' = wi_leaked m"
    and "wi_max m' = wi_max m" and "t \<in> slot_holders m" and "slot_holders m' = slot_holders m - {t}"
  shows "wio_inv m'"
  using assms card_Suc_Diff1 [of "slot_holders m" t] by (simp add: wio_inv_def)

lemma inv_keep:
  assumes "wio_inv m" and "wi_free m' = wi_free m" and "wi_leaked m' = wi_leaked m"
    and "wi_max m' = wi_max m" and "slot_holders m' = slot_holders m"
  shows "wio_inv m'"
  using assms by (simp add: wio_inv_def)

lemma finish_inv:
  assumes "wio_inv m" and "holds_slot (wi_phase m t)"
  shows "wio_inv (wio_finish t r m)"
proof (rule inv_give [OF assms(1), of _ t])
  show "slot_holders (wio_finish t r m) = slot_holders m - {t}"
    by (auto simp: wio_finish_def Let_def slot_holders_def holds_slot_def)
qed (use assms in \<open>simp_all add: wio_finish_def Let_def slot_holders_def\<close>)

lemma wio_step_inv: "wio_step m e m' \<Longrightarrow> wio_inv m \<Longrightarrow> wio_inv m'"
proof (induction rule: wio_step.induct)
  case (step e m)
  note inv = step(2) and en = step(1)
  show ?case
  proof (cases e)
    case (Start t)
    then have idle: "t \<notin> slot_holders m" using en by (simp add: wio_enabled_def slot_holders_def holds_slot_def)
    show ?thesis
    proof (cases "wi_queueing m \<or> wi_free m = 0")
      case True
      then show ?thesis using Start idle
        by (intro inv_keep [OF inv])
          (auto simp: wio_step_fun_def wio_start_def holders_set_phase holds_slot_def)
    next
      case False
      then show ?thesis using Start idle
        by (intro inv_take [OF inv, of _ t])
          (auto simp: wio_step_fun_def wio_start_def holds_slot_def slot_holders_def)
    qed
  next
    case (Grant t)
    then show ?thesis using en
      by (intro inv_take [OF inv, of _ t])
        (auto simp: wio_step_fun_def wio_grant_def wio_enabled_def holds_slot_def slot_holders_def)
  next
    case (AbandonWait t)
    then show ?thesis using en
      by (intro inv_keep [OF inv])
        (auto simp: wio_step_fun_def wio_abandon_wait_def wio_enabled_def holds_slot_def slot_holders_def)
  next
    case LateAcquire
    then show ?thesis using en inv
      by (auto simp: wio_inv_def wio_step_fun_def wio_late_acquire_def wio_enabled_def slot_holders_def)
  next
    case (Check t)
    show ?thesis
    proof (cases "wi_closed m")
      case True
      then show ?thesis using en Check
        by (intro inv_give [OF inv, of _ t])
          (auto simp: wio_step_fun_def wio_check_def wio_enabled_def holds_slot_def slot_holders_def)
    next
      case False
      then show ?thesis using en Check
        by (intro inv_keep [OF inv])
          (auto simp: wio_step_fun_def wio_check_def wio_enabled_def holds_slot_def slot_holders_def)
    qed
  next
    case (Register t)
    then show ?thesis using en
      by (intro inv_keep [OF inv])
        (auto simp: wio_step_fun_def wio_register_def wio_enabled_def holds_slot_def slot_holders_def)
  next
    case (Write t ok)
    then have h: "holds_slot (wi_phase m t)" using en by (simp add: wio_enabled_def holds_slot_def)
    show ?thesis
    proof (cases "wi_closed m \<or> \<not> ok")
      case True
      then show ?thesis using Write finish_inv [OF inv h] by (auto simp: wio_step_fun_def wio_write_def)
    next
      case False
      then show ?thesis using Write h
        by (intro inv_keep [OF inv])
          (auto simp: wio_step_fun_def wio_write_def holds_slot_def slot_holders_def)
    qed
  next
    case (Receive t)
    then obtain ev q where q: "wi_queue m t = ev # q"
      using en by (auto simp: wio_enabled_def neq_Nil_conv)
    let ?m = "m\<lparr>wi_queue := (wi_queue m)(t := q)\<rparr>"
    have h: "holds_slot (wi_phase ?m t)" using Receive en by (simp add: wio_enabled_def holds_slot_def)
    have "wio_inv ?m" by (rule inv_keep [OF inv]) (simp_all add: slot_holders_def)
    then show ?thesis using Receive q finish_inv [OF _ h]
      by (simp add: wio_step_fun_def wio_receive_def Let_def split: wevent.split)
  next
    case (GiveUp t r)
    then show ?thesis using en finish_inv [OF inv]
      by (simp add: wio_step_fun_def wio_enabled_def holds_slot_def)
  next
    case (Dispatch rid ev)
    then show ?thesis
      by (intro inv_keep [OF inv])
        (auto simp: wio_step_fun_def wio_dispatch_def wio_put_def slot_holders_def split: option.split)
  next
    case WakeAll
    then show ?thesis
      by (intro inv_keep [OF inv]) (auto simp: wio_step_fun_def wio_wake_all_def slot_holders_def)
  next
    case SetClosed
    then show ?thesis
      by (intro inv_keep [OF inv]) (auto simp: wio_step_fun_def wio_set_closed_def slot_holders_def)
  next
    case (CancelCall rid)
    then show ?thesis
      by (intro inv_keep [OF inv]) (auto simp: wio_step_fun_def slot_holders_def)
  qed
qed

interpretation wio_run: rel_invariant wio_step wio_inv
  by unfold_locales (rule wio_step_inv)

section \<open>After close\<close>

text \<open>Once closed, the worker's input stays as it is.\<close>

definition closed_with :: "wline list \<Rightarrow> wio \<Rightarrow> bool" where
  "closed_with w m \<longleftrightarrow> wi_closed m \<and> wi_written m = w"

lemma finish_closed [simp]:
  "wi_closed (wio_finish t r m) = wi_closed m"
  "wi_closed m \<Longrightarrow> wi_written (wio_finish t r m) = wi_written m"
  by (simp_all add: wio_finish_def Let_def)

lemma wio_step_closed: "wio_step m e m' \<Longrightarrow> closed_with w m \<Longrightarrow> closed_with w m'"
proof (induction rule: wio_step.induct)
  case (step e m)
  have cl: "wi_closed m" "wi_written m = w" using step(2) by (simp_all add: closed_with_def)
  show ?case
  proof (cases e)
    case (Receive t)
    then obtain ev q where "wi_queue m t = ev # q"
      using step(1) by (auto simp: wio_enabled_def neq_Nil_conv)
    then show ?thesis using Receive cl
      by (simp add: closed_with_def wio_step_fun_def wio_receive_def Let_def split: wevent.split)
  qed (use cl in \<open>simp_all add: closed_with_def wio_step_fun_def wio_start_def wio_grant_def
        wio_abandon_wait_def wio_late_acquire_def wio_check_def wio_register_def wio_write_def
        wio_dispatch_def wio_put_def wio_wake_all_def wio_set_closed_def split: option.split\<close>)
qed

interpretation wio_closed_run: rel_invariant wio_step "closed_with w" for w
  by unfold_locales (rule wio_step_closed)

lemma new_wio_inv: "wio_inv (new_wio c env rid sync)"
  by (simp add: new_wio_def wio_inv_def slot_holders_def holds_slot_def Let_def)

lemma wio_step_mono: "wio_step m e m' \<Longrightarrow> wi_max m' = wi_max m \<and> wi_leaked m \<le> wi_leaked m'"
  by (cases rule: wio_step.cases)
    (auto simp: wio_step_fun_def wio_start_def wio_grant_def wio_abandon_wait_def wio_late_acquire_def
      wio_check_def wio_register_def wio_write_def wio_receive_def wio_finish_def wio_dispatch_def
      wio_put_def wio_wake_all_def wio_set_closed_def Let_def
      split: wio_event.split list.split wevent.split option.split)

lemma wio_mono_run: "steps_rel wio_step m es m' \<Longrightarrow> wi_max m' = wi_max m \<and> wi_leaked m \<le> wi_leaked m'"
  by (induction rule: steps_rel.induct) (auto dest!: wio_step_mono)

section \<open>Properties\<close>


definition demo_wio :: wio where
  "demo_wio = new_wio 1 (\<lambda>_. None) (\<lambda>t. if t = 0 then ''r0'' else ''r1'') (\<lambda>_. False)"

text \<open>One request runs to its end; a second one is cancelled while it waits for the slot.\<close>

definition leak_events :: "wio_event list" where
  "leak_events = [Start 0, Grant 0, Check 0, Register 0, Write 0 True, Start 1, AbandonWait 1,
                  Dispatch ''r0'' DoneEv, Receive 0, LateAcquire]"

fun wio_exec :: "wio_event list \<Rightarrow> wio \<Rightarrow> wio option" where
  "wio_exec [] m = Some m"
| "wio_exec (e # es) m = (if wio_enabled e m then wio_exec es (wio_step_fun e m) else None)"

lemma wio_exec_run: "wio_exec es m = Some m' \<Longrightarrow> steps_rel wio_step m es m'"
proof (induction es arbitrary: m)
  case (Cons e es)
  then have "wio_enabled e m" "wio_exec es (wio_step_fun e m) = Some m'" by (auto split: if_splits)
  then show ?case using Cons.IH by (blast intro: steps_cons wio_step.step)
qed (auto intro: steps_nil)

lemmas wio_eval = wio_enabled_def wio_step_fun_def wio_start_def wio_grant_def wio_abandon_wait_def
  wio_late_acquire_def wio_check_def wio_register_def wio_write_def wio_receive_def wio_finish_def
  wio_dispatch_def wio_put_def set_phase_def demo_wio_def new_wio_def leak_events_def
  queue_when_saturated_def py_lower_def py_strip_def strip_by_def rstrip_by_def lstrip_by_def
  lower_char_def cp_isspace_def wio_cancel_def Let_def

lemma leak_run:
  "\<exists>m. wio_exec leak_events demo_wio = Some m \<and> wi_free m = 0 \<and> wi_leaked m = 1 \<and>
       wi_phase m = (\<lambda>t. if t = 0 then WEnded Finished else if t = 1 then WEnded Abandoned else WIdle)"
  by (simp add: wio_eval fun_eq_iff)


text \<open>An asynchronous request that is cancelled while it waits for a slot loses that slot for
  good: there is a run after which every request has ended and no slot is free, so that no
  later request is ever granted one.\<close>
theorem cancelled_wait_leaks_slot:
  "\<exists>m. steps_rel wio_step demo_wio leak_events m \<and> slot_holders m = {} \<and> wi_free m = 0 \<and>
       (\<forall>t fs m'. steps_rel wio_step m fs m' \<longrightarrow> wi_free m' = 0 \<and> \<not> wio_enabled (Grant t) m')"
proof -
  obtain m where m: "wio_exec leak_events demo_wio = Some m" "wi_free m = 0" "wi_leaked m = 1"
    "wi_phase m = (\<lambda>t. if t = 0 then WEnded Finished else if t = 1 then WEnded Abandoned else WIdle)"
    using leak_run by blast
  have run: "steps_rel wio_step demo_wio leak_events m" by (rule wio_exec_run [OF m(1)])
  have "slot_holders m = {}" by (auto simp: slot_holders_def holds_slot_def m(4))
  moreover have "wi_free m' = 0" if "steps_rel wio_step m fs m'" for fs m'
  proof -
    have "wio_inv m'" using wio_run.rel_run_inv [OF that] wio_run.rel_run_inv [OF run] new_wio_inv
      by (simp add: demo_wio_def)
    moreover have "wi_max m = 1" using wio_mono_run [OF run] by (simp add: demo_wio_def new_wio_def)
    ultimately show ?thesis using wio_mono_run [OF that] m(3) by (simp add: wio_inv_def)
  qed
  ultimately show ?thesis using run m(2) by (auto simp: wio_enabled_def)
qed

theorem cancelled_wait_leaks_slot_witness:
  "\<exists>m. steps_rel wio_step demo_wio leak_events m \<and> steps_rel wio_step m [] m \<and> wi_free m = 0 \<and>
       \<not> wio_enabled (Grant 2) m"
  using cancelled_wait_leaks_slot by (blast intro: steps_rel.intros)

end
