(* ===== verification/Auth.thy ===== *)
theory Auth
  imports Prelude
begin

text \<open>
  API-key authentication of the voice endpoints (\<open>server/core/api_auth.py\<close>) and the gate of the
  admin routes (\<open>server/core/admin_auth.py\<close>).  Header values are Latin-1 strings (that is how
  they reach the application).  \<open>hmac.compare_digest\<close> raises \<open>TypeError\<close> on a string that is
  not ASCII: that is the outcome \<open>AuthRaised\<close>, which the server turns into a 500.  The digest
  in a log mask is an argument.
\<close>

section \<open>Keys\<close>

fun split_on :: "char \<Rightarrow> string \<Rightarrow> string list" where
  "split_on sep [] = [[]]"
| "split_on sep (c # cs) =
     (if c = sep then [] # split_on sep cs
      else (case split_on sep cs of [] \<Rightarrow> [[c]] | p # ps \<Rightarrow> (c # p) # ps))"

definition parse_keys :: "string option \<Rightarrow> string list" where
  "parse_keys raw =
     (case raw of None \<Rightarrow> []
      | Some s \<Rightarrow> filter (\<lambda>k. k \<noteq> []) (map py_strip (split_on (CHR '','') s)))"

definition configured_keys :: "env_map \<Rightarrow> string list" where
  "configured_keys env = parse_keys (env ''OVS_API_KEYS'')"

definition auth_enabled :: "env_map \<Rightarrow> bool" where
  "auth_enabled env \<longleftrightarrow> 0 < length (configured_keys env)"

definition is_ascii :: "string \<Rightarrow> bool" where
  "is_ascii s = list_all (\<lambda>c. (of_char c :: nat) < 128) s"

definition compare_digest :: "string \<Rightarrow> string \<Rightarrow> bool option" where
  "compare_digest a b = (if is_ascii a \<and> is_ascii b then Some (a = b) else None)"

fun match_loop :: "string \<Rightarrow> string list \<Rightarrow> bool \<Rightarrow> bool option" where
  "match_loop candidate [] matched = Some matched"
| "match_loop candidate (k # ks) matched =
     (case compare_digest candidate k of
        None \<Rightarrow> None
      | Some eq \<Rightarrow> match_loop candidate ks (if eq then True else matched))"

definition auth_matches :: "string \<Rightarrow> string list \<Rightarrow> bool option" where
  "auth_matches candidate keys = (if candidate = [] then Some False else match_loop candidate keys False)"

section \<open>Credentials\<close>

definition char_space :: "char \<Rightarrow> bool" where
  "char_space c = cp_isspace (of_char c)"

text \<open>\<open>s.split(None, 1)\<close>: at most two parts; the second keeps its trailing white space.\<close>

definition split_once :: "string \<Rightarrow> string list" where
  "split_once s =
     (let t = lstrip_by char_space s;
          first = takeWhile (\<lambda>c. \<not> char_space c) t;
          rest = lstrip_by char_space (dropWhile (\<lambda>c. \<not> char_space c) t)
      in if t = [] then [] else if rest = [] then [first] else [first, rest])"

definition extract_bearer :: "string option \<Rightarrow> string option" where
  "extract_bearer authorization =
     (case authorization of
        None \<Rightarrow> None
      | Some a \<Rightarrow>
          (if a = [] then None
           else (case split_once a of
                   [scheme, token] \<Rightarrow> (if py_lower scheme \<noteq> ''bearer'' then None else Some (py_strip token))
                 | _ \<Rightarrow> None)))"

datatype masked = MissingKey | MaskedKey string

definition mask_key :: "(string \<Rightarrow> string) \<Rightarrow> string option \<Rightarrow> masked" where
  "mask_key sha256_hex value =
     (case value of
        None \<Rightarrow> MissingKey
      | Some v \<Rightarrow>
          (let s = take 4096 v
           in if py_strip s = [] then MissingKey else MaskedKey (take 6 (sha256_hex s))))"

section \<open>The checks\<close>

datatype auth_outcome = Allowed | Rejected | AuthRaised

definition decide :: "string option \<Rightarrow> string list \<Rightarrow> auth_outcome" where
  "decide token keys =
     (case token of
        None \<Rightarrow> Rejected
      | Some t \<Rightarrow>
          (if t = [] then Rejected
           else (case auth_matches t keys of
                   None \<Rightarrow> AuthRaised
                 | Some True \<Rightarrow> Allowed
                 | Some False \<Rightarrow> Rejected)))"

definition check_http :: "env_map \<Rightarrow> string option \<Rightarrow> auth_outcome" where
  "check_http env authorization =
     (let keys = configured_keys env
      in if keys = [] then Allowed else decide (extract_bearer authorization) keys)"

text \<open>The WebSocket check also says what it does to a rejected socket: accept it, then close it with
  4401; when accepting raises, nothing more.\<close>

datatype ws_action = WsAccept | WsClose nat

definition ws_token :: "string option \<Rightarrow> string option \<Rightarrow> string option" where
  "ws_token authorization query =
     (case authorization of
        Some a \<Rightarrow> extract_bearer (Some a)
      | None \<Rightarrow> map_option py_strip query)"

definition check_ws ::
    "bool \<Rightarrow> env_map \<Rightarrow> string option \<Rightarrow> string option \<Rightarrow> auth_outcome \<times> ws_action list" where
  "check_ws accept_ok env authorization query =
     (let keys = configured_keys env
      in if keys = [] then (Allowed, [])
         else (case decide (ws_token authorization query) keys of
                 Rejected \<Rightarrow> (Rejected, if accept_ok then [WsAccept, WsClose 4401] else [WsAccept])
               | out \<Rightarrow> (out, [])))"

section \<open>Admin routes\<close>

text \<open>An IPv4 octet as \<open>ipaddress\<close> reads it: one to three digits, no leading zero, at most 255.\<close>

definition ipv4_octet :: "string \<Rightarrow> nat option" where
  "ipv4_octet s =
     (if s = [] \<or> length s > 3 \<or> \<not> list_all is_digit_char s \<or> (length s > 1 \<and> hd s = CHR ''0'') then None
      else (case digits_value False 0 s of
              None \<Rightarrow> None
            | Some n \<Rightarrow> (if n > 255 then None else Some n)))"

text \<open>\<open>ip_address(host).is_loopback\<close> on the forms a socket reports: dotted IPv4, and the canonical
  IPv6 loopback; anything else is not a loopback address (or a \<open>ValueError\<close>, caught).\<close>

definition is_loopback :: "string option \<Rightarrow> bool" where
  "is_loopback host =
     (case host of
        None \<Rightarrow> False
      | Some h \<Rightarrow>
          (if h = [] then False
           else if h = ''::1'' then True
           else (case map ipv4_octet (split_on (CHR ''.'') h) of
                   [Some a, Some b, Some c, Some d] \<Rightarrow> a = 127
                 | _ \<Rightarrow> False)))"

definition admin_key :: "env_map \<Rightarrow> string option" where
  "admin_key env =
     (case env ''OVS_ADMIN_KEY'' of
        None \<Rightarrow> None
      | Some raw \<Rightarrow> (if py_strip raw = [] then None else Some (py_strip raw)))"

datatype admin_outcome = AdminAllowed | AdminForbidden | AdminUnauthorized | AdminRaised

definition require_admin :: "env_map \<Rightarrow> string option \<Rightarrow> string option \<Rightarrow> admin_outcome" where
  "require_admin env client_host header_key =
     (if is_loopback client_host then AdminAllowed
      else (case admin_key env of
              None \<Rightarrow> AdminForbidden
            | Some expected \<Rightarrow>
                (case compare_digest (case header_key of None \<Rightarrow> [] | Some k \<Rightarrow> k) expected of
                   None \<Rightarrow> AdminRaised
                 | Some True \<Rightarrow> AdminAllowed
                 | Some False \<Rightarrow> AdminUnauthorized)))"

section \<open>Lemmas\<close>

lemma match_loop_spec:
  "match_loop c ks b =
     (if list_all (\<lambda>k. is_ascii c \<and> is_ascii k) ks then Some (b \<or> c \<in> set ks) else None)"
  by (induction ks arbitrary: b) (auto simp: compare_digest_def)

lemma configured_keys_nonempty: "k \<in> set (configured_keys env) \<Longrightarrow> k \<noteq> []"
  by (auto simp: configured_keys_def parse_keys_def split: option.splits)

lemma decide_Some:
  assumes "keys \<noteq> []"
  shows "decide (Some t) keys =
     (if t = [] then Rejected
      else if is_ascii t \<and> list_all is_ascii keys then (if t \<in> set keys then Allowed else Rejected)
      else AuthRaised)"
proof -
  have all: "list_all (\<lambda>k. is_ascii t \<and> is_ascii k) keys \<longleftrightarrow> is_ascii t \<and> list_all is_ascii keys"
    using assms by (cases keys) (auto simp: list_all_iff)
  show ?thesis
    by (simp only: decide_def option.case auth_matches_def match_loop_spec all) simp
qed

lemma decide_eq:
  assumes "keys \<noteq> []" and "\<forall>k\<in>set keys. k \<noteq> []"
  shows "decide token keys =
     (if \<exists>t. token = Some t \<and> t \<noteq> [] \<and> (\<not> is_ascii t \<or> \<not> list_all is_ascii keys) then AuthRaised
      else if \<exists>t. token = Some t \<and> t \<in> set keys then Allowed else Rejected)"
proof (cases token)
  case (Some t)
  have "t \<in> set keys \<longrightarrow> t \<noteq> []" using assms(2) by blast
  then show ?thesis unfolding Some decide_Some [OF assms(1)] by auto
qed (simp add: decide_def)

section \<open>Properties\<close>

text \<open>With keys configured, an HTTP request or a WebSocket is let in exactly when its credential
  is one of the configured keys (all of them ASCII); the credential is the bearer token, and
  for a WebSocket the query token only when there is no Authorization header at all; a
  rejected socket is closed with 4401.  A credential (or key) with a character outside ASCII
  makes the check raise instead of rejecting.\<close>
theorem api_auth_decisions:
  "check_http env hdr =
     (if configured_keys env = [] then Allowed
      else if \<exists>t. extract_bearer hdr = Some t \<and> t \<noteq> [] \<and>
                 \<not> (is_ascii t \<and> list_all is_ascii (configured_keys env)) then AuthRaised
      else if \<exists>t. extract_bearer hdr = Some t \<and> t \<in> set (configured_keys env) then Allowed
      else Rejected) \<and>
   fst (check_ws ok env hdr query) =
     (if hdr \<noteq> None then check_http env hdr
      else if configured_keys env = [] then Allowed
      else decide (map_option py_strip query) (configured_keys env)) \<and>
   snd (check_ws ok env hdr query) =
     (if fst (check_ws ok env hdr query) = Rejected
      then (if ok then [WsAccept, WsClose 4401] else [WsAccept]) else [])"
proof (cases "configured_keys env = []")
  case True
  then show ?thesis by (simp add: check_http_def check_ws_def)
next
  case False
  have http: "check_http env h = decide (extract_bearer h) (configured_keys env)" for h
    using False by (simp add: check_http_def Let_def)
  have ws: "fst (check_ws ok env hdr query) = decide (ws_token hdr query) (configured_keys env)"
    "snd (check_ws ok env hdr query) =
        (if decide (ws_token hdr query) (configured_keys env) = Rejected
         then (if ok then [WsAccept, WsClose 4401] else [WsAccept]) else [])"
    using False by (simp_all add: check_ws_def Let_def split: auth_outcome.split)
  have keys: "\<forall>k\<in>set (configured_keys env). k \<noteq> []" using configured_keys_nonempty by blast
  have token: "ws_token (Some h) query = extract_bearer (Some h)" "ws_token None query = map_option py_strip query" for h
    by (simp_all add: ws_token_def)
  have first: "check_http env hdr =
     (if configured_keys env = [] then Allowed
      else if \<exists>t. extract_bearer hdr = Some t \<and> t \<noteq> [] \<and>
                 \<not> (is_ascii t \<and> list_all is_ascii (configured_keys env)) then AuthRaised
      else if \<exists>t. extract_bearer hdr = Some t \<and> t \<in> set (configured_keys env) then Allowed
      else Rejected)"
    using False decide_eq [OF False keys, of "extract_bearer hdr"] by (simp add: http)
  moreover have "fst (check_ws ok env hdr query) =
     (if hdr \<noteq> None then check_http env hdr
      else if configured_keys env = [] then Allowed
      else decide (map_option py_strip query) (configured_keys env))"
    unfolding ws using False by (cases hdr) (simp_all add: token http)
  moreover have "snd (check_ws ok env hdr query) =
     (if fst (check_ws ok env hdr query) = Rejected
      then (if ok then [WsAccept, WsClose 4401] else [WsAccept]) else [])"
    using ws by (simp only:)
  ultimately show ?thesis by (intro conjI)
qed

text \<open>An admin route is open to a loopback client, and to another client exactly when an admin key
  is configured, consists of ASCII characters and is exactly the header's value.\<close>
theorem admin_gate:
  "require_admin env host hdr = AdminAllowed \<longleftrightarrow>
     is_loopback host \<or>
     (\<exists>k. admin_key env = Some k \<and> is_ascii k \<and> hdr = Some k \<and> k \<noteq> [])"
proof -
  have "k \<noteq> []" if "admin_key env = Some k" for k
    using that by (auto simp: admin_key_def split: option.splits if_splits)
  then show ?thesis
    by (auto simp: require_admin_def compare_digest_def split: option.splits bool.splits if_splits)
qed

end
