(* ===== verification/SentenceBuffers.thy ===== *)
theory SentenceBuffers
  imports Prelude
begin

text \<open>
  Cutting a stream of text into pieces for synthesis: \<open>SentenceBuffer\<close> (its regex path) and
  \<open>LowLatencyTTSBuffer\<close> of \<open>server/core/v2v.py\<close>, and the \<open>ClauseBuffer\<close> of the Wyoming adapter,
  which says it mirrors the latter.  Text is a list of code points; \<open>str.isalnum\<close>, a Unicode
  table, is an argument.  The \<open>pysbd\<close> path is \<open>emit_pysbd\<close>, with the segmenter of that package
  as an argument.  Each emitting loop shortens the buffer with every piece, which is its
  termination proof.
\<close>

section \<open>Shared helpers\<close>

definition cjk_langs :: "string set" where
  "cjk_langs = {''zh'', ''chinese'', ''ja'', ''japanese'', ''ko'', ''korean''}"

definition v2v_contains_cjk :: "cptext \<Rightarrow> bool" where
  "v2v_contains_cjk text = list_ex (\<lambda>cp. (0x4E00 \<le> cp \<and> cp \<le> 0x9FFF) \<or> (0x3040 \<le> cp \<and> cp \<le> 0x30FF) \<or>
     (0xAC00 \<le> cp \<and> cp \<le> 0xD7AF)) text"

definition has_speakable_text :: "(nat \<Rightarrow> bool) \<Rightarrow> cptext \<Rightarrow> bool" where
  "has_speakable_text isalnum text = list_ex isalnum text"

text \<open>The break characters: full stop, exclamation, question, semicolon (CJK and ASCII), newline;
  comma, enumeration comma, colon.\<close>

definition hard_breaks :: "nat set" where
  "hard_breaks = {0x3002, 0xFF01, 0xFF1F, 33, 63, 0xFF1B, 59, 10}"

definition soft_breaks :: "bool \<Rightarrow> nat set" where
  "soft_breaks cjk = (if cjk then {0xFF0C, 44, 0x3001, 0xFF1A, 58} else {44, 59, 58})"

text \<open>\<open>_first_break_index\<close> and \<open>_last_break_index\<close>; \<open>-1\<close> is \<open>None\<close>.\<close>

fun first_break :: "nat set \<Rightarrow> cptext \<Rightarrow> nat option" where
  "first_break bs [] = None"
| "first_break bs (c # cs) = (if c \<in> bs then Some 0 else map_option Suc (first_break bs cs))"

fun last_break :: "nat set \<Rightarrow> cptext \<Rightarrow> nat option" where
  "last_break bs [] = None"
| "last_break bs (c # cs) =
     (case last_break bs cs of Some i \<Rightarrow> Some (Suc i) | None \<Rightarrow> (if c \<in> bs then Some 0 else None))"

text \<open>\<open>_normalize_lang\<close> and the choice of the splitter: the sentence buffer uses the package when it is
  installed, knows the language and constructs a segmenter for it.\<close>

definition lang_aliases :: "(string \<times> string) list" where
  "lang_aliases =
     [(''english'', ''en''), (''chinese'', ''zh''), (''japanese'', ''ja''), (''korean'', ''ko''),
      (''spanish'', ''es''), (''french'', ''fr''), (''german'', ''de''), (''italian'', ''it''),
      (''portuguese'', ''pt''), (''russian'', ''ru''), (''arabic'', ''ar''), (''hindi'', ''hi''),
      (''dutch'', ''nl''), (''polish'', ''pl''), (''greek'', ''el''), (''burmese'', ''my''),
      (''marathi'', ''mr'')]"

definition pysbd_langs :: "string list" where
  "pysbd_langs =
     [''am'', ''ar'', ''bg'', ''da'', ''de'', ''el'', ''en'', ''es'', ''fa'', ''fr'', ''hi'', ''hy'',
      ''it'', ''ja'', ''kk'', ''mr'', ''my'', ''nl'', ''pl'', ''ru'', ''ur'', ''zh'']"

definition normalize_lang :: "string \<Rightarrow> string option" where
  "normalize_lang lang =
     (if lang = [] then None
      else (let lc = py_lower (py_strip lang);
                code = (case map_of lang_aliases lc of Some c \<Rightarrow> c | None \<Rightarrow> lc)
            in if code \<in> set pysbd_langs then Some code else None))"

definition using_pysbd :: "bool \<Rightarrow> (string \<Rightarrow> 'seg option) \<Rightarrow> string \<Rightarrow> 'seg option" where
  "using_pysbd pysbd_available make_segmenter language =
     (if pysbd_available
      then (case normalize_lang language of Some code \<Rightarrow> make_segmenter code | None \<Rightarrow> None)
      else None)"

record chunk_conf =
  cc_language :: string
  cc_min :: nat
  cc_target :: nat
  cc_max :: nat

text \<open>The sizes: each explicit, or from the environment, or the default; \<open>None\<close> is the
  \<open>ValueError\<close> of \<open>int\<close>.\<close>

definition env_size :: "env_map \<Rightarrow> string \<Rightarrow> string \<Rightarrow> int option" where
  "env_size env k d = py_int (case env k of None \<Rightarrow> d | Some v \<Rightarrow> v)"

definition new_chunk_conf ::
    "env_map \<Rightarrow> string \<Rightarrow> int option \<Rightarrow> int option \<Rightarrow> int option \<Rightarrow> chunk_conf option" where
  "new_chunk_conf env language mn tg mx =
     (let cjk = (py_lower (py_strip language) \<in> cjk_langs);
          prefix = (if cjk then ''OVS_TTS_LOW_LATENCY_CJK'' else ''OVS_TTS_LOW_LATENCY_LATIN'')
      in case (env_size env (prefix @ ''_MIN_CHARS'') (if cjk then ''15'' else ''24''),
               env_size env (prefix @ ''_TARGET_CHARS'') (if cjk then ''24'' else ''48''),
               env_size env (prefix @ ''_MAX_CHARS'') (if cjk then ''40'' else ''80'')) of
           (Some d_min, Some d_target, Some d_max) \<Rightarrow>
             (let m = max 2 (case mn of None \<Rightarrow> d_min | Some n \<Rightarrow> n);
                  t = max m (case tg of None \<Rightarrow> d_target | Some n \<Rightarrow> n);
                  x = max t (case mx of None \<Rightarrow> d_max | Some n \<Rightarrow> n)
              in Some \<lparr>cc_language = language, cc_min = nat m, cc_target = nat t, cc_max = nat x\<rparr>)
         | _ \<Rightarrow> None)"

definition lang_is_cjk :: "chunk_conf \<Rightarrow> bool" where
  "lang_is_cjk cf \<longleftrightarrow> py_lower (cc_language cf) \<in> cjk_langs"

text \<open>The backwards search for white space in the Latin length cut.\<close>

fun space_cut :: "cptext \<Rightarrow> nat \<Rightarrow> nat \<Rightarrow> nat option" where
  "space_cut w lo 0 = None"
| "space_cut w lo (Suc i) =
     (if Suc i < lo then None
      else if cp_isspace (w ! i) then Some (Suc i) else space_cut w lo i)"

definition choose_length_cut :: "chunk_conf \<Rightarrow> bool \<Rightarrow> cptext \<Rightarrow> nat" where
  "choose_length_cut cf cjk buf =
     (let limit = min (length buf) (cc_max cf) in
      if cjk then
        (case last_break (soft_breaks True) (take limit buf) of
           Some i \<Rightarrow> (if i + 1 \<ge> cc_min cf then i + 1 else limit)
         | None \<Rightarrow> limit)
      else
        (case space_cut (take limit buf) (cc_min cf) limit of
           Some e \<Rightarrow> e
         | None \<Rightarrow> min (length buf) (cc_target cf)))"

definition take_chunk :: "nat \<Rightarrow> cptext \<Rightarrow> cptext option \<times> cptext" where
  "take_chunk e buf =
     (let out = cp_strip (take e buf)
      in (if out = [] then None else Some out, cp_lstrip (drop e buf)))"

text \<open>Everything of \<open>_next_chunk\<close> / \<open>_next\<close> after the final case, for a verdict on CJK.\<close>

definition next_ready :: "chunk_conf \<Rightarrow> bool \<Rightarrow> cptext \<Rightarrow> cptext option \<times> cptext" where
  "next_ready cf cjk buf =
     (let hard = first_break hard_breaks buf; soft = last_break (soft_breaks cjk) buf in
      if (case hard of None \<Rightarrow> False | Some h \<Rightarrow> length (cp_strip (take (h + 1) buf)) \<ge> 2)
        then take_chunk (the hard + 1) buf
      else if (case soft of None \<Rightarrow> False | Some s \<Rightarrow> length (cp_strip (take (s + 1) buf)) \<ge> cc_min cf)
        then take_chunk (the soft + 1) buf
      else if soft \<noteq> None \<and> length (cp_strip buf) \<ge> cc_target cf
        then take_chunk (length buf) buf
      else if length (cp_strip buf) < (if cjk then cc_max cf else cc_target cf) then (None, buf)
      else (let e = choose_length_cut cf cjk buf
            in if e = 0 then (None, buf) else take_chunk e buf))"

section \<open>The two low-latency buffers\<close>

definition low_latency_next ::
    "(nat \<Rightarrow> bool) \<Rightarrow> chunk_conf \<Rightarrow> bool \<Rightarrow> cptext \<Rightarrow> cptext option \<times> cptext" where
  "low_latency_next isalnum cf final buf0 =
     (let buf = cp_lstrip buf0 in
      if buf = [] then (None, buf)
      else if final then
        (let out = cp_strip buf
         in (if out \<noteq> [] \<and> has_speakable_text isalnum out then Some out else None, []))
      else next_ready cf (v2v_contains_cjk buf \<or> lang_is_cjk cf) buf)"

definition clause_contains_cjk :: "cptext \<Rightarrow> bool" where
  "clause_contains_cjk text = list_ex (\<lambda>cp. (0x4E00 \<le> cp \<and> cp \<le> 0x9FFF) \<or> (0x3400 \<le> cp \<and> cp \<le> 0x4DBF) \<or>
     (0x3040 \<le> cp \<and> cp \<le> 0x30FF) \<or> (0xAC00 \<le> cp \<and> cp \<le> 0xD7AF)) text"

definition clause_next :: "chunk_conf \<Rightarrow> bool \<Rightarrow> cptext \<Rightarrow> cptext option \<times> cptext" where
  "clause_next cf final buf0 =
     (let buf = cp_lstrip buf0 in
      if buf = [] then (None, buf)
      else if final then
        (let out = cp_strip buf in (if out = [] then None else Some out, []))
      else next_ready cf (clause_contains_cjk buf \<or> lang_is_cjk cf) buf)"

text \<open>The emitting loop of all three buffers.\<close>

partial_function (option) emit_loop ::
    "(cptext \<Rightarrow> cptext option \<times> cptext) \<Rightarrow> cptext \<Rightarrow> cptext list \<Rightarrow> (cptext list \<times> cptext) option" where
  "emit_loop nxt buf acc =
     (case nxt buf of
        (None, buf') \<Rightarrow> Some (acc, buf')
      | (Some part, buf') \<Rightarrow> emit_loop nxt buf' (acc @ [part]))"

definition low_latency_add ::
    "(nat \<Rightarrow> bool) \<Rightarrow> chunk_conf \<Rightarrow> cptext \<Rightarrow> cptext \<Rightarrow> (cptext list \<times> cptext) option" where
  "low_latency_add isalnum cf buf chunk =
     (if chunk = [] then Some ([], buf)
      else emit_loop (low_latency_next isalnum cf False) (buf @ chunk) [])"

definition low_latency_flush ::
    "(nat \<Rightarrow> bool) \<Rightarrow> chunk_conf \<Rightarrow> cptext \<Rightarrow> (cptext list \<times> cptext) option" where
  "low_latency_flush isalnum cf buf = emit_loop (low_latency_next isalnum cf True) buf []"

definition clause_add :: "chunk_conf \<Rightarrow> cptext \<Rightarrow> cptext \<Rightarrow> (cptext list \<times> cptext) option" where
  "clause_add cf buf chunk =
     (if chunk = [] then Some ([], buf) else emit_loop (clause_next cf False) (buf @ chunk) [])"

definition clause_flush :: "chunk_conf \<Rightarrow> cptext \<Rightarrow> (cptext list \<times> cptext) option" where
  "clause_flush cf buf = emit_loop (clause_next cf True) buf []"

section \<open>The sentence buffer\<close>

text \<open>The regex \<open>[...]+|[!?.](?=\s|$)\<close> searched from the start: the end of the leftmost match.\<close>

definition cjk_terminators :: "nat set" where
  "cjk_terminators = {0x3002, 0xFF01, 0xFF1F, 0xFF1B, 10}"

fun search_end :: "cptext \<Rightarrow> nat option" where
  "search_end [] = None"
| "search_end (c # cs) =
     (if c \<in> cjk_terminators then Some (Suc (length (takeWhile (\<lambda>x. x \<in> cjk_terminators) cs)))
      else if c \<in> {33, 63, 46} \<and> (cs = [] \<or> cp_isspace (hd cs)) then Some 1
      else map_option Suc (search_end cs))"

lemma search_end_pos: "search_end s = Some n \<Longrightarrow> 0 < n \<and> n \<le> length s"
proof (induction s arbitrary: n)
  case (Cons c cs)
  have "length (takeWhile (\<lambda>x. x \<in> cjk_terminators) cs) \<le> length cs" by (rule length_takeWhile_le)
  then show ?case using Cons by (auto split: if_splits)
qed simp

function next_sentence :: "nat \<Rightarrow> nat \<Rightarrow> cptext \<Rightarrow> nat \<Rightarrow> cptext option \<times> cptext" where
  "next_sentence min_chars max_buffer buf pos =
     (case search_end (drop pos buf) of
        None \<Rightarrow>
          (if length buf \<ge> max_buffer
           then (let out = cp_strip buf in (if out = [] then None else Some out, []))
           else (None, buf))
      | Some k \<Rightarrow>
          (if length (cp_strip (take (pos + k) buf)) \<ge> min_chars
           then (Some (cp_strip (take (pos + k) buf)), drop (pos + k) buf)
           else next_sentence min_chars max_buffer buf (pos + k)))"
  by pat_completeness auto
termination
  by (relation "measure (\<lambda>(m, x, buf, pos). length buf - pos)") (auto dest: search_end_pos)

declare next_sentence.simps [simp del]

definition sentence_add :: "nat \<Rightarrow> nat \<Rightarrow> cptext \<Rightarrow> cptext \<Rightarrow> (cptext list \<times> cptext) option" where
  "sentence_add min_chars max_buffer buf chunk =
     (if chunk = [] then Some ([], buf)
      else emit_loop (\<lambda>b. next_sentence min_chars max_buffer b 0) (buf @ chunk) [])"

definition sentence_flush :: "(nat \<Rightarrow> bool) \<Rightarrow> cptext \<Rightarrow> cptext list \<times> cptext" where
  "sentence_flush isalnum buf =
     (let leftover = cp_strip buf
      in (if leftover \<noteq> [] \<and> has_speakable_text isalnum leftover then [leftover] else [], []))"

definition emit_pysbd ::
    "(cptext \<Rightarrow> cptext list) \<Rightarrow> nat \<Rightarrow> nat \<Rightarrow> cptext \<Rightarrow> cptext list \<times> cptext" where
  "emit_pysbd segment min_chars max_buffer buf =
     (let sentences = segment buf in
      if length sentences > 1
      then (filter (\<lambda>s. length s \<ge> min_chars) (map cp_strip (butlast sentences)), last sentences)
      else if length buf \<ge> max_buffer
      then (let out = cp_strip buf in (if out = [] then [] else [out], []))
      else ([], buf))"

section \<open>The contract of a chunker\<close>

text \<open>The text without white space: what must survive the cutting.\<close>

definition ink :: "cptext \<Rightarrow> cptext" where
  "ink t = filter (\<lambda>c. \<not> cp_isspace c) t"

lemma ink_append [simp]: "ink (a @ b) = ink a @ ink b"
  by (simp add: ink_def)

lemma ink_strip [simp]: "ink (cp_strip t) = ink t" "ink (cp_lstrip t) = ink t" "ink [] = []"
  by (simp_all add: ink_def)

definition opt_text :: "cptext option \<Rightarrow> cptext" where
  "opt_text o' = (case o' of None \<Rightarrow> [] | Some t \<Rightarrow> t)"

fun feed_chunks ::
    "(cptext \<Rightarrow> cptext \<Rightarrow> (cptext list \<times> cptext) option) \<Rightarrow> cptext \<Rightarrow> cptext list
     \<Rightarrow> (cptext list \<times> cptext) option" where
  "feed_chunks add buf [] = Some ([], buf)"
| "feed_chunks add buf (c # cs) =
     (case add buf c of
        None \<Rightarrow> None
      | Some (out, buf') \<Rightarrow>
          (case feed_chunks add buf' cs of
             None \<Rightarrow> None
           | Some (out', buf'') \<Rightarrow> Some (out @ out', buf'')))"

locale text_chunker =
  fixes nxt :: "cptext \<Rightarrow> cptext option \<times> cptext"
  assumes shorter: "nxt buf = (Some part, buf') \<Longrightarrow> length buf' < length buf"
    and keeps: "nxt buf = (o', buf') \<Longrightarrow> ink (opt_text o') @ ink buf' = ink buf"
begin

lemma loop_returns:
  "\<exists>out buf'. emit_loop nxt buf acc = Some (acc @ out, buf') \<and> ink (concat out) @ ink buf' = ink buf"
proof (induction "length buf" arbitrary: buf acc rule: less_induct)
  case less
  show ?case
  proof (cases "nxt buf")
    case (Pair o' buf1)
    show ?thesis
    proof (cases o')
      case None
      then show ?thesis using Pair keeps [OF Pair] by (subst emit_loop.simps) (simp add: opt_text_def)
    next
      case (Some part)
      from less.hyps [OF shorter [OF Pair [unfolded Some]], of "acc @ [part]"] obtain out buf' where
        "emit_loop nxt buf1 (acc @ [part]) = Some ((acc @ [part]) @ out, buf')"
        "ink (concat out) @ ink buf' = ink buf1" by blast
      then have "emit_loop nxt buf acc = Some (acc @ (part # out), buf')"
          "ink (concat (part # out)) @ ink buf' = ink buf"
        using Pair Some keeps [OF Pair] by (simp_all add: emit_loop.simps [of nxt buf] opt_text_def)
      then show ?thesis by blast
    qed
  qed
qed

lemma feed_returns:
  assumes add: "\<And>buf c. add buf c = (if c = [] then Some ([], buf) else emit_loop nxt (buf @ c) [])"
  shows "\<exists>out buf'. feed_chunks add buf cs = Some (out, buf') \<and>
                    ink (concat out) @ ink buf' = ink buf @ ink (concat cs)"
proof (induction cs arbitrary: buf)
  case Nil
  then show ?case by simp
next
  case (Cons c cs)
  obtain out1 buf1 where a: "add buf c = Some (out1, buf1)" "ink (concat out1) @ ink buf1 = ink buf @ ink c"
    using loop_returns [of "buf @ c" "[]"] add [of buf c] by (cases "c = []") auto
  obtain out2 buf2 where "feed_chunks add buf1 cs = Some (out2, buf2)"
    "ink (concat out2) @ ink buf2 = ink buf1 @ ink (concat cs)" using Cons.IH by blast
  then have "feed_chunks add buf (c # cs) = Some (out1 @ out2, buf2)"
    and "ink (concat (out1 @ out2)) @ ink buf2 = (ink (concat out1) @ ink buf1) @ ink (concat cs)"
    using a by simp_all
  then show ?case unfolding a(2) by simp
qed

end

lemma take_chunk_keeps: "take_chunk e buf = (o', buf') \<Longrightarrow> ink (opt_text o') @ ink buf' = ink buf"
proof -
  have "ink (take e buf) @ ink (drop e buf) = ink buf"
    by (simp add: ink_append [symmetric] del: ink_append)
  moreover have "cp_strip (take e buf) = [] \<Longrightarrow> ink (take e buf) = []"
    by (metis ink_strip(1,3))
  ultimately show "take_chunk e buf = (o', buf') \<Longrightarrow> ?thesis"
    by (auto simp: take_chunk_def Let_def opt_text_def split: if_splits)
qed

lemma take_chunk_shorter:
  assumes "take_chunk e buf = (Some part, buf')" and "0 < e"
  shows "length buf' < length buf"
proof -
  have "buf \<noteq> []" using assms(1) by (auto simp: take_chunk_def Let_def split: if_splits)
  moreover have "length buf' \<le> length (drop e buf)"
    using assms(1) length_lstrip_by [of cp_isspace "drop e buf"] by (auto simp: take_chunk_def Let_def)
  ultimately show ?thesis using assms(2) by (cases buf) auto
qed

lemma take_chunk_set: "set (snd (take_chunk e buf)) \<subseteq> set buf"
proof -
  have "set (cp_lstrip xs) \<subseteq> set xs" for xs unfolding lstrip_by_def by (rule set_dropWhileD [THEN subsetI])
  then show ?thesis using set_drop_subset [of e buf] by (fastforce simp: take_chunk_def Let_def)
qed

lemma next_ready_cases:
  "next_ready cf cjk buf = (None, buf) \<or> (\<exists>e. next_ready cf cjk buf = take_chunk e buf \<and> (0 < e \<or> buf = []))"
  unfolding next_ready_def Let_def by auto

lemma next_ready_keeps: "next_ready cf cjk buf = (o', buf') \<Longrightarrow> ink (opt_text o') @ ink buf' = ink buf"
  using next_ready_cases [of cf cjk buf] take_chunk_keeps by (auto simp: opt_text_def)

lemma next_ready_shorter: "next_ready cf cjk buf = (Some part, buf') \<Longrightarrow> length buf' < length buf"
  using next_ready_cases [of cf cjk buf] take_chunk_shorter by (fastforce simp: take_chunk_def Let_def)

lemma next_ready_set: "set (snd (next_ready cf cjk buf)) \<subseteq> set buf"
  using next_ready_cases [of cf cjk buf] take_chunk_set [of _ buf] by (metis snd_conv subset_refl)

lemma ink_lstrip_empty: "cp_lstrip buf = [] \<Longrightarrow> ink buf = []"
  by (metis ink_strip(2,3))

interpretation low_latency: text_chunker "low_latency_next isalnum cf False" for isalnum cf
proof
  fix buf part buf'
  assume "low_latency_next isalnum cf False buf = (Some part, buf')"
  then show "length buf' < length buf"
    using next_ready_shorter [of cf _ "cp_lstrip buf" part buf'] length_lstrip_by [of cp_isspace buf]
    by (fastforce simp: low_latency_next_def Let_def split: if_splits)
next
  fix buf o' buf'
  assume "low_latency_next isalnum cf False buf = (o', buf')"
  then show "ink (opt_text o') @ ink buf' = ink buf"
    using next_ready_keeps [of cf _ "cp_lstrip buf" o' buf'] ink_strip(2) [of buf]
    by (auto simp: low_latency_next_def Let_def opt_text_def ink_lstrip_empty split: if_splits)
qed

interpretation clause: text_chunker "clause_next cf False" for cf
proof
  fix buf part buf'
  assume "clause_next cf False buf = (Some part, buf')"
  then show "length buf' < length buf"
    using next_ready_shorter [of cf _ "cp_lstrip buf" part buf'] length_lstrip_by [of cp_isspace buf]
    by (fastforce simp: clause_next_def Let_def split: if_splits)
next
  fix buf o' buf'
  assume "clause_next cf False buf = (o', buf')"
  then show "ink (opt_text o') @ ink buf' = ink buf"
    using next_ready_keeps [of cf _ "cp_lstrip buf" o' buf'] ink_strip(2) [of buf]
    by (auto simp: clause_next_def Let_def opt_text_def ink_lstrip_empty split: if_splits)
qed

lemma next_sentence_spec:
  "next_sentence mn mx buf pos = (o', buf') \<Longrightarrow>
   ink (opt_text o') @ ink buf' = ink buf \<and> (o' \<noteq> None \<longrightarrow> length buf' < length buf)"
proof (induction mn mx buf pos rule: next_sentence.induct)
  case (1 mn mx buf pos)
  show ?case
  proof (cases "search_end (drop pos buf)")
    case None
    have "ink (cp_strip buf) = ink buf" by simp
    then show ?thesis
      using "1.prems" None
      by (auto simp: next_sentence.simps [of mn mx buf pos] opt_text_def Let_def split: if_splits)
        (metis ink_strip(1,3))+
  next
    case (Some k)
    have k: "0 < k" "k \<le> length (drop pos buf)" using search_end_pos [OF Some] by auto
    show ?thesis
    proof (cases "length (cp_strip (take (pos + k) buf)) \<ge> mn")
      case True
      have "ink (take (pos + k) buf) @ ink (drop (pos + k) buf) = ink buf"
        by (simp add: ink_append [symmetric] del: ink_append)
      then show ?thesis using "1.prems" Some True k
        by (auto simp: next_sentence.simps [of mn mx buf pos] opt_text_def)
    next
      case False
      then show ?thesis using "1.IH" [OF Some False] "1.prems" Some
        by (simp add: next_sentence.simps [of mn mx buf pos])
    qed
  qed
qed

interpretation sentence: text_chunker "\<lambda>b. next_sentence mn mx b 0" for mn mx
  by unfold_locales (use next_sentence_spec in \<open>blast+\<close>)

section \<open>The mirror\<close>

definition no_ext_a :: "cptext \<Rightarrow> bool" where
  "no_ext_a t \<longleftrightarrow> list_all (\<lambda>cp. \<not> (0x3400 \<le> cp \<and> cp \<le> 0x4DBF)) t"

lemma contains_cjk_agree: "no_ext_a t \<Longrightarrow> clause_contains_cjk t = v2v_contains_cjk t"
  by (induction t) (auto simp: no_ext_a_def clause_contains_cjk_def v2v_contains_cjk_def)

lemma no_ext_a_set: "no_ext_a t \<Longrightarrow> set u \<subseteq> set t \<Longrightarrow> no_ext_a u"
  by (auto simp: no_ext_a_def list_all_iff)

lemma lstrip_set: "set (cp_lstrip t) \<subseteq> set t"
  unfolding lstrip_by_def by (rule set_dropWhileD [THEN subsetI])

lemma clause_next_agrees:
  assumes "no_ext_a buf"
  shows "clause_next cf False buf = low_latency_next isalnum cf False buf \<and>
         no_ext_a (snd (clause_next cf False buf))"
proof -
  have n: "no_ext_a (cp_lstrip buf)" by (rule no_ext_a_set [OF assms lstrip_set])
  have "no_ext_a (snd (next_ready cf b (cp_lstrip buf)))" for b
    by (rule no_ext_a_set [OF n next_ready_set])
  then show ?thesis
    using contains_cjk_agree [OF n] n by (auto simp: clause_next_def low_latency_next_def Let_def)
qed

lemma emit_loop_agrees:
  "no_ext_a buf \<Longrightarrow>
   emit_loop (clause_next cf False) buf acc = emit_loop (low_latency_next isalnum cf False) buf acc \<and>
   (\<forall>out b. emit_loop (clause_next cf False) buf acc = Some (out, b) \<longrightarrow> no_ext_a b)"
proof (induction "length buf" arbitrary: buf acc rule: less_induct)
  case less
  obtain o' b where n: "clause_next cf False buf = (o', b)" by fastforce
  have ag: "low_latency_next isalnum cf False buf = (o', b)" "no_ext_a b"
    using clause_next_agrees [OF less.prems, of cf isalnum] n by simp_all
  show ?case
  proof (cases o')
    case None
    then show ?thesis using n ag by (simp add: emit_loop.simps [of _ buf])
  next
    case (Some part)
    have "length b < length buf" using clause.shorter n Some by blast
    from less.hyps [OF this ag(2), of "acc @ [part]"] show ?thesis
      using n ag Some by (simp add: emit_loop.simps [of _ buf])
  qed
qed

lemma feed_agrees:
  "no_ext_a buf \<Longrightarrow> no_ext_a (concat cs) \<Longrightarrow>
   feed_chunks (clause_add cf) buf cs = feed_chunks (low_latency_add isalnum cf) buf cs"
proof (induction cs arbitrary: buf)
  case (Cons c cs)
  then have "no_ext_a (buf @ c)" "no_ext_a (concat cs)" by (auto simp: no_ext_a_def)
  then have "clause_add cf buf c = low_latency_add isalnum cf buf c"
    and "\<forall>out b. clause_add cf buf c = Some (out, b) \<longrightarrow> no_ext_a b"
    using emit_loop_agrees [of "buf @ c" cf "[]" isalnum] Cons.prems(1)
    by (auto simp: clause_add_def low_latency_add_def)
  then show ?case using Cons.IH \<open>no_ext_a (concat cs)\<close> by (auto split: option.splits)
qed simp

section \<open>Properties\<close>


text \<open>On text without CJK extension A characters the Wyoming clause buffer emits exactly what the
  server's low-latency buffer emits, chunk by chunk; on flush they differ, because only the
  server's drops a rest that has nothing to speak.\<close>
theorem clause_buffer_mirrors:
  assumes "no_ext_a (concat cs)"
  shows "feed_chunks (clause_add cf) [] cs = feed_chunks (low_latency_add isalnum cf) [] cs \<and>
         clause_flush cf [0x3002] = Some ([[0x3002]], []) \<and>
         (\<not> isalnum 0x3002 \<longrightarrow> low_latency_flush isalnum cf [0x3002] = Some ([], []))"
proof -
  have "cp_lstrip [0x3002] = [0x3002]" "cp_strip [0x3002] = [0x3002]" "cp_strip [] = []" "cp_lstrip [] = []"
    by (simp_all add: lstrip_by_def rstrip_by_def strip_by_def cp_isspace_def)
  then have "clause_flush cf [0x3002] = Some ([[0x3002]], [])"
    "\<not> isalnum 0x3002 \<Longrightarrow> low_latency_flush isalnum cf [0x3002] = Some ([], [])"
    by (simp_all add: clause_flush_def low_latency_flush_def emit_loop.simps clause_next_def
        low_latency_next_def has_speakable_text_def)
  moreover have "feed_chunks (clause_add cf) [] cs = feed_chunks (low_latency_add isalnum cf) [] cs"
    using feed_agrees [OF _ assms] by (simp add: no_ext_a_def)
  ultimately show ?thesis by blast
qed

theorem clause_buffer_mirrors_witness:
  "no_ext_a (concat [[0x4F60, 0x597D], [0x3002]]) \<and>
   feed_chunks (clause_add \<lparr>cc_language = ''zh'', cc_min = 15, cc_target = 24, cc_max = 40\<rparr>) []
     [[0x4F60, 0x597D], [0x3002]]
   = feed_chunks (low_latency_add (\<lambda>_. True) \<lparr>cc_language = ''zh'', cc_min = 15, cc_target = 24, cc_max = 40\<rparr>) []
     [[0x4F60, 0x597D], [0x3002]]"
proof -
  have "no_ext_a (concat [[0x4F60, 0x597D], [0x3002]])" by (simp add: no_ext_a_def)
  from clause_buffer_mirrors [OF this] this show ?thesis by blast
qed

text \<open>A buffer that begins with a lone terminator (the rest of a piece already cut at its length)
  emits nothing at any later terminator: only the first break is looked at, and it is too
  short.  Whole sentences wait until the length limit or the flush.\<close>
theorem leading_terminator_blocks:
  assumes "b \<in> hard_breaks" and "\<not> cp_isspace b"
    and "last_break (soft_breaks True) (b # rest) = None" and "last_break (soft_breaks False) (b # rest) = None"
    and "length (b # rest) < cc_target cf" and "cc_target cf \<le> cc_max cf"
  shows "low_latency_next isalnum cf False (b # rest) = (None, b # rest)"
proof -
  have l: "cp_lstrip (b # rest) = b # rest" using assms(2) by (simp add: lstrip_by_def)
  have one: "cp_strip [b] = [b]" using assms(2) by (simp add: lstrip_by_def rstrip_by_def strip_by_def)
  have "length (cp_strip (b # rest)) < cc_target cf"
    using assms(5) length_strip_by [of cp_isspace "b # rest"] by simp
  moreover have "last_break (soft_breaks cjk) (b # rest) = None" for cjk
    using assms(3,4) by (cases cjk) simp_all
  ultimately have "next_ready cf cjk (b # rest) = (None, b # rest)" for cjk
    using assms(1,6) one by (simp add: next_ready_def Let_def del: last_break.simps)
  then show ?thesis using l by (simp add: low_latency_next_def)
qed

theorem leading_terminator_blocks_witness:
  "low_latency_next (\<lambda>_. True) \<lparr>cc_language = ''zh'', cc_min = 15, cc_target = 24, cc_max = 40\<rparr> False
     [0x3002, 0x4F60, 0x597D, 0x3002] = (None, [0x3002, 0x4F60, 0x597D, 0x3002])"
  by (rule leading_terminator_blocks) (simp_all add: hard_breaks_def soft_breaks_def cp_isspace_def)

end
