(* ===== verification/Json.thy ===== *)
theory Json
  imports Prelude
begin

text \<open>
  JSON values and Python dictionaries over them, as the wire modules use them: a dictionary is an
  association list in insertion order with unique keys.  \<open>dict.get\<close> without a default returns
  \<open>None\<close>, which is also what JSON \<open>null\<close> is in Python, so both are \<open>JNull\<close>.
\<close>

datatype json =
    JNull
  | JBool bool
  | JInt int
  | JFloat pyfloat
  | JStr string
  | JArr "json list"
  | JObj "(string \<times> json) list"

type_synonym jdict = "(string \<times> json) list"

section \<open>Dictionaries\<close>

text \<open>\<open>d[k] = v\<close> keeps the place of an existing key.\<close>

fun dict_put :: "string \<Rightarrow> json \<Rightarrow> jdict \<Rightarrow> jdict" where
  "dict_put k v [] = [(k, v)]"
| "dict_put k v ((k', v') # d) = (if k = k' then (k, v) # d else (k', v') # dict_put k v d)"

fun dict_update :: "jdict \<Rightarrow> jdict \<Rightarrow> jdict" where
  "dict_update d [] = d"
| "dict_update d ((k, v) # u) = dict_update (dict_put k v d) u"

definition dict_pop :: "string \<Rightarrow> jdict \<Rightarrow> jdict" where
  "dict_pop k d = filter (\<lambda>(k', v). k' \<noteq> k) d"

definition jget_or :: "json \<Rightarrow> string \<Rightarrow> jdict \<Rightarrow> json" where
  "jget_or dflt k d = (case map_of d k of Some v \<Rightarrow> v | None \<Rightarrow> dflt)"

abbreviation jget :: "string \<Rightarrow> jdict \<Rightarrow> json" where
  "jget \<equiv> jget_or JNull"

definition jhas :: "string \<Rightarrow> jdict \<Rightarrow> bool" where
  "jhas k d \<longleftrightarrow> map_of d k \<noteq> None"

definition jsetdefault :: "string \<Rightarrow> json \<Rightarrow> jdict \<Rightarrow> jdict" where
  "jsetdefault k v d = (if jhas k d then d else d @ [(k, v)])"

lemma map_of_dict_put [simp]: "map_of (dict_put k v d) = (map_of d)(k \<mapsto> v)"
  by (induction d) auto

lemma map_of_dict_update [simp]: "map_of (dict_update d u) = map_of d ++ map_of (rev u)"
  by (induction d u rule: dict_update.induct) (auto simp: map_add_def fun_eq_iff split: option.splits)

lemma jget_or_put [simp]: "jget_or x k (dict_put k' v d) = (if k = k' then v else jget_or x k d)"
  by (simp add: jget_or_def)

section \<open>Values\<close>

text \<open>Python's truth value of a decoded value; \<open>x or y\<close>.\<close>

fun json_truthy :: "json \<Rightarrow> bool" where
  "json_truthy JNull = False"
| "json_truthy (JBool b) = b"
| "json_truthy (JInt n) = (n \<noteq> 0)"
| "json_truthy (JFloat f) = (f \<noteq> Fin 0)"
| "json_truthy (JStr s) = (s \<noteq> [])"
| "json_truthy (JArr xs) = (xs \<noteq> [])"
| "json_truthy (JObj d) = (d \<noteq> [])"

definition jor :: "json \<Rightarrow> json \<Rightarrow> json" where
  "jor a b = (if json_truthy a then a else b)"

text \<open>\<open>x if isinstance(x, dict) else {}\<close>.\<close>

definition jobj_or_empty :: "json \<Rightarrow> jdict" where
  "jobj_or_empty j = (case j of JObj d \<Rightarrow> d | _ \<Rightarrow> [])"

datatype py_error = ValueError | TypeError | OverflowError | AttributeError

text \<open>\<open>int(x)\<close> on a decoded value.\<close>

definition trunc :: "real \<Rightarrow> int" where
  "trunc x = (if 0 \<le> x then \<lfloor>x\<rfloor> else \<lceil>x\<rceil>)"

fun json_int :: "json \<Rightarrow> py_error + int" where
  "json_int (JInt n) = Inr n"
| "json_int (JBool b) = Inr (if b then 1 else 0)"
| "json_int (JFloat (Fin x)) = Inr (trunc x)"
| "json_int (JFloat PosInf) = Inl OverflowError"
| "json_int (JFloat NegInf) = Inl OverflowError"
| "json_int (JFloat NaN) = Inl ValueError"
| "json_int (JStr s) = (case py_int s of Some n \<Rightarrow> Inr n | None \<Rightarrow> Inl ValueError)"
| "json_int _ = Inl TypeError"

text \<open>\<open>str(x)\<close>: a string is itself, any other value its \<open>repr\<close>, an argument.\<close>

definition json_str :: "(json \<Rightarrow> string) \<Rightarrow> json \<Rightarrow> string" where
  "json_str py_repr j = (case j of JStr s \<Rightarrow> s | _ \<Rightarrow> py_repr j)"

text \<open>\<open>dict(x or {})\<close>: a list is read as pairs, and anything else raises.  (A pair is a list of two,
  a string of two characters, or a dictionary of two keys, and its first component must be a
  string here.)\<close>

fun pair_of :: "json \<Rightarrow> (py_error + (string \<times> json))" where
  "pair_of (JArr [JStr k, v]) = Inr (k, v)"
| "pair_of (JStr [a, b]) = Inr ([a], JStr [b])"
| "pair_of (JObj [(k, v), (k', v')]) = Inr (k, JStr k')"
| "pair_of (JArr xs) = Inl (if length xs = 2 then TypeError else ValueError)"
| "pair_of (JStr s) = Inl ValueError"
| "pair_of (JObj d) = Inl ValueError"
| "pair_of _ = Inl TypeError"

fun dict_of_pairs :: "json list \<Rightarrow> jdict \<Rightarrow> py_error + jdict" where
  "dict_of_pairs [] d = Inr d"
| "dict_of_pairs (x # xs) d =
     (case pair_of x of Inl e \<Rightarrow> Inl e | Inr (k, v) \<Rightarrow> dict_of_pairs xs (dict_put k v d))"

definition dict_or_empty :: "json \<Rightarrow> py_error + jdict" where
  "dict_or_empty j =
     (if \<not> json_truthy j then Inr []
      else (case j of
              JObj d \<Rightarrow> Inr d
            | JArr xs \<Rightarrow> dict_of_pairs xs []
            | JStr s \<Rightarrow> Inl ValueError
            | _ \<Rightarrow> Inl TypeError))"

end
