(* ===== verification/Realtime.thy ===== *)
theory Realtime
  imports Json
begin

text \<open>
  The Realtime V2 wire protocol of \<open>server/core/v2v.py\<close>: the normalisation of \<open>session.update\<close>, the
  stateful \<open>RealtimeV2EventAdapter\<close> that turns the engine's events into canonical ones, and the
  abstract lifecycle of a response it promises its clients.  Identifiers come from a factory:
  \<open>idf n prefix\<close> is the \<open>n\<close>-th one it makes.  \<open>py_repr\<close> and \<open>dumps\<close> stand for Python's \<open>repr\<close> and
  \<open>json.dumps\<close>.
\<close>

section \<open>session.update\<close>

definition get_sub :: "string \<Rightarrow> jdict \<Rightarrow> jdict" where
  "get_sub k d = jobj_or_empty (jget k d)"

definition session_update_to_legacy_config :: "jdict \<Rightarrow> py_error + jdict" where
  "session_update_to_legacy_config payload =
     (case jget ''session'' payload of
        JObj session \<Rightarrow>
          (let audio = get_sub ''audio'' session;
               audio_in = get_sub ''input'' audio;
               audio_out = get_sub ''output'' audio;
               input_format = get_sub ''format'' audio_in;
               transcription = get_sub ''transcription'' audio_in;
               turn_detection = get_sub ''turn_detection'' audio_in
           in case json_int (jget_or (jget_or (JInt 16000) ''sample_rate'' input_format) ''rate'' input_format) of
                Inl e \<Rightarrow> Inl e
              | Inr sample_rate \<Rightarrow>
                  (case json_int (jget_or (JInt 1) ''channels'' input_format) of
                     Inl e \<Rightarrow> Inl e
                   | Inr channels \<Rightarrow>
                       (if channels \<noteq> 1 then Inl ValueError
                        else
                          (let turn_type = jget_or (JStr ''server_vad'') ''type'' turn_detection;
                               no_vad = (turn_type = JNull \<or> turn_type = JStr ''none'');
                               vad = (if no_vad then JStr ''none''
                                      else jget_or (JStr ''silero'') ''backend'' turn_detection)
                           in case json_int (jget_or (JInt 400) ''silence_duration_ms'' turn_detection) of
                                Inl e \<Rightarrow> Inl e
                              | Inr silence \<Rightarrow>
                                  (let cfg =
                                     [(''type'', JStr ''config''),
                                      (''sample_rate'', JInt sample_rate),
                                      (''asr_language'', jget ''language'' transcription),
                                      (''tts_language'', jget ''language'' audio_out),
                                      (''tts_voice'', jget ''voice'' audio_out),
                                      (''tts_speaker_id'', jget ''speaker_id'' audio_out),
                                      (''tts_speed'', jget ''speed'' audio_out),
                                      (''vad'', vad),
                                      (''vad_silence_ms'', JInt silence),
                                      (''vad_endpoint_silence_ms'', jget ''vad_endpoint_silence_ms'' turn_detection),
                                      (''multi_utterance'', JBool True),
                                      (''_realtime_v2'', JBool True),
                                      (''_create_response'',
                                         JBool (json_truthy (jget_or (JBool (\<not> no_vad)) ''create_response'' turn_detection))),
                                      (''_interrupt_response'',
                                         JBool (json_truthy (jget_or (JBool True) ''interrupt_response'' turn_detection))),
                                      (''_canonical_session'', JObj session)];
                                     modalities = jget_or (jget ''modalities'' session) ''output_modalities'' session
                                   in Inr (case modalities of
                                             JArr ms \<Rightarrow>
                                               (if JStr ''audio'' \<notin> set ms then dict_put ''tts_language'' JNull cfg
                                                else cfg)
                                           | _ \<Rightarrow> cfg))))))
      | _ \<Rightarrow> Inl ValueError)"

section \<open>The adapter\<close>

record adapter =
  ad_provider :: string
  ad_model :: string
  ad_in_rate :: int
  ad_out_rate :: int
  ad_override :: jdict
  ad_session :: string
  ad_resp :: "string option"
  ad_item :: "string option"
  ad_status :: string
  ad_reason :: "string option"
  ad_input_item :: "string option"
  ad_announced :: bool
  ad_direct :: bool
  ad_count :: nat
  ad_index :: nat
  ad_transcript :: "string list"
  ad_ids :: nat

type_synonym id_factory = "nat \<Rightarrow> string \<Rightarrow> string"

definition fresh :: "id_factory \<Rightarrow> string \<Rightarrow> adapter \<Rightarrow> string \<times> adapter" where
  "fresh idf kind a = (idf (ad_ids a) kind, a\<lparr>ad_ids := Suc (ad_ids a)\<rparr>)"

definition new_adapter ::
    "id_factory \<Rightarrow> string \<Rightarrow> string \<Rightarrow> int \<Rightarrow> int \<Rightarrow> jdict \<Rightarrow> adapter" where
  "new_adapter idf provider model in_rate out_rate override =
     \<lparr>ad_provider = provider, ad_model = model, ad_in_rate = in_rate, ad_out_rate = out_rate,
      ad_override = override, ad_session = idf 0 ''sess'', ad_resp = None, ad_item = None,
      ad_status = ''completed'', ad_reason = None, ad_input_item = None, ad_announced = False,
      ad_direct = False, ad_count = 0, ad_index = 0, ad_transcript = [], ad_ids = 1\<rparr>"

text \<open>Every event has its type, a fresh \<open>event_id\<close> and the rest, in this order.\<close>

definition mk_event :: "id_factory \<Rightarrow> string \<Rightarrow> jdict \<Rightarrow> adapter \<Rightarrow> jdict \<times> adapter" where
  "mk_event idf typ rest a =
     (let (e, a') = fresh idf ''evt'' a in ((''type'', JStr typ) # (''event_id'', JStr e) # rest, a'))"

definition jopt :: "string option \<Rightarrow> json" where
  "jopt o' = (case o' of None \<Rightarrow> JNull | Some s \<Rightarrow> JStr s)"

definition capabilities :: "adapter \<Rightarrow> jdict" where
  "capabilities a =
     dict_update
       [(''binary_audio'', JBool True), (''function_calling'', JBool True),
        (''conversation_truncate'', JBool True), (''input_transcription'', JBool True),
        (''direct_speak'', JBool True), (''conversation_reset'', JBool True)]
       (ad_override a)"

definition pcm_format :: "int \<Rightarrow> jdict" where
  "pcm_format rate =
     [(''type'', JStr ''audio/pcm''), (''rate'', JInt rate), (''channels'', JInt 1),
      (''endianness'', JStr ''little'')]"

definition session_created :: "id_factory \<Rightarrow> adapter \<Rightarrow> jdict \<times> adapter" where
  "session_created idf a =
     mk_event idf ''session.created''
       [(''session'', JObj
          [(''id'', JStr (ad_session a)), (''object'', JStr ''realtime.session''),
           (''protocol_version'', JInt 2), (''provider'', JStr (ad_provider a)),
           (''model'', JStr (ad_model a)), (''type'', JStr ''realtime''),
           (''output_modalities'', JArr [JStr ''audio'']),
           (''audio'', JObj
              [(''input'', JObj [(''format'', JObj (pcm_format (ad_in_rate a)))]),
               (''output'', JObj [(''format'', JObj (pcm_format (ad_out_rate a)))])]),
           (''capabilities'', JObj (capabilities a))])] a"

definition put_opt_bool :: "string \<Rightarrow> bool option \<Rightarrow> jdict \<Rightarrow> jdict" where
  "put_opt_bool k b d = (case b of None \<Rightarrow> d | Some v \<Rightarrow> dict_put k (JBool v) d)"

definition effective_session ::
    "adapter \<Rightarrow> bool option \<Rightarrow> bool option \<Rightarrow> jdict \<Rightarrow> jdict \<Rightarrow> jdict \<Rightarrow> jdict \<Rightarrow> jdict \<Rightarrow> jdict \<Rightarrow> jdict \<Rightarrow> jdict" where
  "effective_session a create_response interrupt_response session audio audio_in audio_out in_fmt out_fmt turn0 =
     (let in_fmt' = dict_pop ''sample_rate'' (dict_update in_fmt (pcm_format (ad_in_rate a)));
          out_fmt' = dict_pop ''sample_rate'' (dict_update out_fmt (pcm_format (ad_out_rate a)));
          audio_in' = dict_put ''format'' (JObj in_fmt') audio_in;
          turn = put_opt_bool ''interrupt_response'' interrupt_response
                   (put_opt_bool ''create_response'' create_response turn0);
          audio_in'' = (if turn \<noteq> [] then dict_put ''turn_detection'' (JObj turn) audio_in' else audio_in');
          audio_out' = dict_put ''format'' (JObj out_fmt') audio_out;
          audio' = dict_put ''output'' (JObj audio_out') (dict_put ''input'' (JObj audio_in'') audio)
      in dict_update (dict_put ''audio'' (JObj audio') session)
           [(''id'', JStr (ad_session a)), (''object'', JStr ''realtime.session''),
            (''protocol_version'', JInt 2), (''provider'', JStr (ad_provider a)),
            (''model'', JStr (ad_model a)), (''capabilities'', JObj (capabilities a))])"

definition session_updated ::
    "id_factory \<Rightarrow> jdict \<Rightarrow> bool option \<Rightarrow> bool option \<Rightarrow> adapter \<Rightarrow> (py_error + jdict) \<times> adapter" where
  "session_updated idf session create_response interrupt_response a =
     (case dict_or_empty (jget ''audio'' session) of
        Inl e \<Rightarrow> (Inl e, a)
      | Inr audio \<Rightarrow>
     (case dict_or_empty (jget ''input'' audio) of
        Inl e \<Rightarrow> (Inl e, a)
      | Inr audio_in \<Rightarrow>
     (case dict_or_empty (jget ''output'' audio) of
        Inl e \<Rightarrow> (Inl e, a)
      | Inr audio_out \<Rightarrow>
     (case dict_or_empty (jget ''format'' audio_in) of
        Inl e \<Rightarrow> (Inl e, a)
      | Inr in_fmt \<Rightarrow>
     (case dict_or_empty (jget ''format'' audio_out) of
        Inl e \<Rightarrow> (Inl e, a)
      | Inr out_fmt \<Rightarrow>
     (case dict_or_empty (jget ''turn_detection'' audio_in) of
        Inl e \<Rightarrow> (Inl e, a)
      | Inr turn \<Rightarrow>
          (let (ev, a') = mk_event idf ''session.updated''
                 [(''session'', JObj (effective_session a create_response interrupt_response session audio
                                        audio_in audio_out in_fmt out_fmt turn))] a
           in (Inr ev, a'))))))))"

definition mark_cancelled :: "string \<Rightarrow> adapter \<Rightarrow> adapter" where
  "mark_cancelled reason a =
     (if ad_resp a \<noteq> None then a\<lparr>ad_status := ''cancelled'', ad_reason := Some reason\<rparr> else a)"

definition mark_direct_speak :: "adapter \<Rightarrow> adapter" where
  "mark_direct_speak a = a\<lparr>ad_direct := True\<rparr>"

subsection \<open>The response lifecycle\<close>

definition ensure_response_created :: "id_factory \<Rightarrow> adapter \<Rightarrow> jdict list \<times> adapter" where
  "ensure_response_created idf a =
     (if ad_resp a \<noteq> None then ([], a)
      else (let (r, a1) = fresh idf ''resp'' a;
                (i, a2) = fresh idf ''item'' a1;
                a3 = a2\<lparr>ad_resp := Some r, ad_item := Some i, ad_status := ''completed'', ad_reason := None,
                        ad_transcript := []\<rparr>;
                (ev, a4) = mk_event idf ''response.created''
                  [(''response'', JObj
                     [(''id'', JStr r), (''object'', JStr ''realtime.response''),
                      (''status'', JStr ''in_progress''), (''output'', JArr []),
                      (''metadata'', JObj [(''x_v2v.direct_speak'', JBool (ad_direct a3))])])] a3
            in ([ev], a4)))"

definition ensure_audio_item_added :: "id_factory \<Rightarrow> adapter \<Rightarrow> jdict list \<times> adapter" where
  "ensure_audio_item_added idf a =
     (let (evs, a1) = ensure_response_created idf a
      in if ad_announced a1 then (evs, a1)
         else (let a2 = a1\<lparr>ad_announced := True, ad_index := ad_count a1, ad_count := Suc (ad_count a1)\<rparr>;
                   (ev, a3) = mk_event idf ''response.output_item.added''
                     [(''response_id'', jopt (ad_resp a2)), (''output_index'', JInt (int (ad_index a2))),
                      (''item'', JObj
                         [(''id'', jopt (ad_item a2)), (''type'', JStr ''message''),
                          (''role'', JStr ''assistant''), (''status'', JStr ''in_progress''),
                          (''content'', JArr [JObj [(''type'', JStr ''output_audio'')]])])] a2
               in (evs @ [ev], a3)))"

definition audio_done_events :: "id_factory \<Rightarrow> string \<Rightarrow> adapter \<Rightarrow> jdict list \<times> adapter" where
  "audio_done_events idf rid a =
     (if ad_announced a then
        (let (e1, a1) = mk_event idf ''response.output_audio_transcript.done''
               [(''response_id'', JStr rid), (''item_id'', jopt (ad_item a)),
                (''output_index'', JInt (int (ad_index a))), (''content_index'', JInt 0),
                (''transcript'', JStr (concat (ad_transcript a)))] a;
             (e2, a2) = mk_event idf ''response.output_audio.done''
               [(''response_id'', JStr rid), (''item_id'', jopt (ad_item a)),
                (''output_index'', JInt (int (ad_index a))), (''content_index'', JInt 0)] a1
         in ([e1, e2], a2))
      else ([], a))"

definition status_details :: "adapter \<Rightarrow> json" where
  "status_details a =
     (if ad_status a \<noteq> ''completed''
      then JObj [(''type'', JStr (ad_status a)),
                 (''reason'', JStr (case ad_reason a of None \<Rightarrow> ad_status a
                                    | Some r \<Rightarrow> (if r = [] then ad_status a else r)))]
      else JNull)"

definition clear_response :: "adapter \<Rightarrow> adapter" where
  "clear_response a =
     a\<lparr>ad_resp := None, ad_item := None, ad_status := ''completed'', ad_reason := None,
       ad_announced := False, ad_direct := False, ad_count := 0, ad_index := 0, ad_transcript := []\<rparr>"

definition finish_response :: "id_factory \<Rightarrow> adapter \<Rightarrow> jdict list \<times> adapter" where
  "finish_response idf a =
     (let (evs, a1) = ensure_response_created idf a;
          rid = (case ad_resp a1 of Some r \<Rightarrow> r | None \<Rightarrow> []);
          (evs', a2) = audio_done_events idf rid a1;
          (ev, a3) = mk_event idf ''response.done''
            [(''response'', JObj
               [(''id'', JStr rid), (''object'', JStr ''realtime.response''), (''status'', JStr (ad_status a1)),
                (''status_details'', status_details a1), (''output'', JArr []), (''usage'', JNull)])] a2
      in (evs @ evs' @ [ev], clear_response a3))"

subsection \<open>Translating the engine's events\<close>

definition tr_tts_started :: "id_factory \<Rightarrow> jdict \<Rightarrow> adapter \<Rightarrow> jdict list \<times> adapter" where
  "tr_tts_started idf payload a =
     (let (evs, a1) = ensure_audio_item_added idf a;
          (ev, a2) = mk_event idf ''x_v2v.tts_sentence.started''
            [(''response_id'', jopt (ad_resp a1)), (''sentence'', jget_or (JStr []) ''sentence'' payload)] a1
      in (evs @ [ev], a2))"

definition tr_sentence_done ::
    "id_factory \<Rightarrow> (json \<Rightarrow> string) \<Rightarrow> jdict \<Rightarrow> adapter \<Rightarrow> jdict list \<times> adapter" where
  "tr_sentence_done idf py_repr payload a =
     (let sentence = json_str py_repr (jor (jget ''sentence'' payload) (JStr []));
          a1 = a\<lparr>ad_transcript := ad_transcript a @ [sentence]\<rparr>;
          (e1, a2) = mk_event idf ''response.output_audio_transcript.delta''
            [(''response_id'', jopt (ad_resp a1)), (''item_id'', jopt (ad_item a1)),
             (''output_index'', JInt (int (ad_index a1))), (''content_index'', JInt 0),
             (''delta'', JStr sentence)] a1;
          (e2, a3) = mk_event idf ''x_v2v.tts_sentence.done''
            [(''response_id'', jopt (ad_resp a2)), (''sentence'', JStr sentence)] a2
      in ([e1, e2], a3))"

definition tr_tts_done :: "id_factory \<Rightarrow> jdict \<Rightarrow> adapter \<Rightarrow> jdict list \<times> adapter" where
  "tr_tts_done idf payload a =
     (if ad_resp a = None \<and> jget ''session_complete'' payload = JBool True then ([], a)
      else finish_response idf a)"

definition tr_vad_event :: "id_factory \<Rightarrow> jdict \<Rightarrow> adapter \<Rightarrow> jdict list \<times> adapter" where
  "tr_vad_event idf payload a =
     (let start = (jget ''event'' payload = JStr ''speech_start'');
          a1 = (if start then (let (i, b) = fresh idf ''item'' a in b\<lparr>ad_input_item := Some i\<rparr>) else a);
          (ev, a2) = mk_event idf
            (if start then ''input_audio_buffer.speech_started'' else ''input_audio_buffer.speech_stopped'')
            [(''item_id'', jopt (ad_input_item a1))] a1
      in ([ev], a2))"

definition ensure_input_item :: "id_factory \<Rightarrow> adapter \<Rightarrow> adapter" where
  "ensure_input_item idf a =
     (if ad_input_item a = None \<or> ad_input_item a = Some []
      then (let (i, b) = fresh idf ''item'' a in b\<lparr>ad_input_item := Some i\<rparr>) else a)"

definition tr_asr_endpoint :: "id_factory \<Rightarrow> adapter \<Rightarrow> jdict list \<times> adapter" where
  "tr_asr_endpoint idf a =
     (let a1 = ensure_input_item idf a;
          (ev, a2) = mk_event idf ''input_audio_buffer.committed'' [(''item_id'', jopt (ad_input_item a1))] a1
      in ([ev], a2))"

definition tr_asr_partial :: "id_factory \<Rightarrow> jdict \<Rightarrow> adapter \<Rightarrow> jdict list \<times> adapter" where
  "tr_asr_partial idf payload a =
     (let a1 = ensure_input_item idf a;
          (ev, a2) = mk_event idf ''conversation.item.input_audio_transcription.delta''
            [(''item_id'', jopt (ad_input_item a1)), (''content_index'', JInt 0),
             (''delta'', jget_or (JStr []) ''text'' payload),
             (''is_stable'', JBool (json_truthy (jget_or (JBool False) ''is_stable'' payload)))] a1
      in ([ev], a2))"

definition tr_asr_final :: "id_factory \<Rightarrow> jdict \<Rightarrow> adapter \<Rightarrow> jdict list \<times> adapter" where
  "tr_asr_final idf payload a =
     (let a1 = ensure_input_item idf a;
          (ev, a2) = mk_event idf ''conversation.item.input_audio_transcription.completed''
            [(''item_id'', jopt (ad_input_item a1)), (''content_index'', JInt 0),
             (''transcript'', jget_or (JStr []) ''text'' payload)] a1;
          language = jget ''language'' payload
      in ([if json_truthy language then dict_put ''language'' language ev else ev],
          a2\<lparr>ad_input_item := None\<rparr>))"

definition tr_tool_call ::
    "id_factory \<Rightarrow> (json \<Rightarrow> string) \<Rightarrow> (jdict \<Rightarrow> string) \<Rightarrow> jdict \<Rightarrow> adapter \<Rightarrow> jdict list \<times> adapter" where
  "tr_tool_call idf py_repr dumps payload a =
     (let (evs, a1) = ensure_response_created idf a;
          call_id = json_str py_repr (jor (jget ''call_id'' payload) (jor (jget ''id'' payload) (JStr [])));
          (item_id, a2) = fresh idf ''item'' a1;
          output_index = ad_count a2;
          a3 = a2\<lparr>ad_count := Suc (ad_count a2)\<rparr>;
          arguments_json = (case jget ''arguments'' payload of JStr s \<Rightarrow> s | j \<Rightarrow> dumps (jobj_or_empty j));
          (e1, a4) = mk_event idf ''response.output_item.added''
            [(''response_id'', jopt (ad_resp a3)), (''output_index'', JInt (int output_index)),
             (''item'', JObj
                [(''id'', JStr item_id), (''type'', JStr ''function_call''), (''status'', JStr ''in_progress''),
                 (''call_id'', JStr call_id), (''name'', jget_or (JStr []) ''name'' payload),
                 (''arguments'', JStr [])])] a3;
          (e2, a5) = mk_event idf ''response.function_call_arguments.done''
            [(''response_id'', jopt (ad_resp a4)), (''item_id'', JStr item_id),
             (''output_index'', JInt (int output_index)), (''call_id'', JStr call_id),
             (''name'', jget_or (JStr []) ''name'' payload), (''arguments'', JStr arguments_json),
             (''x_v2v'', JObj [(''timeout_s'', jget_or (JFloat (Fin 15)) ''timeout_s'' payload)])] a4
      in (evs @ [e1, e2], a5))"

definition error_object :: "(json \<Rightarrow> string) \<Rightarrow> jdict \<Rightarrow> jdict" where
  "error_object py_repr payload =
     (case jget ''error'' payload of
        JObj d \<Rightarrow> d
      | raw \<Rightarrow>
          [(''type'', JStr ''server_error''),
           (''code'', jor (jget ''code'' payload) (JStr (json_str py_repr (jor raw (JStr ''unknown_error''))))),
           (''message'', JStr (json_str py_repr (jor raw (JStr ''unknown server error'')))),
           (''param'', jget ''param'' payload)])"

definition tr_error :: "id_factory \<Rightarrow> (json \<Rightarrow> string) \<Rightarrow> jdict \<Rightarrow> adapter \<Rightarrow> jdict list \<times> adapter" where
  "tr_error idf py_repr payload a =
     (let (ev, a1) = mk_event idf ''error'' [(''error'', JObj (error_object py_repr payload))] a in ([ev], a1))"

text \<open>An event that is passed on, with an identifier unless it has one (one is made in any case).\<close>

definition tr_pass :: "id_factory \<Rightarrow> jdict \<Rightarrow> adapter \<Rightarrow> jdict list \<times> adapter" where
  "tr_pass idf payload a =
     (let (e, a1) = fresh idf ''evt'' a in ([jsetdefault ''event_id'' (JStr e) payload], a1))"

definition canonical_type :: "json \<Rightarrow> bool" where
  "canonical_type typ =
     (case typ of
        JStr t \<Rightarrow> py_startswith t ''session.'' \<or> py_startswith t ''response.'' \<or>
                  py_startswith t ''input_audio_buffer.'' \<or> py_startswith t ''conversation.item.''
      | _ \<Rightarrow> False)"

definition translate ::
    "id_factory \<Rightarrow> (json \<Rightarrow> string) \<Rightarrow> (jdict \<Rightarrow> string) \<Rightarrow> jdict \<Rightarrow> adapter \<Rightarrow> jdict list \<times> adapter" where
  "translate idf py_repr dumps payload a =
     (let typ = jget ''type'' payload in
      if canonical_type typ then tr_pass idf payload a
      else if typ = JStr ''tts_started'' then tr_tts_started idf payload a
      else if typ = JStr ''tts_sentence_done'' then tr_sentence_done idf py_repr payload a
      else if typ = JStr ''tts_done'' then tr_tts_done idf payload a
      else if typ = JStr ''vad_event'' then tr_vad_event idf payload a
      else if typ = JStr ''asr_endpoint'' then tr_asr_endpoint idf a
      else if typ = JStr ''asr_partial'' then tr_asr_partial idf payload a
      else if typ = JStr ''asr_final'' then tr_asr_final idf payload a
      else if typ = JStr ''tool_call'' then tr_tool_call idf py_repr dumps payload a
      else if typ = JStr ''error'' then tr_error idf py_repr payload a
      else tr_pass idf payload a)"

section \<open>The promised lifecycle\<close>

text \<open>What a client may rely on, as a machine over the events it sees: no response, or a response with
  its identifier, the number of items announced so far and the status its end will carry.
  \<open>None\<close> is a violation: a second \<open>created\<close>, an item with the wrong index, an event of another
  response, an end without a begin or with a wrong status.\<close>

datatype life = Quiet | Speaking string nat string

definition ev_type :: "jdict \<Rightarrow> json" where
  "ev_type ev = jget ''type'' ev"

definition life_created :: "jdict \<Rightarrow> life \<Rightarrow> life option" where
  "life_created ev l =
     (case (l, jget ''id'' (get_sub ''response'' ev)) of
        (Quiet, JStr r) \<Rightarrow> Some (Speaking r 0 ''completed'')
      | _ \<Rightarrow> None)"

definition life_item :: "jdict \<Rightarrow> life \<Rightarrow> life option" where
  "life_item ev l =
     (case l of
        Quiet \<Rightarrow> None
      | Speaking r n st \<Rightarrow>
          (if jget ''response_id'' ev = JStr r \<and> jget ''output_index'' ev = JInt (int n)
           then Some (Speaking r (Suc n) st) else None))"

definition life_item_done :: "jdict \<Rightarrow> life \<Rightarrow> life option" where
  "life_item_done ev l =
     (case (l, jget ''output_index'' ev) of
        (Speaking r n st, JInt k) \<Rightarrow>
          (if jget ''response_id'' ev = JStr r \<and> 0 \<le> k \<and> k < int n then Some l else None)
      | _ \<Rightarrow> None)"

definition life_done :: "jdict \<Rightarrow> life \<Rightarrow> life option" where
  "life_done ev l =
     (case l of
        Quiet \<Rightarrow> None
      | Speaking r n st \<Rightarrow>
          (if jget ''id'' (get_sub ''response'' ev) = JStr r \<and> jget ''status'' (get_sub ''response'' ev) = JStr st
           then Some Quiet else None))"

definition life_event :: "jdict \<Rightarrow> life \<Rightarrow> life option" where
  "life_event ev l =
     (if ev_type ev = JStr ''response.created'' then life_created ev l
      else if ev_type ev = JStr ''response.output_item.added'' then life_item ev l
      else if ev_type ev = JStr ''response.output_audio_transcript.done'' \<or>
              ev_type ev = JStr ''response.output_audio.done'' \<or>
              ev_type ev = JStr ''response.function_call_arguments.done'' then life_item_done ev l
      else if ev_type ev = JStr ''response.done'' then life_done ev l
      else Some l)"

fun life_cancel :: "life \<Rightarrow> life" where
  "life_cancel Quiet = Quiet"
| "life_cancel (Speaking r n st) = Speaking r n ''cancelled''"

datatype observation = Sent jdict | CancelMark

fun life_step :: "observation \<Rightarrow> life \<Rightarrow> life option" where
  "life_step (Sent ev) l = life_event ev l"
| "life_step CancelMark l = Some (life_cancel l)"

fun life_run :: "observation list \<Rightarrow> life \<Rightarrow> life option" where
  "life_run [] l = Some l"
| "life_run (x # xs) l = (case life_step x l of None \<Rightarrow> None | Some l' \<Rightarrow> life_run xs l')"

lemma life_run_append [simp]:
  "life_run (xs @ ys) l = (case life_run xs l of None \<Rightarrow> None | Some l' \<Rightarrow> life_run ys l')"
  by (induction xs arbitrary: l) (auto split: option.splits)

text \<open>The operations of the adapter.\<close>

datatype ad_op = OpTranslate jdict | OpCancel string | OpDirectSpeak

fun ad_step ::
    "id_factory \<Rightarrow> (json \<Rightarrow> string) \<Rightarrow> (jdict \<Rightarrow> string) \<Rightarrow> ad_op \<Rightarrow> adapter \<Rightarrow> observation list \<times> adapter" where
  "ad_step idf py_repr dumps (OpTranslate p) a =
     (let (evs, a') = translate idf py_repr dumps p a in (map Sent evs, a'))"
| "ad_step idf py_repr dumps (OpCancel reason) a = ([CancelMark], mark_cancelled reason a)"
| "ad_step idf py_repr dumps OpDirectSpeak a = ([], mark_direct_speak a)"

fun ad_run ::
    "id_factory \<Rightarrow> (json \<Rightarrow> string) \<Rightarrow> (jdict \<Rightarrow> string) \<Rightarrow> ad_op list \<Rightarrow> adapter \<Rightarrow> observation list \<times> adapter" where
  "ad_run idf py_repr dumps [] a = ([], a)"
| "ad_run idf py_repr dumps (p # ps) a =
     (let (o1, a1) = ad_step idf py_repr dumps p a; (o2, a2) = ad_run idf py_repr dumps ps a1
      in (o1 @ o2, a2))"

text \<open>The engine's own events: those not already canonical.\<close>

fun engine_op :: "ad_op \<Rightarrow> bool" where
  "engine_op (OpTranslate p) = (\<not> canonical_type (jget ''type'' p))"
| "engine_op _ = True"

definition life_of :: "adapter \<Rightarrow> life" where
  "life_of a = (case ad_resp a of None \<Rightarrow> Quiet | Some r \<Rightarrow> Speaking r (ad_count a) (ad_status a))"

definition ad_ok :: "adapter \<Rightarrow> bool" where
  "ad_ok a \<longleftrightarrow>
     (ad_resp a = None \<longrightarrow> \<not> ad_announced a \<and> ad_count a = 0) \<and>
     (ad_announced a \<longrightarrow> ad_index a < ad_count a)"

definition keeps_life :: "(adapter \<Rightarrow> jdict list \<times> adapter) \<Rightarrow> adapter \<Rightarrow> bool" where
  "keeps_life f a \<longleftrightarrow>
     life_run (map Sent (fst (f a))) (life_of a) = Some (life_of (snd (f a))) \<and> ad_ok (snd (f a))"

named_theorems life_simps "the events and the machine, unfolded"

lemmas life_defs [life_simps] =
  mk_event_def fresh_def jget_or_def ev_type_def get_sub_def jobj_or_empty_def jopt_def Let_def

lemma life_event_other: "\<not> canonical_type (ev_type ev) \<Longrightarrow> life_event ev l = Some l"
  by (auto simp: life_event_def canonical_type_def py_startswith_def)

lemma ensure_created_life: "ad_ok a \<Longrightarrow> keeps_life (ensure_response_created idf) a \<and>
    ad_resp (snd (ensure_response_created idf a)) \<noteq> None"
  by (auto simp: keeps_life_def ensure_response_created_def life_event_def life_created_def life_of_def ad_ok_def
      life_simps)

lemma pass_life:
  "ad_ok a \<Longrightarrow> \<not> canonical_type (jget ''type'' p) \<Longrightarrow> keeps_life (tr_pass idf p) a"
proof -
  have "jget ''type'' (jsetdefault ''event_id'' v p) = jget ''type'' p" for v
    by (simp add: jget_or_def jsetdefault_def map_add_def split: option.splits)
  then show "ad_ok a \<Longrightarrow> \<not> canonical_type (jget ''type'' p) \<Longrightarrow> ?thesis"
    using life_event_other [of "jsetdefault ''event_id'' (JStr (idf (ad_ids a) ''evt'')) p"]
    by (simp add: keeps_life_def tr_pass_def fresh_def ev_type_def life_of_def ad_ok_def split: option.split)
qed


lemmas life_machine =
  keeps_life_def life_event_def life_created_def life_item_def life_item_done_def life_done_def life_of_def
  ad_ok_def

lemma started_life: "ad_ok a \<Longrightarrow> keeps_life (tr_tts_started idf p) a"
  by (cases "ad_resp a"; cases "ad_announced a")
    (auto simp: tr_tts_started_def ensure_audio_item_added_def ensure_response_created_def life_machine life_simps)

lemma sentence_done_life: "ad_ok a \<Longrightarrow> keeps_life (tr_sentence_done idf py_repr p) a"
  by (cases "ad_resp a") (simp_all add: tr_sentence_done_def life_machine life_simps)

lemma finish_life: "ad_ok a \<Longrightarrow> keeps_life (finish_response idf) a"
  by (cases "ad_resp a"; cases "ad_announced a")
    (auto simp: finish_response_def audio_done_events_def ensure_response_created_def clear_response_def
       life_machine life_simps)

lemma tool_call_life: "ad_ok a \<Longrightarrow> keeps_life (tr_tool_call idf py_repr dumps p) a"
  by (cases "ad_resp a")
    (auto simp: tr_tool_call_def ensure_response_created_def life_machine life_simps)

lemma input_events_life:
  assumes "ad_ok a"
  shows "keeps_life (tr_vad_event idf p) a" "keeps_life (tr_asr_endpoint idf) a"
    "keeps_life (tr_asr_partial idf p) a" "keeps_life (tr_asr_final idf p) a"
    "keeps_life (tr_error idf py_repr p) a"
  using assms
  by (cases "ad_resp a"; simp add: tr_vad_event_def tr_asr_endpoint_def tr_asr_partial_def tr_asr_final_def
      tr_error_def ensure_input_item_def life_machine life_simps)+

lemma translate_life:
  assumes "ad_ok a" and "\<not> canonical_type (jget ''type'' p)"
  shows "keeps_life (translate idf py_repr dumps p) a"
proof -
  have fin: "keeps_life (tr_tts_done idf p) a"
  proof (cases "ad_resp a = None \<and> jget ''session_complete'' p = JBool True")
    case True
    then show ?thesis using assms(1) by (simp add: keeps_life_def tr_tts_done_def)
  next
    case False
    then show ?thesis using finish_life [OF assms(1), of idf] by (auto simp: keeps_life_def tr_tts_done_def)
  qed
  show ?thesis
    using assms started_life sentence_done_life tool_call_life input_events_life pass_life fin
    by (simp add: keeps_life_def translate_def Let_def)
qed


lemma ad_step_life:
  assumes "ad_ok a" and "engine_op op"
  shows "life_run (fst (ad_step idf py_repr dumps op a)) (life_of a)
           = Some (life_of (snd (ad_step idf py_repr dumps op a))) \<and>
         ad_ok (snd (ad_step idf py_repr dumps op a))"
proof (cases op)
  case (OpTranslate p)
  then show ?thesis using translate_life [OF assms(1), of p idf py_repr dumps] assms(2)
    by (simp add: keeps_life_def split_beta Let_def)
next
  case (OpCancel r)
  then show ?thesis using assms(1)
    by (simp add: mark_cancelled_def life_of_def ad_ok_def split: option.split)
next
  case OpDirectSpeak
  then show ?thesis using assms(1)
    by (simp add: mark_direct_speak_def life_of_def ad_ok_def split: option.split)
qed

lemma ad_run_life:
  "ad_ok a \<Longrightarrow> list_all engine_op ops \<Longrightarrow>
   life_run (fst (ad_run idf py_repr dumps ops a)) (life_of a)
     = Some (life_of (snd (ad_run idf py_repr dumps ops a)))"
proof (induction ops arbitrary: a)
  case (Cons op ops)
  then show ?case using ad_step_life [of a op idf py_repr dumps] by (simp add: split_beta Let_def)
qed simp

section \<open>Properties\<close>

text \<open>For any sequence of engine events, cancellations and direct-speak marks, the events the
  adapter sends follow the promised lifecycle: responses are created and ended strictly in
  turn, each ended exactly once with its own identifier and with the status its cancellations
  gave it, its items are numbered from 0 without gaps, and every item-level end names an
  announced item of the response in progress.\<close>
theorem response_lifecycle:
  assumes "list_all engine_op ops"
  shows "life_run (fst (ad_run idf py_repr dumps ops (new_adapter idf pr mo ir orr ov))) Quiet
           = Some (life_of (snd (ad_run idf py_repr dumps ops (new_adapter idf pr mo ir orr ov))))"
  using ad_run_life [OF _ assms, of "new_adapter idf pr mo ir orr ov"]
  by (simp add: new_adapter_def life_of_def ad_ok_def)

definition demo_ops :: "ad_op list" where
  "demo_ops =
     [OpTranslate [(''type'', JStr ''tts_started'')],
      OpTranslate [(''type'', JStr ''tool_call''), (''call_id'', JStr ''c'')],
      OpCancel ''turn_detected'',
      OpTranslate [(''type'', JStr ''tts_done'')]]"

theorem response_lifecycle_witness:
  "list_all engine_op demo_ops \<and>
   life_run (fst (ad_run (\<lambda>n k. k) (\<lambda>_. []) (\<lambda>_. []) demo_ops (new_adapter (\<lambda>n k. k) [] [] 0 0 []))) Quiet
     = Some (life_of (snd (ad_run (\<lambda>n k. k) (\<lambda>_. []) (\<lambda>_. []) demo_ops (new_adapter (\<lambda>n k. k) [] [] 0 0 []))))"
proof -
  have "list_all engine_op demo_ops"
    by (simp add: demo_ops_def canonical_type_def py_startswith_def jget_or_def)
  from response_lifecycle [OF this] this show ?thesis by blast
qed

text \<open>A direct-speak mark set while a response is in progress does not tag the next response: the
  end of the current one clears it.\<close>

lemma direct_speak_mark_lost:
  assumes "ad_resp a = Some r"
  shows "fst (ensure_response_created idf (snd (finish_response idf (mark_direct_speak a)))) \<noteq> [] \<and>
         list_all (\<lambda>ev. jget ''metadata'' (get_sub ''response'' ev)
                          = JObj [(''x_v2v.direct_speak'', JBool False)])
           (fst (ensure_response_created idf (snd (finish_response idf (mark_direct_speak a)))))"
  using assms
  by (cases "ad_announced a")
    (simp_all add: finish_response_def audio_done_events_def ensure_response_created_def clear_response_def
      mark_direct_speak_def life_simps)

section \<open>The normalised session\<close>

text \<open>Only the three errors of \<open>int\<close> can come out, and the third is one the callers do not catch.\<close>

lemma json_int_error: "json_int j = Inl e \<Longrightarrow> e \<in> {ValueError, TypeError, OverflowError}"
  by (induction j rule: json_int.induct) (auto split: option.splits)

lemma legacy_config_error:
  "session_update_to_legacy_config p = Inl e \<Longrightarrow> e \<in> {ValueError, TypeError, OverflowError}"
  using json_int_error
  by (fastforce simp: session_update_to_legacy_config_def Let_def split: json.splits sum.splits if_splits)

lemma infinite_rate_overflows:
  "session_update_to_legacy_config
     [(''session'', JObj [(''audio'', JObj [(''input'', JObj [(''format'', JObj [(''rate'', JFloat PosInf)])])])])]
   = Inl OverflowError"
  by (simp add: session_update_to_legacy_config_def get_sub_def jget_or_def jobj_or_empty_def)

text \<open>An accepted session: the canonical session is kept as it came, and a detector of type \<open>none\<close>
  turns off both the detector and, unless asked for, the automatic response.\<close>

lemma legacy_config_keeps_session:
  "session_update_to_legacy_config p = Inr cfg \<Longrightarrow> jget ''_canonical_session'' cfg = jget ''session'' p"
  by (auto simp: session_update_to_legacy_config_def Let_def jget_or_def [of _ _ "Cons _ _"]
      split: json.splits sum.splits if_splits)

end
