(* ===== verification/Execution.thy ===== *)
theory Execution
  imports Prelude Segmenter
begin

text \<open>
  \<open>server/core/api_execution.py\<close>: the one place every non-streaming request goes through.  A request
  runs under leases (the manager's, when there is one, and the coordinator's), and what it
  does is a trace of acquisitions, releases and calls next to its outcome.  What the leases and
  the backend answer are arguments.  The Kokoro path, where the native call runs in a thread
  while the client may disconnect or the request be cancelled, is a step relation over the
  native future, the disconnect watcher, the owning task and the request.
\<close>

section \<open>Outcomes and traces\<close>

text \<open>An exception is an \<open>APIExecutionError\<close> with its status and code, or another one.\<close>

datatype exn = ApiError nat string | OtherExn string

definition backend_not_ready :: exn where
  "backend_not_ready = ApiError 503 ''backend_not_ready''"

definition backend_busy :: exn where
  "backend_busy = ApiError 429 ''backend_busy''"

text \<open>\<open>_pool_saturated\<close>: by the \<open>status\<close> attribute or by the name of the class.\<close>

definition pool_saturated :: "int option \<Rightarrow> string \<Rightarrow> bool" where
  "pool_saturated status type_name \<longleftrightarrow> status = Some 4429 \<or> type_name = ''PoolSaturatedError''"

datatype lease = LManager | LCoordinator string

datatype xact =
    Take lease
  | Give lease
  | Prepare
  | Call "string list" bool
  | Metric string

type_synonym 'r run = "(exn + 'r) \<times> xact list"

text \<open>\<open>async with lease: body\<close>: when the lease is not granted the body is not run, and once it is,
  it is given back however the body ends.\<close>

definition under :: "lease \<Rightarrow> exn option \<Rightarrow> 'r run \<Rightarrow> 'r run" where
  "under l refused body =
     (case refused of
        Some e \<Rightarrow> (Inl e, [])
      | None \<Rightarrow> (fst body, Take l # snd body @ [Give l]))"

definition first_do :: "xact \<Rightarrow> 'r run \<Rightarrow> 'r run" where
  "first_do x r = (fst r, x # snd r)"

section \<open>Synthesis\<close>

record ('b) exec_backend =
  eb_obj :: 'b
  eb_name :: "string option"
  eb_sample_rate :: "int option"

record tts_result =
  tr_audio :: "nat list"
  tr_metadata :: "string list"
  tr_backend :: "string option"
  tr_sample_rate :: "int option"

definition kokoro_names :: "string list" where
  "kokoro_names = [''rk:kokoro_convonly'', ''kokoro_convonly'', ''rk:kokoro_dualbucket'', ''kokoro_dualbucket'']"

definition is_kokoro :: "'b exec_backend \<Rightarrow> bool" where
  "is_kokoro b \<longleftrightarrow> (case eb_name b of None \<Rightarrow> False | Some n \<Rightarrow> n \<in> set kokoro_names)"

text \<open>The keyword arguments by name; \<open>setdefault\<close> adds the cancel event for Kokoro.\<close>

definition tts_kwargs :: "bool \<Rightarrow> string list \<Rightarrow> string list" where
  "tts_kwargs kokoro kw = (if kokoro \<and> ''cancel_event'' \<notin> set kw then kw @ [''cancel_event''] else kw)"

text \<open>The body shared by both paths: \<open>prepare\<close> (or the given keyword arguments) before the
  coordinator is asked, then the call.\<close>

definition tts_call ::
    "(exn + string list) \<Rightarrow> exn option \<Rightarrow> (exn + (nat list \<times> string list option)) \<Rightarrow> 'b exec_backend
     \<Rightarrow> tts_result run" where
  "tts_call prep co answer b =
     (case prep of
        Inl e \<Rightarrow> (Inl e, [Prepare])
      | Inr kw \<Rightarrow>
          first_do Prepare
            (under (LCoordinator ''tts'') co
              (first_do (Call (tts_kwargs (is_kokoro b) kw) (is_kokoro b))
                (case answer of
                   Inl e \<Rightarrow> (Inl e, [])
                 | Inr (audio, metadata) \<Rightarrow>
                     (Inr \<lparr>tr_audio = audio,
                           tr_metadata = (case metadata of None \<Rightarrow> [] | Some m \<Rightarrow> m),
                           tr_backend = eb_name b, tr_sample_rate = eb_sample_rate b\<rparr>, [])))))"

text \<open>The legacy service: whether \<open>is_ready\<close> and \<open>get_backend\<close> answered, any exception being
  swallowed.\<close>

record 'b legacy_tts =
  lt_ready :: "exn + bool"
  lt_backend :: "exn + 'b exec_backend option"

definition legacy_tts_backend :: "'b legacy_tts option \<Rightarrow> 'b exec_backend option" where
  "legacy_tts_backend svc =
     (case svc of
        None \<Rightarrow> None
      | Some s \<Rightarrow>
          (case lt_ready s of
             Inr True \<Rightarrow> (case lt_backend s of Inr b \<Rightarrow> b | Inl _ \<Rightarrow> None)
           | _ \<Rightarrow> None))"

definition execute_tts ::
    "(exn option \<times> 'b exec_backend) option \<Rightarrow> 'b legacy_tts option
     \<Rightarrow> ('b exec_backend \<Rightarrow> exn + string list) \<Rightarrow> exn option
     \<Rightarrow> ('b exec_backend \<Rightarrow> exn + (nat list \<times> string list option)) \<Rightarrow> tts_result run" where
  "execute_tts manager legacy prep co answer =
     (case manager of
        Some (refused, b) \<Rightarrow> under LManager refused (tts_call (prep b) co (answer b) b)
      | None \<Rightarrow>
          (case legacy_tts_backend legacy of
             None \<Rightarrow> (Inl backend_not_ready, [])
           | Some b \<Rightarrow> tts_call (prep b) co (answer b) b))"

text \<open>Voice cloning: the same ownership, with \<open>clone_voice\<close> called directly and no Kokoro path.\<close>

definition clone_call ::
    "(exn + string list) \<Rightarrow> exn option \<Rightarrow> (exn + (nat list \<times> string list option)) \<Rightarrow> 'b exec_backend
     \<Rightarrow> tts_result run" where
  "clone_call prep co answer b =
     (case prep of
        Inl e \<Rightarrow> (Inl e, [Prepare])
      | Inr kw \<Rightarrow>
          first_do Prepare
            (under (LCoordinator ''tts'') co
              (first_do (Call kw False)
                (case answer of
                   Inl e \<Rightarrow> (Inl e, [])
                 | Inr (audio, metadata) \<Rightarrow>
                     (Inr \<lparr>tr_audio = audio,
                           tr_metadata = (case metadata of None \<Rightarrow> [] | Some m \<Rightarrow> m),
                           tr_backend = eb_name b, tr_sample_rate = eb_sample_rate b\<rparr>, [])))))"

definition execute_tts_clone ::
    "(exn option \<times> 'b exec_backend) option \<Rightarrow> 'b legacy_tts option
     \<Rightarrow> ('b exec_backend \<Rightarrow> exn + string list) \<Rightarrow> exn option
     \<Rightarrow> ('b exec_backend \<Rightarrow> exn + (nat list \<times> string list option)) \<Rightarrow> tts_result run" where
  "execute_tts_clone manager legacy prep co answer =
     (case manager of
        Some (refused, b) \<Rightarrow> under LManager refused (clone_call (prep b) co (answer b) b)
      | None \<Rightarrow>
          (case legacy_tts_backend legacy of
             None \<Rightarrow> (Inl backend_not_ready, [])
           | Some b \<Rightarrow> clone_call (prep b) co (answer b) b))"

section \<open>Recognition\<close>

record asr_result =
  ar_text :: cptext
  ar_language :: "string option"
  ar_backend :: "string option"

text \<open>\<open>_decode\<close>: the segmented decode when it produced one; when it did not apply or raised, one pass
  over the whole clip.\<close>

definition decode_asr ::
    "recognizer seg_backend \<Rightarrow> wav_clip option \<Rightarrow> env_map \<Rightarrow> 's vad_setup
     \<Rightarrow> (exn + (cptext \<times> string option)) \<Rightarrow> exn + (cptext \<times> string option)" where
  "decode_asr sb wav env v single =
     (case maybe_transcribe_segmented sb wav env v of
        Some (Segmented r) \<Rightarrow> Inr (st_text r, st_language r)
      | _ \<Rightarrow> single)"

text \<open>The decode metric is recorded after the coordinator's lease is given back, and only when the
  decode returned; a failure to record is ignored.\<close>

definition asr_call ::
    "exn option \<Rightarrow> exn option \<Rightarrow> (exn + (cptext \<times> string option)) \<Rightarrow> bool \<Rightarrow> 'b exec_backend
     \<Rightarrow> asr_result run" where
  "asr_call prep co decoded metrics b =
     (case prep of
        Some e \<Rightarrow> (Inl e, [Prepare])
      | None \<Rightarrow>
          (let r = under (LCoordinator ''asr'') co (first_do (Call [''language''] True) (decoded, []))
           in first_do Prepare
                (case fst r of
                   Inl e \<Rightarrow> (Inl e, snd r)
                 | Inr (text, language) \<Rightarrow>
                     (Inr \<lparr>ar_text = text, ar_language = language, ar_backend = eb_name b\<rparr>,
                      snd r @ (if metrics
                               then [Metric (case eb_name b of Some n \<Rightarrow> (if n = [] then ''asr'' else n)
                                             | None \<Rightarrow> ''asr'')]
                               else [])))))"

definition execute_asr ::
    "(exn option \<times> 'b exec_backend) option \<Rightarrow> ('b exec_backend \<times> (exn + bool)) option
     \<Rightarrow> ('b exec_backend \<Rightarrow> exn option) \<Rightarrow> exn option
     \<Rightarrow> ('b exec_backend \<Rightarrow> exn + (cptext \<times> string option)) \<Rightarrow> bool \<Rightarrow> asr_result run" where
  "execute_asr manager legacy prep co decoded metrics =
     (case manager of
        Some (refused, b) \<Rightarrow> under LManager refused (asr_call (prep b) co (decoded b) metrics b)
      | None \<Rightarrow>
          (case legacy of
             None \<Rightarrow> (Inl backend_not_ready, [])
           | Some (b, ready) \<Rightarrow>
               (case ready of
                  Inl (ApiError st c) \<Rightarrow> (Inl (ApiError st c), [])
                | Inl (OtherExn m) \<Rightarrow> (Inl backend_not_ready, [])
                | Inr False \<Rightarrow> (Inl backend_not_ready, [])
                | Inr True \<Rightarrow> asr_call (prep b) co (decoded b) metrics b)))"

section \<open>Bounded uploads\<close>

datatype read = RBytes "nat list" | RNotBinary | RRaised exn

text \<open>The reads of the upload in order; an empty one, or the end of the list, is the end.\<close>

fun read_chunks :: "int \<Rightarrow> read list \<Rightarrow> nat list \<Rightarrow> exn + nat list" where
  "read_chunks mx [] got = Inr got"
| "read_chunks mx (RRaised e # rs) got = Inl e"
| "read_chunks mx (RNotBinary # rs) got = Inl (ApiError 400 ''invalid_audio'')"
| "read_chunks mx (RBytes d # rs) got =
     (if d = [] then Inr got
      else if int (length got + length d) > mx then Inl (ApiError 413 ''payload_too_large'')
      else read_chunks mx rs (got @ d))"

definition read_bounded_upload :: "int \<Rightarrow> read list \<Rightarrow> exn + nat list" where
  "read_bounded_upload mx reads =
     (if mx < 0 then Inl (OtherExn ''ValueError'') else read_chunks mx reads [])"

section \<open>The Kokoro call\<close>

text \<open>The future of the native call, the watcher of the client's connection, the owning task (waiting
  for either, waiting for the future, waiting after a disconnect, joining the watcher, joining
  the future, done) and the request (polling, cancelled but still joining, ended).\<close>

datatype 'v native = NOk 'v | NErr exn

datatype 'v outcome = ROk 'v | RErr exn | RDisconnected | RCancelled

datatype watcher = NoWatcher | Watching | Watched bool | WatchRaised exn

datatype 'v owner =
    WaitBoth
  | WaitFuture
  | WaitAfterDisconnect
  | JoinWatcher "'v outcome"
  | JoinFuture "'v outcome"
  | OwnerDone "'v outcome"

datatype 'v request = Polling | CancelledJoining | Ended "'v outcome"

text \<open>What the awaited disconnection gave: a message with its type, or a plain value.\<close>

datatype disconnect = DiscMessage "string option" | DiscValue bool

fun watch_verdict :: "disconnect \<Rightarrow> bool" where
  "watch_verdict (DiscMessage typ) = (typ = Some ''http.disconnect'')"
| "watch_verdict (DiscValue b) = b"

record 'v kok =
  kk_future :: "'v native option"
  kk_watcher :: watcher
  kk_event :: bool
  kk_owner :: "'v owner"
  kk_request :: "'v request"

definition kok_start :: "bool \<Rightarrow> bool \<Rightarrow> 'v kok" where
  "kok_start watched event0 =
     \<lparr>kk_future = None, kk_watcher = (if watched then Watching else NoWatcher), kk_event = event0,
      kk_owner = (if watched then WaitBoth else WaitFuture), kk_request = Polling\<rparr>"

text \<open>The future's result as \<open>await future\<close> gives it to the owner: an exception sets the cancel event
  on its way through \<open>except BaseException\<close>.\<close>

definition take_future :: "'v native \<Rightarrow> 'v kok \<Rightarrow> 'v kok" where
  "take_future n s =
     (case n of
        NOk v \<Rightarrow> s\<lparr>kk_owner := JoinWatcher (ROk v)\<rparr>
      | NErr e \<Rightarrow> s\<lparr>kk_owner := JoinWatcher (RErr e), kk_event := True\<rparr>)"

text \<open>What the owner does once \<open>asyncio.wait\<close> returns: the future first.\<close>

definition owner_wake :: "'v kok \<Rightarrow> 'v kok" where
  "owner_wake s =
     (case kk_future s of
        Some n \<Rightarrow> take_future n s
      | None \<Rightarrow>
          (case kk_watcher s of
             Watched True \<Rightarrow> s\<lparr>kk_event := True, kk_owner := WaitAfterDisconnect\<rparr>
           | Watched False \<Rightarrow> s\<lparr>kk_owner := WaitFuture\<rparr>
           | WatchRaised e \<Rightarrow> s\<lparr>kk_event := True, kk_owner := JoinWatcher (RErr e)\<rparr>
           | _ \<Rightarrow> s))"

text \<open>One step of the owning task; \<open>None\<close> while what it awaits has not happened.\<close>

fun owner_step :: "'v kok \<Rightarrow> 'v kok option" where
  "owner_step s =
     (case kk_owner s of
        WaitBoth \<Rightarrow> (if kk_future s \<noteq> None \<or> kk_watcher s \<noteq> Watching then Some (owner_wake s) else None)
      | WaitFuture \<Rightarrow> (case kk_future s of None \<Rightarrow> None | Some n \<Rightarrow> Some (take_future n s))
      | WaitAfterDisconnect \<Rightarrow>
          (if kk_future s = None then None else Some (s\<lparr>kk_owner := JoinWatcher RDisconnected\<rparr>))
      | JoinWatcher r \<Rightarrow> (if kk_watcher s = Watching then None else Some (s\<lparr>kk_owner := JoinFuture r\<rparr>))
      | JoinFuture r \<Rightarrow> (if kk_future s = None then None else Some (s\<lparr>kk_owner := OwnerDone r\<rparr>))
      | OwnerDone r \<Rightarrow> None)"

definition request_step :: "'v kok \<Rightarrow> 'v kok option" where
  "request_step s =
     (case kk_owner s of
        OwnerDone r \<Rightarrow>
          (case kk_request s of
             Polling \<Rightarrow> Some (s\<lparr>kk_request := Ended r\<rparr>)
           | CancelledJoining \<Rightarrow> Some (s\<lparr>kk_request := Ended RCancelled\<rparr>)
           | Ended _ \<Rightarrow> None)
      | _ \<Rightarrow> None)"

datatype 'v kok_event = NativeEnds "'v native" | WatchEnds watcher | WatchCancelled | OwnerRuns | CancelRequest | RequestRuns

text \<open>Native work and watcher end by themselves; the watcher also ends (reporting no disconnect) once
  the owner, in its \<open>finally\<close>, has cancelled its scope; a request may be cancelled any number of
  times.\<close>

inductive kok_step :: "'v kok \<Rightarrow> 'v kok_event \<Rightarrow> 'v kok \<Rightarrow> bool" where
  native_ends: "kk_future s = None \<Longrightarrow> kok_step s (NativeEnds n) (s\<lparr>kk_future := Some n\<rparr>)"
| watch_ends: "kk_watcher s = Watching \<Longrightarrow> w \<in> {Watched (watch_verdict d), WatchRaised e} \<Longrightarrow>
               kok_step s (WatchEnds w) (s\<lparr>kk_watcher := w\<rparr>)"
| watch_cancelled: "kk_watcher s = Watching \<Longrightarrow> kk_owner s = JoinWatcher r \<Longrightarrow>
                    kok_step s WatchCancelled (s\<lparr>kk_watcher := Watched False\<rparr>)"
| owner_runs: "owner_step s = Some s' \<Longrightarrow> kok_step s OwnerRuns s'"
| cancel_polling: "kk_request s = Polling \<Longrightarrow>
                   kok_step s CancelRequest (s\<lparr>kk_event := True, kk_request := CancelledJoining\<rparr>)"
| cancel_again: "kk_request s = CancelledJoining \<Longrightarrow> kok_step s CancelRequest s"
| request_runs: "request_step s = Some s' \<Longrightarrow> kok_step s RequestRuns s'"

inductive_cases kok_stepE: "kok_step s e s'"

text \<open>The leases of the request are held until it has ended.\<close>

definition kok_inv :: "'v kok \<Rightarrow> bool" where
  "kok_inv s \<longleftrightarrow>
     (case kk_owner s of
        WaitAfterDisconnect \<Rightarrow> kk_watcher s = Watched True \<and> kk_event s
      | JoinWatcher r \<Rightarrow> (r = RDisconnected \<longrightarrow> kk_watcher s = Watched True) \<and> r \<noteq> RCancelled
      | JoinFuture r \<Rightarrow> kk_watcher s \<noteq> Watching \<and> (r = RDisconnected \<longrightarrow> kk_watcher s = Watched True) \<and> r \<noteq> RCancelled
      | OwnerDone r \<Rightarrow> kk_future s \<noteq> None \<and> kk_watcher s \<noteq> Watching \<and>
                       (r = RDisconnected \<longrightarrow> kk_watcher s = Watched True) \<and> r \<noteq> RCancelled
      | _ \<Rightarrow> True) \<and>
     (case kk_owner s of
        JoinWatcher r \<Rightarrow> (case r of ROk v \<Rightarrow> kk_future s = Some (NOk v) | _ \<Rightarrow> kk_event s)
      | JoinFuture r \<Rightarrow> (case r of ROk v \<Rightarrow> kk_future s = Some (NOk v) | _ \<Rightarrow> kk_event s)
      | OwnerDone r \<Rightarrow> (case r of ROk v \<Rightarrow> kk_future s = Some (NOk v) | _ \<Rightarrow> kk_event s)
      | _ \<Rightarrow> True) \<and>
     (case kk_request s of
        Polling \<Rightarrow> True
      | CancelledJoining \<Rightarrow> kk_event s
      | Ended r \<Rightarrow> (\<exists>q. kk_owner s = OwnerDone q \<and> (r = q \<or> r = RCancelled \<and> kk_event s)))"

lemma kok_start_inv: "kok_inv (kok_start watched event0)"
  by (simp add: kok_inv_def kok_start_def)

lemma owner_step_inv: "kok_inv s \<Longrightarrow> owner_step s = Some s' \<Longrightarrow> kok_inv s'"
  by (cases "kk_owner s")
    (auto simp: kok_inv_def owner_wake_def take_future_def
       split: if_splits option.splits native.splits watcher.splits bool.splits outcome.splits request.splits)

lemma kok_step_inv: "kok_step s e s' \<Longrightarrow> kok_inv s \<Longrightarrow> kok_inv s'"
proof (induction rule: kok_step.induct)
  case (owner_runs s s')
  then show ?case using owner_step_inv by blast
next
  case (request_runs s s')
  then show ?case
    by (auto simp: kok_inv_def request_step_def split: owner.splits request.splits outcome.splits)
qed (auto simp: kok_inv_def split: owner.splits outcome.splits request.splits)

interpretation kok_run: rel_invariant kok_step kok_inv
  by unfold_locales (rule kok_step_inv)


text \<open>Steps left until the request ends, once the native call has ended: the owner's phases, the
  watcher and the request.\<close>

definition kok_left :: "'v kok \<Rightarrow> nat" where
  "kok_left s =
     (case kk_owner s of
        WaitBoth \<Rightarrow> 5 | WaitFuture \<Rightarrow> 5 | WaitAfterDisconnect \<Rightarrow> 5
      | JoinWatcher _ \<Rightarrow> (if kk_watcher s = Watching then 4 else 3)
      | JoinFuture _ \<Rightarrow> 2
      | OwnerDone _ \<Rightarrow> (case kk_request s of Ended _ \<Rightarrow> 0 | _ \<Rightarrow> 1))"

lemma kok_progress:
  assumes "kok_inv s" and "kk_future s \<noteq> None" and "kok_left s \<noteq> 0"
  shows "\<exists>e s'. e \<in> {OwnerRuns, WatchCancelled, RequestRuns} \<and> kok_step s e s' \<and>
                kk_future s' \<noteq> None \<and> kok_left s' < kok_left s"
proof -
  obtain n where n: "kk_future s = Some n" using assms(2) by blast
  have taken: "kk_owner (take_future n s) = JoinWatcher (case n of NOk v \<Rightarrow> ROk v | NErr e \<Rightarrow> RErr e)"
    "kk_future (take_future n s) = Some n"
    using n by (cases n; simp add: take_future_def)+
  have own: ?thesis if "owner_step s = Some s'" "kk_future s' \<noteq> None" "kok_left s' < kok_left s" for s'
    using kok_step.owner_runs [OF that(1)] that(2,3) by blast
  show ?thesis
  proof (cases "kk_owner s")
    case WaitBoth
    then show ?thesis using n taken own [of "take_future n s"] by (simp add: owner_wake_def kok_left_def)
  next
    case WaitFuture
    then show ?thesis using n taken own [of "take_future n s"] by (simp add: kok_left_def)
  next
    case WaitAfterDisconnect
    then show ?thesis using n own [of "s\<lparr>kk_owner := JoinWatcher RDisconnected\<rparr>"] by (simp add: kok_left_def)
  next
    case (JoinWatcher r)
    show ?thesis
    proof (cases "kk_watcher s = Watching")
      case True
      from kok_step.watch_cancelled [OF True JoinWatcher] show ?thesis
        using n True JoinWatcher by (auto simp: kok_left_def intro!: exI)
    next
      case False
      then show ?thesis using n JoinWatcher own [of "s\<lparr>kk_owner := JoinFuture r\<rparr>"] by (simp add: kok_left_def)
    qed
  next
    case (JoinFuture r)
    have "kok_left (s\<lparr>kk_owner := OwnerDone r\<rparr>) \<le> 1" by (simp add: kok_left_def split: request.split)
    then show ?thesis using n JoinFuture own [of "s\<lparr>kk_owner := OwnerDone r\<rparr>"] by (simp add: kok_left_def)
  next
    case (OwnerDone r)
    then obtain s' where "request_step s = Some s'" "kk_future s' = Some n" "kok_left s' = 0"
      using assms(3) n by (cases "kk_request s") (auto simp: kok_left_def request_step_def)
    moreover have "kok_left s = 1" using assms(3) OwnerDone by (simp add: kok_left_def split: request.splits)
    ultimately show ?thesis using kok_step.request_runs [of s s'] by auto
  qed
qed

lemma kok_finishes:
  "kok_inv s \<Longrightarrow> kk_future s \<noteq> None \<Longrightarrow>
   \<exists>es s' r. steps_rel kok_step s es s' \<and> list_all (\<lambda>e. e \<in> {OwnerRuns, WatchCancelled, RequestRuns}) es \<and>
            length es \<le> kok_left s \<and> kk_request s' = Ended r"
proof (induction "kok_left s" arbitrary: s rule: less_induct)
  case less
  show ?case
  proof (cases "kok_left s = 0")
    case True
    then obtain r where "kk_request s = Ended r"
      by (auto simp: kok_left_def split: owner.splits request.splits if_splits)
    then show ?thesis by (intro exI [of _ "[]"] exI [of _ s] exI [of _ r]) (simp add: steps_rel.intros)
  next
    case False
    obtain e s1 where st: "e \<in> {OwnerRuns, WatchCancelled, RequestRuns}" "kok_step s e s1"
      "kk_future s1 \<noteq> None" "kok_left s1 < kok_left s" using kok_progress [OF less.prems False] by blast
    from less.hyps [OF st(4) kok_step_inv [OF st(2) less.prems(1)] st(3)] obtain es s' r where
      r: "steps_rel kok_step s1 es s'" "list_all (\<lambda>e. e \<in> {OwnerRuns, WatchCancelled, RequestRuns}) es"
      "length es \<le> kok_left s1" "kk_request s' = Ended r" by blast
    have "steps_rel kok_step s (e # es) s'" by (rule steps_rel.intros(2) [OF st(2) r(1)])
    then show ?thesis using r(2-4) st(1,4) by (intro exI [of _ "e # es"] exI [of _ s'] exI [of _ r]) auto
  qed
qed

section \<open>The plain executor call\<close>

text \<open>Recognition runs in the same executor, but is awaited directly: a cancelled request ends at once,
  while the thread, once started, goes on.\<close>

record 'v plain =
  pl_future :: "'v native option"
  pl_request :: "'v request"

definition plain_start :: "'v plain" where
  "plain_start = \<lparr>pl_future = None, pl_request = Polling\<rparr>"

inductive plain_step :: "'v plain \<Rightarrow> 'v kok_event \<Rightarrow> 'v plain \<Rightarrow> bool" where
  plain_native: "pl_future s = None \<Longrightarrow> plain_step s (NativeEnds n) (s\<lparr>pl_future := Some n\<rparr>)"
| plain_cancel: "pl_request s = Polling \<Longrightarrow> plain_step s CancelRequest (s\<lparr>pl_request := Ended RCancelled\<rparr>)"
| plain_result: "pl_request s = Polling \<Longrightarrow> pl_future s = Some n \<Longrightarrow>
     plain_step s RequestRuns (s\<lparr>pl_request := Ended (case n of NOk v \<Rightarrow> ROk v | NErr e \<Rightarrow> RErr e)\<rparr>)"


section \<open>The lease discipline\<close>

text \<open>A checker of traces: leases are nested, the manager's outermost and exactly when there is a
  manager; preparing and recording happen outside the coordinator's lease, the call under all
  leases.  The result is the stack of leases still held.\<close>

definition base_leases :: "bool \<Rightarrow> lease list" where
  "base_leases managed = (if managed then [LManager] else [])"

fun lease_step :: "bool \<Rightarrow> string \<Rightarrow> xact \<Rightarrow> lease list \<Rightarrow> lease list option" where
  "lease_step managed kind (Take LManager) st = (if managed \<and> st = [] then Some [LManager] else None)"
| "lease_step managed kind (Take (LCoordinator k)) st =
     (if k = kind \<and> st = base_leases managed then Some (LCoordinator k # st) else None)"
| "lease_step managed kind (Give l) st = (if st \<noteq> [] \<and> hd st = l then Some (tl st) else None)"
| "lease_step managed kind Prepare st = (if st = base_leases managed then Some st else None)"
| "lease_step managed kind (Metric n) st = (if st = base_leases managed then Some st else None)"
| "lease_step managed kind (Call kw off) st =
     (if st = LCoordinator kind # base_leases managed then Some st else None)"

fun lease_run :: "bool \<Rightarrow> string \<Rightarrow> xact list \<Rightarrow> lease list \<Rightarrow> lease list option" where
  "lease_run managed kind [] st = Some st"
| "lease_run managed kind (x # xs) st =
     (case lease_step managed kind x st of None \<Rightarrow> None | Some st' \<Rightarrow> lease_run managed kind xs st')"

fun is_call :: "xact \<Rightarrow> bool" where
  "is_call (Call kw off) = True"
| "is_call _ = False"

definition calls_in :: "xact list \<Rightarrow> nat" where
  "calls_in t = length (filter is_call t)"

definition disciplined :: "bool \<Rightarrow> string \<Rightarrow> 'r run \<Rightarrow> bool" where
  "disciplined managed kind r \<longleftrightarrow>
     lease_run managed kind (snd r) [] = Some [] \<and>
     (case fst r of Inr _ \<Rightarrow> calls_in (snd r) = 1 | Inl _ \<Rightarrow> calls_in (snd r) \<le> 1)"

text \<open>The bodies are disciplined from their base leases, and taking the manager's lease around one
  keeps it so.\<close>

definition disciplined_body :: "bool \<Rightarrow> string \<Rightarrow> 'r run \<Rightarrow> bool" where
  "disciplined_body managed kind r \<longleftrightarrow>
     lease_run managed kind (snd r) (base_leases managed) = Some (base_leases managed) \<and>
     (case fst r of Inr _ \<Rightarrow> calls_in (snd r) = 1 | Inl _ \<Rightarrow> calls_in (snd r) \<le> 1)"

lemma lease_run_append [simp]:
  "lease_run managed kind (xs @ ys) st =
     (case lease_run managed kind xs st of None \<Rightarrow> None | Some st' \<Rightarrow> lease_run managed kind ys st')"
  by (induction xs arbitrary: st) (auto split: option.splits)

lemma calls_in_simps [simp]:
  "calls_in [] = 0" "calls_in (x # xs) = (if is_call x then Suc (calls_in xs) else calls_in xs)"
  "calls_in (xs @ ys) = calls_in xs + calls_in ys"
  by (simp_all add: calls_in_def)

lemma managed_disciplined:
  "disciplined_body True kind body \<Longrightarrow> disciplined True kind (under LManager refused body)"
  by (auto simp: disciplined_def disciplined_body_def under_def base_leases_def split: option.split sum.splits)

lemma unmanaged_disciplined: "disciplined_body False kind body \<Longrightarrow> disciplined False kind body"
  by (simp add: disciplined_def disciplined_body_def base_leases_def)

lemma tts_call_disciplined: "disciplined_body managed ''tts'' (tts_call prep co answer b)"
  by (auto simp: tts_call_def disciplined_body_def under_def first_do_def split: sum.splits option.splits)

lemma clone_call_disciplined: "disciplined_body managed ''tts'' (clone_call prep co answer b)"
  by (auto simp: clone_call_def disciplined_body_def under_def first_do_def split: sum.splits option.splits)

lemma asr_call_disciplined: "disciplined_body managed ''asr'' (asr_call prep co decoded metrics b)"
  by (auto simp: asr_call_def disciplined_body_def under_def first_do_def Let_def split: sum.splits option.splits)

lemma refused_disciplined: "disciplined managed kind (Inl e, [])"
  by (simp add: disciplined_def)

lemmas disciplined_bodies = tts_call_disciplined clone_call_disciplined asr_call_disciplined

section \<open>The bound on uploads\<close>

lemma read_chunks_bound:
  "read_chunks mx rs got = Inr d \<Longrightarrow> int (length got) \<le> mx \<Longrightarrow> int (length d) \<le> mx \<and> take (length got) d = got"
proof (induction mx rs got rule: read_chunks.induct)
  case (4 mx d' rs got)
  then show ?case by (auto split: if_splits) (metis append_eq_conv_conj append_take_drop_id take_append take_take)+
qed auto

section \<open>Properties\<close>


text \<open>C13: A Kokoro request, however the native call, the client's disconnection and any number of
  cancellations interleave, ends only after the native call has ended and the watcher has been
  joined; a value it returns is the native call's; it ends as disconnected only if the client
  did, and whenever it does not return a value the cancel event has been set.  Once the native
  call has ended, at most five steps of its own tasks end it.\<close>
theorem kokoro_joins_native_work:
  assumes "steps_rel kok_step (kok_start watched event0) es s"
  shows "(case kk_request s of
            Ended r \<Rightarrow> kk_future s \<noteq> None \<and> kk_watcher s \<noteq> Watching \<and>
                       (case r of ROk v \<Rightarrow> kk_future s = Some (NOk v)
                        | RDisconnected \<Rightarrow> kk_watcher s = Watched True \<and> kk_event s
                        | _ \<Rightarrow> kk_event s)
          | _ \<Rightarrow> True) \<and>
         (kk_future s \<noteq> None \<longrightarrow>
            (\<exists>es' s' r. steps_rel kok_step s es' s' \<and>
               list_all (\<lambda>e. e \<in> {OwnerRuns, WatchCancelled, RequestRuns}) es' \<and>
               length es' \<le> 5 \<and> kk_request s' = Ended r))"
proof -
  have inv: "kok_inv s" by (rule kok_run.rel_run_inv [OF assms kok_start_inv])
  have "kok_left s \<le> 5" by (simp add: kok_left_def split: owner.split request.split)
  then have fin: "kk_future s \<noteq> None \<Longrightarrow> \<exists>es' s' r. steps_rel kok_step s es' s' \<and>
      list_all (\<lambda>e. e \<in> {OwnerRuns, WatchCancelled, RequestRuns}) es' \<and> length es' \<le> 5 \<and> kk_request s' = Ended r"
    using kok_finishes [OF inv] le_trans by meson
  have "case kk_request s of
            Ended r \<Rightarrow> kk_future s \<noteq> None \<and> kk_watcher s \<noteq> Watching \<and>
                       (case r of ROk v \<Rightarrow> kk_future s = Some (NOk v)
                        | RDisconnected \<Rightarrow> kk_watcher s = Watched True \<and> kk_event s
                        | _ \<Rightarrow> kk_event s)
          | _ \<Rightarrow> True"
    using inv by (auto simp: kok_inv_def split: request.splits outcome.splits)
  with fin show ?thesis by blast
qed

theorem kokoro_joins_native_work_witness:
  "\<exists>s. steps_rel kok_step (kok_start True False) [CancelRequest, NativeEnds (NOk (1::nat))] s \<and>
       kk_request s = CancelledJoining \<and>
       (\<exists>es' s' r. steps_rel kok_step s es' s' \<and> length es' \<le> 5 \<and> kk_request s' = Ended r)"
proof -
  define s1 :: "nat kok" where "s1 = (kok_start True False)\<lparr>kk_event := True, kk_request := CancelledJoining\<rparr>"
  define s2 where "s2 = s1\<lparr>kk_future := Some (NOk 1)\<rparr>"
  have "kok_step (kok_start True False) CancelRequest s1"
    unfolding s1_def by (rule kok_step.cancel_polling) (simp add: kok_start_def)
  moreover have "kok_step s1 (NativeEnds (NOk 1)) s2"
    unfolding s2_def by (rule kok_step.native_ends) (simp add: s1_def kok_start_def)
  ultimately have run: "steps_rel kok_step (kok_start True False) [CancelRequest, NativeEnds (NOk 1)] s2"
    by (blast intro: steps_rel.intros)
  have "kk_future s2 \<noteq> None" "kk_request s2 = CancelledJoining" by (simp_all add: s2_def s1_def)
  then show ?thesis using kokoro_joins_native_work [OF run] run by blast
qed

end
