(* ===== verification/TtsStream.thy ===== *)
theory TtsStream
  imports Prelude Execution
begin

text \<open>
  Streaming synthesis over HTTP (\<open>tts_stream\<close> and its helpers in \<open>server/main.py\<close>).  First the
  sentence pipeline: which sentence is handed to the executor when, and in which order its audio
  leaves.  Then the end of a stream: executor jobs, the shared cancel flag, the cleanup task that
  drains the started jobs before it gives back the leases, event-loop shutdown, and the thread that
  takes over jobs the shutdown left unfinished.  A job's thread publishes \<open>started\<close> before it reads
  the cancel flag, and \<open>finished\<close> last; the wrapper future of \<open>run_in_executor\<close> is separate, because
  cancelling it does not stop the thread.
\<close>

section \<open>The sentence pipeline\<close>

definition prefetch_window_allows :: "nat \<Rightarrow> nat \<Rightarrow> nat \<Rightarrow> bool" where
  "prefetch_window_allows nxt cur w \<longleftrightarrow> int nxt - 1 - int cur < int w"

text \<open>The window: the setting, or the executor's size, capped by the number of jobs, at least one;
  \<open>None\<close> is the \<open>ValueError\<close> of \<open>int\<close>.\<close>

definition prefetch_max :: "env_map \<Rightarrow> nat \<Rightarrow> nat \<Rightarrow> nat option" where
  "prefetch_max env max_workers jobs =
     (case (case env ''OVS_TTS_STREAM_PREFETCH'' of None \<Rightarrow> Some (int max_workers) | Some s \<Rightarrow> py_int s) of
        None \<Rightarrow> None
      | Some v \<Rightarrow> Some (nat (max 1 (min v (int jobs)))))"

definition kokoro_hybrid_pipeline_enabled :: "env_map \<Rightarrow> nat \<Rightarrow> bool" where
  "kokoro_hybrid_pipeline_enabled env sentences \<longleftrightarrow>
     1 < sentences \<and> env ''TTS_BACKEND'' = Some ''kokoro_rknn'' \<and> env ''KOKORO_HYBRID_PIPELINE'' = Some ''1''"

definition backend_jobs :: "env_map \<Rightarrow> cptext \<Rightarrow> cptext list \<Rightarrow> cptext list" where
  "backend_jobs env text sentences =
     (if kokoro_hybrid_pipeline_enabled env (length sentences) then [text] else sentences)"

text \<open>What a job's queue delivers: chunks, or an exception; the end of the list is the final \<open>None\<close>.\<close>

datatype item = Chunk "nat list" | Fail exn

datatype pipe_event = Submitted nat | Yielded nat "nat list"

record pipe =
  pp_next :: nat
  pp_log :: "pipe_event list"

text \<open>The cancel flag as the generator sees it: after so many events.\<close>

type_synonym flag_view = "nat \<Rightarrow> bool"

definition pipe_start :: pipe where
  "pipe_start = \<lparr>pp_next = 1, pp_log = [Submitted 0]\<rparr>"

definition maybe_prefetch :: "nat \<Rightarrow> nat \<Rightarrow> flag_view \<Rightarrow> nat \<Rightarrow> pipe \<Rightarrow> pipe" where
  "maybe_prefetch n w flag cur p =
     (if pp_next p < n \<and> \<not> flag (length (pp_log p)) \<and> prefetch_window_allows (pp_next p) cur w
      then p\<lparr>pp_next := pp_next p + 1, pp_log := pp_log p @ [Submitted (pp_next p)]\<rparr>
      else p)"

fun drain_items ::
    "nat \<Rightarrow> nat \<Rightarrow> flag_view \<Rightarrow> nat \<Rightarrow> bool \<Rightarrow> item list \<Rightarrow> pipe \<Rightarrow> exn option \<times> pipe" where
  "drain_items n w flag cur seen [] p = (None, p)"
| "drain_items n w flag cur seen (Fail e # its) p = (Some e, p)"
| "drain_items n w flag cur seen (Chunk c # its) p =
     (let p1 = (if seen then p else maybe_prefetch n w flag cur p)
      in drain_items n w flag cur True its (p1\<lparr>pp_log := pp_log p1 @ [Yielded cur c]\<rparr>))"

datatype pipe_end = Drained | CancelSeen | Raised exn | WaitsForever

text \<open>The loop over the sentences; reading the queue of a job that was never submitted would wait
  for ever.\<close>

fun drain_jobs ::
    "nat \<Rightarrow> nat \<Rightarrow> flag_view \<Rightarrow> nat \<Rightarrow> item list list \<Rightarrow> pipe \<Rightarrow> pipe_end \<times> pipe" where
  "drain_jobs n w flag cur [] p = (Drained, p)"
| "drain_jobs n w flag cur (q # qs) p =
     (if flag (length (pp_log p)) then (CancelSeen, p)
      else if pp_next p \<le> cur then (WaitsForever, p)
      else (case drain_items n w flag cur False q p of
              (Some e, p1) \<Rightarrow> (Raised e, p1)
            | (None, p1) \<Rightarrow> drain_jobs n w flag (cur + 1) qs (maybe_prefetch n w flag cur p1)))"

definition stream_pipeline :: "nat \<Rightarrow> flag_view \<Rightarrow> item list list \<Rightarrow> pipe_end \<times> pipe" where
  "stream_pipeline w flag queues = drain_jobs (length queues) w flag 0 queues pipe_start"

subsection \<open>Lemmas\<close>

fun chunks_of :: "item list \<Rightarrow> nat list list" where
  "chunks_of [] = []"
| "chunks_of (Fail e # its) = []"
| "chunks_of (Chunk c # its) = c # chunks_of its"

fun pcm_of :: "pipe_event list \<Rightarrow> nat list list" where
  "pcm_of [] = []"
| "pcm_of (Submitted i # evs) = pcm_of evs"
| "pcm_of (Yielded i c # evs) = c # pcm_of evs"

fun submits_of :: "pipe_event list \<Rightarrow> nat list" where
  "submits_of [] = []"
| "submits_of (Submitted i # evs) = i # submits_of evs"
| "submits_of (Yielded i c # evs) = submits_of evs"

lemma pcm_of_append [simp]: "pcm_of (a @ b) = pcm_of a @ pcm_of b"
  by (induction a rule: pcm_of.induct) auto

lemma submits_of_append [simp]: "submits_of (a @ b) = submits_of a @ submits_of b"
  by (induction a rule: submits_of.induct) auto

text \<open>The pipeline's invariant while sentence \<open>cur\<close> is drained: jobs are submitted once, in order, and
  at most \<open>w\<close> ahead.\<close>

definition pipe_inv :: "nat \<Rightarrow> nat \<Rightarrow> nat \<Rightarrow> pipe \<Rightarrow> bool" where
  "pipe_inv n w cur p \<longleftrightarrow>
     submits_of (pp_log p) = [0..<pp_next p] \<and> pp_next p \<le> max 1 n \<and> pp_next p \<le> cur + 1 + w"

lemma maybe_prefetch_inv:
  "pipe_inv n w cur p \<Longrightarrow> pipe_inv n w cur (maybe_prefetch n w flag cur p)"
  by (auto simp: pipe_inv_def maybe_prefetch_def prefetch_window_allows_def)

lemma maybe_prefetch_frame:
  "pcm_of (pp_log (maybe_prefetch n w flag cur p)) = pcm_of (pp_log p)"
  "pp_next p \<le> pp_next (maybe_prefetch n w flag cur p)"
  "length (pp_log p) \<le> length (pp_log (maybe_prefetch n w flag cur p))"
  by (auto simp: maybe_prefetch_def)

lemma drain_items_spec:
  assumes "drain_items n w flag cur seen its p = (r, p')" and "pipe_inv n w cur p"
  shows "pipe_inv n w cur p' \<and> pp_next p \<le> pp_next p' \<and> length (pp_log p) \<le> length (pp_log p') \<and>
         pcm_of (pp_log p') = pcm_of (pp_log p) @ chunks_of its"
  using assms
proof (induction n w flag cur seen its p rule: drain_items.induct)
  case (3 n w flag cur seen c its p)
  let ?p1 = "if seen then p else maybe_prefetch n w flag cur p"
  let ?p2 = "?p1\<lparr>pp_log := pp_log ?p1 @ [Yielded cur c]\<rparr>"
  have p1: "pipe_inv n w cur ?p1" "pcm_of (pp_log ?p1) = pcm_of (pp_log p)" "pp_next p \<le> pp_next ?p1"
    "length (pp_log p) \<le> length (pp_log ?p1)"
    using maybe_prefetch_inv "3.prems"(2) maybe_prefetch_frame [where n=n and w=w and flag=flag and cur=cur and p=p] by auto
  have "drain_items n w flag cur True its ?p2 = (r, p')" using "3.prems"(1) by (simp add: Let_def)
  moreover have "pipe_inv n w cur ?p2" using p1(1) by (simp add: pipe_inv_def)
  ultimately show ?case using "3.IH" [OF refl] p1 by fastforce
qed auto

text \<open>Once the sentence is done the next one has been submitted, unless cancellation was seen.\<close>

lemma after_completion:
  assumes "pipe_inv n w cur p" and "cur < pp_next p" and "cur + 1 < n" and "1 \<le> w"
    and "\<not> flag (length (pp_log (maybe_prefetch n w flag cur p)))"
    and "\<And>k j. flag k \<Longrightarrow> k \<le> j \<Longrightarrow> flag j"
  shows "cur + 1 < pp_next (maybe_prefetch n w flag cur p)"
proof (cases "cur + 1 < pp_next p")
  case True
  then show ?thesis using maybe_prefetch_frame(2) [where n=n and w=w and flag=flag and cur=cur and p=p] by linarith
next
  case False
  then have "pp_next p = cur + 1" using assms(2) by simp
  moreover have "\<not> flag (length (pp_log p))" using assms(5,6) maybe_prefetch_frame(3) by blast
  ultimately show ?thesis using assms(3,4) by (simp add: maybe_prefetch_def prefetch_window_allows_def)
qed


lemma drain_jobs_spec:
  assumes "drain_jobs n w flag cur qs p = (out, p')" and "pipe_inv n w cur p"
    and "n = cur + length qs" and "1 \<le> w" and "\<And>k j. flag k \<Longrightarrow> k \<le> j \<Longrightarrow> flag j"
    and "qs \<noteq> [] \<Longrightarrow> \<not> flag (length (pp_log p)) \<Longrightarrow> cur < pp_next p"
  shows "out \<noteq> WaitsForever \<and> submits_of (pp_log p') = [0..<pp_next p'] \<and>
         (\<exists>k. pcm_of (pp_log p') = pcm_of (pp_log p) @ concat (map chunks_of (take k qs)) \<and>
              (out = Drained \<longrightarrow> k = length qs))"
  using assms
proof (induction n w flag cur qs p rule: drain_jobs.induct)
  case (1 n w flag cur p)
  then show ?case by (auto simp: pipe_inv_def)
next
  case (2 n w flag cur q qs p)
  show ?case
  proof (cases "flag (length (pp_log p))")
    case True
    then show ?thesis using "2.prems" by (auto simp: pipe_inv_def intro!: exI [of _ 0])
  next
    case False
    have sub: "cur < pp_next p" using "2.prems"(6) False by simp
    obtain r p1 where it: "drain_items n w flag cur False q p = (r, p1)" by fastforce
    note spec = drain_items_spec [OF it "2.prems"(2)]
    show ?thesis
    proof (cases r)
      case (Some e)
      then have "out = Raised e" "p' = p1" using "2.prems"(1) False sub it by auto
      then show ?thesis using spec by (auto simp: pipe_inv_def intro!: exI [of _ 1])
    next
      case None
      let ?p2 = "maybe_prefetch n w flag cur p1"
      have run: "drain_jobs n w flag (cur + 1) qs ?p2 = (out, p')"
        using "2.prems"(1) False sub it None by simp
      have inv2: "pipe_inv n w (cur + 1) ?p2"
        using maybe_prefetch_inv [where n=n and w=w and flag=flag and cur=cur and p=p1] spec
        by (simp add: pipe_inv_def)
      have pcm2: "pcm_of (pp_log ?p2) = pcm_of (pp_log p) @ chunks_of q"
        using spec maybe_prefetch_frame(1) [where n=n and w=w and flag=flag and cur=cur and p=p1] by simp
      have nxt: "cur + 1 < pp_next ?p2" if "qs \<noteq> []" "\<not> flag (length (pp_log ?p2))"
        using after_completion [where n=n and w=w and cur=cur and p=p1 and flag=flag] spec sub that "2.prems"(3-5)
        by (cases qs) auto
      from "2.IH" [OF False _ it [symmetric] None run inv2 _ "2.prems"(4,5) nxt] sub "2.prems"(3)
      obtain k where k: "out \<noteq> WaitsForever" "submits_of (pp_log p') = [0..<pp_next p']"
        "pcm_of (pp_log p') = pcm_of (pp_log ?p2) @ concat (map chunks_of (take k qs))"
        "out = Drained \<longrightarrow> k = length qs" by force
      then show ?thesis unfolding pcm2 by (auto intro!: exI [of _ "Suc k"])
    qed
  qed
qed


section \<open>The end of a stream\<close>

text \<open>The thread of a job, and the wrapper future.\<close>

datatype thread = TQueued | TStarted | TUsing | TFinished | TNever

datatype wrapper = FPending | FDone | FCancelled

text \<open>The three shapes of a job record: the bare future, with its \<open>started\<close> event, with its \<open>finished\<close>
  event too.\<close>

datatype job_kind = BareJob | StartedJob | EventedJob

record job =
  jb_kind :: job_kind
  jb_thread :: thread
  jb_future :: wrapper

definition job_started :: "job \<Rightarrow> bool" where
  "job_started j \<longleftrightarrow> jb_thread j \<in> {TStarted, TUsing, TFinished}"

text \<open>Which jobs the cleanup waits for.\<close>

definition job_selected :: "job \<Rightarrow> bool" where
  "job_selected j =
     (case jb_kind j of
        BareJob \<Rightarrow> True
      | StartedJob \<Rightarrow> job_started j \<or> jb_future j \<noteq> FPending
      | EventedJob \<Rightarrow> job_started j)"

text \<open>\<open>_tts_job_finished\<close>, and the end of \<open>_consume_job\<close>.\<close>

definition tts_job_finished :: "job \<Rightarrow> bool" where
  "tts_job_finished j =
     (case jb_kind j of
        EventedJob \<Rightarrow> jb_thread j = TFinished
      | _ \<Rightarrow> jb_future j \<noteq> FPending)"

definition job_consumed :: "job \<Rightarrow> bool" where
  "job_consumed j \<longleftrightarrow>
     (jb_kind j = EventedJob \<longrightarrow> jb_thread j = TFinished) \<and> jb_future j \<noteq> FPending"

text \<open>The cleanup: not begun, its task created, draining the jobs of its snapshot, handed to the
  orphan thread, leases given back, or given up (its task cancelled before it ran; the loop closed
  before the orphan thread was done).\<close>

datatype cleanup =
    CIdle
  | CCreated
  | CDrain "nat list"
  | COrphan "nat list"
  | CReleased
  | CLost

record stream =
  st_flag :: bool
  st_jobs :: "job list"
  st_cleanup :: cleanup
  st_releases :: nat

definition stream_start :: stream where
  "stream_start = \<lparr>st_flag = False, st_jobs = [], st_cleanup = CIdle, st_releases = 0\<rparr>"

definition release_resources :: "stream \<Rightarrow> stream" where
  "release_resources s = s\<lparr>st_releases := st_releases s + 1, st_cleanup := CReleased\<rparr>"

definition new_job :: job where
  "new_job = \<lparr>jb_kind = EventedJob, jb_thread = TQueued, jb_future = FPending\<rparr>"

text \<open>The thread body \<open>_run\<close>: publish \<open>started\<close>; then use the backend only if the flag is not set.\<close>

definition thread_check :: "bool \<Rightarrow> thread" where
  "thread_check flag = (if flag then TFinished else TUsing)"

definition cancel_wrapper :: "job \<Rightarrow> job" where
  "cancel_wrapper j =
     j\<lparr>jb_future := FCancelled, jb_thread := (if jb_thread j = TQueued then TNever else jb_thread j)\<rparr>"

text \<open>The end of the generator (its \<open>finally\<close>), or the disconnect watcher: raise the flag and start the
  one cleanup.\<close>

definition begin_cleanup :: "stream \<Rightarrow> stream" where
  "begin_cleanup s =
     s\<lparr>st_flag := True, st_cleanup := (if st_cleanup s = CIdle then CCreated else st_cleanup s)\<rparr>"

definition snapshot_jobs :: "job list \<Rightarrow> nat list" where
  "snapshot_jobs js = filter (\<lambda>i. job_selected (js ! i)) [0..<length js]"

text \<open>Event-loop shutdown cancels the drain: unfinished jobs go to the orphan thread; with none left the
  leases are given back.\<close>

definition shutdown_drain :: "nat list \<Rightarrow> stream \<Rightarrow> stream" where
  "shutdown_drain is s =
     (let left = filter (\<lambda>i. \<not> tts_job_finished (st_jobs s ! i)) is
      in if left \<noteq> [] then s\<lparr>st_cleanup := COrphan left\<rparr> else release_resources s)"

datatype stream_event =
    Submit
  | ThreadStarts nat
  | ThreadChecks nat
  | ThreadEnds nat
  | WrapperDone nat
  | WrapperCancelled nat
  | RaiseFlag
  | BeginCleanup
  | Snapshot
  | DrainOne
  | DrainEnd
  | LoopShutdown
  | TaskCancelledEarly
  | OrphanDone bool

inductive stream_step :: "stream \<Rightarrow> stream_event \<Rightarrow> stream \<Rightarrow> bool" where
  submit: "\<not> st_flag s \<Longrightarrow> stream_step s Submit (s\<lparr>st_jobs := st_jobs s @ [new_job]\<rparr>)"
| thread_starts: "i < length (st_jobs s) \<Longrightarrow> jb_thread (st_jobs s ! i) = TQueued \<Longrightarrow>
    stream_step s (ThreadStarts i) (s\<lparr>st_jobs := (st_jobs s)[i := (st_jobs s ! i)\<lparr>jb_thread := TStarted\<rparr>]\<rparr>)"
| thread_checks: "i < length (st_jobs s) \<Longrightarrow> jb_thread (st_jobs s ! i) = TStarted \<Longrightarrow>
    stream_step s (ThreadChecks i)
      (s\<lparr>st_jobs := (st_jobs s)[i := (st_jobs s ! i)\<lparr>jb_thread := thread_check (st_flag s)\<rparr>]\<rparr>)"
| thread_ends: "i < length (st_jobs s) \<Longrightarrow> jb_thread (st_jobs s ! i) = TUsing \<Longrightarrow>
    stream_step s (ThreadEnds i) (s\<lparr>st_jobs := (st_jobs s)[i := (st_jobs s ! i)\<lparr>jb_thread := TFinished\<rparr>]\<rparr>)"
| wrapper_done: "i < length (st_jobs s) \<Longrightarrow> jb_thread (st_jobs s ! i) = TFinished \<Longrightarrow>
    jb_future (st_jobs s ! i) = FPending \<Longrightarrow>
    stream_step s (WrapperDone i) (s\<lparr>st_jobs := (st_jobs s)[i := (st_jobs s ! i)\<lparr>jb_future := FDone\<rparr>]\<rparr>)"
| wrapper_cancelled: "i < length (st_jobs s) \<Longrightarrow> jb_future (st_jobs s ! i) = FPending \<Longrightarrow>
    stream_step s (WrapperCancelled i) (s\<lparr>st_jobs := (st_jobs s)[i := cancel_wrapper (st_jobs s ! i)]\<rparr>)"
| raise_flag: "stream_step s RaiseFlag (s\<lparr>st_flag := True\<rparr>)"
| begin_cleanup: "stream_step s BeginCleanup (begin_cleanup s)"
| snapshot: "st_cleanup s = CCreated \<Longrightarrow>
    stream_step s Snapshot (s\<lparr>st_cleanup := CDrain (snapshot_jobs (st_jobs s))\<rparr>)"
| drain_one: "st_cleanup s = CDrain (i # is) \<Longrightarrow> job_consumed (st_jobs s ! i) \<Longrightarrow>
    stream_step s DrainOne (s\<lparr>st_cleanup := CDrain is\<rparr>)"
| drain_end: "st_cleanup s = CDrain [] \<Longrightarrow> stream_step s DrainEnd (release_resources s)"
| loop_shutdown: "st_cleanup s = CDrain is \<Longrightarrow> is \<noteq> [] \<Longrightarrow>
    stream_step s LoopShutdown (shutdown_drain is s)"
| cancelled_early: "st_cleanup s = CCreated \<Longrightarrow>
    stream_step s TaskCancelledEarly (s\<lparr>st_cleanup := CLost\<rparr>)"
| orphan_done: "st_cleanup s = COrphan is \<Longrightarrow> list_all (\<lambda>i. tts_job_finished (st_jobs s ! i)) is \<Longrightarrow>
    stream_step s (OrphanDone alive) (if alive then release_resources s else s\<lparr>st_cleanup := CLost\<rparr>)"

subsection \<open>The invariant\<close>

definition using_jobs :: "stream \<Rightarrow> nat set" where
  "using_jobs s = {i. i < length (st_jobs s) \<and> jb_thread (st_jobs s ! i) = TUsing}"

definition stream_inv :: "stream \<Rightarrow> bool" where
  "stream_inv s \<longleftrightarrow>
     list_all (\<lambda>j. jb_kind j = EventedJob) (st_jobs s) \<and>
     (st_cleanup s \<noteq> CIdle \<longrightarrow> st_flag s) \<and>
     (case st_cleanup s of
        CDrain is \<Rightarrow> using_jobs s \<subseteq> set is \<and> set is \<subseteq> {..<length (st_jobs s)}
      | COrphan is \<Rightarrow> using_jobs s \<subseteq> set is \<and> set is \<subseteq> {..<length (st_jobs s)}
      | CReleased \<Rightarrow> using_jobs s = {}
      | _ \<Rightarrow> True) \<and>
     st_releases s = (if st_cleanup s = CReleased then 1 else 0)"

lemma stream_start_inv: "stream_inv stream_start"
  by (simp add: stream_inv_def stream_start_def)

text \<open>Once the flag is up no further thread uses the backend.\<close>

lemma using_jobs_update:
  "i < length (st_jobs s) \<Longrightarrow>
   using_jobs (s\<lparr>st_jobs := (st_jobs s)[i := j]\<rparr>) =
     (if jb_thread j = TUsing then insert i (using_jobs s) else using_jobs s - {i})"
  by (auto simp: using_jobs_def nth_list_update)

text \<open>A job update leaves the cleanup's part of the invariant to the using jobs.\<close>

lemma job_update_inv:
  assumes "stream_inv s" and "i < length (st_jobs s)" and "jb_kind j = jb_kind (st_jobs s ! i)"
    and "jb_thread j = TUsing \<Longrightarrow> jb_thread (st_jobs s ! i) = TUsing \<or> \<not> st_flag s"
  shows "stream_inv (s\<lparr>st_jobs := (st_jobs s)[i := j]\<rparr>)"
proof -
  let ?s = "s\<lparr>st_jobs := (st_jobs s)[i := j]\<rparr>"
  have kinds: "list_all (\<lambda>j. jb_kind j = EventedJob) ((st_jobs s)[i := j])"
    using assms(1-3) by (auto simp: stream_inv_def list_all_length nth_list_update)
  have "using_jobs ?s \<subseteq> using_jobs s" if "st_flag s"
    using assms(2,4) that by (auto simp: using_jobs_update) (auto simp: using_jobs_def)
  moreover have "st_cleanup s \<noteq> CIdle \<Longrightarrow> st_flag s" using assms(1) by (simp add: stream_inv_def)
  ultimately show ?thesis
    using assms(1) kinds by (cases "st_cleanup s") (auto simp: stream_inv_def)
qed

lemma snapshot_covers:
  assumes "stream_inv s" and "i \<in> using_jobs s"
  shows "i \<in> set (snapshot_jobs (st_jobs s))"
proof -
  have "i < length (st_jobs s)" "jb_thread (st_jobs s ! i) = TUsing" using assms(2) by (auto simp: using_jobs_def)
  then show ?thesis
    by (auto simp: snapshot_jobs_def job_selected_def job_started_def split: job_kind.split)
qed

lemma finished_not_using:
  assumes "stream_inv s" and "i < length (st_jobs s)" and "tts_job_finished (st_jobs s ! i)"
  shows "i \<notin> using_jobs s"
  using assms by (auto simp: stream_inv_def list_all_length tts_job_finished_def using_jobs_def)

lemma consumed_finished: "jb_kind j = EventedJob \<Longrightarrow> job_consumed j \<Longrightarrow> tts_job_finished j"
  by (simp add: job_consumed_def tts_job_finished_def)

lemma using_frame [simp]:
  "using_jobs (s\<lparr>st_cleanup := c\<rparr>) = using_jobs s" "using_jobs (s\<lparr>st_flag := b\<rparr>) = using_jobs s"
  "using_jobs (release_resources s) = using_jobs s"
  by (simp_all add: using_jobs_def release_resources_def)

lemma release_simps [simp]:
  "st_jobs (release_resources s) = st_jobs s" "st_flag (release_resources s) = st_flag s"
  "st_cleanup (release_resources s) = CReleased" "st_releases (release_resources s) = st_releases s + 1"
  by (simp_all add: release_resources_def)

lemma release_resources_inv:
  assumes "stream_inv s" and "st_cleanup s \<noteq> CReleased" and "st_cleanup s \<noteq> CIdle" and "using_jobs s = {}"
  shows "stream_inv (release_resources s)"
  using assms by (simp add: stream_inv_def)

lemma stream_step_inv: "stream_step s e s' \<Longrightarrow> stream_inv s \<Longrightarrow> stream_inv s'"
proof (induction rule: stream_step.induct)
  case (submit s)
  then have "st_cleanup s = CIdle" by (auto simp: stream_inv_def)
  then show ?case using submit by (simp add: stream_inv_def new_job_def)
next
  case (thread_starts i s)
  show ?case by (rule job_update_inv) (use thread_starts in auto)
next
  case (thread_checks i s)
  show ?case by (rule job_update_inv) (use thread_checks in \<open>auto simp: thread_check_def\<close>)
next
  case (thread_ends i s)
  show ?case by (rule job_update_inv) (use thread_ends in auto)
next
  case (wrapper_done i s)
  show ?case by (rule job_update_inv) (use wrapper_done in auto)
next
  case (wrapper_cancelled i s)
  show ?case by (rule job_update_inv) (use wrapper_cancelled in \<open>auto simp: cancel_wrapper_def split: if_splits\<close>)
next
  case (raise_flag s)
  then show ?case by (cases "st_cleanup s") (simp_all add: stream_inv_def)
next
  case (begin_cleanup s)
  then show ?case
    by (cases "st_cleanup s") (simp_all add: stream_inv_def begin_cleanup_def using_jobs_def)
next
  case (snapshot s)
  have "set (snapshot_jobs (st_jobs s)) \<subseteq> {..<length (st_jobs s)}" by (auto simp: snapshot_jobs_def)
  then show ?case using snapshot snapshot_covers [OF snapshot(2)] by (auto simp: stream_inv_def)
next
  case (drain_one s i "is")
  have i: "i < length (st_jobs s)" and sub: "using_jobs s \<subseteq> insert i (set is)"
    using drain_one by (auto simp: stream_inv_def)
  have "jb_kind (st_jobs s ! i) = EventedJob" using drain_one(3) i by (simp add: stream_inv_def list_all_length)
  then have "i \<notin> using_jobs s"
    using finished_not_using [OF drain_one(3) i] consumed_finished drain_one(2) by blast
  then show ?case using drain_one sub by (auto simp: stream_inv_def)
next
  case (drain_end s)
  then show ?case by (intro release_resources_inv) (auto simp: stream_inv_def)
next
  case (loop_shutdown s "is")
  let ?left = "filter (\<lambda>i. \<not> tts_job_finished (st_jobs s ! i)) is"
  have "using_jobs s \<subseteq> set ?left"
  proof
    fix i assume i: "i \<in> using_jobs s"
    then have "i < length (st_jobs s)" by (simp add: using_jobs_def)
    then have "\<not> tts_job_finished (st_jobs s ! i)" using finished_not_using loop_shutdown(3) i by blast
    then show "i \<in> set ?left" using i loop_shutdown(1,3) by (auto simp: stream_inv_def)
  qed
  then show ?case using loop_shutdown
    by (cases "?left = []") (auto simp: shutdown_drain_def Let_def stream_inv_def intro!: release_resources_inv)
next
  case (cancelled_early s)
  then show ?case by (simp add: stream_inv_def)
next
  case (orphan_done s "is" alive)
  have "using_jobs s = {}"
  proof -
    have "using_jobs s \<subseteq> set is" "set is \<subseteq> {..<length (st_jobs s)}" using orphan_done by (auto simp: stream_inv_def)
    moreover have "i \<notin> using_jobs s" if "i \<in> set is" for i
      using that finished_not_using [OF orphan_done(3)] orphan_done(2) calculation(2) by (auto simp: list_all_iff)
    ultimately show ?thesis by blast
  qed
  then show ?case using orphan_done
    by (cases alive) (auto simp: stream_inv_def intro!: release_resources_inv)
qed

interpretation stream_run: rel_invariant stream_step stream_inv
  by unfold_locales (rule stream_step_inv)


text \<open>With every started thread and its wrapper done, the cleanup's own steps give the leases back.\<close>

lemma drain_finishes:
  "st_cleanup s = CDrain is \<Longrightarrow> list_all (\<lambda>i. job_consumed (st_jobs s ! i)) is \<Longrightarrow>
   \<exists>s'. steps_rel stream_step s (replicate (length is) DrainOne @ [DrainEnd]) s' \<and> st_cleanup s' = CReleased"
proof (induction "is" arbitrary: s)
  case Nil
  then show ?case using steps_one [of stream_step, OF drain_end] by (fastforce simp: release_resources_def)
next
  case (Cons i "is")
  then have "stream_step s DrainOne (s\<lparr>st_cleanup := CDrain is\<rparr>)" by (intro drain_one) auto
  moreover obtain s' where "steps_rel stream_step (s\<lparr>st_cleanup := CDrain is\<rparr>)
      (replicate (length is) DrainOne @ [DrainEnd]) s'" "st_cleanup s' = CReleased"
    using Cons.IH [of "s\<lparr>st_cleanup := CDrain is\<rparr>"] Cons.prems by auto
  ultimately show ?case by (auto intro: steps_rel.intros)
qed

lemma cleanup_finishes:
  assumes "st_cleanup s = CCreated" and "list_all (\<lambda>j. \<not> job_selected j \<or> job_consumed j) (st_jobs s)"
  shows "\<exists>es s'. steps_rel stream_step s (Snapshot # es) s' \<and> st_cleanup s' = CReleased"
proof -
  let ?s = "s\<lparr>st_cleanup := CDrain (snapshot_jobs (st_jobs s))\<rparr>"
  have "list_all (\<lambda>i. job_consumed (st_jobs ?s ! i)) (snapshot_jobs (st_jobs s))"
    using assms(2) by (auto simp: snapshot_jobs_def list_all_iff)
  then obtain es s' where "steps_rel stream_step ?s es s'" "st_cleanup s' = CReleased"
    using drain_finishes [of ?s] by auto
  then show ?thesis using steps_rel.intros(2) [of stream_step, OF snapshot [OF assms(1)]] by blast
qed

section \<open>Properties\<close>

text \<open>C15: For any queues, any window of at least one and a cancel flag that is never lowered, the
  pipeline never waits for a sentence that was not submitted; it submits the sentences once
  each, in order; and the audio it sends is, chunk for chunk and in sentence order, the audio of
  the first sentences up to where it stopped, all of them when it was neither cancelled nor hit
  by an exception.\<close>
theorem pipeline_order_and_progress:
  assumes "stream_pipeline w flag queues = (out, p)" and "1 \<le> w" and "\<And>k j. flag k \<Longrightarrow> k \<le> j \<Longrightarrow> flag j"
  shows "out \<noteq> WaitsForever \<and> submits_of (pp_log p) = [0..<pp_next p] \<and>
         (\<exists>k. pcm_of (pp_log p) = concat (map chunks_of (take k queues)) \<and>
              (out = Drained \<longrightarrow> k = length queues))"
proof -
  have "pipe_inv (length queues) w 0 pipe_start" using assms(2) by (simp add: pipe_inv_def pipe_start_def)
  from drain_jobs_spec [OF assms(1) [unfolded stream_pipeline_def] this _ assms(2,3)] show ?thesis
    by (simp add: pipe_start_def)
qed

theorem pipeline_order_and_progress_witness:
  "fst (stream_pipeline 1 (\<lambda>_. False) [[Chunk [1], Chunk [2]], [], [Chunk [3]]]) = Drained \<and>
   pcm_of (pp_log (snd (stream_pipeline 1 (\<lambda>_. False) [[Chunk [1], Chunk [2]], [], [Chunk [3]]]))) = [[1], [2], [3]]"
proof -
  obtain out p where run: "stream_pipeline 1 (\<lambda>_. False) [[Chunk [1], Chunk [2]], [], [Chunk [3]]] = (out, p)"
    by fastforce
  have "out = Drained" using run
    by (simp add: stream_pipeline_def pipe_start_def maybe_prefetch_def prefetch_window_allows_def
        numeral_2_eq_2 numeral_3_eq_3)
  then show ?thesis using pipeline_order_and_progress [OF run] run by auto
qed


definition demo_stream :: stream where
  "demo_stream = \<lparr>st_flag = True, st_jobs = [new_job], st_cleanup = CCreated, st_releases = 0\<rparr>"


end
