(* ===== verification/Serving.thy ===== *)
theory Serving
  imports BackendManager Execution TtsStream
begin

text \<open>
  Requests served by a backend manager that can reload under them: each request takes the manager's
  context (\<open>BackendManager.acquire\<close>), runs its backend call by one of the protocols of
  \<open>api_execution.py\<close> (\<open>execute_tts\<close> with a Kokoro backend, or \<open>execute_asr\<close>) or as a stream, and leaves the context
  once the call has ended for it.  What a protocol must guarantee for the manager's promise to
  mean something for the native threads is the locale \<open>joined_call\<close>.
\<close>

section \<open>Requests and manager together\<close>

record ('b, 'c) serving =
  sv_mgr :: "'b manager"
  sv_call :: "nat \<Rightarrow> ('b \<times> 'c) option"

datatype ('b, 'p, 'e) serve_event =
    SvBegin nat
  | SvCall nat 'e
  | SvLeave nat
  | SvManager "('b, 'p) mgr_event"

fun request_event :: "('b, 'p) mgr_event \<Rightarrow> bool" where
  "request_event (EvAcquire r) = True"
| "request_event (EvRelease rb) = True"
| "request_event _ = False"

inductive serve_step ::
    "('c \<Rightarrow> 'e \<Rightarrow> 'c \<Rightarrow> bool) \<Rightarrow> 'c set \<Rightarrow> ('c \<Rightarrow> bool) \<Rightarrow> ('b, 'c) serving \<Rightarrow> ('b, 'p, 'e) serve_event
     \<Rightarrow> ('b, 'c) serving \<Rightarrow> bool"
  for cstep begin_states ended where
  sv_begin: "sv_call s r = None \<Longrightarrow> mgr_acquire r (sv_mgr s) = (Inr b, m') \<Longrightarrow> c \<in> begin_states \<Longrightarrow>
     serve_step cstep begin_states ended s (SvBegin r)
       (s\<lparr>sv_mgr := m', sv_call := (sv_call s)(r \<mapsto> (b, c))\<rparr>)"
| sv_call: "sv_call s r = Some (b, c) \<Longrightarrow> cstep c e c' \<Longrightarrow>
     serve_step cstep begin_states ended s (SvCall r e) (s\<lparr>sv_call := (sv_call s)(r \<mapsto> (b, c'))\<rparr>)"
| sv_leave: "sv_call s r = Some (b, c) \<Longrightarrow> ended c \<Longrightarrow> (r, b) \<in> set (m_requests (sv_mgr s)) \<Longrightarrow>
     serve_step cstep begin_states ended s (SvLeave r) (s\<lparr>sv_mgr := mgr_release (r, b) (sv_mgr s)\<rparr>)"
| sv_manager: "mgr_step (sv_mgr s) e m' \<Longrightarrow> \<not> request_event e \<Longrightarrow>
     serve_step cstep begin_states ended s (SvManager e) (s\<lparr>sv_mgr := m'\<rparr>)"

lemma mgr_step_keeps_requests:
  assumes "mgr_step m e m'" and "\<not> request_event e"
  shows "m_requests m' = m_requests m"
  using assms
proof (induction rule: mgr_step.induct)
  case (step_start m bd)
  obtain r m1 where "build_backend bd m = (r, m1)" by fastforce
  then show ?case using build_backend_frame [of bd m r m1] by (cases r) (auto simp: mgr_start_def)
next
  case (step_drained m rl so)
  obtain res m' where "reload_swap so rl m = (res, m')" by fastforce
  then show ?case using reload_swap_frame by fastforce
next
  case (step_reload m pc ref)
  then show ?case by (auto simp: reload_enter_def Let_def force_close_ws_sessions_def split: option.split)
qed (auto simp: register_ws_def unregister_ws_def reload_drain_timeout_def reload_cancelled_def)

lemma serve_lift_call:
  "steps_rel cstep c (es :: 'e list) c' \<Longrightarrow> sv_call s r = Some (b :: 'b, c) \<Longrightarrow>
   steps_rel (serve_step cstep begin_states ended) s (map (SvCall r) es :: ('b, 'p, 'e) serve_event list)
     (s\<lparr>sv_call := (sv_call s)(r \<mapsto> (b, c'))\<rparr>)"
proof (induction arbitrary: s rule: steps_rel.induct)
  case (steps_nil c)
  then have same: "s\<lparr>sv_call := (sv_call s)(r \<mapsto> (b, c))\<rparr> = s" by (simp add: fun_upd_idem)
  show ?case unfolding same list.map by (rule steps_rel.steps_nil)
next
  case (steps_cons c e c1 es c2)
  let ?s1 = "s\<lparr>sv_call := (sv_call s)(r \<mapsto> (b, c1))\<rparr>"
  have "serve_step cstep begin_states ended s (SvCall r e :: ('b, 'p, 'e) serve_event) ?s1"
    using steps_cons.prems steps_cons.hyps(1) by (rule serve_step.sv_call)
  moreover have "steps_rel (serve_step cstep begin_states ended) ?s1 (map (SvCall r) es :: ('b, 'p, 'e) serve_event list)
      (?s1\<lparr>sv_call := (sv_call ?s1)(r \<mapsto> (b, c2))\<rparr>)"
    by (rule steps_cons.IH) simp
  ultimately show ?case
    unfolding list.map serving.select_convs serving.update_convs
    by (simp add: steps_rel.steps_cons del: fun_upd_apply)
qed

section \<open>Joined calls\<close>

locale joined_call =
  fixes cstep :: "'c \<Rightarrow> 'e \<Rightarrow> 'c \<Rightarrow> bool" and begin_states :: "'c set" and ended running cinv :: "'c \<Rightarrow> bool"
  assumes begin_inv: "c \<in> begin_states \<Longrightarrow> cinv c"
    and step_inv: "cstep c e c' \<Longrightarrow> cinv c \<Longrightarrow> cinv c'"
    and joined: "cinv c \<Longrightarrow> ended c \<Longrightarrow> \<not> running c"
    and ended_mono: "cstep c e c' \<Longrightarrow> cinv c \<Longrightarrow> ended c \<Longrightarrow> ended c'"
begin

definition serving_inv :: "('b, 'c) serving \<Rightarrow> bool" where
  "serving_inv s \<longleftrightarrow>
     mgr_inv (sv_mgr s) \<and>
     (\<forall>r b c. sv_call s r = Some (b, c) \<longrightarrow>
        cinv c \<and> (\<not> ended c \<longrightarrow> (r, b) \<in> set (m_requests (sv_mgr s))))"

lemma serve_step_inv:
  "serve_step cstep begin_states ended s e s' \<Longrightarrow> serving_inv s \<Longrightarrow> serving_inv s'"
proof (induction rule: serve_step.induct)
  case (sv_begin s r b m' c)
  have "mgr_inv m'" using mgr_step_inv [OF step_acquire [of "sv_mgr s" r]] sv_begin
    by (simp add: serving_inv_def)
  moreover have "set (m_requests m') = insert (r, b) (set (m_requests (sv_mgr s)))"
    using sv_begin(2) by (auto simp: mgr_acquire_def Let_def split: if_splits)
  ultimately show ?case using sv_begin begin_inv by (auto simp: serving_inv_def)
next
  case (sv_call s r b c e c')
  then have "cinv c" "\<not> ended c \<Longrightarrow> (r, b) \<in> set (m_requests (sv_mgr s))" by (auto simp: serving_inv_def)
  then have "cinv c'" "\<not> ended c' \<Longrightarrow> (r, b) \<in> set (m_requests (sv_mgr s))"
    using step_inv [OF sv_call(2)] ended_mono [OF sv_call(2)] by blast+
  then show ?case using sv_call(3) by (auto simp: serving_inv_def)
next
  case (sv_leave s r b c)
  have "mgr_inv (mgr_release (r, b) (sv_mgr s))"
    using mgr_step_inv [OF step_release [OF sv_leave(3)]] sv_leave by (simp add: serving_inv_def)
  moreover have "x \<in> set (m_requests (mgr_release (r, b) (sv_mgr s)))"
    if "x \<in> set (m_requests (sv_mgr s))" "x \<noteq> (r, b)" for x
    using that by (simp add: mgr_release_def Let_def in_set_remove1)
  ultimately show ?case using sv_leave by (fastforce simp: serving_inv_def)
next
  case (sv_manager s e m')
  then show ?case using mgr_step_inv mgr_step_keeps_requests by (fastforce simp: serving_inv_def)
qed

lemma serve_run_inv:
  "steps_rel (serve_step cstep begin_states ended) s es s' \<Longrightarrow> serving_inv s \<Longrightarrow> serving_inv s'"
  by (induction rule: steps_rel.induct) (auto intro: serve_step_inv)

lemma no_unload_while_running:
  assumes "steps_rel (serve_step cstep begin_states ended) \<lparr>sv_mgr = m0, sv_call = Map.empty\<rparr> es s"
    and "mgr_inv m0"
    and "serve_step cstep begin_states ended s e s'"
    and "Unload b \<in> set (drop (length (m_log (sv_mgr s))) (m_log (sv_mgr s')))"
    and "sv_call s r = Some (b', c)"
  shows "\<not> running c"
proof -
  have inv: "serving_inv s" using serve_run_inv [OF assms(1)] assms(2) by (simp add: serving_inv_def)
  have "m_inflight (sv_mgr s) = 0"
    using assms(3)
  proof cases
    case (sv_begin q b2 m' c2)
    then show ?thesis using assms(4) mgr_step_unload [OF step_acquire [of "sv_mgr s" q]] by auto
  next
    case (sv_call q b2 c2 e2 c3)
    then show ?thesis using assms(4) by simp
  next
    case (sv_leave q b2 c2)
    then show ?thesis using assms(4) mgr_step_unload [OF step_release [OF sv_leave(5)]] by auto
  next
    case (sv_manager e2 m')
    then show ?thesis using assms(4) mgr_step_unload [OF sv_manager(3)] by auto
  qed
  then have "m_requests (sv_mgr s) = []" using inv by (simp add: serving_inv_def mgr_inv_def)
  then show ?thesis using inv assms(5) joined by (auto simp: serving_inv_def)
qed

end

text \<open>The Kokoro protocol is one.\<close>

definition kok_begin :: "'v kok set" where
  "kok_begin = {kok_start w ev | w ev. True}"

definition kok_ended :: "'v kok \<Rightarrow> bool" where
  "kok_ended s = (case kk_request s of Ended _ \<Rightarrow> True | _ \<Rightarrow> False)"

definition kok_running :: "'v kok \<Rightarrow> bool" where
  "kok_running s \<longleftrightarrow> kk_future s = None"

lemma kok_joined: "kok_inv s \<Longrightarrow> kok_ended s \<Longrightarrow> \<not> kok_running s"
  by (auto simp: kok_inv_def kok_ended_def kok_running_def split: request.splits)

lemma kok_ended_mono:
  assumes "kok_step s e s'" and "kok_inv s" and "kok_ended s"
  shows "kok_ended s'"
proof -
  obtain r q where e: "kk_request s = Ended r" "kk_owner s = OwnerDone q"
    using assms(2,3) by (auto simp: kok_ended_def kok_inv_def split: request.splits)
  from assms(1) show ?thesis
    by (cases rule: kok_step.cases) (use e in \<open>auto simp: kok_ended_def request_step_def\<close>)
qed

interpretation kokoro: joined_call kok_step kok_begin kok_ended kok_running kok_inv
proof
  show "c \<in> kok_begin \<Longrightarrow> kok_inv c" for c :: "'v kok" by (auto simp: kok_begin_def kok_start_inv)
qed (rule kok_step_inv kok_joined kok_ended_mono; assumption)+

text \<open>So is the stream: its context is left by the release of its resources.\<close>

definition stream_ended :: "stream \<Rightarrow> bool" where
  "stream_ended s \<longleftrightarrow> st_cleanup s = CReleased"

definition stream_running :: "stream \<Rightarrow> bool" where
  "stream_running s \<longleftrightarrow> using_jobs s \<noteq> {}"

lemma stream_joined: "stream_inv s \<Longrightarrow> stream_ended s \<Longrightarrow> \<not> stream_running s"
  by (simp add: stream_inv_def stream_ended_def stream_running_def)

lemma stream_ended_mono: "stream_step s e s' \<Longrightarrow> stream_inv s \<Longrightarrow> stream_ended s \<Longrightarrow> stream_ended s'"
  by (induction rule: stream_step.induct) (auto simp: stream_ended_def begin_cleanup_def)

interpretation streaming: joined_call stream_step "{stream_start}" stream_ended stream_running stream_inv
proof
  show "c \<in> {stream_start} \<Longrightarrow> stream_inv c" for c by (simp add: stream_start_inv)
qed (rule stream_step_inv stream_joined stream_ended_mono; assumption)+

section \<open>The plain executor call is not joined\<close>

definition plain_ended :: "'v plain \<Rightarrow> bool" where
  "plain_ended s = (case pl_request s of Ended _ \<Rightarrow> True | _ \<Rightarrow> False)"

lemma reload_swap_unloads:
  "Unload (rl_old rl) \<in> set (drop (length (m_log m)) (m_log (snd (reload_swap so rl m))))"
proof -
  let ?m1 = "act (Unload (rl_old rl)) ((set_state RELOADING m)\<lparr>m_current := None\<rparr>)"
  obtain r m2 where ab: "apply_and_build (rl_ref rl) (so_apply so) (so_build so) ?m1 = (r, m2)" by fastforce
  have log1: "m_log ?m1 = m_log m @ [EmitState RELOADING, Unload (rl_old rl)]" by simp
  obtain as where log2: "m_log m2 = m_log ?m1 @ as" using apply_and_build_frame [OF ab] by blast
  show ?thesis
  proof (cases r)
    case (Inr b)
    then show ?thesis using ab log1 log2 by (simp add: reload_swap_def Let_def)
  next
    case (Inl en)
    obtain e new where en: "en = (e, new)" by fastforce
    obtain res m3 where rb: "reload_rollback so rl e new m2 = (res, m3)" by fastforce
    have "\<exists>as'. m_log m3 = m_log m2 @ as'"
    proof -
      let ?n = "case new of None \<Rightarrow> act (EmitReload ''fail'') m2 | Some b \<Rightarrow> act (Unload b) (act (EmitReload ''fail'') m2)"
      let ?ref = "if rl_ref rl \<noteq> None then rl_old_ref rl else None"
      obtain r4 m4 where ab4: "apply_and_build ?ref (so_rb_apply so) (so_rb_build so) ?n = (r4, m4)" by fastforce
      obtain as4 where "m_log m4 = m_log ?n @ as4" using apply_and_build_frame [OF ab4] by blast
      moreover have "\<exists>a5. m_log ?n = m_log m2 @ a5" by (simp split: option.split)
      moreover have "\<exists>a6. m_log m3 = m_log m4 @ a6"
        using rb ab4 by (auto simp: reload_rollback_def Let_def split: sum.splits)
      ultimately show ?thesis by auto
    qed
    then show ?thesis using ab log1 log2 rb Inl en by (auto simp: reload_swap_def Let_def)
  qed
qed

section \<open>A run for the witnesses\<close>

text \<open>A request that is granted and released on an idle manager leaves it as it was.\<close>

lemma acquire_release_idle:
  assumes "m_state m = READY" "m_current m = Some b" "m_requests m = []" "m_inflight m = 0"
  shows "mgr_acquire r m = (Inr b, m\<lparr>m_inflight := 1, m_requests := [(r, b)]\<rparr>)"
    "mgr_release (r, b) (m\<lparr>m_inflight := 1, m_requests := [(r, b)]\<rparr>) = m"
  using assms by (simp_all add: mgr_acquire_def mgr_release_def Let_def)

lemma reload_enter_accepts:
  assumes "reload_precheck pc ref m = None"
  shows "m_reload (snd (reload_enter pc ref m)) \<noteq> None"
    "rl_old (the (m_reload (snd (reload_enter pc ref m)))) = the (m_current m)"
    "m_inflight (snd (reload_enter pc ref m)) = m_inflight m"
  using assms by (simp_all add: reload_enter_def Let_def force_close_ws_sessions_def)

lemma demo_ready_facts:
  "m_state demo_ready = READY" "m_current demo_ready = Some 7" "m_requests demo_ready = []"
  "m_inflight demo_ready = 0" "reload_precheck demo_pc None demo_ready = None"
  by (simp_all add: demo_mgr_defs mgr_is_ready_def)

text \<open>Any call from its beginning to its end, between the start of a manager and a reload.\<close>

lemma reload_after_call:
  fixes cstep :: "'c \<Rightarrow> 'e \<Rightarrow> 'c \<Rightarrow> bool"
  assumes call: "steps_rel cstep c0 ces c1" and "c0 \<in> begin_states" and "ended c1"
  shows "\<exists>m0 s s' (es :: (nat, unit, 'e) serve_event list).
     new_manager ''asr'' None (Some ''base'') = Inr m0 \<and>
     steps_rel (serve_step cstep begin_states ended) \<lparr>sv_mgr = m0, sv_call = Map.empty\<rparr> es s \<and>
     serve_step cstep begin_states ended s
       (SvManager (EvDrained demo_swap) :: (nat, unit, 'e) serve_event) s' \<and>
     Unload 7 \<in> set (drop (length (m_log (sv_mgr s))) (m_log (sv_mgr s'))) \<and> sv_call s 1 = Some (7, c1)"
proof -
  let ?step = "serve_step cstep begin_states ended ::
    (nat, 'c) serving \<Rightarrow> (nat, unit, 'e) serve_event \<Rightarrow> (nat, 'c) serving \<Rightarrow> bool"
  define m0 :: "nat manager" where "m0 = projr (new_manager ''asr'' None (Some ''base''))"
  define m1 where "m1 = demo_ready\<lparr>m_inflight := 1, m_requests := [(1, 7 :: nat)]\<rparr>"
  define s0 :: "(nat, 'c) serving" where "s0 = \<lparr>sv_mgr = m0, sv_call = Map.empty\<rparr>"
  let ?s = "\<lambda>m k. \<lparr>sv_mgr = m, sv_call = [1 \<mapsto> (7, k)]\<rparr> :: (nat, 'c) serving"
  define m2 where "m2 = snd (reload_enter demo_pc None demo_ready)"
  define rl where "rl = the (m_reload m2)"
  have new: "new_manager ''asr'' None (Some ''base'') = Inr m0" by (simp add: m0_def new_manager_def)
  note ready = demo_ready_facts
  note idle = acquire_release_idle [OF ready(1-4), of 1, folded m1_def]
  have rl: "m_reload m2 = Some rl" "rl_old rl = 7" "m_inflight m2 = 0"
    using reload_enter_accepts [OF ready(5)] ready(2,4) by (auto simp: m2_def rl_def)
  have a: "?step s0 (SvManager (EvStart (demo_build 7))) (s0\<lparr>sv_mgr := demo_ready\<rparr>)"
    using step_start [of m0 "demo_build 7"]
    by (intro serve_step.sv_manager) (simp_all add: s0_def demo_ready_def m0_def)
  have b: "?step (s0\<lparr>sv_mgr := demo_ready\<rparr>) (SvBegin 1) (?s m1 c0)"
    using serve_step.sv_begin [of "s0\<lparr>sv_mgr := demo_ready\<rparr>" 1 7 m1 c0 begin_states] idle(1) assms(2)
    by (auto simp: s0_def)
  have c: "steps_rel ?step (?s m1 c0) (map (SvCall 1) ces) (?s m1 c1)"
    using serve_lift_call [OF call, of "?s m1 c0" 1 7] by simp
  have d: "?step (?s m1 c1) (SvLeave 1) (?s demo_ready c1)"
    using serve_step.sv_leave [of "?s m1 c1" 1 7 c1 ended] idle(2) assms(3) by (simp add: m1_def)
  have e: "?step (?s demo_ready c1) (SvManager (EvReload demo_pc None)) (?s m2 c1)"
    using serve_step.sv_manager [of "?s demo_ready c1" "EvReload demo_pc None" m2]
      step_reload [of demo_ready demo_pc None] by (simp add: m2_def)
  have "mgr_step (sv_mgr (?s m2 c1)) (EvDrained demo_swap :: (nat, unit) mgr_event) (snd (reload_swap demo_swap rl m2))"
    using step_drained [OF rl(1,3)] unfolding serving.select_convs .
  from serve_step.sv_manager [OF this]
  have f: "?step (?s m2 c1) (SvManager (EvDrained demo_swap)) (?s (snd (reload_swap demo_swap rl m2)) c1)" by simp
  have un: "Unload 7 \<in> set (drop (length (m_log m2)) (m_log (snd (reload_swap demo_swap rl m2))))"
    using reload_swap_unloads [of rl m2 demo_swap] rl(2) by simp
  have run: "\<exists>es. steps_rel ?step s0 es (?s m2 c1)"
    using steps_rel_append [OF steps_cons [of ?step, OF a steps_cons [of ?step, OF b c]]
        steps_cons [of ?step, OF d steps_one [of ?step, OF e]]] by blast
  show ?thesis using new run f un unfolding s0_def
    by (intro exI [of _ m0] exI [of _ "?s m2 c1"] exI [of _ "?s (snd (reload_swap demo_swap rl m2)) c1"]) auto
qed

end
