(* ===== verification/RealtimeProvider.thy ===== *)
theory RealtimeProvider
  imports Realtime "HOL-Library.Word"
begin

text \<open>
  The relay to external realtime services: the wire adapters of \<open>server/core/realtime_provider.py\<close>
  and the relay of \<open>server/core/realtime_relay.py\<close>.  Base64 is Python's: the encoder, and the
  decoder of \<open>binascii\<close> in its lenient mode, which skips foreign characters and stops at a complete
  padding.  Parameters: \<open>loads\<close> for \<open>json.loads\<close> (\<open>None\<close> is its \<open>ValueError\<close>), the interpolation of
  numpy, \<open>repr\<close>, \<open>json.dumps\<close> and the texts of exceptions raised by libraries.  A send to the client
  or to the provider is taken to succeed.
\<close>

type_synonym bytes = "8 word list"

section \<open>Base64\<close>

definition b64_char :: "nat \<Rightarrow> char" where
  "b64_char v =
     (if v < 26 then char_of (v + 65) else if v < 52 then char_of (v + 71)
      else if v < 62 then char_of (v - 4) else if v = 62 then CHR ''+'' else CHR ''/'')"

definition b64_value :: "char \<Rightarrow> nat option" where
  "b64_value c =
     (let n = (of_char c :: nat)
      in if 65 \<le> n \<and> n \<le> 90 then Some (n - 65) else if 97 \<le> n \<and> n \<le> 122 then Some (n - 71)
         else if 48 \<le> n \<and> n \<le> 57 then Some (n + 4) else if n = 43 then Some 62
         else if n = 47 then Some 63 else None)"

fun b64encode :: "bytes \<Rightarrow> string" where
  "b64encode [] = []"
| "b64encode [a] = [b64_char (unat a div 4), b64_char (unat a mod 4 * 16), CHR ''='', CHR ''='']"
| "b64encode [a, b] =
     [b64_char (unat a div 4), b64_char (unat a mod 4 * 16 + unat b div 16),
      b64_char (unat b mod 16 * 4), CHR ''='']"
| "b64encode (a # b # c # rest) =
     b64_char (unat a div 4) # b64_char (unat a mod 4 * 16 + unat b div 16) #
     b64_char (unat b mod 16 * 4 + unat c div 64) # b64_char (unat c mod 64) # b64encode rest"

definition byte_of :: "nat \<Rightarrow> 8 word" where
  "byte_of n = word_of_nat n"

text \<open>The decoder: position in the quad, bits left over, paddings seen.\<close>

fun a2b_base64 :: "nat \<Rightarrow> nat \<Rightarrow> nat \<Rightarrow> string \<Rightarrow> bytes option" where
  "a2b_base64 q left pads [] = (if q = 0 then Some [] else None)"
| "a2b_base64 q left pads (c # cs) =
     (if c = CHR ''='' then
        (if 2 \<le> q \<and> 4 \<le> q + (pads + 1) then Some [] else a2b_base64 q left (pads + 1) cs)
      else
        (case b64_value c of
           None \<Rightarrow> a2b_base64 q left pads cs
         | Some v \<Rightarrow>
             (if q = 0 then a2b_base64 1 v 0 cs
              else if q = 1 then
                map_option ((#) (byte_of (left * 4 + v div 16))) (a2b_base64 2 (v mod 16) 0 cs)
              else if q = 2 then
                map_option ((#) (byte_of (left * 16 + v div 4))) (a2b_base64 3 (v mod 4) 0 cs)
              else map_option ((#) (byte_of (left * 64 + v))) (a2b_base64 0 0 0 cs))))"

definition is_ascii :: "string \<Rightarrow> bool" where
  "is_ascii s \<longleftrightarrow> list_all (\<lambda>c. (of_char c :: nat) < 128) s"

text \<open>\<open>base64.b64decode(x or "")\<close> on a decoded JSON value.\<close>

definition b64decode :: "json \<Rightarrow> py_error + bytes" where
  "b64decode j =
     (if \<not> json_truthy j then Inr []
      else (case j of
              JStr s \<Rightarrow>
                (if \<not> is_ascii s then Inl ValueError
                 else (case a2b_base64 0 0 0 s of None \<Rightarrow> Inl ValueError | Some bs \<Rightarrow> Inr bs))
            | _ \<Rightarrow> Inl TypeError))"

lemma b64_value_char [simp]: "v < 64 \<Longrightarrow> b64_value (b64_char v) = Some v"
  unfolding b64_char_def b64_value_def by (simp add: Let_def) presburger

lemma b64_char_not_pad [simp]: "v < 64 \<Longrightarrow> b64_char v \<noteq> CHR ''=''"
  using b64_value_char [of v] by (auto simp: b64_value_def)

lemma b64_char_ascii [simp]: "(of_char (b64_char v) :: nat) < 128"
  by (auto simp: b64_char_def)

lemma unat_byte: "unat (a :: 8 word) < 256"
  using unsigned_less [of a] by simp

lemma quad_arith:
  fixes a b :: nat
  assumes "a < 256" and "b < 256"
  shows "a div 4 < 64" "a mod 4 * 16 + b div 16 < 64" "(a mod 4 * 16 + b div 16) div 16 = a mod 4"
    "(a mod 4 * 16 + b div 16) mod 16 = b div 16" "b mod 16 * 4 + a div 64 < 64"
    "(b mod 16 * 4 + a div 64) div 4 = b mod 16" "(b mod 16 * 4 + a div 64) mod 4 = a div 64"
    "a mod 4 * 16 < 64" "b mod 16 * 4 < 64" "a mod 64 < 64"
proof -
  have m: "a mod 4 < 4" "b mod 16 < 16" "a mod 64 < 64" and d: "a div 4 < 64" "b div 16 < 16" "a div 64 < 4"
    using assms by auto
  show "a div 4 < 64" "a mod 4 * 16 + b div 16 < 64" "b mod 16 * 4 + a div 64 < 64"
    "a mod 4 * 16 < 64" "b mod 16 * 4 < 64" "a mod 64 < 64" using m d by linarith+
  show "(a mod 4 * 16 + b div 16) div 16 = a mod 4" "(a mod 4 * 16 + b div 16) mod 16 = b div 16"
    "(b mod 16 * 4 + a div 64) div 4 = b mod 16" "(b mod 16 * 4 + a div 64) mod 4 = a div 64"
    using d by simp_all
qed

lemma byte_parts: "byte_of (unat a div 4 * 4 + unat a mod 4) = a"
  "byte_of (unat a mod 16 + unat a div 16 * 16) = a"
  "byte_of (unat a div 16 * 16 + unat a mod 16) = a"
  "byte_of (unat a div 64 * 64 + unat a mod 64) = a"
  by (simp_all only: div_mult_mod_eq mod_div_mult_eq) (simp_all add: byte_of_def)

lemma a2b_char:
  "v < 64 \<Longrightarrow> a2b_base64 0 l p (b64_char v # cs) = a2b_base64 1 v 0 cs"
  "v < 64 \<Longrightarrow> a2b_base64 1 l p (b64_char v # cs) =
     map_option ((#) (byte_of (l * 4 + v div 16))) (a2b_base64 2 (v mod 16) 0 cs)"
  "v < 64 \<Longrightarrow> a2b_base64 2 l p (b64_char v # cs) =
     map_option ((#) (byte_of (l * 16 + v div 4))) (a2b_base64 3 (v mod 4) 0 cs)"
  "v < 64 \<Longrightarrow> a2b_base64 3 l p (b64_char v # cs) = map_option ((#) (byte_of (l * 64 + v))) (a2b_base64 0 0 0 cs)"
  by simp_all

lemma a2b_encode: "a2b_base64 0 l p (b64encode bs) = Some bs"
proof (induction bs arbitrary: l p rule: b64encode.induct)
  case (2 a)
  have z: "unat a mod 4 * 16 div 16 = unat a mod 4" by simp
  have "a2b_base64 2 l 0 (CHR ''='' # CHR ''='' # []) = Some []" for l by simp
  with quad_arith [of "unat a" 0, OF unat_byte] show ?case by (simp only: b64encode.simps a2b_char z byte_parts) simp
next
  case (3 a b)
  have z: "unat b mod 16 * 4 div 4 = unat b mod 16" by simp
  have "a2b_base64 3 l 0 (CHR ''='' # []) = Some []" for l by simp
  with quad_arith [of "unat a" "unat b", OF unat_byte unat_byte] show ?case
    by (simp only: b64encode.simps a2b_char z byte_parts) simp
next
  case (4 a b c rest)
  show ?case
    using quad_arith [of "unat a" "unat b", OF unat_byte unat_byte]
      quad_arith [of "unat c" "unat b", OF unat_byte unat_byte]
    by (simp only: b64encode.simps a2b_char byte_parts 4) simp
qed simp

lemma b64encode_ascii: "is_ascii (b64encode bs)"
  by (induction bs rule: b64encode.induct) (simp_all add: is_ascii_def)

lemma b64_round_trip: "b64decode (JStr (b64encode bs)) = Inr bs"
  using b64encode_ascii [of bs] a2b_encode [of 0 0 bs]
  by (cases "b64encode bs") (simp_all add: b64decode_def)

section \<open>The provider adapters\<close>

datatype provider = OpenAI | Qwen

definition provider_input_rate :: "provider \<Rightarrow> int" where
  "provider_input_rate p = (case p of OpenAI \<Rightarrow> 24000 | Qwen \<Rightarrow> 16000)"

definition provider_output_rate :: "provider \<Rightarrow> int" where
  "provider_output_rate p = 24000"

definition provider_capabilities :: "provider \<Rightarrow> jdict" where
  "provider_capabilities p =
     [(''function_calling'', JBool True), (''conversation_truncate'', JBool (p = OpenAI)),
      (''conversation_reset'', JBool False), (''direct_speak'', JBool False),
      (''input_transcription'', JBool True)]"

definition create_provider_adapter :: "string \<Rightarrow> provider option" where
  "create_provider_adapter name =
     (let n = py_lower (py_strip name)
      in if n = ''openai'' then Some OpenAI else if n = ''qwen'' then Some Qwen else None)"

text \<open>\<open>_provider_tools\<close>: the entries that are dictionaries, without their execution policy; iterating a
  string or a dictionary yields strings, which are skipped, and a number does not iterate.\<close>

definition provider_tool :: "json \<Rightarrow> json option" where
  "provider_tool entry =
     (case entry of JObj d \<Rightarrow> Some (JObj (filter (\<lambda>(k, v). k \<noteq> ''x_v2v'') d)) | _ \<Rightarrow> None)"

definition provider_tools :: "json \<Rightarrow> py_error + json" where
  "provider_tools tools =
     (if \<not> json_truthy tools then Inr (JArr [])
      else (case tools of
              JArr xs \<Rightarrow> Inr (JArr (List.map_filter provider_tool xs))
            | JObj d \<Rightarrow> Inr (JArr [])
            | JStr s \<Rightarrow> Inr (JArr [])
            | _ \<Rightarrow> Inl TypeError))"

definition turn_keys :: "string set" where
  "turn_keys =
     {''type'', ''threshold'', ''prefix_padding_ms'', ''silence_duration_ms'', ''create_response'',
      ''interrupt_response'', ''eagerness''}"

text \<open>\<open>x.get("type") in (None, "none")\<close>; \<open>None\<close> is JSON null.\<close>

definition provider_turn_detection :: "json \<Rightarrow> json" where
  "provider_turn_detection turn =
     (case turn of
        JObj d \<Rightarrow>
          (if jget ''type'' d = JNull \<or> jget ''type'' d = JStr ''none'' then JNull
           else JObj (filter (\<lambda>(k, v). k \<in> turn_keys) d))
      | _ \<Rightarrow> JNull)"

text \<open>\<open>_without_none\<close>, recursive through dictionaries and lists.\<close>

fun without_none :: "json \<Rightarrow> json" and without_none_members :: "jdict \<Rightarrow> jdict" and
    without_none_list :: "json list \<Rightarrow> json list" where
  "without_none (JObj d) = JObj (without_none_members d)"
| "without_none (JArr xs) = JArr (without_none_list xs)"
| "without_none j = j"
| "without_none_members [] = []"
| "without_none_members ((k, v) # d) =
     (if v = JNull then without_none_members d else (k, without_none v) # without_none_members d)"
| "without_none_list [] = []"
| "without_none_list (x # xs) = without_none x # without_none_list xs"

definition copied_keys :: "string list \<Rightarrow> jdict \<Rightarrow> jdict" where
  "copied_keys ks d = List.map_filter (\<lambda>k. map_option (\<lambda>v. (k, v)) (map_of d k)) ks"

definition openai_audio :: "jdict \<Rightarrow> jdict \<Rightarrow> json" where
  "openai_audio audio_in audio_out =
     JObj
       [(''input'', JObj
           ([(''format'', JObj [(''type'', JStr ''audio/pcm''), (''rate'', JInt (provider_input_rate OpenAI))]),
             (''turn_detection'', provider_turn_detection (jget ''turn_detection'' audio_in))] @
            (case jget ''transcription'' audio_in of
               JObj t \<Rightarrow> (if t \<noteq> [] then [(''transcription'', JObj t)] else [])
             | _ \<Rightarrow> []))),
        (''output'', JObj
           [(''format'', JObj [(''type'', JStr ''audio/pcm'')]), (''voice'', jget ''voice'' audio_out)])]"

definition openai_session :: "jdict \<Rightarrow> jdict" where
  "openai_session c =
     (let audio = get_sub ''audio'' c; audio_in = get_sub ''input'' audio; audio_out = get_sub ''output'' audio;
          s = copied_keys [''type'', ''model'', ''output_modalities'', ''instructions''] c;
          s1 = (if jhas ''type'' s then s else s @ [(''type'', JStr ''realtime'')])
      in if jhas ''audio'' c then s1 @ [(''audio'', openai_audio audio_in audio_out)] else s1)"

definition qwen_session :: "jdict \<Rightarrow> jdict" where
  "qwen_session c =
     (let audio = get_sub ''audio'' c; audio_in = get_sub ''input'' audio; audio_out = get_sub ''output'' audio
      in (if jhas ''output_modalities'' c \<or> jhas ''modalities'' c
          then [(''modalities'', JArr [JStr ''text'', JStr ''audio''])] else []) @
         (if jhas ''instructions'' c then [(''instructions'', jget ''instructions'' c)] else []) @
         (if jhas ''audio'' c
          then [(''voice'', jget ''voice'' audio_out), (''input_audio_format'', JStr ''pcm''),
                (''output_audio_format'', JStr ''pcm''),
                (''turn_detection'', provider_turn_detection (jget ''turn_detection'' audio_in)),
                (''input_audio_transcription'', jget ''transcription'' audio_in)]
          else []))"

text \<open>\<open>session_update\<close>; its argument need not be a dictionary when it comes from a client.\<close>

definition provider_session :: "provider \<Rightarrow> jdict \<Rightarrow> jdict" where
  "provider_session p c = (case p of OpenAI \<Rightarrow> openai_session c | Qwen \<Rightarrow> qwen_session c)"

definition session_update :: "provider \<Rightarrow> json \<Rightarrow> py_error + jdict" where
  "session_update p canonical =
     (case canonical of
        JObj c \<Rightarrow>
          (let wire = (\<lambda>s. [(''type'', JStr ''session.update''), (''session'', without_none (JObj s))])
           in if jhas ''tools'' c
              then (case provider_tools (jget ''tools'' c) of
                      Inl e \<Rightarrow> Inl e
                    | Inr ts \<Rightarrow> Inr (wire (provider_session p c @ [(''tools'', ts)])))
              else Inr (wire (provider_session p c)))
      | _ \<Rightarrow> Inl AttributeError)"

definition audio_append :: "bytes \<Rightarrow> jdict" where
  "audio_append pcm = [(''type'', JStr ''input_audio_buffer.append''), (''audio'', JStr (b64encode pcm))]"

definition client_types :: "provider \<Rightarrow> string set" where
  "client_types p =
     {''input_audio_buffer.commit'', ''input_audio_buffer.clear'', ''response.create'',
      ''response.cancel'', ''conversation.item.create''} \<union>
     (if p = OpenAI then {''conversation.item.truncate''} else {})"

definition hashable :: "json \<Rightarrow> bool" where
  "hashable j = (case j of JArr xs \<Rightarrow> False | JObj d \<Rightarrow> False | _ \<Rightarrow> True)"

text \<open>\<open>client_event\<close>: \<open>None\<close> when the provider has no such event; a type that does not hash raises.\<close>

definition client_event :: "provider \<Rightarrow> jdict \<Rightarrow> py_error + jdict option" where
  "client_event p ev =
     (let typ = jget ''type'' ev
      in if \<not> hashable typ then Inl TypeError
         else Inr (case typ of JStr t \<Rightarrow> (if t \<in> client_types p then Some ev else None) | _ \<Rightarrow> None))"

record provider_output =
  po_events :: "jdict list"
  po_audio :: "bytes list"

definition qwen_names :: "string \<Rightarrow> string option" where
  "qwen_names =
     [''response.audio.done'' \<mapsto> ''response.output_audio.done'',
      ''response.audio_transcript.delta'' \<mapsto> ''response.output_audio_transcript.delta'',
      ''response.audio_transcript.done'' \<mapsto> ''response.output_audio_transcript.done'',
      ''conversation.item.created'' \<mapsto> ''conversation.item.added'']"

definition delta_type :: "provider \<Rightarrow> string" where
  "delta_type p = (case p of OpenAI \<Rightarrow> ''response.output_audio.delta'' | Qwen \<Rightarrow> ''response.audio.delta'')"

definition server_event :: "provider \<Rightarrow> jdict \<Rightarrow> py_error + provider_output" where
  "server_event p ev =
     (let typ = jget ''type'' ev
      in if typ = JStr (delta_type p) then
           (case b64decode (jget ''delta'' ev) of
              Inl e \<Rightarrow> Inl e
            | Inr pcm \<Rightarrow> Inr \<lparr>po_events = [], po_audio = [pcm]\<rparr>)
         else (case p of
                 OpenAI \<Rightarrow> Inr \<lparr>po_events = [ev], po_audio = []\<rparr>
               | Qwen \<Rightarrow>
                   (if \<not> hashable typ then Inl TypeError
                    else (case typ of
                            JStr t \<Rightarrow>
                              (case qwen_names t of
                                 Some t' \<Rightarrow> Inr \<lparr>po_events = [dict_put ''type'' (JStr t') ev], po_audio = []\<rparr>
                               | None \<Rightarrow> Inr \<lparr>po_events = [ev], po_audio = []\<rparr>)
                          | _ \<Rightarrow> Inr \<lparr>po_events = [ev], po_audio = []\<rparr>))))"

section \<open>The relay\<close>

datatype relay_exn = PyErr py_error | ZeroDivision | Runtime string | LibErr string

record relay_env =
  re_idf :: id_factory
  re_repr :: "json \<Rightarrow> string"
  re_dumps :: "jdict \<Rightarrow> string"
  re_loads :: "string \<Rightarrow> json option"
  re_interp :: "nat \<Rightarrow> bytes \<Rightarrow> bytes"
  re_errtext :: "relay_exn \<Rightarrow> string"
  re_name :: string
  re_quote :: "string \<Rightarrow> string"
  re_environ :: env_map
  re_provider :: provider
  re_session :: jdict
  re_in_rate :: int
  re_create :: bool
  re_interrupt :: bool

text \<open>\<open>_resample_pcm16\<close>: an odd number of bytes is no array of samples; \<open>re_interp\<close> computes that many
  samples.\<close>

definition resample_pcm16 :: "(nat \<Rightarrow> bytes \<Rightarrow> bytes) \<Rightarrow> bytes \<Rightarrow> int \<Rightarrow> int \<Rightarrow> relay_exn + bytes" where
  "resample_pcm16 interp pcm source target =
     (if source = target \<or> pcm = [] then Inr pcm
      else if odd (length pcm) then Inl (PyErr ValueError)
      else if source = 0 then Inl ZeroDivision
      else (let count = py_round (real (length pcm div 2) * of_int target / of_int source)
            in if count \<le> 0 then Inr [] else Inr (interp (nat count) pcm)))"

text \<open>\<open>provider_settings\<close>: endpoint, key and model; \<open>quote\<close> is \<open>urllib.parse.quote\<close>.\<close>

definition env_or :: "env_map \<Rightarrow> string \<Rightarrow> string \<Rightarrow> string" where
  "env_or env k d = (case env k of None \<Rightarrow> d | Some v \<Rightarrow> v)"

definition provider_settings ::
    "(string \<Rightarrow> string) \<Rightarrow> env_map \<Rightarrow> string \<Rightarrow> relay_exn + (string \<times> string \<times> string)" where
  "provider_settings quote env name =
     (if name = ''openai'' then
        (if \<not> env_truthy env ''OPENAI_API_KEY'' then Inl (PyErr ValueError)
         else (let model = env_or env ''OVS_REALTIME_OPENAI_MODEL'' ''gpt-realtime-2.1''
               in Inr (env_or env ''OVS_REALTIME_OPENAI_URL''
                         (''wss://api.openai.com/v1/realtime?model='' @ quote model),
                       ''Bearer '' @ the (env ''OPENAI_API_KEY''), model)))
      else if name = ''qwen'' then
        (if \<not> env_truthy env ''DASHSCOPE_API_KEY'' then Inl (PyErr ValueError)
         else if \<not> env_truthy env ''OVS_REALTIME_QWEN_URL'' then Inl (PyErr ValueError)
         else (let model = env_or env ''OVS_REALTIME_QWEN_MODEL'' ''qwen-audio-3.0-realtime-flash'';
                   url = the (env ''OVS_REALTIME_QWEN_URL'');
                   sep = (if CHR ''?'' \<in> set url then ''&'' else ''?'')
               in Inr (if py_contains url ''model='' then url else url @ sep @ ''model='' @ quote model,
                       ''Bearer '' @ the (env ''DASHSCOPE_API_KEY''), model)))
      else Inl (PyErr ValueError))"

datatype relay_out = Up jdict | DownJson jdict | DownBytes bytes | DownClose int

datatype relay_phase = Start | Connecting | AwaitCreated | AwaitUpdated | Relaying | Over

record relay =
  rl_phase :: relay_phase
  rl_adapter :: adapter
  rl_out :: "relay_out list"

datatype client_msg = ClientGone | ClientFrame "bytes option" "string option"

datatype relay_event =
    ReadSettings
  | Connected
  | NotConnected relay_exn
  | ProviderFrame bool string
  | ProviderTimeout
  | ProviderClosed bool string
  | FromClient client_msg

definition relay_start :: "relay_env \<Rightarrow> adapter \<Rightarrow> relay" where
  "relay_start E a =
     \<lparr>rl_phase = Start,
      rl_adapter = a\<lparr>ad_out_rate := provider_output_rate (re_provider E),
                     ad_override := provider_capabilities (re_provider E)\<rparr>,
      rl_out = []\<rparr>"

definition emit :: "relay_out list \<Rightarrow> relay \<Rightarrow> relay" where
  "emit os r = r\<lparr>rl_out := rl_out r @ os\<rparr>"

definition send_error :: "relay_env \<Rightarrow> jdict \<Rightarrow> relay \<Rightarrow> relay" where
  "send_error E payload r =
     (let (evs, a) = translate (re_idf E) (re_repr E) (re_dumps E) payload (rl_adapter r)
      in emit [DownJson (hd evs)] (r\<lparr>rl_adapter := a\<rparr>))"

definition relay_fail :: "relay_env \<Rightarrow> relay_exn \<Rightarrow> relay \<Rightarrow> relay" where
  "relay_fail E x r =
     (let text = (case x of Runtime s \<Rightarrow> s | _ \<Rightarrow> re_errtext E x)
      in emit [DownClose 1011]
           (send_error E
              [(''type'', JStr ''error''), (''code'', JStr ''provider_connection_error''),
               (''error'', JStr text)] (r\<lparr>rl_phase := Over\<rparr>)))"

definition on_settings :: "relay_env \<Rightarrow> relay \<Rightarrow> relay" where
  "on_settings E r =
     (case provider_settings (re_quote E) (re_environ E) (re_name E) of
        Inl x \<Rightarrow> relay_fail E x r
      | Inr (url, auth, model) \<Rightarrow>
          r\<lparr>rl_phase := Connecting,
            rl_adapter := (rl_adapter r)\<lparr>ad_provider := re_name E, ad_model := model\<rparr>\<rparr>)"

text \<open>\<open>json.loads\<close> and the first \<open>.get\<close> on its result.\<close>

definition load_event :: "relay_env \<Rightarrow> string \<Rightarrow> relay_exn + jdict" where
  "load_event E raw =
     (case re_loads E raw of
        None \<Rightarrow> Inl (PyErr ValueError)
      | Some (JObj d) \<Rightarrow> Inr d
      | Some j \<Rightarrow> Inl (PyErr AttributeError))"

definition on_created :: "relay_env \<Rightarrow> string \<Rightarrow> relay \<Rightarrow> relay" where
  "on_created E raw r =
     (case load_event E raw of
        Inl x \<Rightarrow> relay_fail E x r
      | Inr ev \<Rightarrow>
          (if jget ''type'' ev \<noteq> JStr ''session.created'' then
             relay_fail E (Runtime (re_name E @ '': expected session.created, got '' @
               re_repr E (jget ''type'' ev))) r
           else (case session_update (re_provider E) (JObj (re_session E)) of
                   Inl e \<Rightarrow> relay_fail E (PyErr e) r
                 | Inr up \<Rightarrow> emit [Up up] (r\<lparr>rl_phase := AwaitUpdated\<rparr>))))"

definition on_updated :: "relay_env \<Rightarrow> string \<Rightarrow> relay \<Rightarrow> relay" where
  "on_updated E raw r =
     (case load_event E raw of
        Inl x \<Rightarrow> relay_fail E x r
      | Inr ev \<Rightarrow>
          (if jget ''type'' ev = JStr ''error'' then
             relay_fail E (Runtime (json_str (re_repr E) (jor (jget ''error'' ev) (JObj ev)))) r
           else if jget ''type'' ev \<noteq> JStr ''session.updated'' then
             relay_fail E (Runtime (re_name E @ '': expected session.updated, got '' @
               re_repr E (jget ''type'' ev))) r
           else (case session_updated (re_idf E) (re_session E) (Some (re_create E)) (Some (re_interrupt E))
                        (rl_adapter r) of
                   (Inl e, a) \<Rightarrow> relay_fail E (PyErr e) (r\<lparr>rl_adapter := a\<rparr>)
                 | (Inr down, a) \<Rightarrow> emit [DownJson down] (r\<lparr>rl_adapter := a, rl_phase := Relaying\<rparr>))))"

text \<open>A text message of the client: a new session, an event the provider has, or an error; a tool's
  output is followed by the request to respond.\<close>

definition tool_output :: "jdict \<Rightarrow> py_error + bool" where
  "tool_output ev =
     (if jget ''type'' ev \<noteq> JStr ''conversation.item.create'' then Inr False
      else (case jor (jget ''item'' ev) (JObj []) of
              JObj item \<Rightarrow> Inr (jget ''type'' item = JStr ''function_call_output'')
            | _ \<Rightarrow> Inl AttributeError))"

definition on_client_text :: "relay_env \<Rightarrow> string \<Rightarrow> relay \<Rightarrow> relay" where
  "on_client_text E text r =
     (case load_event E text of
        Inl x \<Rightarrow> relay_fail E x r
      | Inr ev \<Rightarrow>
          (if jget ''type'' ev = JStr ''session.update'' then
             (case session_update (re_provider E) (jor (jget ''session'' ev) (JObj [])) of
                Inl e \<Rightarrow> relay_fail E (PyErr e) r
              | Inr up \<Rightarrow> emit [Up up] r)
           else (case client_event (re_provider E) ev of
                   Inl e \<Rightarrow> relay_fail E (PyErr e) r
                 | Inr None \<Rightarrow>
                     send_error E
                       [(''type'', JStr ''error''), (''code'', JStr ''unsupported_provider_event''),
                        (''error'', JStr (json_str (re_repr E) (jget ''type'' ev) @
                           '' is not supported by the '' @ re_name E @ '' adapter'')),
                        (''param'', JStr ''type'')] r
                 | Inr (Some mapped) \<Rightarrow>
                     (case tool_output mapped of
                        Inl e \<Rightarrow> relay_fail E (PyErr e) (emit [Up mapped] r)
                      | Inr True \<Rightarrow> emit [Up mapped, Up [(''type'', JStr ''response.create'')]] r
                      | Inr False \<Rightarrow> emit [Up mapped] r))))"

definition on_client :: "relay_env \<Rightarrow> client_msg \<Rightarrow> relay \<Rightarrow> relay" where
  "on_client E m r =
     (case m of
        ClientGone \<Rightarrow> r\<lparr>rl_phase := Over\<rparr>
      | ClientFrame (Some pcm) _ \<Rightarrow>
          (case resample_pcm16 (re_interp E) pcm (re_in_rate E) (provider_input_rate (re_provider E)) of
             Inl x \<Rightarrow> relay_fail E x r
           | Inr pcm' \<Rightarrow> emit [Up (audio_append pcm')] r)
      | ClientFrame None (Some text) \<Rightarrow> (if text = [] then r else on_client_text E text r)
      | ClientFrame None None \<Rightarrow> r)"

definition on_provider :: "relay_env \<Rightarrow> string \<Rightarrow> relay \<Rightarrow> relay" where
  "on_provider E raw r =
     (case load_event E raw of
        Inl x \<Rightarrow> relay_fail E x r
      | Inr ev \<Rightarrow>
          (if \<not> hashable (jget ''type'' ev) then relay_fail E (PyErr TypeError) r
           else if jget ''type'' ev \<in> {JStr ''session.created'', JStr ''session.updated''} then r
           else (case server_event (re_provider E) ev of
                   Inl e \<Rightarrow> relay_fail E (PyErr e) r
                 | Inr out \<Rightarrow> emit (map DownBytes (po_audio out) @ map DownJson (po_events out)) r)))"

text \<open>One step; \<open>None\<close> when the relay is not waiting for such an event.\<close>

fun relay_step :: "relay_env \<Rightarrow> relay_event \<Rightarrow> relay \<Rightarrow> relay option" where
  "relay_step E ev r =
     (case (rl_phase r, ev) of
        (Start, ReadSettings) \<Rightarrow> Some (on_settings E r)
      | (Connecting, Connected) \<Rightarrow> Some (r\<lparr>rl_phase := AwaitCreated\<rparr>)
      | (Connecting, NotConnected x) \<Rightarrow> Some (relay_fail E x r)
      | (AwaitCreated, ProviderFrame is_text raw) \<Rightarrow> Some (on_created E raw r)
      | (AwaitUpdated, ProviderFrame is_text raw) \<Rightarrow> Some (on_updated E raw r)
      | (AwaitCreated, ProviderTimeout) \<Rightarrow> Some (relay_fail E (LibErr ''timeout'') r)
      | (AwaitUpdated, ProviderTimeout) \<Rightarrow> Some (relay_fail E (LibErr ''timeout'') r)
      | (AwaitCreated, ProviderClosed clean msg) \<Rightarrow> Some (relay_fail E (LibErr msg) r)
      | (AwaitUpdated, ProviderClosed clean msg) \<Rightarrow> Some (relay_fail E (LibErr msg) r)
      | (Relaying, ProviderFrame is_text raw) \<Rightarrow> Some (if is_text then on_provider E raw r else r)
      | (Relaying, ProviderClosed clean msg) \<Rightarrow>
          Some (if clean then r\<lparr>rl_phase := Over\<rparr> else relay_fail E (LibErr msg) r)
      | (Relaying, FromClient m) \<Rightarrow> Some (on_client E m r)
      | _ \<Rightarrow> None)"

fun relay_run :: "relay_env \<Rightarrow> relay_event list \<Rightarrow> relay \<Rightarrow> relay option" where
  "relay_run E [] r = Some r"
| "relay_run E (ev # evs) r =
     (case relay_step E ev r of None \<Rightarrow> None | Some r' \<Rightarrow> relay_run E evs r')"

subsection \<open>Lemmas\<close>

text \<open>No dictionary of the value, however deep, has a null member.\<close>

fun no_null :: "json \<Rightarrow> bool" and no_null_members :: "jdict \<Rightarrow> bool" and no_null_list :: "json list \<Rightarrow> bool" where
  "no_null (JObj d) = no_null_members d"
| "no_null (JArr xs) = no_null_list xs"
| "no_null j = True"
| "no_null_members [] = True"
| "no_null_members ((k, v) # d) = (v \<noteq> JNull \<and> no_null v \<and> no_null_members d)"
| "no_null_list [] = True"
| "no_null_list (x # xs) = (no_null x \<and> no_null_list xs)"

lemma without_none_not_null: "j \<noteq> JNull \<Longrightarrow> without_none j \<noteq> JNull"
  by (cases j) auto

lemma no_null_without_none:
  "no_null (without_none j)" "no_null_members (without_none_members d)" "no_null_list (without_none_list xs)"
  by (induction j and d and xs rule: without_none_without_none_members_without_none_list.induct)
    (auto simp: without_none_not_null)

lemma in_without_none_members:
  "(k, v) \<in> set (without_none_members d) \<longleftrightarrow> (\<exists>v0. (k, v0) \<in> set d \<and> v0 \<noteq> JNull \<and> v = without_none v0)"
  by (induction d) (auto split: if_splits)

lemma without_none_eq [simp]:
  "JObj t = without_none j \<longleftrightarrow> (\<exists>d. j = JObj d \<and> t = without_none_members d)"
  "JArr ts = without_none j \<longleftrightarrow> (\<exists>xs. j = JArr xs \<and> ts = without_none_list xs)"
  by (cases j; auto)+

lemma without_none_list_map: "without_none_list xs = map without_none xs"
  by (induction xs) auto

lemma turn_detection_keys: "provider_turn_detection turn = JObj t \<Longrightarrow> fst ` set t \<subseteq> turn_keys"
  by (auto simp: provider_turn_detection_def split: json.splits if_splits)

lemma in_map_filter: "y \<in> set (List.map_filter f xs) \<longleftrightarrow> (\<exists>x\<in>set xs. f x = Some y)"
  by (induction xs) (auto simp: List.map_filter_simps split: option.splits)

lemma provider_tool_Some [simp]:
  "provider_tool e = Some j \<longleftrightarrow> (\<exists>d0. e = JObj d0 \<and> j = JObj (filter (\<lambda>(k, v). k \<noteq> ''x_v2v'') d0))"
  by (cases e) (auto simp: provider_tool_def)

lemma provider_tools_clean:
  "provider_tools ts = Inr (JArr xs) \<Longrightarrow> JObj d \<in> set xs \<Longrightarrow> ''x_v2v'' \<notin> fst ` set d"
  by (auto simp: provider_tools_def in_map_filter split: json.splits if_splits)

lemma provider_tools_array: "provider_tools ts = Inr j \<Longrightarrow> \<exists>xs. j = JArr xs"
  by (auto simp: provider_tools_def split: json.splits if_splits)

text \<open>What the relay sends and receives as audio.\<close>

fun up_audio :: "relay_out list \<Rightarrow> (py_error + bytes) list" where
  "up_audio [] = []"
| "up_audio (Up d # os) =
     (if jget ''type'' d = JStr ''input_audio_buffer.append'' then b64decode (jget ''audio'' d) # up_audio os
      else up_audio os)"
| "up_audio (os # oss) = up_audio oss"

fun down_audio :: "relay_out list \<Rightarrow> bytes list" where
  "down_audio [] = []"
| "down_audio (DownBytes pcm # os) = pcm # down_audio os"
| "down_audio (os # oss) = down_audio oss"

definition client_audio :: "relay_env \<Rightarrow> relay_event \<Rightarrow> bytes list" where
  "client_audio E ev =
     (case ev of
        FromClient (ClientFrame (Some pcm) text) \<Rightarrow>
          (case resample_pcm16 (re_interp E) pcm (re_in_rate E) (provider_input_rate (re_provider E)) of
             Inl x \<Rightarrow> [] | Inr pcm' \<Rightarrow> [pcm'])
      | _ \<Rightarrow> [])"

definition provider_audio :: "relay_env \<Rightarrow> relay_event \<Rightarrow> bytes list" where
  "provider_audio E ev =
     (case ev of
        ProviderFrame True raw \<Rightarrow>
          (case re_loads E raw of
             Some (JObj d) \<Rightarrow>
               (if jget ''type'' d = JStr (delta_type (re_provider E))
                then (case b64decode (jget ''delta'' d) of Inl x \<Rightarrow> [] | Inr pcm \<Rightarrow> [pcm]) else [])
           | _ \<Rightarrow> [])
      | _ \<Rightarrow> [])"

lemma up_audio_append [simp]: "up_audio (a @ b) = up_audio a @ up_audio b"
  by (induction a rule: up_audio.induct) auto

lemma down_audio_append [simp]: "down_audio (a @ b) = down_audio a @ down_audio b"
  by (induction a rule: down_audio.induct) auto

text \<open>A step that sends \<open>os\<close>, of which the audio is \<open>ups\<close> and \<open>downs\<close>.\<close>

definition sends :: "relay \<Rightarrow> relay \<Rightarrow> bytes list \<Rightarrow> bytes list \<Rightarrow> bool" where
  "sends r r' ups downs \<longleftrightarrow>
     (\<exists>os. rl_out r' = rl_out r @ os \<and> up_audio os = map Inr ups \<and> down_audio os = downs)"

lemma sends_refl [simp]: "sends r (r\<lparr>rl_phase := ph\<rparr>) [] []" "sends r r [] []"
  by (simp_all add: sends_def)

lemma sends_trans: "sends r r1 u d \<Longrightarrow> sends r1 r2 u' d' \<Longrightarrow> sends r r2 (u @ u') (d @ d')"
  by (fastforce simp: sends_def)

lemma sends_emit: "up_audio os = map Inr u \<Longrightarrow> down_audio os = d \<Longrightarrow> sends r (emit os r) u d"
  by (auto simp: sends_def emit_def)

lemma sends_error: "sends r (send_error E payload r) [] []"
  by (auto simp: sends_def send_error_def emit_def split: prod.splits)

lemma sends_fail: "sends r (relay_fail E x r) [] []"
  using sends_trans [OF sends_trans [OF sends_refl(1) [of r Over] sends_error]
      sends_emit [of "[DownClose 1011]" "[]" "[]"]]
  by (simp add: relay_fail_def Let_def)

text \<open>Messages other than audio carry none.\<close>

lemma session_update_type: "session_update p j = Inr up \<Longrightarrow> jget ''type'' up = JStr ''session.update''"
  by (auto simp: session_update_def jget_or_def Let_def split: json.splits if_splits sum.splits)

lemma client_event_type:
  "client_event p ev = Inr (Some m) \<Longrightarrow> jget ''type'' m \<noteq> JStr ''input_audio_buffer.append''"
  by (auto simp: client_event_def client_types_def Let_def split: json.splits if_splits)

lemma sends_up:
  assumes "jget ''type'' d \<noteq> JStr ''input_audio_buffer.append''"
  shows "sends r (emit [Up d] r) [] []" "sends r (relay_fail E x (emit [Up d] r)) [] []"
    "sends r (emit [Up d, Up [(''type'', JStr ''response.create'')]] r) [] []"
proof -
  show s: "sends r (emit [Up d] r) [] []" using assms by (simp add: sends_emit)
  show "sends r (relay_fail E x (emit [Up d] r)) [] []" using sends_trans [OF s sends_fail] by simp
  show "sends r (emit [Up d, Up [(''type'', JStr ''response.create'')]] r) [] []"
    using assms by (simp add: sends_emit jget_or_def)
qed

lemma client_text_sends: "sends r (on_client_text E text r) [] []"
proof (cases "load_event E text")
  case (Inr ev)
  have "jget ''type'' up \<noteq> JStr ''input_audio_buffer.append''" if "session_update p j = Inr up" for p j up
    using session_update_type [OF that] by simp
  then show ?thesis using Inr
    by (simp add: on_client_text_def sends_fail sends_error sends_up client_event_type
        split: sum.split option.split bool.split)
qed (simp add: on_client_text_def sends_fail)

lemma client_sends: "sends r (on_client E m r) (client_audio E (FromClient m)) []"
  by (auto simp: on_client_def client_audio_def client_text_sends audio_append_def jget_or_def b64_round_trip
      intro!: sends_fail sends_emit split: client_msg.splits option.splits sum.splits)

lemma server_event_audio:
  "server_event p ev = Inr out \<Longrightarrow> po_audio out =
     (if jget ''type'' ev = JStr (delta_type p)
      then (case b64decode (jget ''delta'' ev) of Inl x \<Rightarrow> [] | Inr pcm \<Rightarrow> [pcm]) else [])"
  "server_event p ev = Inl e \<Longrightarrow> hashable (jget ''type'' ev) \<Longrightarrow>
     jget ''type'' ev = JStr (delta_type p) \<and> b64decode (jget ''delta'' ev) = Inl e"
  by (cases p; cases "jget ''type'' ev";
      auto simp: server_event_def Let_def split: sum.splits option.splits if_splits)+

lemma down_events [simp]: "down_audio (map DownJson evs) = []" "up_audio (map DownJson evs) = []"
  by (induction evs) auto

lemma down_bytes [simp]: "down_audio (map DownBytes pcms) = pcms" "up_audio (map DownBytes pcms) = []"
  by (induction pcms) auto

lemma delta_type_cases [simp]: "delta_type p \<noteq> ''session.created''" "delta_type p \<noteq> ''session.updated''"
  by (cases p; simp add: delta_type_def)+

lemma hashable_JStr [simp]: "hashable (JStr t)"
  by (simp add: hashable_def)

lemma provider_sends: "sends r (on_provider E raw r) [] (provider_audio E (ProviderFrame True raw))"
proof (cases "load_event E raw")
  case (Inl x)
  then show ?thesis
    by (auto simp: on_provider_def provider_audio_def load_event_def sends_fail split: option.splits json.splits)
next
  case (Inr ev)
  then have loads: "re_loads E raw = Some (JObj ev)"
    by (auto simp: load_event_def split: option.splits json.splits)
  show ?thesis
  proof (cases "server_event (re_provider E) ev")
    case (Inl e)
    have "provider_audio E (ProviderFrame True raw) = []"
    proof (cases "hashable (jget ''type'' ev)")
      case True
      show ?thesis using server_event_audio(2) [OF Inl True] loads by (simp add: provider_audio_def)
    next
      case False
      then have "jget ''type'' ev \<noteq> JStr (delta_type (re_provider E))" by auto
      then show ?thesis using loads by (simp add: provider_audio_def)
    qed
    then show ?thesis using Inr Inl by (simp add: on_provider_def sends_fail)
  next
    case out: (Inr out)
    have audio: "provider_audio E (ProviderFrame True raw) = po_audio out"
      using server_event_audio(1) [OF out] loads by (simp add: provider_audio_def)
    have emitted: "sends r (emit (map DownBytes (po_audio out) @ map DownJson (po_events out)) r) [] (po_audio out)"
      by (rule sends_emit) simp_all
    have quiet: "po_audio out = []"
      if "\<not> hashable (jget ''type'' ev) \<or> jget ''type'' ev \<in> {JStr ''session.created'', JStr ''session.updated''}"
      using server_event_audio(1) [OF out] that delta_type_cases [THEN not_sym] by auto
    show ?thesis using Inr out emitted quiet unfolding audio
      by (simp add: on_provider_def sends_fail split: if_split)
  qed
qed

lemma relaying_step:
  assumes "relay_step E ev r = Some r'" and "rl_phase r = Relaying"
  shows "sends r r' (client_audio E ev) (provider_audio E ev)"
proof (cases ev)
  case (ProviderFrame is_text raw)
  then show ?thesis using assms provider_sends [of r E raw] by (cases is_text) (auto simp: client_audio_def provider_audio_def)
next
  case (FromClient m)
  then show ?thesis using assms client_sends [of r E m] by (auto simp: provider_audio_def)
qed (use assms sends_fail in \<open>auto simp: client_audio_def provider_audio_def split: if_splits\<close>)

lemma emit_phase [simp]: "rl_phase (emit os r) = rl_phase r"
  by (simp add: emit_def)

lemma send_error_phase [simp]: "rl_phase (send_error E payload r) = rl_phase r"
  by (simp add: send_error_def split: prod.splits)

lemma relay_fail_phase [simp]: "rl_phase (relay_fail E x r) = Over"
  by (simp add: relay_fail_def Let_def)

lemma relaying_phase:
  assumes "relay_step E ev r = Some r'" and "rl_phase r = Relaying"
  shows "rl_phase r' \<in> {Relaying, Over}"
  using assms
  by (auto simp: on_provider_def on_client_def on_client_text_def
      split: relay_event.splits if_splits sum.splits client_msg.splits option.splits bool.splits)

lemma relay_over: "relay_run E es r = Some r' \<Longrightarrow> rl_phase r = Over \<Longrightarrow> es = [] \<and> r' = r"
  by (cases es) auto

lemma relay_run_sends:
  assumes "relay_run E es r = Some r'" and "rl_phase r = Relaying"
  shows "sends r r' (concat (map (client_audio E) es)) (concat (map (provider_audio E) es))"
  using assms
proof (induction es arbitrary: r)
  case (Cons ev es)
  then obtain r1 where st: "relay_step E ev r = Some r1" "relay_run E es r1 = Some r'"
    by (auto split: option.splits)
  have s1: "sends r r1 (client_audio E ev) (provider_audio E ev)" by (rule relaying_step [OF st(1) Cons.prems(2)])
  consider "rl_phase r1 = Relaying" | "es = []" "r' = r1"
    using relaying_phase [OF st(1) Cons.prems(2)] relay_over [OF st(2)] by blast
  then show ?case
  proof cases
    case 1
    show ?thesis using sends_trans [OF s1 Cons.IH [OF st(2) 1]] by simp
  next
    case 2
    then show ?thesis using s1 by simp
  qed
qed simp

text \<open>Where the adapters put the turn detection and the tools.\<close>

definition sent_turn :: "provider \<Rightarrow> jdict \<Rightarrow> json \<Rightarrow> bool" where
  "sent_turn p s t \<longleftrightarrow>
     (case p of
        Qwen \<Rightarrow> (''turn_detection'', t) \<in> set s
      | OpenAI \<Rightarrow> (\<exists>au i. (''audio'', JObj au) \<in> set s \<and> (''input'', JObj i) \<in> set au \<and>
                          (''turn_detection'', t) \<in> set i))"

definition asked_turn :: "jdict \<Rightarrow> json" where
  "asked_turn c = jget ''turn_detection'' (get_sub ''input'' (get_sub ''audio'' c))"

lemma copied_keys_set: "(k, v) \<in> set (copied_keys ks d) \<Longrightarrow> k \<in> set ks"
  by (auto simp: copied_keys_def in_map_filter)

lemma session_turn:
  "sent_turn p (without_none_members (provider_session p c @ rest)) t \<Longrightarrow> fst ` set rest \<subseteq> {''tools''} \<Longrightarrow>
   \<exists>d. provider_turn_detection (asked_turn c) = JObj d \<and> t = JObj (without_none_members d)"
proof -
  have obj: "\<exists>d. provider_turn_detection j = JObj d" if "provider_turn_detection j \<noteq> JNull" for j
    using that by (auto simp: provider_turn_detection_def split: json.splits if_splits)
  assume sent: "sent_turn p (without_none_members (provider_session p c @ rest)) t"
    and rest: "fst ` set rest \<subseteq> {''tools''}"
  have "provider_turn_detection (asked_turn c) \<noteq> JNull \<and> t = without_none (provider_turn_detection (asked_turn c))"
  proof (cases p)
    case OpenAI
    have r: "''audio'' \<notin> fst ` set rest" using rest by auto
    show ?thesis using sent r OpenAI
      by (auto simp: sent_turn_def in_without_none_members provider_session_def openai_session_def openai_audio_def
          asked_turn_def Let_def image_iff dest!: copied_keys_set split: if_splits json.splits)
  next
    case Qwen
    have r: "''turn_detection'' \<notin> fst ` set rest" using rest by auto
    show ?thesis using sent r Qwen
      by (auto simp: sent_turn_def in_without_none_members provider_session_def qwen_session_def
          asked_turn_def Let_def image_iff split: if_splits)
  qed
  then show ?thesis using obj by fastforce
qed

lemma without_none_keys: "fst ` set (without_none_members d) \<subseteq> fst ` set d"
  by (force simp: in_without_none_members)

lemma provider_session_no_tools: "(''tools'', v) \<notin> set (provider_session p c)"
  by (cases p) (auto simp: provider_session_def openai_session_def qwen_session_def Let_def dest: copied_keys_set)

lemma session_tools:
  assumes "(''tools'', JArr ts) \<in> set (without_none_members (provider_session p c @ rest))"
    and "set rest \<subseteq> {(''tools'', j)}" and "provider_tools q = Inr j" and "JObj d \<in> set ts"
  shows "''x_v2v'' \<notin> fst ` set d"
proof -
  obtain xs where xs: "j = JArr xs" "ts = map without_none xs"
    using assms(1,2) provider_session_no_tools [of _ p c]
    by (auto simp: in_without_none_members without_none_list_map)
  then obtain d0 where "JObj d0 \<in> set xs" "d = without_none_members d0" using assms(4) by auto
  then show ?thesis using provider_tools_clean [of q xs d0] assms(3) xs without_none_keys [of d0] by blast
qed

lemma session_update_cases:
  assumes "session_update p (JObj c) = Inr ev"
  obtains rest where "ev = [(''type'', JStr ''session.update''),
      (''session'', JObj (without_none_members (provider_session p c @ rest)))]"
    "rest = [] \<or> (\<exists>j. rest = [(''tools'', j)] \<and> provider_tools (jget ''tools'' c) = Inr j)"
  using assms by (auto simp: session_update_def Let_def split: if_splits sum.splits) (metis append_Nil2)

section \<open>Properties\<close>

text \<open>C19: The session message sent to a provider is well typed: no dictionary in it has a null member;
  its turn detection is an object with the fields the providers know, and is there only when the
  caller's turn detection is an object whose type is neither null nor \<open>none\<close> (a caller that turns
  it off sends the same message as one that does not mention it); and no tool carries the
  execution policy.\<close>
theorem session_update_wire_type:
  assumes "session_update p (JObj c) = Inr ev"
  shows "jget ''type'' ev = JStr ''session.update'' \<and> no_null (JObj ev) \<and>
         (\<exists>s. jget ''session'' ev = JObj s \<and>
           (\<forall>t. sent_turn p s t \<longrightarrow>
              (\<exists>d. t = JObj d \<and> fst ` set d \<subseteq> turn_keys) \<and>
              (\<exists>d. asked_turn c = JObj d \<and> jget ''type'' d \<notin> {JNull, JStr ''none''})) \<and>
           (\<forall>ts d. (''tools'', JArr ts) \<in> set s \<longrightarrow> JObj d \<in> set ts \<longrightarrow> ''x_v2v'' \<notin> fst ` set d))"
proof -
  obtain rest where ev: "ev = [(''type'', JStr ''session.update''),
      (''session'', JObj (without_none_members (provider_session p c @ rest)))]"
    and rest: "rest = [] \<or> (\<exists>j. rest = [(''tools'', j)] \<and> provider_tools (jget ''tools'' c) = Inr j)"
    by (rule session_update_cases [OF assms])
  define s where "s = without_none_members (provider_session p c @ rest)"
  have turn: "(\<exists>d. t = JObj d \<and> fst ` set d \<subseteq> turn_keys) \<and>
      (\<exists>d. asked_turn c = JObj d \<and> jget ''type'' d \<notin> {JNull, JStr ''none''})" if "sent_turn p s t" for t
  proof -
    have "fst ` set rest \<subseteq> {''tools''}" using rest by auto
    from session_turn [OF that [unfolded s_def] this]
    obtain d where d: "provider_turn_detection (asked_turn c) = JObj d" "t = JObj (without_none_members d)" by blast
    then show ?thesis using turn_detection_keys [OF d(1)] without_none_keys [of d]
      by (auto simp: provider_turn_detection_def split: json.splits if_splits)
  qed
  have tools: "''x_v2v'' \<notin> fst ` set d" if "(''tools'', JArr ts) \<in> set s" "JObj d \<in> set ts" for ts d
    using rest
  proof
    assume "rest = []"
    then show ?thesis using that provider_session_no_tools [of _ p c] by (auto simp: s_def in_without_none_members)
  next
    assume "\<exists>j. rest = [(''tools'', j)] \<and> provider_tools (jget ''tools'' c) = Inr j"
    then obtain j where j: "rest = [(''tools'', j)]" "provider_tools (jget ''tools'' c) = Inr j" by blast
    show ?thesis
      by (rule session_tools [OF that(1) [unfolded s_def] _ j(2) that(2)]) (simp add: j(1))
  qed
  have "jget ''type'' ev = JStr ''session.update'' \<and> jget ''session'' ev = JObj s \<and> no_null (JObj ev)"
    by (simp add: ev s_def jget_or_def no_null_without_none)
  then show ?thesis using turn tools by blast
qed

theorem session_update_wire_type_witness:
  "\<exists>ev. session_update OpenAI (JObj [(''audio'', JObj [(''input'', JObj [(''turn_detection'',
       JObj [(''type'', JStr ''none'')])])])]) = Inr ev \<and> no_null (JObj ev) \<and> jget ''session'' ev \<noteq> JNull"
proof -
  define c where "c = [(''audio'', JObj [(''input'', JObj [(''turn_detection'', JObj [(''type'', JStr ''none'')])])])]"
  obtain ev where ev: "session_update OpenAI (JObj c) = Inr ev"
    by (simp add: session_update_def c_def jhas_def Let_def)
  from session_update_wire_type [OF ev] ev show ?thesis unfolding c_def by auto
qed


definition demo_env :: relay_env where
  "demo_env = \<lparr>re_idf = (\<lambda>n p. p), re_repr = (\<lambda>j. []), re_dumps = (\<lambda>d. []),
     re_loads = (\<lambda>raw. if raw = ''c'' then Some (JObj [(''type'', JStr ''session.created'')])
                       else if raw = ''u'' then Some (JObj [(''type'', JStr ''session.updated'')])
                       else Some (JObj [(''type'', JStr ''response.audio.delta''), (''delta'', JStr ''AQL/'')])),
     re_interp = (\<lambda>n pcm. pcm), re_errtext = (\<lambda>x. []), re_name = ''qwen'', re_quote = id,
     re_environ = [''DASHSCOPE_API_KEY'' \<mapsto> ''k'', ''OVS_REALTIME_QWEN_URL'' \<mapsto> ''wss''],
     re_provider = Qwen, re_session = [], re_in_rate = 16000, re_create = False, re_interrupt = True\<rparr>"


end
