(* ===== verification/AgentSession.thy ===== *)
theory AgentSession
  imports Prelude
begin

text \<open>
  The agent's conversation memory (\<open>agent/ovs_agent/session.py\<close>), the turn around the language model
  (\<open>stream_with_tools\<close> in \<open>tools/runner.py\<close>, \<open>run_default_dialogue_turn\<close> in \<open>app_mode.py\<close>).  The loop
  that talks to the model is \<open>voxedge.engine.turn_driver\<close>, which is not in the repository: here it is
  any sequence of calls of the sinks it is given, with any end.  A tokenizer and \<open>json.dumps\<close> of the
  tool calls are parameters.
\<close>

section \<open>Messages\<close>

record tool_call =
  tc_id :: string
  tc_name :: string
  tc_args :: cptext

datatype message =
    System cptext
  | User cptext
  | Assistant cptext
  | Calls "cptext option" "tool_call list"
  | ToolMsg string cptext

definition is_user :: "message \<Rightarrow> bool" where
  "is_user m = (case m of User t \<Rightarrow> True | _ \<Rightarrow> False)"

text \<open>The content of an assistant message, when there is one.\<close>

definition assistant_content :: "message \<Rightarrow> cptext option" where
  "assistant_content m = (case m of Assistant t \<Rightarrow> Some t | Calls c tcs \<Rightarrow> c | _ \<Rightarrow> None)"

section \<open>Token counting\<close>

datatype tokenizer = FallbackTok | Tok "cptext \<Rightarrow> nat option"

definition get_tokenizer ::
    "(string \<Rightarrow> (cptext \<Rightarrow> nat option) option) \<Rightarrow> (string \<rightharpoonup> tokenizer) \<Rightarrow> string \<Rightarrow>
     tokenizer \<times> (string \<rightharpoonup> tokenizer)" where
  "get_tokenizer load cache name =
     (case cache name of
        Some t \<Rightarrow> (t, cache)
      | None \<Rightarrow>
          (let t = (case load name of None \<Rightarrow> FallbackTok | Some f \<Rightarrow> Tok f) in (t, cache(name \<mapsto> t))))"

definition fallback_estimate :: "cptext \<Rightarrow> nat" where
  "fallback_estimate t = max 1 ((3 * length t + 1) div 2)"

definition count_tokens :: "tokenizer \<Rightarrow> cptext \<Rightarrow> nat" where
  "count_tokens tok t =
     (case tok of
        FallbackTok \<Rightarrow> fallback_estimate t
      | Tok f \<Rightarrow> (case f t of Some n \<Rightarrow> n | None \<Rightarrow> fallback_estimate t))"

record counting =
  ct_counter :: "(cptext \<Rightarrow> nat) option"
  ct_tokenizer :: tokenizer
  ct_dumps :: "tool_call list \<Rightarrow> cptext option"

definition count_text :: "counting \<Rightarrow> cptext \<Rightarrow> nat" where
  "count_text C t = (case ct_counter C of Some f \<Rightarrow> f t | None \<Rightarrow> count_tokens (ct_tokenizer C) t)"

definition msg_content :: "message \<Rightarrow> cptext" where
  "msg_content m =
     (case m of System t \<Rightarrow> t | User t \<Rightarrow> t | Assistant t \<Rightarrow> t | ToolMsg i t \<Rightarrow> t
      | Calls c tcs \<Rightarrow> (case c of None \<Rightarrow> [] | Some t \<Rightarrow> t))"

definition msg_tokens :: "counting \<Rightarrow> message \<Rightarrow> nat" where
  "msg_tokens C m =
     (if msg_content m = [] then 0 else count_text C (msg_content m)) +
     (case m of
        Calls c tcs \<Rightarrow>
          (if tcs = [] then 0 else (case ct_dumps C tcs of None \<Rightarrow> 0 | Some j \<Rightarrow> count_text C j))
      | _ \<Rightarrow> 0) + 4"

definition sum_tokens :: "counting \<Rightarrow> message list \<Rightarrow> nat" where
  "sum_tokens C ms = sum_list (map (msg_tokens C) ms)"

section \<open>The session\<close>

datatype bus_event = EchoRecovery cptext | SessionTrimmed nat nat nat | IterationLimit nat

record session =
  ss_history :: "message list"
  ss_prefix_warm :: bool
  ss_graph_warm :: bool
  ss_cache_disabled :: bool
  ss_max_tokens :: "int option"
  ss_events :: "bus_event list"

definition new_session :: "int option \<Rightarrow> session" where
  "new_session mx =
     \<lparr>ss_history = [], ss_prefix_warm = False, ss_graph_warm = False, ss_cache_disabled = False,
      ss_max_tokens = mx, ss_events = []\<rparr>"

definition session_reset :: "session \<Rightarrow> session" where
  "session_reset s =
     s\<lparr>ss_history := [], ss_prefix_warm := False, ss_graph_warm := False, ss_cache_disabled := False\<rparr>"

definition add_user :: "cptext \<Rightarrow> session \<Rightarrow> session" where
  "add_user t s = s\<lparr>ss_history := ss_history s @ [User t]\<rparr>"

definition echo_window :: nat where "echo_window = 3"
definition echo_max_len :: nat where "echo_max_len = 40"

text \<open>\<open>_maybe_recover_from_echo\<close>: the echoed text, if the last replies are the same short text.\<close>

definition echoed :: "message list \<Rightarrow> cptext option" where
  "echoed h =
     (if length h < echo_window then None
      else
        (let texts = List.map_filter assistant_content h
         in if length texts < echo_window then None
            else (let lastn = drop (length texts - echo_window) texts; first = hd lastn
                  in if length first > echo_max_len then None
                     else if list_all (\<lambda>t. t = first) lastn then Some first else None)))"

definition recover_from_echo :: "session \<Rightarrow> session" where
  "recover_from_echo s =
     (case echoed (ss_history s) of
        None \<Rightarrow> s
      | Some t \<Rightarrow> (session_reset s)\<lparr>ss_events := ss_events s @ [EchoRecovery (take 120 t)]\<rparr>)"

definition add_assistant :: "cptext \<Rightarrow> session \<Rightarrow> session" where
  "add_assistant t s = recover_from_echo (s\<lparr>ss_history := ss_history s @ [Assistant t]\<rparr>)"

definition add_assistant_tool_calls :: "cptext option \<Rightarrow> tool_call list \<Rightarrow> session \<Rightarrow> session" where
  "add_assistant_tool_calls c tcs s = s\<lparr>ss_history := ss_history s @ [Calls c tcs]\<rparr>"

definition add_tool_result :: "string \<Rightarrow> cptext \<Rightarrow> session \<Rightarrow> session" where
  "add_tool_result i c s = s\<lparr>ss_history := ss_history s @ [ToolMsg i c]\<rparr>"

text \<open>\<open>rollback_to\<close>: the number of messages dropped, and the session.\<close>

definition rollback_to :: "nat \<Rightarrow> session \<Rightarrow> nat \<times> session" where
  "rollback_to anchor s =
     (if length (ss_history s) \<le> anchor then (0, s)
      else (length (ss_history s) - anchor, s\<lparr>ss_history := take anchor (ss_history s)\<rparr>))"

section \<open>The prompt\<close>

function turns_of :: "message list \<Rightarrow> message list list" where
  "turns_of [] = []"
| "turns_of (m # ms) =
     (m # takeWhile (\<lambda>x. \<not> is_user x) ms) # turns_of (dropWhile (\<lambda>x. \<not> is_user x) ms)"
  by pat_completeness auto
termination by (relation "measure length") (auto simp: le_imp_less_Suc length_dropWhile_le)

definition split_turns :: "message list \<Rightarrow> message list list" where
  "split_turns rest = turns_of (dropWhile (\<lambda>m. \<not> is_user m) rest)"

definition complete_turn :: "message list \<Rightarrow> bool" where
  "complete_turn t = (case last t of Assistant c \<Rightarrow> True | Calls c tcs \<Rightarrow> c \<noteq> None \<and> tcs = [] | _ \<Rightarrow> False)"

text \<open>\<open>int(max_tokens * 0.75)\<close>.\<close>

definition token_budget :: "int \<Rightarrow> int" where
  "token_budget m = (if 0 \<le> m then 3 * m div 4 else - ((3 * (- m)) div 4))"

fun drop_messages :: "counting \<Rightarrow> int \<Rightarrow> message list \<Rightarrow> message list" where
  "drop_messages C budget [] = []"
| "drop_messages C budget (m # ms) =
     (if int (sum_tokens C (m # ms)) > budget then drop_messages C budget ms else m # ms)"

text \<open>Drop whole turns from the front, down to \<open>min_keep\<close>; \<open>fixed\<close> are the tokens of the pinned turn.\<close>

fun drop_turns :: "counting \<Rightarrow> int \<Rightarrow> nat \<Rightarrow> nat \<Rightarrow> message list list \<Rightarrow> message list list" where
  "drop_turns C budget min_keep fixed [] = []"
| "drop_turns C budget min_keep fixed (t # ts) =
     (if int (fixed + sum_tokens C (concat (t # ts))) > budget \<and> min_keep < length (t # ts)
      then drop_turns C budget min_keep fixed ts else t # ts)"

definition pinned_split :: "message list list \<Rightarrow> message list list \<times> message list" where
  "pinned_split ts = (if complete_turn (last ts) then (ts, []) else (butlast ts, last ts))"

definition note_trim :: "nat \<Rightarrow> nat \<Rightarrow> nat \<Rightarrow> session \<Rightarrow> session" where
  "note_trim dropped kept approx s =
     s\<lparr>ss_prefix_warm := False, ss_events := ss_events s @ [SessionTrimmed dropped kept approx]\<rparr>"

definition trim_to_budget :: "counting \<Rightarrow> cptext \<Rightarrow> int \<Rightarrow> session \<Rightarrow> message list \<times> session" where
  "trim_to_budget C sys mx s =
     (let budget = token_budget mx; rest = ss_history s; ts = split_turns rest
      in if rest = [] then ([System sys], s)
         else if ts = [] then
           (if int (sum_tokens C rest) \<le> budget then (System sys # rest, s)
            else (let kept = drop_messages C budget rest
                  in (System sys # kept,
                      note_trim (length rest - length kept) (length kept) (sum_tokens C kept) s)))
         else
           (let (completed, trailing) = pinned_split ts; fixed = sum_tokens C trailing
            in if int (fixed + sum_tokens C (concat completed)) \<le> budget then (System sys # rest, s)
               else (let kept = drop_turns C budget (if trailing = [] then 1 else 0) fixed completed;
                         dropped = length completed - length kept;
                         s' = (if 0 < dropped
                               then note_trim dropped (length kept) (fixed + sum_tokens C (concat kept)) s else s)
                     in (System sys # concat kept @ trailing, s'))))"

definition messages :: "counting \<Rightarrow> cptext \<Rightarrow> session \<Rightarrow> message list \<times> session" where
  "messages C sys s =
     (case ss_max_tokens s of
        None \<Rightarrow> (System sys # ss_history s, s)
      | Some mx \<Rightarrow> trim_to_budget C sys mx s)"

section \<open>A turn\<close>

text \<open>What the driver does with its sinks; a send to the voice server succeeds, raises, or is cancelled
  before or after the text was handed over.\<close>

datatype send = SendOk | SendRaises | SendCancelled bool

datatype driver_op =
    OpToken cptext send
  | OpPreamble cptext send
  | OpCompletion cptext send
  | OpCalls "cptext option" "tool_call list"
  | OpText cptext
  | OpResult string cptext

datatype outcome = Finished | LimitReached | Cancelled | Errored

datatype slv_msg = SlvText cptext | SlvFlush | SlvAbort

record turn =
  tn_session :: session
  tn_messages :: "message list"
  tn_slv :: "slv_msg list"
  tn_chunks :: bool
  tn_sent :: bool

definition handed_over :: "send \<Rightarrow> bool" where
  "handed_over r = (case r of SendOk \<Rightarrow> True | SendRaises \<Rightarrow> False | SendCancelled d \<Rightarrow> d)"

definition slv_send :: "cptext \<Rightarrow> send \<Rightarrow> turn \<Rightarrow> turn" where
  "slv_send t r T =
     T\<lparr>tn_slv := tn_slv T @ (if handed_over r then [SlvText t] else []), tn_sent := tn_sent T \<or> r = SendOk\<rparr>"

text \<open>\<open>_on_token\<close> records the chunk before it sends; \<open>_on_tool_preamble\<close> and
  \<open>_on_tool_completion_text\<close> skip empty texts.\<close>

definition sink_op :: "driver_op \<Rightarrow> turn \<Rightarrow> turn" where
  "sink_op op T =
     (case op of
        OpToken t r \<Rightarrow> slv_send t r (T\<lparr>tn_chunks := True\<rparr>)
      | OpPreamble t r \<Rightarrow> (if t = [] then T else slv_send t r T)
      | OpCompletion t r \<Rightarrow> (if t = [] then T else slv_send t r T)
      | OpCalls c tcs \<Rightarrow>
          T\<lparr>tn_session := add_assistant_tool_calls c tcs (tn_session T), tn_messages := tn_messages T @ [Calls c tcs]\<rparr>
      | OpText t \<Rightarrow>
          T\<lparr>tn_session := add_assistant t (tn_session T), tn_messages := tn_messages T @ [Assistant t]\<rparr>
      | OpResult i c \<Rightarrow>
          T\<lparr>tn_session := add_tool_result i c (tn_session T), tn_messages := tn_messages T @ [ToolMsg i c]\<rparr>)"

definition messages_offset :: "message list \<Rightarrow> nat \<Rightarrow> nat" where
  "messages_offset ms anchor = length ms - anchor"

text \<open>The rollback of both lists; the number of messages the session lost.\<close>

definition roll_both :: "nat \<Rightarrow> nat \<Rightarrow> turn \<Rightarrow> nat \<times> turn" where
  "roll_both anchor offset T =
     (let (dropped, s) = rollback_to anchor (tn_session T)
      in (dropped, T\<lparr>tn_session := s, tn_messages := take (anchor + offset) (tn_messages T)\<rparr>))"

definition stream_with_tools :: "nat \<Rightarrow> driver_op list \<Rightarrow> outcome \<Rightarrow> turn \<Rightarrow> turn" where
  "stream_with_tools max_iterations ops oc T0 =
     (let anchor = length (ss_history (tn_session T0)); offset = messages_offset (tn_messages T0) anchor;
          T = fold sink_op ops T0; (dropped, R) = roll_both anchor offset T
      in case oc of
           Finished \<Rightarrow> T
         | LimitReached \<Rightarrow>
             R\<lparr>tn_session := (tn_session R)\<lparr>ss_events := ss_events (tn_session R) @ [IterationLimit dropped]\<rparr>\<rparr>
         | _ \<Rightarrow> R)"

text \<open>\<open>run_default_dialogue_turn\<close> when the agent runs its own loop and the model is available.\<close>

definition dialogue_turn ::
    "counting \<Rightarrow> cptext \<Rightarrow> nat \<Rightarrow> cptext \<Rightarrow> driver_op list \<Rightarrow> outcome \<Rightarrow> session \<Rightarrow> turn" where
  "dialogue_turn C sys max_iterations text ops oc s =
     (if strip_by cp_isspace text = [] then \<lparr>tn_session = s, tn_messages = [], tn_slv = [], tn_chunks = False, tn_sent = False\<rparr>
      else
        (let (ms, s1) = messages C sys (add_user text s);
             T = stream_with_tools max_iterations ops oc
                   \<lparr>tn_session = s1, tn_messages = ms, tn_slv = [], tn_chunks = False, tn_sent = False\<rparr>
         in T\<lparr>tn_slv := tn_slv T @
                 (if oc \<in> {Finished, LimitReached} then [SlvFlush]
                  else if tn_chunks T \<or> tn_sent T then [SlvAbort] else [])\<rparr>))"

datatype dialogue_event = Turn cptext "driver_op list" outcome | Reset

fun dialogue_step :: "counting \<Rightarrow> cptext \<Rightarrow> nat \<Rightarrow> session \<Rightarrow> dialogue_event \<Rightarrow> session" where
  "dialogue_step C sys mx s (Turn text ops oc) = tn_session (dialogue_turn C sys mx text ops oc s)"
| "dialogue_step C sys mx s Reset = session_reset s"

section \<open>Lemmas\<close>

text \<open>What the providers accept: a tool result answers an open call, and nothing else comes before every
  call is answered.\<close>

fun strict :: "string list \<Rightarrow> message list \<Rightarrow> bool" where
  "strict pend [] = (pend = [])"
| "strict pend (ToolMsg i c # ms) = (i \<in> set pend \<and> strict (remove1 i pend) ms)"
| "strict pend (Calls c tcs # ms) = (pend = [] \<and> strict (map tc_id tcs) ms)"
| "strict pend (m # ms) = (pend = [] \<and> strict [] ms)"

definition valid_history :: "message list \<Rightarrow> bool" where
  "valid_history h \<longleftrightarrow> strict [] h \<and> (h = [] \<or> is_user (hd h))"

lemma strict_suffix: "strict P (xs @ m # ys) \<Longrightarrow> is_user m \<Longrightarrow> strict [] (m # ys)"
  by (induction P xs rule: strict.induct) (auto simp: is_user_def split: message.splits)

lemma strict_append: "strict P xs \<Longrightarrow> strict [] ys \<Longrightarrow> strict P (xs @ ys)"
  by (induction P xs rule: strict.induct) auto

lemma valid_suffix: "valid_history (xs @ ys) \<Longrightarrow> ys = [] \<or> is_user (hd ys) \<Longrightarrow> valid_history ys"
  using strict_suffix [of "[]" xs "hd ys" "tl ys"] by (cases ys) (auto simp: valid_history_def)

subsection \<open>Turns\<close>

lemma concat_turns_of [simp]: "concat (turns_of ms) = ms"
  by (induction ms rule: turns_of.induct) auto

lemma turns_of_users:
  "ms = [] \<or> is_user (hd ms) \<Longrightarrow> t \<in> set (turns_of ms) \<Longrightarrow> t \<noteq> [] \<and> is_user (hd t)"
proof (induction ms rule: turns_of.induct)
  case (2 m ms)
  have "dropWhile (\<lambda>x. \<not> is_user x) ms = [] \<or> is_user (hd (dropWhile (\<lambda>x. \<not> is_user x) ms))"
    using hd_dropWhile [of "\<lambda>x. \<not> is_user x" ms] by blast
  then show ?case using 2 by auto
qed simp

lemma split_turns_users: "t \<in> set (split_turns h) \<Longrightarrow> t \<noteq> [] \<and> is_user (hd t)"
  using turns_of_users [of "dropWhile (\<lambda>m. \<not> is_user m) h" t] hd_dropWhile [of "\<lambda>x. \<not> is_user x" h]
  unfolding split_turns_def by blast

lemma split_turns_valid: "h = [] \<or> is_user (hd h) \<Longrightarrow> concat (split_turns h) = h"
  by (cases h) (auto simp: split_turns_def)

lemma split_turns_Nil: "h = [] \<or> is_user (hd h) \<Longrightarrow> split_turns h = [] \<longleftrightarrow> h = []"
  by (cases h) (auto simp: split_turns_def)

lemma drop_turns_suffix: "\<exists>pre. ts = pre @ drop_turns C b k fixed ts"
proof (induction ts)
  case (Cons t ts)
  then show ?case by (auto intro: exI [of _ "[]"] exI [of _ "t # x" for x])
qed simp

lemma drop_turns_fits:
  "int (fixed + sum_tokens C (concat (drop_turns C b k fixed ts))) \<le> b \<or> length (drop_turns C b k fixed ts) \<le> k"
  by (induction ts) (auto simp: sum_tokens_def)

lemma drop_turns_keeps: "length ts \<le> k \<Longrightarrow> drop_turns C b k fixed ts = ts"
  by (cases ts) auto

lemma drop_turns_min: "k \<le> length ts \<Longrightarrow> k \<le> length (drop_turns C b k fixed ts)"
  by (induction ts) auto

lemma hd_concat_users:
  "(\<And>t. t \<in> set ts \<Longrightarrow> t \<noteq> [] \<and> is_user (hd t)) \<Longrightarrow> concat ts = [] \<or> is_user (hd (concat ts))"
  by (cases ts) auto

subsection \<open>The prompt\<close>

lemma concat_butlast_last: "ts \<noteq> [] \<Longrightarrow> concat (butlast ts) @ last ts = concat ts"
  by (induction ts) auto

lemma pinned_split_concat:
  assumes "ts \<noteq> []" and "pinned_split ts = (completed, trailing)"
  shows "concat completed @ trailing = concat ts"
    and "completed = ts \<and> trailing = [] \<or> completed = butlast ts \<and> trailing = last ts"
  using assms concat_butlast_last [OF assms(1)] by (auto simp: pinned_split_def split: if_splits)

text \<open>The turns that stay are a suffix of the turns and contain the last.\<close>

lemma kept_turns:
  assumes ts: "ts \<noteq> []" "\<And>t. t \<in> set ts \<Longrightarrow> t \<noteq> [] \<and> is_user (hd t)" and split: "pinned_split ts = (completed, trailing)"
    and kept_def: "kept = drop_turns C b (if trailing = [] then 1 else 0) (sum_tokens C trailing) completed"
  shows "\<exists>pre. concat ts = pre @ concat kept @ trailing"
    and "is_user (hd (concat kept @ trailing)) \<and> suffix (last ts) (concat kept @ trailing)"
    and "int (sum_tokens C (concat kept @ trailing)) \<le> b \<or> concat kept @ trailing = last ts"
proof -
  note cases = pinned_split_concat [OF ts(1) split]
  obtain pre where pre: "completed = pre @ kept" using drop_turns_suffix [of completed] unfolding kept_def by blast
  show "\<exists>pre. concat ts = pre @ concat kept @ trailing" using cases(1) pre by (metis append.assoc concat_append)
  have last: "last ts \<in> set ts" using ts(1) by simp
  have fits: "int (sum_tokens C (concat kept @ trailing)) \<le> b \<or> length kept \<le> (if trailing = [] then 1 else 0)"
    using drop_turns_fits [of "sum_tokens C trailing" C b] by (simp add: kept_def sum_tokens_def add.commute)
  show "is_user (hd (concat kept @ trailing)) \<and> suffix (last ts) (concat kept @ trailing)"
    and "int (sum_tokens C (concat kept @ trailing)) \<le> b \<or> concat kept @ trailing = last ts"
  proof (atomize (full), cases "trailing = []")
    case True
    then have c: "completed = ts" using cases(2) ts(2) [OF last] by auto
    have "1 \<le> length kept" using drop_turns_min [of 1 ts] ts(1) True by (cases ts) (auto simp: kept_def c)
    then have k: "kept \<noteq> []" by auto
    then have l: "last kept = last ts" using pre c by (metis last_appendR)
    have "suffix (last ts) (concat kept)" using k l by (metis append_butlast_last_id concat_append concat.simps append_Nil2 suffixI)
    moreover have "is_user (hd (concat kept))"
      using hd_concat_users [of kept] ts(2) k pre c by (cases kept) auto
    moreover have "concat kept = last ts" if "length kept \<le> 1"
      using k l that by (cases kept) auto
    ultimately show "(is_user (hd (concat kept @ trailing)) \<and> suffix (last ts) (concat kept @ trailing)) \<and>
        (int (sum_tokens C (concat kept @ trailing)) \<le> b \<or> concat kept @ trailing = last ts)"
      using fits True by auto
  next
    case False
    then have c: "completed = butlast ts" "trailing = last ts" using cases(2) by auto
    have "\<And>t. t \<in> set kept \<Longrightarrow> t \<noteq> [] \<and> is_user (hd t)"
      using ts(2) pre c(1) by (metis UnCI in_set_butlastD set_append)
    then have "is_user (hd (concat kept @ trailing))"
      using hd_concat_users [of kept] ts(2) [OF last] c(2) by (cases "concat kept = []") auto
    then show "(is_user (hd (concat kept @ trailing)) \<and> suffix (last ts) (concat kept @ trailing)) \<and>
        (int (sum_tokens C (concat kept @ trailing)) \<le> b \<or> concat kept @ trailing = last ts)"
      using fits False c(2) by (auto simp: suffix_def)
  qed
qed

lemma note_trim_simps [simp]: "ss_history (note_trim d k a s) = ss_history s" "\<not> ss_prefix_warm (note_trim d k a s)"
  by (simp_all add: note_trim_def)

text \<open>Everything about one prompt, for a history that begins with a user message.\<close>

definition prompt_ok :: "counting \<Rightarrow> session \<Rightarrow> message list \<Rightarrow> session \<Rightarrow> bool" where
  "prompt_ok C s kept s' \<longleftrightarrow>
     ss_history s' = ss_history s \<and> suffix kept (ss_history s) \<and> (kept = [] \<or> is_user (hd kept)) \<and>
     (ss_history s \<noteq> [] \<longrightarrow> suffix (last (split_turns (ss_history s))) kept \<and>
        (\<forall>mx. ss_max_tokens s = Some mx \<longrightarrow>
           int (sum_tokens C kept) \<le> token_budget mx \<or> kept = last (split_turns (ss_history s)))) \<and>
     (kept \<noteq> ss_history s \<longrightarrow> \<not> ss_prefix_warm s') \<and> (kept = ss_history s \<longrightarrow> s' = s)"

lemma last_turn_suffix:
  assumes "h = [] \<or> is_user (hd h)" and "h \<noteq> []"
  shows "suffix (last (split_turns h)) h"
proof -
  have "split_turns h \<noteq> []" using split_turns_Nil [OF assms(1)] assms(2) by simp
  then have "h = concat (butlast (split_turns h)) @ last (split_turns h)"
    using split_turns_valid [OF assms(1)] by (simp add: concat_butlast_last)
  then show ?thesis by (metis suffixI)
qed

lemma prompt_ok_refl:
  assumes "ss_history s = [] \<or> is_user (hd (ss_history s))"
    and "\<And>mx. ss_max_tokens s = Some mx \<Longrightarrow> int (sum_tokens C (ss_history s)) \<le> token_budget mx \<or> ss_history s = []"
  shows "prompt_ok C s (ss_history s) s"
  using assms last_turn_suffix [OF assms(1)] by (auto simp: prompt_ok_def)

lemma nothing_dropped:
  assumes "pinned_split ts = (completed, trailing)" and "completed = pre @ kept" and "ts \<noteq> []"
    and "\<And>t. t \<in> set ts \<Longrightarrow> t \<noteq> []"
  shows "concat kept @ trailing = concat ts \<longleftrightarrow> pre = []"
proof -
  have whole: "concat pre @ concat kept @ trailing = concat ts"
    using pinned_split_concat(1) [OF assms(3,1)] assms(2) by simp
  have "set pre \<subseteq> set completed" using assms(2) by simp
  moreover have "set completed \<subseteq> set ts"
    using pinned_split_concat(2) [OF assms(3,1)] by (auto dest: in_set_butlastD)
  ultimately have "concat pre = [] \<longleftrightarrow> pre = []" using assms(4) by (cases pre) auto
  then show ?thesis using whole by (metis append_Nil self_append_conv2 append_same_eq)
qed

lemma trim_ok:
  assumes run: "trim_to_budget C sys mx s = (out, s')" and mx: "ss_max_tokens s = Some mx"
    and h: "ss_history s = [] \<or> is_user (hd (ss_history s))"
  shows "\<exists>kept. out = System sys # kept \<and> prompt_ok C s kept s'"
proof (cases "ss_history s = []")
  case True
  then show ?thesis using run h prompt_ok_refl [OF h] by (auto simp: trim_to_budget_def Let_def)
next
  case ne: False
  let ?ts = "split_turns (ss_history s)"
  have ts: "?ts \<noteq> []" "concat ?ts = ss_history s" using ne split_turns_Nil [OF h] split_turns_valid [OF h] by auto
  obtain completed trailing where sp: "pinned_split ?ts = (completed, trailing)" by fastforce
  define kept where
    "kept = drop_turns C (token_budget mx) (if trailing = [] then 1 else 0) (sum_tokens C trailing) completed"
  note K = kept_turns [OF ts(1) split_turns_users sp kept_def]
  obtain pre where pre: "completed = pre @ kept" using drop_turns_suffix [of completed] unfolding kept_def by blast
  have all: "concat kept @ trailing = ss_history s \<longleftrightarrow> pre = []"
    using nothing_dropped [OF sp pre ts(1)] split_turns_users ts(2) by metis
  have tokens: "sum_tokens C trailing + sum_tokens C (concat completed) = sum_tokens C (ss_history s)"
    using pinned_split_concat(1) [OF ts(1) sp] ts(2) by (metis add.commute sum_list_append map_append sum_tokens_def)
  show ?thesis
  proof (cases "int (sum_tokens C (ss_history s)) \<le> token_budget mx")
    case True
    then have "out = System sys # ss_history s" "s' = s"
      using run ne ts(1) sp tokens by (auto simp: trim_to_budget_def)
    then show ?thesis using prompt_ok_refl [OF h] True mx by auto
  next
    case False
    have len: "length completed - length kept = length pre" "length kept < length completed \<longleftrightarrow> pre \<noteq> []"
      using pre by auto
    have trim: "trim_to_budget C sys mx s = (System sys # concat kept @ trailing,
       if pre \<noteq> []
       then note_trim (length pre) (length kept) (sum_tokens C trailing + sum_tokens C (concat kept)) s else s)"
      using False ne ts(1) tokens len by (simp add: trim_to_budget_def Let_def sp kept_def [symmetric])
    have out: "out = System sys # concat kept @ trailing"
      and s': "s' = (if pre \<noteq> []
         then note_trim (length pre) (length kept) (sum_tokens C trailing + sum_tokens C (concat kept)) s else s)"
      using trim run by simp_all
    have "suffix (concat kept @ trailing) (ss_history s)" using K(1) ts(2) by (auto simp: suffix_def)
    then show ?thesis using K(2,3) out s' all mx by (auto simp: prompt_ok_def)
  qed
qed

lemma messages_ok:
  assumes "messages C sys s = (out, s')" and "ss_history s = [] \<or> is_user (hd (ss_history s))"
  shows "\<exists>kept. out = System sys # kept \<and> prompt_ok C s kept s'"
proof (cases "ss_max_tokens s")
  case None
  then show ?thesis using assms prompt_ok_refl [OF assms(2)] by (auto simp: messages_def)
next
  case (Some mx)
  then show ?thesis using assms trim_ok by (auto simp: messages_def)
qed

subsection \<open>The turn\<close>

definition op_msgs :: "driver_op \<Rightarrow> message list" where
  "op_msgs op = (case op of OpCalls c tcs \<Rightarrow> [Calls c tcs] | OpText t \<Rightarrow> [Assistant t] | OpResult i c \<Rightarrow> [ToolMsg i c] | _ \<Rightarrow> [])"

definition is_text :: "driver_op \<Rightarrow> bool" where
  "is_text op = (case op of OpText t \<Rightarrow> True | _ \<Rightarrow> False)"

text \<open>What is asked of the driver: the final text is the last thing it records, and when it finishes
  every tool call it recorded has been answered.\<close>

definition driver_ok :: "driver_op list \<Rightarrow> outcome \<Rightarrow> bool" where
  "driver_ok ops oc \<longleftrightarrow>
     list_all (\<lambda>op. \<not> is_text op) (butlast ops) \<and> (oc = Finished \<longrightarrow> strict [] (concat (map op_msgs ops)))"

fun event_ok :: "dialogue_event \<Rightarrow> bool" where
  "event_ok (Turn text ops oc) = driver_ok ops oc"
| "event_ok Reset = True"

lemma slv_send_frame [simp]: "tn_session (slv_send t r T) = tn_session T" "tn_messages (slv_send t r T) = tn_messages T"
  "tn_chunks (slv_send t r T) = tn_chunks T"
  by (simp_all add: slv_send_def)

lemma sink_op_history:
  "\<not> is_text op \<Longrightarrow> ss_history (tn_session (sink_op op T)) = ss_history (tn_session T) @ op_msgs op"
  by (cases op) (simp_all add: sink_op_def op_msgs_def is_text_def add_assistant_tool_calls_def add_tool_result_def)

lemma sink_ops_history:
  "list_all (\<lambda>op. \<not> is_text op) ops \<Longrightarrow>
   ss_history (tn_session (fold sink_op ops T)) = ss_history (tn_session T) @ concat (map op_msgs ops)"
  by (induction ops arbitrary: T) (simp_all add: sink_op_history)

lemma add_assistant_history:
  "ss_history (add_assistant t s) \<in> {[], ss_history s @ [Assistant t]}"
  by (simp add: add_assistant_def recover_from_echo_def session_reset_def split: option.split)

text \<open>The driver's records are appended, unless its last text set off the echo recovery.\<close>

lemma driver_history:
  assumes "list_all (\<lambda>op. \<not> is_text op) (butlast ops)"
  shows "ss_history (tn_session (fold sink_op ops T)) \<in> {[], ss_history (tn_session T) @ concat (map op_msgs ops)}"
proof (cases "ops = []")
  case False
  then have ops: "ops = butlast ops @ [last ops]" by simp
  let ?T = "fold sink_op (butlast ops) T"
  have fold: "fold sink_op ops T = sink_op (last ops) ?T" by (subst ops) simp
  have msgs: "concat (map op_msgs ops) = concat (map op_msgs (butlast ops)) @ op_msgs (last ops)"
    by (subst (1) ops) simp
  show ?thesis
  proof (cases "last ops")
    case (OpText t)
    then show ?thesis using add_assistant_history [of t "tn_session ?T"] sink_ops_history [OF assms, of T]
      by (simp add: fold msgs sink_op_def op_msgs_def)
  qed (use sink_op_history [of "last ops" ?T] sink_ops_history [OF assms, of T] fold msgs in \<open>simp_all add: is_text_def\<close>)
qed simp

lemma rollback_history: "ss_history (snd (rollback_to n s)) = take n (ss_history s)"
  by (simp add: rollback_to_def)

lemma tools_history:
  assumes "driver_ok ops oc"
  shows "ss_history (tn_session (stream_with_tools mx ops oc T)) \<in>
    {[], ss_history (tn_session T)} \<union>
    (if oc = Finished then {ss_history (tn_session T) @ concat (map op_msgs ops)} else {})"
  using driver_history [of ops T] assms rollback_history [of "length (ss_history (tn_session T))"]
  by (cases oc) (auto simp: stream_with_tools_def roll_both_def driver_ok_def Let_def split_beta)

lemma valid_user: "valid_history h \<Longrightarrow> valid_history (h @ [User t])"
  using strict_append [of "[]" h "[User t]"] by (cases h) (auto simp: valid_history_def is_user_def)

lemma valid_append: "valid_history h \<Longrightarrow> h \<noteq> [] \<Longrightarrow> strict [] ms \<Longrightarrow> valid_history (h @ ms)"
  using strict_append [of "[]" h ms] by (auto simp: valid_history_def)

lemma dialogue_turn_valid:
  assumes "valid_history (ss_history s)" and "driver_ok ops oc"
  shows "valid_history (ss_history (tn_session (dialogue_turn C sys mx text ops oc s)))"
proof (cases "strip_by cp_isspace text = []")
  case False
  let ?s = "add_user text s"
  have u: "ss_history ?s = ss_history s @ [User text]" by (simp add: add_user_def)
  then have v: "valid_history (ss_history ?s)" using valid_user assms(1) by simp
  then have hd: "ss_history ?s = [] \<or> is_user (hd (ss_history ?s))" by (simp add: valid_history_def)
  obtain ms s1 where m: "messages C sys ?s = (ms, s1)" by fastforce
  have s1: "ss_history s1 = ss_history ?s" using messages_ok [OF m hd] by (auto simp: prompt_ok_def)
  let ?T = "\<lparr>tn_session = s1, tn_messages = ms, tn_slv = [], tn_chunks = False, tn_sent = False\<rparr>"
  have "valid_history (ss_history ?s @ concat (map op_msgs ops))" if "oc = Finished"
    using valid_append [OF v] u assms(2) that by (simp add: driver_ok_def)
  then have "valid_history (ss_history (tn_session (stream_with_tools mx ops oc ?T)))"
    using tools_history [OF assms(2), of mx ?T] v s1 by (auto simp: valid_history_def [of "[]"] split: if_splits)
  then show ?thesis using False m by (simp add: dialogue_turn_def Let_def)
qed (use assms in \<open>simp add: dialogue_turn_def\<close>)

lemma dialogue_valid:
  assumes "list_all event_ok es" and "valid_history (ss_history s)"
  shows "valid_history (ss_history (foldl (dialogue_step C sys mx) s es))"
  using assms
proof (induction es arbitrary: s)
  case (Cons e es)
  then show ?case by (cases e) (auto simp: dialogue_turn_valid session_reset_def valid_history_def [of "[]"])
qed simp

lemma prompt_valid:
  assumes "messages C sys s = (out, s')" and "valid_history (ss_history s)"
  shows "valid_history (tl out)"
proof -
  obtain kept where "out = System sys # kept" "prompt_ok C s kept s'"
    using messages_ok [OF assms(1)] assms(2) by (auto simp: valid_history_def)
  moreover from this obtain pre where "ss_history s = pre @ kept" by (auto simp: prompt_ok_def suffix_def)
  ultimately show ?thesis using valid_suffix [of pre kept] assms(2) by (simp add: prompt_ok_def)
qed

text \<open>The texts handed to the voice server.\<close>

definition op_send :: "driver_op \<Rightarrow> (bool \<times> cptext \<times> send) option" where
  "op_send op =
     (case op of
        OpToken t r \<Rightarrow> Some (True, t, r)
      | OpPreamble t r \<Rightarrow> (if t = [] then None else Some (False, t, r))
      | OpCompletion t r \<Rightarrow> (if t = [] then None else Some (False, t, r))
      | _ \<Rightarrow> None)"

definition op_texts :: "driver_op \<Rightarrow> cptext list" where
  "op_texts op = (case op_send op of Some (tok, t, r) \<Rightarrow> (if handed_over r then [t] else []) | None \<Rightarrow> [])"

definition op_marks :: "driver_op \<Rightarrow> bool" where
  "op_marks op = (case op_send op of Some (tok, t, r) \<Rightarrow> tok \<or> r = SendOk | None \<Rightarrow> False)"

lemma sink_op_slv:
  "tn_slv (sink_op op T) = tn_slv T @ map SlvText (op_texts op)"
  "tn_chunks (sink_op op T) \<or> tn_sent (sink_op op T) \<longleftrightarrow> tn_chunks T \<or> tn_sent T \<or> op_marks op"
  by (cases op; simp add: sink_op_def op_send_def op_texts_def op_marks_def slv_send_def)+

lemma sink_ops_slv: "tn_slv (fold sink_op ops T) = tn_slv T @ map SlvText (concat (map op_texts ops))"
  by (induction ops arbitrary: T) (simp_all add: sink_op_slv)

lemma sink_ops_marks:
  "tn_chunks (fold sink_op ops T) \<or> tn_sent (fold sink_op ops T) \<longleftrightarrow> tn_chunks T \<or> tn_sent T \<or> list_ex op_marks ops"
proof (induction ops arbitrary: T)
  case (Cons op ops)
  then show ?case using sink_op_slv(2) [of op T] by auto
qed simp

lemma stream_slv [simp]:
  "tn_slv (stream_with_tools mx ops oc T) = tn_slv (fold sink_op ops T)"
  "tn_chunks (stream_with_tools mx ops oc T) = tn_chunks (fold sink_op ops T)"
  "tn_sent (stream_with_tools mx ops oc T) = tn_sent (fold sink_op ops T)"
  by (cases oc; simp add: stream_with_tools_def roll_both_def Let_def split: prod.split)+

text \<open>A text that was handed over without being recorded as sent: a preamble or a completion text
  whose send was cancelled after the text had left.\<close>

definition unrecorded :: "driver_op \<Rightarrow> bool" where
  "unrecorded op \<longleftrightarrow> op_texts op \<noteq> [] \<and> \<not> op_marks op"

section \<open>Properties\<close>

text \<open>C20: The prompt sent to the model is the system prompt and a suffix of the history that begins with
  a user message and contains the latest turn whole; its messages fit three quarters of the
  configured tokens, or it is the latest turn alone; trimming changes nothing in the session but
  the prefix-cache flag, which is off exactly when something was dropped from a warm prefix; and
  the tool calls and results of the prompt still match.\<close>
theorem prompt_trim_spec:
  assumes "messages C sys s = (out, s')" and "valid_history (ss_history s)"
  shows "hd out = System sys \<and> suffix (tl out) (ss_history s) \<and> valid_history (tl out) \<and>
         ss_history s' = ss_history s \<and>
         (ss_history s \<noteq> [] \<longrightarrow> suffix (last (split_turns (ss_history s))) (tl out) \<and>
            (\<forall>mx. ss_max_tokens s = Some mx \<longrightarrow>
               int (sum_tokens C (tl out)) \<le> token_budget mx \<or> tl out = last (split_turns (ss_history s)))) \<and>
         (if tl out = ss_history s then s' = s else \<not> ss_prefix_warm s')"
proof -
  obtain kept where "out = System sys # kept" "prompt_ok C s kept s'"
    using messages_ok [OF assms(1)] assms(2) by (auto simp: valid_history_def)
  then show ?thesis using prompt_valid [OF assms] by (auto simp: prompt_ok_def)
qed

definition demo_history :: "message list" where
  "demo_history = [User [1, 2], Assistant [3], User [4], Calls None [\<lparr>tc_id = ''a'', tc_name = [], tc_args = []\<rparr>],
     ToolMsg ''a'' [5], Assistant [6]]"

definition demo_counting :: counting where
  "demo_counting = \<lparr>ct_counter = None, ct_tokenizer = FallbackTok, ct_dumps = (\<lambda>tcs. None)\<rparr>"

theorem prompt_trim_spec_witness:
  "\<exists>out s'. messages demo_counting [] ((new_session (Some 34))\<lparr>ss_history := demo_history, ss_prefix_warm := True\<rparr>) =
       (out, s') \<and> tl out = drop 2 demo_history \<and> valid_history (tl out) \<and> \<not> ss_prefix_warm s'"
proof -
  let ?s = "(new_session (Some 34))\<lparr>ss_history := demo_history, ss_prefix_warm := True\<rparr>"
  obtain out s' where m: "messages demo_counting [] ?s = (out, s')" by fastforce
  have v: "valid_history (ss_history ?s)" by (simp add: valid_history_def demo_history_def is_user_def)
  have "tl out = drop 2 demo_history" using m
    by (auto simp: messages_def trim_to_budget_def new_session_def demo_history_def split_turns_def is_user_def
        pinned_split_def complete_turn_def token_budget_def sum_tokens_def msg_tokens_def msg_content_def
        count_text_def demo_counting_def count_tokens_def fallback_estimate_def Let_def)
  with prompt_trim_spec [OF m v] m show ?thesis by (auto simp: demo_history_def)
qed

text \<open>C21: Whatever turns a conversation goes through, with cancellations, errors, iteration limits, echo
  recoveries and resets anywhere, its history stays one that the providers accept: it begins with
  a user message, every tool result answers an open call, and no call is left open.\<close>
theorem agent_history_valid:
  assumes "list_all event_ok es"
  shows "valid_history (ss_history (foldl (dialogue_step C sys max_iterations) (new_session mx) es))"
  by (rule dialogue_valid [OF assms]) (simp add: new_session_def valid_history_def)

theorem agent_history_valid_witness:
  "\<exists>h. ss_history (foldl (dialogue_step demo_counting [] 5) (new_session None)
        [Turn [104] [OpCalls None [\<lparr>tc_id = ''a'', tc_name = [], tc_args = []\<rparr>]] Cancelled,
         Turn [105] [OpToken [7] SendOk, OpText [7]] Finished]) = h \<and>
      h = [User [104], User [105], Assistant [7]] \<and> valid_history h"
proof -
  let ?es = "[Turn [104] [OpCalls None [\<lparr>tc_id = ''a'', tc_name = [], tc_args = []\<rparr>]] Cancelled,
              Turn [105] [OpToken [7] SendOk, OpText [7]] Finished]"
  have ok: "list_all event_ok ?es" by (simp add: driver_ok_def is_text_def op_msgs_def)
  have "ss_history (foldl (dialogue_step demo_counting [] 5) (new_session None) ?es) =
      [User [104], User [105], Assistant [7]]"
    by (simp add: dialogue_turn_def messages_def new_session_def add_user_def stream_with_tools_def sink_op_def
        slv_send_def roll_both_def rollback_to_def add_assistant_tool_calls_def add_assistant_def
        recover_from_echo_def echoed_def echo_window_def strip_by_def lstrip_by_def rstrip_by_def cp_isspace_def
        List.map_filter_simps assistant_content_def Let_def)
  then show ?thesis using agent_history_valid [OF ok, of demo_counting "[]" 5 None] by auto
qed

text \<open>C22: The voice server is flushed exactly at the end of a turn that completes, and a turn that does
  not complete after handing over text ends with an abort, so that its text cannot leak into the
  next turn; the one exception is a turn whose only text is a preamble or completion text whose
  send was cancelled in flight, which is neither flushed nor aborted.\<close>
theorem turn_text_flushed_or_aborted:
  assumes "strip_by cp_isspace text \<noteq> []" and "tn_slv (dialogue_turn C sys mx text ops oc s) = sent"
  shows "(\<exists>txts. sent = map SlvText txts @
            (if oc \<in> {Finished, LimitReached} then [SlvFlush] else if list_ex op_marks ops then [SlvAbort] else []) \<and>
            set txts = (\<Union>op\<in>set ops. set (op_texts op))) \<and>
         (oc \<in> {Cancelled, Errored} \<longrightarrow> last (SlvAbort # sent) = SlvAbort \<or> list_ex unrecorded ops)"
proof -
  obtain ms s1 where m: "messages C sys (add_user text s) = (ms, s1)" by fastforce
  let ?T0 = "\<lparr>tn_session = s1, tn_messages = ms, tn_slv = [], tn_chunks = False, tn_sent = False\<rparr>"
  let ?txts = "concat (map op_texts ops)"
  have sent: "sent = map SlvText ?txts @
      (if oc \<in> {Finished, LimitReached} then [SlvFlush] else if list_ex op_marks ops then [SlvAbort] else [])"
    using assms(2) sink_ops_marks [of ops ?T0] assms(1)
    by (cases "oc \<in> {Finished, LimitReached}") (auto simp: dialogue_turn_def m sink_ops_slv Let_def)
  have "?txts = []" if "\<not> list_ex op_marks ops" "\<not> list_ex unrecorded ops"
    using that by (auto simp: list_ex_iff unrecorded_def)
  then have "last (SlvAbort # sent) = SlvAbort" if "oc \<in> {Cancelled, Errored}" "\<not> list_ex unrecorded ops"
    using that sent by (auto simp del: concat_eq_Nil_conv)
  moreover have "set ?txts = (\<Union>op\<in>set ops. set (op_texts op))" by auto
  ultimately show ?thesis using sent by blast
qed

theorem turn_text_flushed_or_aborted_witness:
  "(\<exists>txts. tn_slv (dialogue_turn demo_counting [] 5 [104] [OpPreamble [1] (SendCancelled True)] Cancelled
       (new_session None)) = map SlvText txts \<and> set txts = {[1]}) \<and>
   (\<exists>txts. tn_slv (dialogue_turn demo_counting [] 5 [104] [OpToken [1] (SendCancelled True)] Cancelled
       (new_session None)) = map SlvText txts @ [SlvAbort] \<and> set txts = {[1]})"
proof -
  have ne: "strip_by cp_isspace [104] \<noteq> []" by (simp add: strip_by_empty_iff cp_isspace_def)
  have turn: "\<exists>txts. tn_slv (dialogue_turn demo_counting [] 5 [104] [op] Cancelled (new_session None)) =
      map SlvText txts @ (if op_marks op then [SlvAbort] else []) \<and> set txts = set (op_texts op)" for op
    using turn_text_flushed_or_aborted [OF ne refl, of demo_counting "[]" 5 "[op]" Cancelled "new_session None"] by auto
  show ?thesis
    using turn [of "OpPreamble [1] (SendCancelled True)"] turn [of "OpToken [1] (SendCancelled True)"]
    by (simp add: op_marks_def op_texts_def op_send_def handed_over_def)
qed

end
