(* ===== verification/Modes.thy ===== *)
theory Modes
  imports Json AgentSession
begin

text \<open>
  The agent's modes: the mode manager and the resolution of a turn's settings
  (\<open>agent/ovs_agent/app_mode.py\<close>), the interpreter mode (\<open>modes/interpreter.py\<close>,
  \<open>translator/lang_map.py\<close>) and the tool that switches modes (\<open>tools/builtin.py\<close>).  \<open>switch\<close> awaits the
  old mode's exit and the new mode's entry, so switches of different tasks can overlap; a mode counts
  as entered from its \<open>enter\<close> to its next \<open>exit\<close>.
\<close>

section \<open>Settings of a turn\<close>

text \<open>A mode's class attributes and the overrides of the configuration, per mode name.\<close>

record mode_attrs =
  ma_name :: string
  ma_prompt :: "string option"
  ma_attrs :: jdict

text \<open>\<open>overrides.get(name) or {}\<close>, when both are dictionaries.\<close>

definition mode_override :: "json \<Rightarrow> string \<Rightarrow> jdict" where
  "mode_override overrides name = jobj_or_empty (jor (jget name (jobj_or_empty overrides)) (JObj []))"

definition resolve_system_prompt ::
    "(json \<Rightarrow> string) \<Rightarrow> json \<Rightarrow> string option \<Rightarrow> mode_attrs option \<Rightarrow> string option \<Rightarrow> string" where
  "resolve_system_prompt py_repr overrides cfg_prompt mode override =
     (case override of
        Some p \<Rightarrow> p
      | None \<Rightarrow>
          (let mo = (case mode of
                       Some m \<Rightarrow> (if ma_name m \<noteq> [] then mode_override overrides (ma_name m) else [])
                     | None \<Rightarrow> []);
               inherited = (case mode of
                              Some m \<Rightarrow> (case ma_prompt m of Some p \<Rightarrow> Some p | None \<Rightarrow> None)
                            | None \<Rightarrow> None)
           in if jget ''system_prompt'' mo \<noteq> JNull then json_str py_repr (jget ''system_prompt'' mo)
              else (case inherited of Some p \<Rightarrow> p | None \<Rightarrow> (case cfg_prompt of Some p \<Rightarrow> p | None \<Rightarrow> []))))"

definition resolve_mode_value :: "json \<Rightarrow> mode_attrs option \<Rightarrow> string \<Rightarrow> json" where
  "resolve_mode_value overrides mode key =
     (case mode of
        None \<Rightarrow> JNull
      | Some m \<Rightarrow>
          (let mo = (if ma_name m \<noteq> [] then mode_override overrides (ma_name m) else [])
           in if jhas key mo then jget key mo else jget key (ma_attrs m)))"

text \<open>The tools a turn may use: none, all (\<open>None\<close>), or those listed.\<close>

definition tools_enabled :: "bool \<Rightarrow> json \<Rightarrow> bool" where
  "tools_enabled cfg override = (if override = JNull then cfg else json_truthy override)"

text \<open>\<open>set(x)\<close> on a decoded value: the entries of a list, the characters of a string, the keys of a
  dictionary.\<close>

definition json_set :: "json \<Rightarrow> py_error + json set" where
  "json_set j =
     (case j of
        JArr xs \<Rightarrow> Inr (set xs)
      | JStr s \<Rightarrow> Inr ((\<lambda>c. JStr [c]) ` set s)
      | JObj d \<Rightarrow> Inr ((\<lambda>(k, v). JStr k) ` set d)
      | _ \<Rightarrow> Inl TypeError)"

definition allowed_tools :: "bool \<Rightarrow> json \<Rightarrow> json \<Rightarrow> json \<Rightarrow> py_error + json set option" where
  "allowed_tools cfg_enabled cfg_list override_enabled override_list =
     (let lst = (if override_list = JNull then jor cfg_list (JArr []) else override_list)
      in if \<not> tools_enabled cfg_enabled override_enabled then Inr (Some {})
         else if json_truthy lst then (case json_set lst of Inl e \<Rightarrow> Inl e | Inr S \<Rightarrow> Inr (Some S))
         else Inr None)"

section \<open>Interpreting\<close>

definition asr_name_to_flores :: "string \<Rightarrow> string option" where
  "asr_name_to_flores =
     [''Chinese'' \<mapsto> ''zho_Hans'', ''Cantonese'' \<mapsto> ''yue_Hant'', ''English'' \<mapsto> ''eng_Latn'',
      ''Japanese'' \<mapsto> ''jpn_Jpan'', ''Korean'' \<mapsto> ''kor_Hang'', ''French'' \<mapsto> ''fra_Latn'',
      ''German'' \<mapsto> ''deu_Latn'', ''Spanish'' \<mapsto> ''spa_Latn'', ''Italian'' \<mapsto> ''ita_Latn'',
      ''Portuguese'' \<mapsto> ''por_Latn'', ''Russian'' \<mapsto> ''rus_Cyrl'']"

definition asr_lang_to_flores :: "string option \<Rightarrow> string option" where
  "asr_lang_to_flores name =
     (case name of None \<Rightarrow> None | Some n \<Rightarrow> (if n = [] \<or> n = ''None'' then None else asr_name_to_flores n))"

definition opt_or :: "string option \<Rightarrow> string option \<Rightarrow> string option" where
  "opt_or a b = (case a of Some s \<Rightarrow> (if s \<noteq> [] then a else b) | None \<Rightarrow> b)"

definition opt_truthy :: "string option \<Rightarrow> bool" where
  "opt_truthy a \<longleftrightarrow> a \<noteq> None \<and> a \<noteq> Some []"

datatype route = Translate string string | Dialogue

definition interpreter_route ::
    "string \<Rightarrow> bool \<Rightarrow> string option \<Rightarrow> string option \<Rightarrow> string option \<Rightarrow> route" where
  "interpreter_route backend has_translator detected config_src tgt =
     (let src = opt_or (asr_lang_to_flores detected) config_src
      in if backend = ''noop'' \<or> \<not> has_translator then Dialogue
         else if \<not> opt_truthy src \<or> \<not> opt_truthy tgt then Dialogue
         else if src = tgt then Dialogue
         else Translate (the src) (the tgt))"

datatype interpreted = Spoken cptext | LlmTurn

text \<open>A failing translator, or an empty translation, falls back to the dialogue turn.\<close>

definition interpret_utterance ::
    "(cptext \<Rightarrow> string \<Rightarrow> string \<Rightarrow> cptext option) \<Rightarrow> route \<Rightarrow> cptext \<Rightarrow> session \<Rightarrow> interpreted \<times> session" where
  "interpret_utterance translate r text s =
     (let s1 = s\<lparr>ss_history := []\<rparr>
      in case r of
           Dialogue \<Rightarrow> (LlmTurn, s1)
         | Translate src tgt \<Rightarrow>
             (case translate text src tgt of
                None \<Rightarrow> (LlmTurn, s1)
              | Some out \<Rightarrow> (if strip_by cp_isspace out = [] then (LlmTurn, s1) else (Spoken out, s1))))"

section \<open>The mode manager\<close>

datatype switching = Leaving string string | Entering string

record modes =
  mm_registered :: "string list"
  mm_current :: "string option"
  mm_entered :: "string set"
  mm_switch :: "nat \<Rightarrow> switching option"
  mm_started :: bool

definition new_modes :: modes where
  "new_modes = \<lparr>mm_registered = [], mm_current = None, mm_entered = {}, mm_switch = Map.empty, mm_started = False\<rparr>"

datatype mode_error = KeyError | DuplicateMode | UnnamedMode | NoModes

definition mode_register :: "string \<Rightarrow> modes \<Rightarrow> mode_error + modes" where
  "mode_register name m =
     (if name = [] \<or> name = ''unnamed'' then Inl UnnamedMode
      else if name \<in> set (mm_registered m) then Inl DuplicateMode
      else Inr (m\<lparr>mm_registered := mm_registered m @ [name]\<rparr>))"

text \<open>The new mode becomes current and its \<open>enter\<close> starts.\<close>

definition enter_mode :: "nat \<Rightarrow> string \<Rightarrow> modes \<Rightarrow> modes" where
  "enter_mode t name m =
     m\<lparr>mm_current := Some name, mm_entered := insert name (mm_entered m),
       mm_switch := (mm_switch m)(t \<mapsto> Entering name)\<rparr>"

text \<open>\<open>switch\<close> up to its first wait.\<close>

definition switch_begin :: "nat \<Rightarrow> string \<Rightarrow> modes \<Rightarrow> mode_error + modes" where
  "switch_begin t name m =
     (if name \<notin> set (mm_registered m) then Inl KeyError
      else if mm_current m = Some name then Inr m
      else (case mm_current m of
              None \<Rightarrow> Inr (enter_mode t name m)
            | Some prev \<Rightarrow> Inr (m\<lparr>mm_switch := (mm_switch m)(t \<mapsto> Leaving prev name)\<rparr>)))"

text \<open>The exit has returned or raised.\<close>

definition switch_exited :: "nat \<Rightarrow> string \<Rightarrow> string \<Rightarrow> modes \<Rightarrow> modes" where
  "switch_exited t prev next_mode m = enter_mode t next_mode (m\<lparr>mm_entered := mm_entered m - {prev}\<rparr>)"

definition switch_end :: "nat \<Rightarrow> modes \<Rightarrow> modes" where
  "switch_end t m = m\<lparr>mm_switch := (mm_switch m)(t := None)\<rparr>"

definition modes_start :: "nat \<Rightarrow> string \<Rightarrow> modes \<Rightarrow> mode_error + modes" where
  "modes_start t default_name m =
     (if mm_registered m = [] then Inl NoModes
      else switch_begin t
             (if default_name \<in> set (mm_registered m) then default_name else hd (mm_registered m)) m)"

datatype set_mode_reply = ManagerUnavailable | UnknownMode "string list" | Switching

definition set_mode :: "modes option \<Rightarrow> string \<Rightarrow> set_mode_reply" where
  "set_mode mm name =
     (case mm of
        None \<Rightarrow> ManagerUnavailable
      | Some m \<Rightarrow> (if name \<in> set (mm_registered m) then Switching else UnknownMode (mm_registered m)))"

text \<open>A cancelled switch stops where it is; the exit it was waiting for may have happened.\<close>

definition switch_cancelled :: "nat \<Rightarrow> bool \<Rightarrow> modes \<Rightarrow> modes" where
  "switch_cancelled t exited m =
     (case mm_switch m t of
        Some (Leaving prev n) \<Rightarrow>
          switch_end t (if exited then m\<lparr>mm_entered := mm_entered m - {prev}\<rparr> else m)
      | _ \<Rightarrow> switch_end t m)"

datatype mode_event = Register string | SwitchBegin nat string | ExitDone nat | EnterDone nat | SwitchCancelled nat bool

inductive mode_step :: "modes \<Rightarrow> mode_event \<Rightarrow> modes \<Rightarrow> bool" where
  m_register: "mode_register name m = Inr m' \<Longrightarrow> mode_step m (Register name) m'"
| m_begin: "mm_switch m t = None \<Longrightarrow> switch_begin t name m = Inr m' \<Longrightarrow> mode_step m (SwitchBegin t name) m'"
| m_exited: "mm_switch m t = Some (Leaving prev n) \<Longrightarrow> mode_step m (ExitDone t) (switch_exited t prev n m)"
| m_entered: "mm_switch m t = Some (Entering n) \<Longrightarrow> mode_step m (EnterDone t) (switch_end t m)"
| m_cancelled: "mm_switch m t = Some w \<Longrightarrow> mode_step m (SwitchCancelled t exited) (switch_cancelled t exited m)"

text \<open>Switches one after the other, none cancelled.\<close>

definition serial_step :: "modes \<Rightarrow> mode_event \<Rightarrow> modes \<Rightarrow> bool" where
  "serial_step m e m' \<longleftrightarrow>
     mode_step m e m' \<and> (case e of SwitchBegin t n \<Rightarrow> mm_switch m = Map.empty | SwitchCancelled t x \<Rightarrow> False | _ \<Rightarrow> True)"

section \<open>Lemmas\<close>

definition serial_inv :: "modes \<Rightarrow> bool" where
  "serial_inv m \<longleftrightarrow>
     mm_entered m = set_option (mm_current m) \<and> set_option (mm_current m) \<subseteq> set (mm_registered m) \<and>
     (mm_switch m = Map.empty \<or>
      (\<exists>t p n. mm_switch m = [t \<mapsto> Leaving p n] \<and> mm_current m = Some p \<and> n \<in> set (mm_registered m) \<and> n \<noteq> p) \<or>
      (\<exists>t n. mm_switch m = [t \<mapsto> Entering n] \<and> mm_current m = Some n))"

lemma serial_inv_leaving:
  assumes "serial_inv m" and "mm_switch m t = Some (Leaving p n)"
  shows "mm_switch m = [t \<mapsto> Leaving p n]" "mm_current m = Some p" "n \<in> set (mm_registered m)" "n \<noteq> p"
  using assms by (auto simp: serial_inv_def split: if_splits)

lemma serial_inv_entering:
  assumes "serial_inv m" and "mm_switch m t = Some (Entering n)"
  shows "mm_switch m = [t \<mapsto> Entering n]"
  using assms by (auto simp: serial_inv_def split: if_splits)

lemma serial_invI:
  "mm_entered m = {n} \<Longrightarrow> mm_current m = Some n \<Longrightarrow> n \<in> set (mm_registered m) \<Longrightarrow> mm_switch m = [t \<mapsto> Entering n] \<Longrightarrow>
   serial_inv m"
  "mm_entered m = {p} \<Longrightarrow> mm_current m = Some p \<Longrightarrow> p \<in> set (mm_registered m) \<Longrightarrow> mm_switch m = [t \<mapsto> Leaving p n] \<Longrightarrow>
   n \<in> set (mm_registered m) \<Longrightarrow> n \<noteq> p \<Longrightarrow> serial_inv m"
  by (auto simp: serial_inv_def)

lemma mode_step_inv:
  assumes "mode_step m e m'" and "case e of SwitchBegin t n \<Rightarrow> mm_switch m = Map.empty | SwitchCancelled t x \<Rightarrow> False | _ \<Rightarrow> True"
    and "serial_inv m"
  shows "serial_inv m'"
  using assms
proof (induction rule: mode_step.induct)
  case (m_register name m m')
  then have m': "m' = m\<lparr>mm_registered := mm_registered m @ [name]\<rparr>" by (auto simp: mode_register_def split: if_splits)
  show ?case using m_register.prems by (auto simp: m' serial_inv_def; blast)
next
  case (m_begin m t name m')
  then have idle: "mm_switch m = Map.empty" and ent: "mm_entered m = set_option (mm_current m)"
    and reg: "set_option (mm_current m) \<subseteq> set (mm_registered m)" "name \<in> set (mm_registered m)"
    by (auto simp: serial_inv_def switch_begin_def split: if_splits)
  show ?case
  proof (cases "mm_current m")
    case None
    then have m': "m' = enter_mode t name m" using m_begin.hyps(2) reg(2) by (simp add: switch_begin_def)
    show ?thesis unfolding m'
      by (rule serial_invI(1) [of _ name t]) (use idle ent reg None in \<open>simp_all add: enter_mode_def\<close>)
  next
    case (Some prev)
    show ?thesis
    proof (cases "name = prev")
      case True
      then have "m' = m" using m_begin.hyps(2) Some reg(2) by (simp add: switch_begin_def)
      then show ?thesis using m_begin.prems(2) by simp
    next
      case False
      then have m': "m' = m\<lparr>mm_switch := (mm_switch m)(t \<mapsto> Leaving prev name)\<rparr>"
        using m_begin.hyps(2) Some reg(2) by (simp add: switch_begin_def)
      show ?thesis unfolding m'
        by (rule serial_invI(2) [of _ prev t name]) (use idle ent reg Some False in simp_all)
    qed
  qed
next
  case (m_exited m t prev n)
  note leaving = serial_inv_leaving [OF m_exited.prems(2) m_exited.hyps]
  have "mm_entered m = {prev}" using m_exited.prems(2) leaving(2) by (simp add: serial_inv_def)
  then show ?case using leaving
    by (intro serial_invI(1) [of _ n t]) (simp_all add: switch_exited_def enter_mode_def)
next
  case (m_entered m t n)
  then show ?case using serial_inv_entering [OF m_entered.prems(2) m_entered.hyps]
    by (simp add: switch_end_def serial_inv_def)
qed simp

lemma serial_step_inv: "serial_step m e m' \<Longrightarrow> serial_inv m \<Longrightarrow> serial_inv m'"
  using mode_step_inv unfolding serial_step_def by blast

interpretation serial_modes: rel_invariant serial_step serial_inv
  by unfold_locales (rule serial_step_inv)

text \<open>Two overlapping switches away from the same mode leave a mode entered that is not current, for
  good: no later exit will be called on it until it is switched to again.\<close>

definition three_modes :: modes where
  "three_modes = new_modes\<lparr>mm_registered := [''chat'', ''monologue'', ''transcribe''], mm_current := Some ''chat'',
     mm_entered := {''chat''}\<rparr>"

lemma overlapping_switches_leak:
  "\<exists>m. steps_rel mode_step three_modes
         [SwitchBegin 1 ''monologue'', SwitchBegin 2 ''transcribe'', ExitDone 1, ExitDone 2, EnterDone 1, EnterDone 2] m \<and>
       mm_switch m = Map.empty \<and> mm_current m = Some ''transcribe'' \<and> ''monologue'' \<in> mm_entered m"
proof -
  let ?m1 = "three_modes\<lparr>mm_switch := [1 \<mapsto> Leaving ''chat'' ''monologue'']\<rparr>"
  let ?m2 = "three_modes\<lparr>mm_switch := [1 \<mapsto> Leaving ''chat'' ''monologue'', 2 \<mapsto> Leaving ''chat'' ''transcribe'']\<rparr>"
  let ?m3 = "switch_exited 1 ''chat'' ''monologue'' ?m2"
  let ?m4 = "switch_exited 2 ''chat'' ''transcribe'' ?m3"
  let ?m5 = "switch_end 1 ?m4"
  have "mode_step three_modes (SwitchBegin 1 ''monologue'') ?m1"
    by (rule m_begin) (simp_all add: three_modes_def new_modes_def switch_begin_def)
  moreover have "mode_step ?m1 (SwitchBegin 2 ''transcribe'') ?m2"
    by (rule m_begin) (simp_all add: three_modes_def new_modes_def switch_begin_def)
  moreover have "mode_step ?m2 (ExitDone 1) ?m3" by (rule m_exited) simp
  moreover have "mode_step ?m3 (ExitDone 2) ?m4"
    by (rule m_exited) (simp add: switch_exited_def enter_mode_def)
  moreover have "mode_step ?m4 (EnterDone 1) ?m5"
    by (rule m_entered [of _ _ "''monologue''"]) (simp add: switch_exited_def enter_mode_def)
  moreover have "mode_step ?m5 (EnterDone 2) (switch_end 2 ?m5)"
    by (rule m_entered [of _ _ "''transcribe''"]) (simp add: switch_exited_def enter_mode_def switch_end_def)
  ultimately have "steps_rel mode_step three_modes
      [SwitchBegin 1 ''monologue'', SwitchBegin 2 ''transcribe'', ExitDone 1, ExitDone 2, EnterDone 1, EnterDone 2]
      (switch_end 2 ?m5)" by (blast intro: steps_rel.intros)
  then show ?thesis
    by (intro exI [of _ "switch_end 2 ?m5"]) (auto simp: switch_end_def switch_exited_def enter_mode_def)
qed

section \<open>Properties\<close>

text \<open>C23: When switches follow one another and none is cancelled, exactly the current mode has been
  entered and not left, at every moment, and it is a registered mode.\<close>
theorem serial_switches_exclusive:
  assumes "steps_rel serial_step new_modes es m"
  shows "mm_entered m = set_option (mm_current m) \<and> set_option (mm_current m) \<subseteq> set (mm_registered m)"
  using serial_modes.rel_run_inv [OF assms] by (simp add: serial_inv_def new_modes_def)

theorem serial_switches_exclusive_witness:
  "\<exists>m. steps_rel serial_step new_modes [Register ''chat'', SwitchBegin 1 ''chat'', EnterDone 1] m \<and>
     mm_entered m = {''chat''}"
proof -
  let ?m1 = "new_modes\<lparr>mm_registered := [''chat'']\<rparr>"
  have "serial_step new_modes (Register ''chat'') ?m1"
    by (simp add: serial_step_def m_register mode_register_def new_modes_def)
  moreover have "serial_step ?m1 (SwitchBegin 1 ''chat'') (enter_mode 1 ''chat'' ?m1)"
    by (simp add: serial_step_def m_begin switch_begin_def new_modes_def)
  moreover have "serial_step (enter_mode 1 ''chat'' ?m1) (EnterDone 1) (switch_end 1 (enter_mode 1 ''chat'' ?m1))"
    by (simp add: serial_step_def m_entered [of _ _ "''chat''"] enter_mode_def)
  ultimately have run: "steps_rel serial_step new_modes [Register ''chat'', SwitchBegin 1 ''chat'', EnterDone 1]
      (switch_end 1 (enter_mode 1 ''chat'' ?m1))" by (blast intro: steps_rel.intros)
  from serial_switches_exclusive [OF run] run show ?thesis
    by (intro exI [of _ "switch_end 1 (enter_mode 1 ''chat'' ?m1)"]) (simp add: switch_end_def enter_mode_def)
qed

end
