(* ===== verification/Captions.thy ===== *)
theory Captions
  imports Prelude
begin

text \<open>
  The segment committer of live captions and simultaneous interpretation
  (\<open>agent/ovs_agent/streaming_translate/committer.py\<close>): it turns the recogniser's partial hypotheses into
  segments to translate.  Language and time stamps of a hypothesis are not used by the code and not
  modelled.
\<close>

section \<open>Definitions\<close>

datatype event_kind = Commit | Tail

record seg_event =
  sg_seq :: nat
  sg_source :: cptext
  sg_committed :: cptext
  sg_tail :: cptext
  sg_final :: bool
  sg_revision :: nat
  sg_kind :: event_kind

record committer =
  cm_n :: nat
  cm_retranslate :: bool
  cm_punct :: "nat set"
  cm_min :: int
  cm_partials :: "cptext list"
  cm_committed :: cptext
  cm_tail :: cptext
  cm_seq :: nat
  cm_revision :: nat

fun common2 :: "cptext \<Rightarrow> cptext \<Rightarrow> cptext" where
  "common2 (a # as) (b # bs) = (if a = b then a # common2 as bs else [])"
| "common2 _ _ = []"

fun common_prefix :: "cptext list \<Rightarrow> cptext" where
  "common_prefix [] = []"
| "common_prefix (s # ss) = foldl common2 s ss"

text \<open>The full stops, marks and commas of the default \<open>clause_punct\<close>.\<close>

definition default_punct :: "nat set" where
  "default_punct = {12290, 65281, 65311, 65307, 65292, 44, 46, 63, 59}"

text \<open>The constructor: the agreement must be at least one, the strategy one of two names.\<close>

definition new_committer :: "int \<Rightarrow> string \<Rightarrow> nat set \<Rightarrow> int \<Rightarrow> committer option" where
  "new_committer n strategy punct mn =
     (if n < 1 then None
      else if strategy \<notin> {''retranslation'', ''monotonic''} then None
      else Some \<lparr>cm_n = nat n, cm_retranslate = (strategy = ''retranslation''), cm_punct = punct, cm_min = mn,
                 cm_partials = [], cm_committed = [], cm_tail = [], cm_seq = 0, cm_revision = 0\<rparr>)"

definition last_clause_end :: "nat set \<Rightarrow> cptext \<Rightarrow> nat" where
  "last_clause_end punct t = length t - length (takeWhile (\<lambda>c. c \<notin> punct) (rev t))"

definition last_n :: "nat \<Rightarrow> 'a list \<Rightarrow> 'a list" where
  "last_n n xs = drop (length xs - n) xs"

definition commit_target :: "committer \<Rightarrow> cptext \<Rightarrow> cptext" where
  "commit_target c t =
     (let agreement = (if cm_n c \<le> length (cm_partials c) then common_prefix (last_n (cm_n c) (cm_partials c)) else []);
          clause = take (last_clause_end (cm_punct c) t) t
      in if length clause \<le> length agreement then agreement else clause)"

definition push_partial :: "cptext \<Rightarrow> committer \<Rightarrow> seg_event list \<times> committer" where
  "push_partial t c0 =
     (let c = c0\<lparr>cm_partials := last_n (cm_n c0) (cm_partials c0 @ [t])\<rparr>;
          target = commit_target c t; old = cm_committed c
      in if length old < length target \<and> int (length target) - int (length old) \<ge> cm_min c then
           (let c1 = c\<lparr>cm_committed := target, cm_tail := drop (length target) t, cm_seq := cm_seq c + 1\<rparr>
            in ([\<lparr>sg_seq = cm_seq c1, sg_source = drop (length old) target, sg_committed = target,
                  sg_tail = cm_tail c1, sg_final = False, sg_revision = cm_revision c1, sg_kind = Commit\<rparr>], c1))
         else if cm_retranslate c \<and> drop (length old) t \<noteq> cm_tail c then
           (let c1 = c\<lparr>cm_tail := drop (length old) t, cm_revision := cm_revision c + 1\<rparr>
            in ([\<lparr>sg_seq = cm_seq c1, sg_source = cm_tail c1, sg_committed = old, sg_tail = cm_tail c1,
                  sg_final = False, sg_revision = cm_revision c1, sg_kind = Tail\<rparr>], c1))
         else ([], c))"

definition finalize :: "cptext \<Rightarrow> committer \<Rightarrow> seg_event list \<times> committer" where
  "finalize t c =
     (let old = cm_committed c; more = length old < length t;
          c1 = (if more then c\<lparr>cm_seq := cm_seq c + 1\<rparr> else c)
      in (if more
          then [\<lparr>sg_seq = cm_seq c1, sg_source = drop (length old) t, sg_committed = t, sg_tail = [],
                 sg_final = True, sg_revision = cm_revision c1, sg_kind = Commit\<rparr>]
          else [],
          c1\<lparr>cm_partials := [], cm_committed := [], cm_tail := []\<rparr>))"

definition committer_reset :: "committer \<Rightarrow> committer" where
  "committer_reset c =
     c\<lparr>cm_partials := [], cm_committed := [], cm_tail := [], cm_seq := 0, cm_revision := 0\<rparr>"

text \<open>One utterance: its partial hypotheses, then its final text.\<close>

fun push_all :: "cptext list \<Rightarrow> committer \<Rightarrow> seg_event list \<times> committer" where
  "push_all [] c = ([], c)"
| "push_all (t # ts) c =
     (let (es, c1) = push_partial t c; (es', c2) = push_all ts c1 in (es @ es', c2))"

definition utterance :: "cptext list \<Rightarrow> cptext \<Rightarrow> committer \<Rightarrow> seg_event list \<times> committer" where
  "utterance ts final c =
     (let (es, c1) = push_all ts c; (es', c2) = finalize final c1 in (es @ es', c2))"

definition committed_sources :: "seg_event list \<Rightarrow> cptext" where
  "committed_sources es = concat (map sg_source (filter (\<lambda>e. sg_kind e = Commit) es))"

section \<open>Lemmas\<close>

lemma common2_prefix: "prefix (common2 a b) a \<and> prefix (common2 a b) b"
  by (induction a b rule: common2.induct) auto

lemma foldl_common2_prefix: "prefix (foldl common2 s ss) s \<and> (\<forall>x\<in>set ss. prefix (foldl common2 s ss) x)"
proof (induction ss arbitrary: s)
  case (Cons x ss)
  then show ?case using common2_prefix [of s x] by (auto intro: prefix_order.trans)
qed simp

lemma common_prefix_prefix: "x \<in> set xs \<Longrightarrow> prefix (common_prefix xs) x"
  by (cases xs) (use foldl_common2_prefix in auto)

lemma last_in_last_n: "0 < n \<Longrightarrow> t \<in> set (last_n n (xs @ [t]))"
  by (simp add: last_n_def)

text \<open>What is committed is a prefix of the current hypothesis.\<close>

lemma commit_target_prefix:
  assumes "cm_n c \<ge> 1" and "cm_partials c = last_n (cm_n c) (ps @ [t])"
  shows "prefix (commit_target c t) t"
proof -
  have "t \<in> set (last_n (cm_n c) (last_n (cm_n c) (ps @ [t])))"
    using last_in_last_n [of "cm_n c" t ps] assms(1) by (simp add: last_n_def)
  then show ?thesis using common_prefix_prefix assms(2)
    by (auto simp: commit_target_def Let_def take_is_prefix)
qed

text \<open>The recogniser keeps what has been committed: every later hypothesis of the utterance begins
  with it.\<close>

fun stable :: "committer \<Rightarrow> cptext list \<Rightarrow> cptext \<Rightarrow> bool" where
  "stable c [] final = prefix (cm_committed c) final"
| "stable c (t # ts) final = (prefix (cm_committed c) t \<and> stable (snd (push_partial t c)) ts final)"

lemma committed_sources_simps [simp]:
  "committed_sources [] = []"
  "committed_sources (e # es) = (if sg_kind e = Commit then sg_source e else []) @ committed_sources es"
  "committed_sources (es @ es') = committed_sources es @ committed_sources es'"
  by (simp_all add: committed_sources_def)

text \<open>A hypothesis commits exactly what it adds.\<close>

lemma push_partial_source:
  assumes "push_partial t c = (es, c')" and "1 \<le> cm_n c" and "prefix (cm_committed c) t"
  shows "cm_committed c @ committed_sources es = cm_committed c'" and "cm_n c' = cm_n c"
proof -
  let ?c = "c\<lparr>cm_partials := last_n (cm_n c) (cm_partials c @ [t])\<rparr>"
  have "prefix (commit_target ?c t) t" using commit_target_prefix [of ?c "cm_partials c" t] assms(2) by simp
  then have "cm_committed c @ drop (length (cm_committed c)) (commit_target ?c t) = commit_target ?c t"
    if "length (cm_committed c) < length (commit_target ?c t)"
    using assms(3) that by (metis append_eq_conv_conj less_imp_le prefix_def prefix_length_prefix)
  then show "cm_committed c @ committed_sources es = cm_committed c'" "cm_n c' = cm_n c"
    using assms(1) by (auto simp: push_partial_def Let_def split: if_splits)
qed

lemma push_all_source:
  assumes "push_all ts c = (es, c')" and "1 \<le> cm_n c" and "stable c ts final"
  shows "cm_committed c @ committed_sources es = cm_committed c' \<and> prefix (cm_committed c') final"
  using assms
proof (induction ts arbitrary: c es)
  case (Cons t ts)
  obtain es1 c1 where p: "push_partial t c = (es1, c1)" by fastforce
  obtain es2 where q: "push_all ts c1 = (es2, c')" "es = es1 @ es2" using Cons.prems(1) p by (auto split: prod.splits)
  note one = push_partial_source [OF p Cons.prems(2)]
  have "stable c1 ts final" "prefix (cm_committed c) t" using Cons.prems(3) p by simp_all
  then show ?case using Cons.IH [OF q(1)] one Cons.prems(2) q(2) by (metis append.assoc committed_sources_simps(3))
qed auto

text \<open>The numbers of the events, and their kinds, whatever the hypotheses.\<close>

definition numbered :: "nat \<Rightarrow> seg_event list \<Rightarrow> nat \<Rightarrow> bool" where
  "numbered k es k' \<longleftrightarrow> map sg_seq (filter (\<lambda>e. sg_kind e = Commit) es) = [Suc k..<Suc k'] \<and> k \<le> k'"

lemma numbered_append: "numbered a es b \<Longrightarrow> numbered b es' c \<Longrightarrow> numbered a (es @ es') c"
  using upt_add_eq_append [of "Suc a" "Suc b" "c - b"] by (auto simp: numbered_def)

lemma push_partial_events:
  assumes "push_partial t c = (es, c')"
  shows "numbered (cm_seq c) es (cm_seq c')" and "\<not> cm_retranslate c \<Longrightarrow> list_all (\<lambda>e. sg_kind e = Commit) es"
    and "cm_retranslate c' = cm_retranslate c"
  using assms by (auto simp: push_partial_def numbered_def Let_def split: if_splits)

lemma push_all_events:
  assumes "push_all ts c = (es, c')"
  shows "numbered (cm_seq c) es (cm_seq c') \<and> (\<not> cm_retranslate c \<longrightarrow> list_all (\<lambda>e. sg_kind e = Commit) es)"
  using assms
proof (induction ts arbitrary: c es)
  case (Cons t ts)
  obtain es1 c1 where p: "push_partial t c = (es1, c1)" by fastforce
  obtain es2 where q: "push_all ts c1 = (es2, c')" "es = es1 @ es2" using Cons.prems p by (auto split: prod.splits)
  then show ?case using Cons.IH [OF q(1)] push_partial_events [OF p] numbered_append by auto
qed (simp add: numbered_def)

lemma finalize_events:
  assumes "finalize t c = (es, c')"
  shows "numbered (cm_seq c) es (cm_seq c') \<and> list_all (\<lambda>e. sg_kind e = Commit) es"
  using assms by (cases "length (cm_committed c) < length t") (auto simp: finalize_def numbered_def Let_def)

text \<open>Without that assumption the committed text can be rewritten: the second hypothesis commits a
  longer clause that does not begin with what was committed, and only its end is emitted.\<close>

lemma committed_text_rewritten:
  "committed_sources (fst (utterance [[1, 44], [2, 44, 3, 44]] [2, 44, 3, 44]
     \<lparr>cm_n = 2, cm_retranslate = False, cm_punct = default_punct, cm_min = 1, cm_partials = [],
      cm_committed = [], cm_tail = [], cm_seq = 0, cm_revision = 0\<rparr>)) = [1, 44, 3, 44]"
  by (simp add: utterance_def push_partial_def commit_target_def last_clause_end_def last_n_def
      default_punct_def finalize_def Let_def)

section \<open>Properties\<close>

text \<open>C24: When every hypothesis keeps what has been committed, the committed segments of an utterance,
  in order, are exactly its final text: nothing is translated twice and nothing is left out.
  Whatever the hypotheses, commits are numbered without gaps across utterances, and the
  monotonic strategy emits nothing but commits.\<close>
theorem committer_lossless:
  assumes "utterance ts final c = (es, c')" and "1 \<le> cm_n c" and "cm_committed c = []"
  shows "(stable c ts final \<longrightarrow> committed_sources es = final) \<and>
         map sg_seq (filter (\<lambda>e. sg_kind e = Commit) es) = [Suc (cm_seq c)..<Suc (cm_seq c')] \<and>
         (\<not> cm_retranslate c \<longrightarrow> list_all (\<lambda>e. sg_kind e = Commit) es) \<and> cm_committed c' = []"
proof -
  obtain es1 c1 es2 where p: "push_all ts c = (es1, c1)" and f: "finalize final c1 = (es2, c')"
    and es: "es = es1 @ es2" using assms(1) by (auto simp: utterance_def split: prod.splits)
  have "committed_sources es = final" if "stable c ts final"
  proof -
    have "committed_sources es1 = cm_committed c1" "prefix (cm_committed c1) final"
      using push_all_source [OF p assms(2) that] assms(3) by simp_all
    moreover from this(2) have "cm_committed c1 @ committed_sources es2 = final"
      using f by (auto simp: finalize_def prefix_def Let_def split: if_splits)
    ultimately show ?thesis by (simp add: es)
  qed
  moreover have "numbered (cm_seq c) es (cm_seq c')" "\<not> cm_retranslate c \<longrightarrow> list_all (\<lambda>e. sg_kind e = Commit) es"
    using push_all_events [OF p] finalize_events [OF f] numbered_append es by auto
  moreover have "cm_committed c' = []" using f by (auto simp: finalize_def Let_def)
  ultimately show ?thesis by (simp add: numbered_def)
qed

theorem committer_lossless_witness:
  "\<exists>c es c'. new_committer 2 ''retranslation'' default_punct 1 = Some c \<and>
     utterance [[1], [1, 44, 2], [1, 44, 2, 3]] [1, 44, 2, 3, 46] c = (es, c') \<and>
     committed_sources es = [1, 44, 2, 3, 46]"
proof -
  define c where "c = the (new_committer 2 ''retranslation'' default_punct 1)"
  have c: "new_committer 2 ''retranslation'' default_punct 1 = Some c" "1 \<le> cm_n c" "cm_committed c = []"
    by (simp_all add: c_def new_committer_def)
  have st: "stable c [[1], [1, 44, 2], [1, 44, 2, 3]] [1, 44, 2, 3, 46]"
    by (simp add: c_def new_committer_def push_partial_def commit_target_def last_clause_end_def last_n_def
        default_punct_def Let_def)
  obtain es c' where u: "utterance [[1], [1, 44, 2], [1, 44, 2, 3]] [1, 44, 2, 3, 46] c = (es, c')" by fastforce
  from committer_lossless [OF u c(2,3)] st c(1) u show ?thesis by blast
qed

end
