(* ===== verification/VadGate.thy ===== *)
theory VadGate
  imports Prelude
begin

text \<open>
  The client's utterance gate (\<open>agent/ovs_agent/audio/vad_gate.py\<close>): the pre-roll ring and
  \<open>vad_gated\<close>, which turns a stream of audio chunks into utterances.  The voice activity detector is an
  argument: each chunk comes with its verdict (an exception of the detector is the verdict
  \<open>False\<close>, as in the code).
\<close>

section \<open>The ring\<close>

text \<open>\<open>deque(maxlen=n)\<close>.\<close>

definition ring_append :: "nat \<Rightarrow> 'c \<Rightarrow> 'c list \<Rightarrow> 'c list" where
  "ring_append n x r = drop (length r + 1 - n) (r @ [x])"

definition ring_size :: "int \<Rightarrow> nat" where
  "ring_size preroll_max = nat (max 1 preroll_max)"

definition ring_drain :: "'c list \<Rightarrow> 'c list \<times> 'c list" where
  "ring_drain r = (r, [])"

section \<open>The gate\<close>

record vad_params =
  vp_chunk_ms :: int
  vp_preroll_ms :: int
  vp_silence_ms :: int
  vp_min_speech_ms :: int

datatype 'c vad_out = SpeechStart | Audio 'c | SpeechEnd

record 'c vad_state =
  vg_speech :: bool
  vg_speech_acc :: int
  vg_silence_acc :: int
  vg_preroll :: "'c list"

definition vad_start :: "'c vad_state" where
  "vad_start = \<lparr>vg_speech = False, vg_speech_acc = 0, vg_silence_acc = 0, vg_preroll = []\<rparr>"

definition chunk_ms :: "vad_params \<Rightarrow> int" where
  "chunk_ms P = max 1 (vp_chunk_ms P)"

definition preroll_max :: "vad_params \<Rightarrow> nat" where
  "preroll_max P = ring_size (py_round (of_int (vp_preroll_ms P) / of_int (chunk_ms P)))"

definition vad_idle :: "vad_params \<Rightarrow> 'c \<Rightarrow> bool \<Rightarrow> 'c vad_state \<Rightarrow> 'c vad_out list \<times> 'c vad_state" where
  "vad_idle P x is_speech g =
     (let ring = ring_append (preroll_max P) x (vg_preroll g)
      in if is_speech then
           (let acc = vg_speech_acc g + chunk_ms P
            in if acc \<ge> vp_min_speech_ms P
               then (SpeechStart # map Audio (fst (ring_drain ring)),
                     g\<lparr>vg_speech := True, vg_speech_acc := acc, vg_silence_acc := 0, vg_preroll := snd (ring_drain ring)\<rparr>)
               else ([], g\<lparr>vg_speech_acc := acc, vg_preroll := ring\<rparr>))
         else ([], g\<lparr>vg_speech_acc := 0, vg_preroll := ring\<rparr>))"

definition vad_speaking :: "vad_params \<Rightarrow> 'c \<Rightarrow> bool \<Rightarrow> 'c vad_state \<Rightarrow> 'c vad_out list \<times> 'c vad_state" where
  "vad_speaking P x is_speech g =
     (if is_speech then ([Audio x], g\<lparr>vg_silence_acc := 0\<rparr>)
      else (let acc = vg_silence_acc g + chunk_ms P
            in if acc \<ge> vp_silence_ms P then ([Audio x, SpeechEnd], vad_start)
               else ([Audio x], g\<lparr>vg_silence_acc := acc\<rparr>)))"

definition vad_step ::
    "vad_params \<Rightarrow> 'c \<times> bool \<Rightarrow> 'c vad_out list \<times> 'c vad_state \<Rightarrow> 'c vad_out list \<times> 'c vad_state" where
  "vad_step P = (\<lambda>(x, is_speech) (out, g).
     let (os, g') = (if vg_speech g then vad_speaking P x is_speech g else vad_idle P x is_speech g)
     in (out @ os, g'))"

definition vad_gated :: "vad_params \<Rightarrow> ('c \<times> bool) list \<Rightarrow> 'c vad_out list \<times> 'c vad_state" where
  "vad_gated P frames = fold (vad_step P) frames ([], vad_start)"

section \<open>Lemmas\<close>

lemma preroll_max_pos: "1 \<le> preroll_max P"
  by (simp add: preroll_max_def ring_size_def)

text \<open>A segment: where its audio begins, the chunk that confirmed the onset, where it ends.\<close>

type_synonym vseg = "nat \<times> nat \<times> nat"

definition slice :: "nat \<Rightarrow> nat \<Rightarrow> 'a list \<Rightarrow> 'a list" where
  "slice a b xs = take (b - a) (drop a xs)"

definition render :: "'c list \<Rightarrow> vseg list \<Rightarrow> 'c vad_out list" where
  "render cs segs = concat (map (\<lambda>(a, on, b). SpeechStart # map Audio (slice a b cs) @ [SpeechEnd]) segs)"

text \<open>Where the audio of a segment with onset \<open>on\<close> begins, when the last one ended at \<open>e\<close>: a ring before the end
  of the onset chunk, but not before \<open>e\<close>.\<close>

definition seg_begin :: "nat \<Rightarrow> nat \<Rightarrow> nat \<Rightarrow> nat" where
  "seg_begin ring e on = on + 1 - min ring (on + 1 - e)"

fun segs_ok :: "nat \<Rightarrow> ('c \<times> bool) list \<Rightarrow> nat \<Rightarrow> vseg list \<Rightarrow> bool" where
  "segs_ok ring fs e [] = (e \<le> length fs)"
| "segs_ok ring fs e ((a, on, b) # segs) =
     (e \<le> on \<and> on < b \<and> a = seg_begin ring e on \<and> snd (fs ! on) \<and> \<not> snd (fs ! (b - 1)) \<and> segs_ok ring fs b segs)"

fun last_end :: "nat \<Rightarrow> vseg list \<Rightarrow> nat" where
  "last_end e [] = e"
| "last_end e ((a, on, b) # segs) = last_end b segs"

lemma last_end_le: "segs_ok ring fs e segs \<Longrightarrow> last_end e segs \<le> length fs"
  by (induction ring fs e segs rule: segs_ok.induct) auto

lemma segs_ok_le: "segs_ok ring fs e segs \<Longrightarrow> e \<le> last_end e segs"
  by (induction ring fs e segs rule: segs_ok.induct) auto

lemma segs_ok_grow:
  "segs_ok ring fs e segs \<Longrightarrow> segs_ok ring (fs @ [f]) e segs \<and> render (map fst (fs @ [f])) segs = render (map fst fs) segs"
proof (induction ring fs e segs rule: segs_ok.induct)
  case (2 ring fs e a on b segs)
  have "b \<le> length fs" using 2(2) segs_ok_le [of ring fs b segs] last_end_le [of ring fs b segs] by auto
  then show ?case using 2 by (auto simp: render_def slice_def nth_append)
qed (simp add: render_def)

lemma segs_ok_snoc:
  "segs_ok ring fs e segs \<Longrightarrow> last_end e segs \<le> on \<Longrightarrow> on < b \<Longrightarrow> b \<le> length fs \<Longrightarrow> snd (fs ! on) \<Longrightarrow>
   \<not> snd (fs ! (b - 1)) \<Longrightarrow>
   segs_ok ring fs e (segs @ [(seg_begin ring (last_end e segs) on, on, b)]) \<and>
   last_end e (segs @ [(seg_begin ring (last_end e segs) on, on, b)]) = b"
  by (induction ring fs e segs rule: segs_ok.induct) auto

lemma render_snoc:
  "render cs (segs @ [(a, on, b)]) = render cs segs @ SpeechStart # map Audio (slice a b cs) @ [SpeechEnd]"
  by (simp add: render_def)

text \<open>The invariant: what has been sent, and what the ring holds.\<close>

definition vad_inv :: "vad_params \<Rightarrow> ('c \<times> bool) list \<Rightarrow> 'c vad_out list \<times> 'c vad_state \<Rightarrow> bool" where
  "vad_inv P fs = (\<lambda>(out, g). \<exists>segs. segs_ok (preroll_max P) fs 0 segs \<and>
     (let e = last_end 0 segs; cs = map fst fs; sent = render cs segs
      in if vg_speech g
         then (\<exists>on. e \<le> on \<and> on < length fs \<and> snd (fs ! on) \<and>
                    out = sent @ SpeechStart # map Audio (drop (seg_begin (preroll_max P) e on) cs))
         else out = sent \<and> vg_preroll g = drop (length fs - min (preroll_max P) (length fs - e)) cs))"

lemma vad_inv_start: "vad_inv P [] ([], vad_start)"
  unfolding vad_inv_def by (auto simp: vad_start_def render_def intro!: exI [of _ "[]"])

lemma ring_append_drop:
  assumes "1 \<le> n" and "e \<le> length cs"
  shows "ring_append n x (drop (length cs - min n (length cs - e)) cs) =
         drop (length cs + 1 - min n (length cs + 1 - e)) (cs @ [x])"
proof (cases "n \<le> length cs - e")
  case True
  then show ?thesis using assms by (simp add: ring_append_def min_def Suc_diff_le)
next
  case False
  then have "min n (length cs - e) = length cs - e" "min n (length cs + 1 - e) = length cs + 1 - e" by auto
  then show ?thesis using assms False by (simp add: ring_append_def)
qed

lemma seg_begin_le: "1 \<le> ring \<Longrightarrow> e \<le> on \<Longrightarrow> seg_begin ring e on \<le> on \<and> e \<le> seg_begin ring e on"
  by (auto simp: seg_begin_def min_def)

text \<open>One chunk while idle, and one while speaking.\<close>

lemma vad_idle_inv:
  assumes ok: "segs_ok (preroll_max P) fs 0 segs" and idle: "\<not> vg_speech g"
    and ring: "vg_preroll g = drop (length fs - min (preroll_max P) (length fs - last_end 0 segs)) (map fst fs)"
  shows "vad_inv P (fs @ [(x, v)]) (vad_step P (x, v) (render (map fst fs) segs, g))"
proof -
  let ?fs = "fs @ [(x, v)]" and ?e = "last_end 0 segs" and ?n = "preroll_max P"
  have e: "?e \<le> length fs" by (rule last_end_le [OF ok])
  note grow = segs_ok_grow [OF ok, of "(x, v)"]
  have ring': "ring_append ?n x (vg_preroll g) = drop (length ?fs - min ?n (length ?fs - ?e)) (map fst ?fs)"
    using ring_append_drop [OF preroll_max_pos, of ?e "map fst fs" P x] ring e by simp
  show ?thesis
  proof (cases "v \<and> vp_min_speech_ms P \<le> vg_speech_acc g + chunk_ms P")
    case True
    have "vad_step P (x, v) (render (map fst fs) segs, g) =
        (render (map fst fs) segs @ SpeechStart # map Audio (drop (seg_begin ?n ?e (length fs)) (map fst ?fs)),
         g\<lparr>vg_speech := True, vg_speech_acc := vg_speech_acc g + chunk_ms P, vg_silence_acc := 0, vg_preroll := []\<rparr>)"
      using idle True ring' by (simp add: vad_step_def vad_idle_def ring_drain_def seg_begin_def)
    then show ?thesis using grow e True
      by (auto simp: vad_inv_def Let_def intro!: exI [of _ segs] exI [of _ "length fs"])
  next
    case False
    then have "vad_step P (x, v) (render (map fst fs) segs, g) =
        (render (map fst fs) segs,
         g\<lparr>vg_speech_acc := (if v then vg_speech_acc g + chunk_ms P else 0),
           vg_preroll := ring_append ?n x (vg_preroll g)\<rparr>)"
      using idle by (cases v) (simp_all add: vad_step_def vad_idle_def Let_def)
    then show ?thesis using grow idle ring' by (auto simp: vad_inv_def Let_def intro!: exI [of _ segs])
  qed
qed

lemma vad_speaking_inv:
  assumes ok: "segs_ok (preroll_max P) fs 0 segs" and speech: "vg_speech g"
    and on: "last_end 0 segs \<le> on" "on < length fs" "snd (fs ! on)"
    and out: "out = render (map fst fs) segs @
        SpeechStart # map Audio (drop (seg_begin (preroll_max P) (last_end 0 segs) on) (map fst fs))"
  shows "vad_inv P (fs @ [(x, v)]) (vad_step P (x, v) (out, g))"
proof -
  let ?fs = "fs @ [(x, v)]" and ?a = "seg_begin (preroll_max P) (last_end 0 segs) on"
  note grow = segs_ok_grow [OF ok, of "(x, v)"]
  have a: "?a \<le> length fs" using seg_begin_le [OF preroll_max_pos on(1), of P] on(2) by simp
  show ?thesis
  proof (cases "\<not> v \<and> vp_silence_ms P \<le> vg_silence_acc g + chunk_ms P")
    case True
    let ?segs = "segs @ [(?a, on, length ?fs)]"
    have step: "vad_step P (x, v) (out, g) = (out @ [Audio x, SpeechEnd], vad_start)"
      using True speech by (simp add: vad_step_def vad_speaking_def)
    have "segs_ok (preroll_max P) ?fs 0 ?segs \<and> last_end 0 ?segs = length ?fs"
      using segs_ok_snoc [OF conjunct1 [OF grow] on(1), of "length ?fs"] on(2,3) True by (simp add: nth_append)
    moreover have "out @ [Audio x, SpeechEnd] = render (map fst ?fs) ?segs"
      using grow a by (simp add: render_snoc out slice_def)
    ultimately show ?thesis unfolding step vad_inv_def
      by (auto simp: vad_start_def Let_def intro!: exI [of _ ?segs])
  next
    case False
    then have "vad_step P (x, v) (out, g) =
        (out @ [Audio x], g\<lparr>vg_silence_acc := (if v then 0 else vg_silence_acc g + chunk_ms P)\<rparr>)"
      using speech by (cases v) (simp_all add: vad_step_def vad_speaking_def Let_def)
    then show ?thesis using grow speech on a out
      by (auto simp: vad_inv_def Let_def nth_append intro!: exI [of _ segs] exI [of _ on])
  qed
qed

lemma vad_step_inv:
  assumes "vad_inv P fs og"
  shows "vad_inv P (fs @ [f]) (vad_step P f og)"
proof -
  obtain x v out g where f: "f = (x, v)" "og = (out, g)" by (cases f, cases og)
  obtain segs where ok: "segs_ok (preroll_max P) fs 0 segs"
    and st: "if vg_speech g
         then (\<exists>on. last_end 0 segs \<le> on \<and> on < length fs \<and> snd (fs ! on) \<and>
                    out = render (map fst fs) segs @
                      SpeechStart # map Audio (drop (seg_begin (preroll_max P) (last_end 0 segs) on) (map fst fs)))
         else out = render (map fst fs) segs \<and>
              vg_preroll g = drop (length fs - min (preroll_max P) (length fs - last_end 0 segs)) (map fst fs)"
    using assms by (auto simp: vad_inv_def f(2) Let_def)
  show ?thesis
  proof (cases "vg_speech g")
    case True
    then show ?thesis using vad_speaking_inv [OF ok True] st unfolding f by auto
  next
    case False
    then show ?thesis using vad_idle_inv [OF ok False] st unfolding f by auto
  qed
qed

lemma vad_gated_inv: "vad_inv P frames (vad_gated P frames)"
  unfolding vad_gated_def
  by (induction frames rule: rev_induct) (simp_all add: vad_inv_start vad_step_inv)

section \<open>Properties\<close>

text \<open>What the gate sends is a sequence of utterances, each announced, then its chunks, then its end:
  every chunk from the beginning of the utterance to its end exactly once and in order, no chunk
  in two utterances.  An utterance begins a full ring of chunks before the end of the chunk that
  confirmed it (less only when the previous utterance ended more recently, or the stream began),
  and ends with a silent chunk; only the last one can still be open.\<close>
theorem vad_gate_segments:
  "\<exists>segs tail e on.
     fst (vad_gated P frames) = render (map fst frames) segs @ tail \<and>
     segs_ok (preroll_max P) frames 0 segs \<and> e = last_end 0 segs \<and>
     vg_speech (snd (vad_gated P frames)) = (tail \<noteq> []) \<and>
     (tail = [] \<or>
      (e \<le> on \<and> on < length frames \<and> snd (frames ! on) \<and>
       tail = SpeechStart # map Audio (drop (seg_begin (preroll_max P) e on) (map fst frames))))"
proof -
  obtain out g where og: "vad_gated P frames = (out, g)" by fastforce
  obtain segs where ok: "segs_ok (preroll_max P) frames 0 segs"
    and st: "if vg_speech g
         then (\<exists>on. last_end 0 segs \<le> on \<and> on < length frames \<and> snd (frames ! on) \<and>
                    out = render (map fst frames) segs @
                      SpeechStart # map Audio (drop (seg_begin (preroll_max P) (last_end 0 segs) on) (map fst frames)))
         else out = render (map fst frames) segs \<and>
              vg_preroll g = drop (length frames - min (preroll_max P) (length frames - last_end 0 segs)) (map fst frames)"
    using vad_gated_inv [of P frames] by (auto simp: vad_inv_def og Let_def)
  show ?thesis
  proof (cases "vg_speech g")
    case True
    then obtain on where "last_end 0 segs \<le> on" "on < length frames" "snd (frames ! on)"
      "out = render (map fst frames) segs @
        SpeechStart # map Audio (drop (seg_begin (preroll_max P) (last_end 0 segs) on) (map fst frames))"
      using st by auto
    then show ?thesis using True ok og by fastforce
  next
    case False
    then show ?thesis using st ok og by fastforce
  qed
qed

end
