(* ===== verification/ToolRegistry.thy ===== *)
theory ToolRegistry
  imports Json
begin

text \<open>
  The agent's tool registry (\<open>agent/ovs_agent/tools/registry.py\<close>): JSON schemas from type hints,
  registration, the lists sent to the model and to the server, and the dispatch of a call.  A tool's
  function is an argument: what it does on the arguments it is given.
\<close>

section \<open>Schemas\<close>

datatype hint =
    HStr | HBool | HInt | HFloat | HList | HDict | HNone | HOther
  | HLiteral json "json list"
  | HUnion "hint list"
  | HSequence "hint list"
  | HMapping

definition type_schema :: "string \<Rightarrow> json" where
  "type_schema t = JObj [(''type'', JStr t)]"

definition literal_type :: "json \<Rightarrow> string" where
  "literal_type v =
     (case v of JBool b \<Rightarrow> ''boolean'' | JInt n \<Rightarrow> ''integer'' | JFloat f \<Rightarrow> ''number'' | _ \<Rightarrow> ''string'')"

text \<open>\<open>_py_type_to_schema\<close>: a union with one type besides \<open>None\<close> is that type, any other union a string.\<close>

fun py_type_to_schema :: "hint \<Rightarrow> json" and hint_schemas :: "hint list \<Rightarrow> (hint \<times> json) list" where
  "py_type_to_schema (HLiteral v vs) = JObj [(''type'', JStr (literal_type v)), (''enum'', JArr (v # vs))]"
| "py_type_to_schema (HUnion args) =
     (case filter (\<lambda>(a, s). a \<noteq> HNone) (hint_schemas args) of [(a, s)] \<Rightarrow> s | _ \<Rightarrow> type_schema ''string'')"
| "py_type_to_schema (HSequence args) =
     JObj [(''type'', JStr ''array''),
           (''items'', case hint_schemas args of [] \<Rightarrow> type_schema ''string'' | (a, s) # rest \<Rightarrow> s)]"
| "py_type_to_schema HMapping = type_schema ''object''"
| "py_type_to_schema HStr = type_schema ''string''"
| "py_type_to_schema HBool = type_schema ''boolean''"
| "py_type_to_schema HInt = type_schema ''integer''"
| "py_type_to_schema HFloat = type_schema ''number''"
| "py_type_to_schema HList = type_schema ''array''"
| "py_type_to_schema HDict = type_schema ''object''"
| "py_type_to_schema HNone = type_schema ''string''"
| "py_type_to_schema HOther = type_schema ''string''"
| "hint_schemas [] = []"
| "hint_schemas (h # hs) = (h, py_type_to_schema h) # hint_schemas hs"

record param =
  pa_name :: string
  pa_hint :: hint
  pa_default :: bool

text \<open>The parameters the model sees: all but \<open>ctx\<close>.\<close>

definition visible_params :: "param list \<Rightarrow> param list" where
  "visible_params ps = filter (\<lambda>p. pa_name p \<noteq> ''ctx'') ps"

definition tool_properties :: "param list \<Rightarrow> jdict" where
  "tool_properties ps = map (\<lambda>p. (pa_name p, py_type_to_schema (pa_hint p))) (visible_params ps)"

definition tool_parameters :: "param list \<Rightarrow> jdict" where
  "tool_parameters ps =
     (let required = map (JStr \<circ> pa_name) (filter (\<lambda>p. \<not> pa_default p) (visible_params ps))
      in [(''type'', JStr ''object''), (''properties'', JObj (tool_properties ps))] @
         (if required = [] then [] else [(''required'', JArr required)]))"

section \<open>The registry\<close>

record tool =
  tl_name :: string
  tl_description :: string
  tl_params :: "param list"
  tl_preamble :: string
  tl_completion :: string
  tl_mode :: string

type_synonym registry = "(string \<times> tool) list"

fun reg_put :: "string \<Rightarrow> tool \<Rightarrow> registry \<Rightarrow> registry" where
  "reg_put n t [] = [(n, t)]"
| "reg_put n t ((n', t') # r) = (if n = n' then (n, t) # r else (n', t') # reg_put n t r)"

text \<open>The decorator: the name is the given one or the function's.\<close>

definition register_tool ::
    "string option \<Rightarrow> string \<Rightarrow> string \<Rightarrow> string option \<Rightarrow> param list \<Rightarrow> string \<Rightarrow> string \<Rightarrow> string \<Rightarrow> registry \<Rightarrow> registry" where
  "register_tool name fn_name description doc ps preamble completion mode r =
     (let n = (case name of Some s \<Rightarrow> (if s \<noteq> [] then s else fn_name) | None \<Rightarrow> fn_name);
          d = (if description \<noteq> [] then description
               else py_strip (case doc of Some s \<Rightarrow> s | None \<Rightarrow> []))
      in reg_put n \<lparr>tl_name = n, tl_description = d, tl_params = ps, tl_preamble = preamble,
                   tl_completion = completion, tl_mode = mode\<rparr> r)"

definition unregister_tool :: "string \<Rightarrow> registry \<Rightarrow> bool \<times> registry" where
  "unregister_tool n r = (map_of r n \<noteq> None, filter (\<lambda>(n', t). n' \<noteq> n) r)"

definition has_tool :: "string \<Rightarrow> registry \<Rightarrow> bool" where
  "has_tool n r \<longleftrightarrow> map_of r n \<noteq> None"

definition list_names :: "registry \<Rightarrow> string list" where
  "list_names r = map fst r"

definition exposed :: "string set option \<Rightarrow> registry \<Rightarrow> registry" where
  "exposed allow r = filter (\<lambda>(n, t). case allow of None \<Rightarrow> True | Some A \<Rightarrow> n \<in> A) r"

definition openai_tool :: "tool \<Rightarrow> jdict" where
  "openai_tool t =
     [(''type'', JStr ''function''),
      (''function'', JObj [(''name'', JStr (tl_name t)), (''description'', JStr (tl_description t)),
                           (''parameters'', JObj (tool_parameters (tl_params t)))])]"

definition list_openai_tools :: "string set option \<Rightarrow> registry \<Rightarrow> jdict list" where
  "list_openai_tools allow r = map (openai_tool \<circ> snd) (exposed allow r)"

text \<open>The server's list also carries what to say and how to sequence the reply.\<close>

definition advertise_tool :: "tool \<Rightarrow> jdict" where
  "advertise_tool t =
     openai_tool t @
     (if tl_preamble t \<noteq> [] then [(''preamble_text'', JStr (tl_preamble t))] else []) @
     (if tl_completion t \<noteq> [] then [(''completion_text'', JStr (tl_completion t))] else []) @
     (if tl_mode t \<noteq> [] \<and> tl_mode t \<noteq> ''await'' then [(''response_mode'', JStr (tl_mode t))] else [])"

definition list_advertise_tools :: "string set option \<Rightarrow> registry \<Rightarrow> jdict list" where
  "list_advertise_tools allow r = map (advertise_tool \<circ> snd) (exposed allow r)"

section \<open>Dispatch\<close>

text \<open>What the function does: returns, takes longer than the tool's time, or raises.\<close>

datatype tool_result = Returned json | TimedOut | Raised string

definition clean_args :: "tool \<Rightarrow> jdict option \<Rightarrow> jdict" where
  "clean_args t args =
     filter (\<lambda>(k, v). k \<in> fst ` set (tool_properties (tl_params t))) (case args of None \<Rightarrow> [] | Some d \<Rightarrow> d)"

definition wants_ctx :: "tool \<Rightarrow> bool" where
  "wants_ctx t \<longleftrightarrow> ''ctx'' \<in> set (map pa_name (tl_params t))"

definition failure :: "string \<Rightarrow> jdict" where
  "failure e = [(''success'', JBool False), (''error'', JStr e)]"

text \<open>\<open>call t args ctx\<close>: the function on the cleaned arguments, with the context if it asks for it.\<close>

definition dispatch ::
    "(tool \<Rightarrow> jdict \<Rightarrow> bool \<Rightarrow> tool_result) \<Rightarrow> (tool \<Rightarrow> string) \<Rightarrow> registry \<Rightarrow> string \<Rightarrow> jdict option \<Rightarrow> jdict" where
  "dispatch call timeout_text r name args =
     (case map_of r name of
        None \<Rightarrow> failure (''unknown tool: '' @ name)
      | Some t \<Rightarrow>
          (case call t (clean_args t args) (wants_ctx t) of
             Returned (JObj d) \<Rightarrow> d
           | Returned v \<Rightarrow> [(''value'', v)]
           | TimedOut \<Rightarrow> failure (timeout_text t)
           | Raised e \<Rightarrow> failure e))"

section \<open>Lemmas\<close>

lemma map_of_reg_put [simp]: "map_of (reg_put n t r) = (map_of r)(n \<mapsto> t)"
  by (induction r) auto

lemma list_names_reg_put: "list_names (reg_put n t r) = (if has_tool n r then list_names r else list_names r @ [n])"
  by (induction r) (auto simp: list_names_def has_tool_def)

lemma distinct_names_put: "distinct (list_names r) \<Longrightarrow> distinct (list_names (reg_put n t r))"
  unfolding list_names_reg_put by (simp add: has_tool_def list_names_def map_of_eq_None_iff)

text \<open>The model cannot set the context: the arguments that reach a tool are the model's for the declared
  parameters, and \<open>ctx\<close> is never one of them.\<close>

lemma clean_args_declared:
  "(k, v) \<in> set (clean_args t args) \<Longrightarrow>
   k \<noteq> ''ctx'' \<and> k \<in> set (map pa_name (tl_params t)) \<and> (\<exists>d. args = Some d \<and> (k, v) \<in> set d)"
  by (auto simp: clean_args_def tool_properties_def visible_params_def split: option.splits)

text \<open>The two lists name the same tools in the same order; only the server's has the extra fields.\<close>

lemma lists_agree:
  "map (take 2) (list_advertise_tools allow r) = list_openai_tools allow r"
  by (simp add: list_advertise_tools_def list_openai_tools_def advertise_tool_def openai_tool_def)

lemma unregister_gone: "\<not> has_tool n (snd (unregister_tool n r))"
  by (induction r) (auto simp: has_tool_def unregister_tool_def)

lemma dispatch_unknown: "\<not> has_tool n r \<Longrightarrow> jget ''success'' (dispatch call tt r n args) = JBool False"
  by (simp add: has_tool_def dispatch_def failure_def jget_or_def)

text \<open>A tool that is not exposed to the model can still be dispatched by name: the list is a filter of what
  the model sees, not of what it may call.\<close>

lemma allow_list_not_enforced:
  "has_tool n r \<Longrightarrow> call (the (map_of r n)) (clean_args (the (map_of r n)) args) (wants_ctx (the (map_of r n))) =
     Returned (JObj d) \<Longrightarrow> list_openai_tools (Some {}) r = [] \<and> dispatch call tt r n args = d"
  by (auto simp: has_tool_def dispatch_def list_openai_tools_def exposed_def)

end
