(* ===== verification/V2Proxy.thy ===== *)
theory V2Proxy
  imports Realtime "HOL-Library.Word"
begin

text \<open>
  The Realtime V2 proxy in front of the voice engine (\<open>_RealtimeV2WebSocketProxy\<close> in
  \<open>server/main.py\<close>): client messages become the engine's own, the engine's events become canonical ones
  through the adapter.  With it the helpers of the voice WebSocket:
  the bound on kept audio and the eviction of a stale session.  The engine's tool
  registry is the set of names registered there; \<open>loads\<close> is \<open>json.loads\<close>.
\<close>

section \<open>The proxy\<close>

record proxy =
  px_adapter :: adapter
  px_binary :: bool
  px_pending :: "jdict list"
  px_registry :: "string set option"
  px_advertised :: "string set"

definition new_proxy :: "adapter \<Rightarrow> proxy" where
  "new_proxy a = \<lparr>px_adapter = a, px_binary = False, px_pending = [], px_registry = None, px_advertised = {}\<rparr>"

definition bind_tool_registry :: "string set \<Rightarrow> proxy \<Rightarrow> proxy" where
  "bind_tool_registry r P = P\<lparr>px_registry := Some r\<rparr>"

record proxy_env =
  pe_idf :: id_factory
  pe_repr :: "json \<Rightarrow> string"
  pe_dumps :: "jdict \<Rightarrow> string"
  pe_loads :: "string \<Rightarrow> json option"

text \<open>What \<open>receive\<close> does with one message of the client: hands it on as it came, hands on a payload, waits
  for the next one, or raises.\<close>

datatype received = AsItCame | Payload jdict | Again | Raises py_error

type_synonym handled = "received \<times> observation list \<times> proxy"

definition hand_on :: "jdict \<Rightarrow> proxy \<Rightarrow> handled" where
  "hand_on d P = (Payload d, [], P)"

definition px_error :: "proxy_env \<Rightarrow> string \<Rightarrow> string \<Rightarrow> string \<Rightarrow> proxy \<Rightarrow> handled" where
  "px_error E code text par P =
     (let (evs, a) = translate (pe_idf E) (pe_repr E) (pe_dumps E)
                       [(''type'', JStr ''error''), (''code'', JStr code), (''error'', JStr text),
                        (''param'', JStr par)] (px_adapter P)
      in (Again, [Sent (hd evs)], P\<lparr>px_adapter := a\<rparr>))"

definition px_cancel :: "string \<Rightarrow> proxy \<Rightarrow> proxy" where
  "px_cancel reason P = P\<lparr>px_adapter := mark_cancelled reason (px_adapter P)\<rparr>"

definition abort_payload :: "bool \<Rightarrow> jdict" where
  "abort_payload keep = [(''type'', JStr ''abort'')] @ (if keep then [(''keep_asr'', JBool True)] else [])"

text \<open>\<open>list(x or [])\<close>.\<close>

definition list_or_empty :: "json \<Rightarrow> py_error + json list" where
  "list_or_empty j =
     (if \<not> json_truthy j then Inr []
      else (case j of
              JArr xs \<Rightarrow> Inr xs
            | JStr s \<Rightarrow> Inr (map (\<lambda>c. JStr [c]) s)
            | JObj d \<Rightarrow> Inr (map (\<lambda>(k, v). JStr k) d)
            | _ \<Rightarrow> Inl TypeError))"

text \<open>The name of an advertised tool, if the entry and its function are dictionaries.\<close>

definition tool_name :: "(json \<Rightarrow> string) \<Rightarrow> json \<Rightarrow> string option" where
  "tool_name py_repr entry =
     (case entry of
        JObj d \<Rightarrow>
          (case jor (jget ''function'' d) entry of
             JObj f \<Rightarrow> Some (json_str py_repr (jor (jget ''name'' f) (JStr [])))
           | _ \<Rightarrow> None)
      | _ \<Rightarrow> None)"

definition tool_names :: "(json \<Rightarrow> string) \<Rightarrow> json list \<Rightarrow> string set" where
  "tool_names py_repr tools = set (List.map_filter (tool_name py_repr) tools) - {[]}"

definition advertised_entry :: "json \<Rightarrow> json option" where
  "advertised_entry entry =
     (case entry of JObj d \<Rightarrow> Some (JObj (dict_update d (get_sub ''x_v2v'' d))) | _ \<Rightarrow> None)"

definition px_session_update :: "proxy_env \<Rightarrow> jdict \<Rightarrow> proxy \<Rightarrow> handled" where
  "px_session_update E payload P =
     (let session = get_sub ''session'' payload; extension = get_sub ''x_v2v'' session;
          supplied = jhas ''tools'' session
      in case list_or_empty (jget ''tools'' session) of
           Inl e \<Rightarrow> (Raises e, [], P)
         | Inr tools \<Rightarrow>
             (let names = tool_names (pe_repr E) tools;
                  P1 = (if supplied
                        then P\<lparr>px_registry := map_option (\<lambda>r. r - (px_advertised P - names)) (px_registry P),
                               px_advertised := names\<rparr>
                        else P)
              in case dict_or_empty (jget ''llm_params'' extension) of
                   Inl e \<Rightarrow> (Raises e, [], P1)
                 | Inr llm \<Rightarrow>
                     (case session_updated (pe_idf E) session None None (px_adapter P1) of
                        (Inl e, a) \<Rightarrow> (Raises e, [], P1\<lparr>px_adapter := a\<rparr>)
                      | (Inr ev, a) \<Rightarrow>
                          (Payload
                             [(''type'', JStr ''tool_advertise''),
                              (''tools'', JArr (List.map_filter advertised_entry tools)),
                              (''system_prompt'', jget ''instructions'' session),
                              (''llm_params'', JObj llm), (''warm_prefix'', JBool supplied)],
                           [Sent ev], P1\<lparr>px_adapter := a\<rparr>))))"

text \<open>The result of a tool: the output's text if it decodes, wrapped when it is no dictionary.\<close>

definition tool_outcome :: "proxy_env \<Rightarrow> json \<Rightarrow> jdict" where
  "tool_outcome E output =
     (let result = (case output of
                      JStr s \<Rightarrow>
                        (case pe_loads E s of
                           Some j \<Rightarrow> j
                         | None \<Rightarrow> JObj [(''ok'', JBool True), (''result'', JObj [(''output'', JStr s)])])
                    | _ \<Rightarrow> output)
      in case result of JObj d \<Rightarrow> d | j \<Rightarrow> [(''result'', j)])"

definition px_item_create :: "proxy_env \<Rightarrow> jdict \<Rightarrow> proxy \<Rightarrow> handled" where
  "px_item_create E payload P =
     (let item = get_sub ''item'' payload
      in if jget ''type'' item \<noteq> JStr ''function_call_output'' then
           px_error E ''unsupported_conversation_item'' ''only function_call_output items are accepted'' ''item.type'' P
         else
           (let result = tool_outcome E (jget_or (JStr ''{}'') ''output'' item);
                ok = json_truthy (jget_or (JBool True) ''ok'' result);
                base = [(''type'', JStr ''tool_result''), (''call_id'', jget ''call_id'' item),
                        (''id'', jget ''call_id'' item), (''name'', jget_or (JStr []) ''name'' result),
                        (''ok'', JBool ok)]
            in if ok then
                 (let v = jget_or (JObj result) ''result'' result
                  in hand_on (base @ [(''result'', case v of JObj d \<Rightarrow> v | _ \<Rightarrow> JObj [(''value'', v)])]) P)
               else
                 hand_on (base @ [(''error'', JStr (json_str (pe_repr E)
                            (jor (jget ''error'' result) (JStr ''tool execution failed''))))]) P))"

definition px_truncate :: "proxy_env \<Rightarrow> jdict \<Rightarrow> proxy \<Rightarrow> handled" where
  "px_truncate E payload P =
     (case json_int (jget_or (JInt 0) ''audio_end_ms'' payload) of
        Inl OverflowError \<Rightarrow> (Raises OverflowError, [], P)
      | Inl e \<Rightarrow> px_error E ''invalid_audio_end_ms'' ''audio_end_ms must be a non-negative integer'' ''audio_end_ms'' P
      | Inr n \<Rightarrow>
          (let (ev, a) = mk_event (pe_idf E) ''conversation.item.truncated''
                           [(''item_id'', jget ''item_id'' payload),
                            (''content_index'', jget_or (JInt 0) ''content_index'' payload),
                            (''audio_end_ms'', JInt (max 0 n))] (px_adapter P)
           in (Again, [Sent ev], P\<lparr>px_adapter := a\<rparr>)))"

definition px_reset :: "proxy_env \<Rightarrow> proxy \<Rightarrow> handled" where
  "px_reset E P =
     (let P1 = px_cancel ''conversation_reset'' P;
          (ev, a) = mk_event (pe_idf E) ''x_v2v.conversation.reset.done'' [] (px_adapter P1)
      in (Payload (abort_payload False), [CancelMark, Sent ev], P1\<lparr>px_adapter := a\<rparr>))"

definition px_speak :: "proxy_env \<Rightarrow> jdict \<Rightarrow> proxy \<Rightarrow> handled" where
  "px_speak E payload P =
     (let text = json_str (pe_repr E) (jor (jget ''text'' (get_sub ''speech'' payload)) (JStr []))
      in (Payload [(''type'', JStr ''text''), (''text'', JStr text)], [],
          P\<lparr>px_adapter := mark_direct_speak (px_adapter P),
            px_pending := px_pending P @ [[(''type'', JStr ''tts_flush'')]]\<rparr>))"

definition px_payload :: "proxy_env \<Rightarrow> jdict \<Rightarrow> proxy \<Rightarrow> handled" where
  "px_payload E payload P =
     (let typ = jget ''type'' payload in
      if typ = JStr ''input_audio_buffer.commit'' then hand_on [(''type'', JStr ''asr_eos'')] P
      else if typ = JStr ''response.cancel'' then
        (Payload (abort_payload (json_truthy (jget ''keep_asr'' payload))), [CancelMark],
         px_cancel ''client_cancelled'' P)
      else if typ = JStr ''input_audio_buffer.clear'' then hand_on (abort_payload False) P
      else if typ = JStr ''session.update'' then px_session_update E payload P
      else if typ = JStr ''conversation.item.create'' then px_item_create E payload P
      else if typ = JStr ''x_v2v.response.speak'' then px_speak E payload P
      else if typ = JStr ''conversation.item.truncate'' then px_truncate E payload P
      else if typ = JStr ''x_v2v.conversation.reset'' then px_reset E P
      else hand_on payload P)"

text \<open>A message without text, or whose text does not decode, is handed on as it came; a decoded value that
  is no dictionary has no \<open>get\<close>.\<close>

definition px_message :: "proxy_env \<Rightarrow> string option \<Rightarrow> proxy \<Rightarrow> handled" where
  "px_message E text P =
     (case text of
        None \<Rightarrow> (AsItCame, [], P)
      | Some s \<Rightarrow>
          (if s = [] then (AsItCame, [], P)
           else (case pe_loads E s of
                   None \<Rightarrow> (AsItCame, [], P)
                 | Some (JObj payload) \<Rightarrow> px_payload E payload P
                 | Some j \<Rightarrow> (Raises AttributeError, [], P))))"

text \<open>\<open>receive\<close>, given the client's next messages: a pending message comes first.\<close>

fun px_receive :: "proxy_env \<Rightarrow> string option list \<Rightarrow> proxy \<Rightarrow> handled \<times> string option list" where
  "px_receive E ms P =
     (case px_pending P of
        d # ds \<Rightarrow> ((Payload d, [], P\<lparr>px_pending := ds\<rparr>), ms)
      | [] \<Rightarrow>
          (case ms of
             [] \<Rightarrow> ((Again, [], P), [])
           | m # rest \<Rightarrow>
               (case px_message E m P of
                  (Again, obs, P1) \<Rightarrow>
                    (let ((r, obs', P2), left) = px_receive E rest P1 in ((r, obs @ obs', P2), left))
                | h \<Rightarrow> (h, rest))))"

definition px_send_json :: "proxy_env \<Rightarrow> jdict \<Rightarrow> proxy \<Rightarrow> observation list \<times> proxy" where
  "px_send_json E payload P =
     (let (evs, a) = translate (pe_idf E) (pe_repr E) (pe_dumps E) payload (px_adapter P)
      in (map Sent evs, P\<lparr>px_adapter := a\<rparr>))"

text \<open>The first binary frame is dropped when it has four bytes: the engine's sample rate.\<close>

definition px_send_bytes :: "8 word list \<Rightarrow> proxy \<Rightarrow> 8 word list list \<times> proxy" where
  "px_send_bytes pcm P =
     (if \<not> px_binary P \<and> length pcm = 4 then ([], P\<lparr>px_binary := True\<rparr>)
      else ([pcm], P\<lparr>px_binary := True\<rparr>))"

datatype proxy_event = FromWire "string option" | FromEngine jdict | EngineAudio "8 word list" | TakePending

fun px_step :: "proxy_env \<Rightarrow> proxy_event \<Rightarrow> proxy \<Rightarrow> observation list \<times> proxy" where
  "px_step E (FromWire m) P = (let (r, obs, P') = px_message E m P in (obs, P'))"
| "px_step E (FromEngine d) P = px_send_json E d P"
| "px_step E (EngineAudio pcm) P = ([], snd (px_send_bytes pcm P))"
| "px_step E TakePending P = ([], P\<lparr>px_pending := tl (px_pending P)\<rparr>)"

fun px_run :: "proxy_env \<Rightarrow> proxy_event list \<Rightarrow> proxy \<Rightarrow> observation list \<times> proxy" where
  "px_run E [] P = ([], P)"
| "px_run E (e # es) P =
     (let (o1, P1) = px_step E e P; (o2, P2) = px_run E es P1 in (o1 @ o2, P2))"

section \<open>Helpers of the voice WebSocket\<close>

definition keep_asr_max_s :: "env_map \<Rightarrow> real" where
  "keep_asr_max_s env =
     (let raw = (case env ''OVS_V2V_ABORT_KEEP_ASR_MAX_S'' of None \<Rightarrow> [] | Some s \<Rightarrow> s)
      in if py_strip raw = [] then 5
         else (case py_float raw of Some (Fin v) \<Rightarrow> (if v < 0 then 5 else v) | _ \<Rightarrow> 5))"

text \<open>\<open>_env_truthy\<close>: one matching pair of outer quotes is taken off first.\<close>

definition flag_truthy :: "string option \<Rightarrow> bool" where
  "flag_truthy value =
     (case value of
        None \<Rightarrow> False
      | Some raw \<Rightarrow>
          (let v = py_strip raw
           in truthy (if 2 \<le> length v \<and> hd v = last v \<and> hd v \<in> {CHR 0x22, CHR 0x27}
                      then butlast (tl v) else v)))"

definition v2v_evict_enabled :: "env_map \<Rightarrow> nat option \<Rightarrow> bool" where
  "v2v_evict_enabled env limit \<longleftrightarrow> flag_truthy (env ''OVS_V2V_EVICT_ON_FULL'') \<and> limit = Some 1"

text \<open>\<open>_v2v_evict_and_reacquire\<close>: \<open>first\<close> is the admission retried under the lock, \<open>polls\<close> the results of the later
  attempts; the result is the token, if any, and the holders closed and cancelled.\<close>

definition evict_steps :: nat where "evict_steps = 40"

fun first_token :: "'t option list \<Rightarrow> 't option" where
  "first_token [] = None"
| "first_token (None # ps) = first_token ps"
| "first_token (Some t # ps) = Some t"

definition evict_and_reacquire :: "'t option \<Rightarrow> 'h list \<Rightarrow> 't option list \<Rightarrow> 't option \<times> 'h list" where
  "evict_and_reacquire first holders polls =
     (case first of
        Some t \<Rightarrow> (Some t, [])
      | None \<Rightarrow> (if holders = [] then (None, []) else (first_token (take evict_steps polls), holders)))"

section \<open>Lemmas\<close>

text \<open>A free slot is taken without closing anybody's session.\<close>

lemma evict_only_when_full: "snd (evict_and_reacquire first holders polls) \<noteq> [] \<Longrightarrow> first = None"
  by (auto simp: evict_and_reacquire_def split: option.splits if_splits)

text \<open>The engine hears a direct speech as its text and then, before anything else, the flush.\<close>

lemma direct_speech_flushed_next:
  assumes "px_pending P = []" and "px_message E m P = (r, obs, P')" and "px_pending P' \<noteq> []"
  shows "\<exists>t. r = Payload [(''type'', JStr ''text''), (''text'', t)]"
    and "px_receive E ms P' = ((Payload [(''type'', JStr ''tts_flush'')], [], P'\<lparr>px_pending := []\<rparr>), ms)"
proof -
  have frame: "px_pending (snd (snd (h P))) = px_pending P \<or> h = px_speak E d"
    if "h \<in> {px_session_update E d, px_item_create E d, px_truncate E d, (\<lambda>P. px_reset E P), px_speak E d, hand_on d'}" for h d d'
    using that
    by (auto simp: px_session_update_def px_item_create_def px_truncate_def px_reset_def hand_on_def px_error_def
        px_cancel_def Let_def split: sum.splits prod.splits py_error.splits)
  obtain s d where s: "m = Some s" "pe_loads E s = Some (JObj d)" "px_payload E d P = (r, obs, P')"
    using assms by (auto simp: px_message_def split: option.splits if_splits json.splits)
  have "(r, obs, P') = px_speak E d P"
  proof (rule ccontr)
    assume n: "(r, obs, P') \<noteq> px_speak E d P"
    have "px_pending P' = px_pending P"
      using s(3) n frame [of "px_session_update E d" d d] frame [of "px_item_create E d" d d]
        frame [of "px_truncate E d" d d] frame [of "\<lambda>P. px_reset E P" d d]
      by (auto simp: px_payload_def hand_on_def px_cancel_def Let_def split: if_splits)
    then show False using assms(1,3) by simp
  qed
  then show "\<exists>t. r = Payload [(''type'', JStr ''text''), (''text'', t)]"
    and "px_receive E ms P' = ((Payload [(''type'', JStr ''tts_flush'')], [], P'\<lparr>px_pending := []\<rparr>), ms)"
    using assms(1) by (simp_all add: px_speak_def Let_def)
qed

subsection \<open>The lifecycle through the proxy\<close>

definition px_ok :: "proxy \<Rightarrow> observation list \<Rightarrow> proxy \<Rightarrow> bool" where
  "px_ok P obs P' \<longleftrightarrow>
     life_run obs (life_of (px_adapter P)) = Some (life_of (px_adapter P')) \<and> ad_ok (px_adapter P')"

lemma px_ok_refl: "ad_ok (px_adapter P) \<Longrightarrow> px_adapter P' = px_adapter P \<Longrightarrow> px_ok P [] P'"
  by (simp add: px_ok_def)

lemma px_ok_trans: "px_ok P o1 P1 \<Longrightarrow> px_ok P1 o2 P2 \<Longrightarrow> px_ok P (o1 @ o2) P2"
  by (simp add: px_ok_def)

text \<open>Events of the types the lifecycle does not mention.\<close>

lemma quiet_event:
  "jget ''type'' ev = JStr t \<Longrightarrow>
   t \<in> {''session.updated'', ''conversation.item.truncated'', ''x_v2v.conversation.reset.done'', ''error''} \<Longrightarrow>
   life_event ev l = Some l"
  by (auto simp: life_event_def ev_type_def)

lemma mk_event_quiet:
  assumes "mk_event idf typ rest a = (ev, a')"
    and "typ \<in> {''session.updated'', ''conversation.item.truncated'', ''x_v2v.conversation.reset.done'', ''error''}"
    and "ad_ok a"
  shows "life_run [Sent ev] (life_of a) = Some (life_of a') \<and> ad_ok a'"
  using assms quiet_event [of ev "typ"] by (auto simp: mk_event_def fresh_def life_of_def ad_ok_def jget_or_def split: option.split)

lemma session_updated_quiet:
  assumes "session_updated idf session cr ir a = (res, a')" and "ad_ok a"
  shows "case res of Inl e \<Rightarrow> a' = a
         | Inr ev \<Rightarrow> life_run [Sent ev] (life_of a) = Some (life_of a') \<and> ad_ok a'"
proof -
  have q: "life_run [Sent ev] (life_of a) = Some (life_of a') \<and> ad_ok a'"
    if "mk_event idf ''session.updated'' rest a = (ev, a')" for rest ev
    by (rule mk_event_quiet [OF that _ assms(2)]) simp
  show ?thesis using assms(1) q by (auto simp: session_updated_def Let_def split: sum.splits prod.splits)
qed

lemma px_error_ok:
  assumes "px_error E code text par P = (r, obs, P')" and "ad_ok (px_adapter P)"
  shows "px_ok P obs P'"
proof -
  let ?p = "[(''type'', JStr ''error''), (''code'', JStr code), (''error'', JStr text), (''param'', JStr par)]"
  have tr: "translate (pe_idf E) (pe_repr E) (pe_dumps E) ?p (px_adapter P) = tr_error (pe_idf E) (pe_repr E) ?p (px_adapter P)"
    by (simp add: translate_def canonical_type_def py_startswith_def jget_or_def)
  then obtain ev a where ev: "translate (pe_idf E) (pe_repr E) (pe_dumps E) ?p (px_adapter P) = ([ev], a)"
    by (auto simp: tr_error_def split: prod.splits)
  have "keeps_life (tr_error (pe_idf E) (pe_repr E) ?p) (px_adapter P)"
    by (rule input_events_life(5) [OF assms(2)])
  then show ?thesis using assms(1) ev tr by (auto simp: px_error_def px_ok_def keeps_life_def)
qed

lemma cancel_ok: "ad_ok a \<Longrightarrow> life_run [CancelMark] (life_of a) = Some (life_of (mark_cancelled reason a)) \<and>
    ad_ok (mark_cancelled reason a)"
  by (simp add: mark_cancelled_def life_of_def ad_ok_def split: option.split)

lemma px_session_update_ok:
  assumes "px_session_update E payload P = (r, obs, P')" and "ad_ok (px_adapter P)"
  shows "px_ok P obs P'"
  using assms session_updated_quiet [of "pe_idf E" "get_sub ''session'' payload" None None "px_adapter P"]
  by (auto simp: px_session_update_def px_ok_def Let_def split: sum.splits prod.splits if_splits)

lemma px_payload_ok:
  assumes "px_payload E payload P = (r, obs, P')" and "ad_ok (px_adapter P)"
  shows "px_ok P obs P'"
proof -
  have speak: "px_ok P obs P'" if "px_speak E payload P = (r, obs, P')"
    using that assms(2) by (auto simp: px_speak_def px_ok_def mark_direct_speak_def life_of_def ad_ok_def Let_def split: option.split)
  have cancel: "px_ok P [CancelMark] (px_cancel reason P)" for reason
    using cancel_ok [OF assms(2)] by (simp add: px_ok_def px_cancel_def)
  have item: "px_ok P obs P'" if "px_item_create E payload P = (r, obs, P')"
    using that px_error_ok assms(2)
    by (auto simp: px_item_create_def hand_on_def Let_def px_ok_refl split: if_splits)
  have truncate: "px_ok P obs P'" if "px_truncate E payload P = (r, obs, P')"
  proof (cases "json_int (jget_or (JInt 0) ''audio_end_ms'' payload)")
    case (Inl e)
    then show ?thesis using that px_error_ok assms(2) by (cases e) (auto simp: px_truncate_def px_ok_refl)
  next
    case (Inr n)
    then show ?thesis using that mk_event_quiet [OF _ _ assms(2)]
      by (auto simp: px_truncate_def px_ok_def Let_def split: prod.splits)
  qed
  have reset: "px_ok P obs P'" if "px_reset E P = (r, obs, P')"
  proof -
    obtain ev a where ev: "mk_event (pe_idf E) ''x_v2v.conversation.reset.done'' [] (mark_cancelled ''conversation_reset'' (px_adapter P)) = (ev, a)"
      by fastforce
    have "px_ok P ([CancelMark] @ [Sent ev]) P'"
      using that ev cancel_ok [OF assms(2), of "''conversation_reset''"]
        mk_event_quiet [OF ev _ conjunct2 [OF cancel_ok [OF assms(2)]]]
      by (auto simp: px_reset_def px_cancel_def px_ok_def split: option.splits)
    then show ?thesis using that ev by (auto simp: px_reset_def px_cancel_def)
  qed
  show ?thesis
    using assms px_session_update_ok [OF _ assms(2)] speak cancel item truncate reset
    by (auto simp: px_payload_def hand_on_def px_ok_refl Let_def split: if_splits)
qed

lemma px_step_ok:
  assumes "px_step E e P = (obs, P')" and "ad_ok (px_adapter P)"
    and "\<And>d. e = FromEngine d \<Longrightarrow> \<not> canonical_type (jget ''type'' d)"
  shows "px_ok P obs P'"
proof (cases e)
  case (FromWire m)
  then obtain r where "px_message E m P = (r, obs, P')" using assms(1) by (auto split: prod.splits)
  then show ?thesis using px_payload_ok [OF _ assms(2)] assms(2)
    by (auto simp: px_message_def px_ok_refl split: option.splits if_splits json.splits)
next
  case (FromEngine d)
  then show ?thesis using translate_life [OF assms(2) assms(3) [OF FromEngine], of "pe_idf E" "pe_repr E" "pe_dumps E"] assms(1)
    by (auto simp: px_send_json_def px_ok_def keeps_life_def split: prod.splits)
next
  case (EngineAudio pcm)
  then show ?thesis using assms by (auto simp: px_send_bytes_def px_ok_refl split: if_splits)
next
  case TakePending
  then show ?thesis using assms by (auto simp: px_ok_refl)
qed

lemma px_run_ok:
  assumes "px_run E es P = (obs, P')" and "ad_ok (px_adapter P)"
    and "list_all (\<lambda>e. case e of FromEngine d \<Rightarrow> \<not> canonical_type (jget ''type'' d) | _ \<Rightarrow> True) es"
  shows "px_ok P obs P'"
  using assms
proof (induction es arbitrary: P obs)
  case (Cons e es)
  obtain o1 P1 where st: "px_step E e P = (o1, P1)" by fastforce
  obtain o2 where run: "px_run E es P1 = (o2, P')" "obs = o1 @ o2"
    using Cons.prems(1) st by (auto split: prod.splits)
  have one: "px_ok P o1 P1" by (rule px_step_ok [OF st Cons.prems(2)]) (use Cons.prems(3) in auto)
  then have "px_ok P1 o2 P'" using Cons.IH [OF run(1)] Cons.prems(3) by (simp add: px_ok_def)
  then show ?case using px_ok_trans [OF one] run(2) by simp
qed (simp add: px_ok_refl)

subsection \<open>Property\<close>


definition demo_env :: proxy_env where
  "demo_env = \<lparr>pe_idf = (\<lambda>n k. k), pe_repr = (\<lambda>_. []), pe_dumps = (\<lambda>_. []),
     pe_loads = (\<lambda>s. Some (JObj [(''type'', JStr s)]))\<rparr>"

definition demo_events :: "proxy_event list" where
  "demo_events = [FromEngine [(''type'', JStr ''tts_started'')], FromWire (Some ''response.cancel''),
     EngineAudio [0, 0, 0, 0], FromWire (Some ''conversation.item.create''),
     FromEngine [(''type'', JStr ''tts_done'')], FromWire (Some ''x_v2v.conversation.reset'')]"


end
