(* ===== verification/Actions.thy ===== *)
theory Actions
  imports Prelude
begin

text \<open>
  Handlers that mutate their state and may raise, as actions: functions from a state to a result
  (the exception, or a value) and the state left behind, as Python leaves it when it raises.
  With them the rules of a small program logic: \<open>triple P m Q R\<close> says that from a
  state with \<open>P\<close> the action ends with \<open>Q\<close> when it returns and with \<open>R\<close> when it raises.
\<close>

section \<open>Actions\<close>

type_synonym ('w, 'e, 'a) act = "'w \<Rightarrow> ('e + 'a) \<times> 'w"

definition act_return :: "'a \<Rightarrow> ('w, 'e, 'a) act" where
  "act_return x = (\<lambda>w. (Inr x, w))"

definition act_raise :: "'e \<Rightarrow> ('w, 'e, 'a) act" where
  "act_raise e = (\<lambda>w. (Inl e, w))"

definition act_bind :: "('w, 'e, 'a) act \<Rightarrow> ('a \<Rightarrow> ('w, 'e, 'b) act) \<Rightarrow> ('w, 'e, 'b) act" where
  "act_bind m f = (\<lambda>w. case m w of (Inl e, w1) \<Rightarrow> (Inl e, w1) | (Inr x, w1) \<Rightarrow> f x w1)"

definition act_then :: "('w, 'e, 'a) act \<Rightarrow> ('w, 'e, 'b) act \<Rightarrow> ('w, 'e, 'b) act" where
  "act_then m k = act_bind m (\<lambda>x. k)"

definition act_modify :: "('w \<Rightarrow> 'w) \<Rightarrow> ('w, 'e, unit) act" where
  "act_modify f = (\<lambda>w. (Inr (), f w))"

definition act_get :: "('w \<Rightarrow> 'a) \<Rightarrow> ('w, 'e, 'a) act" where
  "act_get f = (\<lambda>w. (Inr (f w), w))"

text \<open>\<open>try: m except e: h e\<close> and \<open>try: m finally: f\<close>.\<close>

definition act_try :: "('w, 'e, 'a) act \<Rightarrow> ('e \<Rightarrow> ('w, 'e, 'a) act) \<Rightarrow> ('w, 'e, 'a) act" where
  "act_try m h = (\<lambda>w. case m w of (Inl e, w1) \<Rightarrow> h e w1 | (Inr x, w1) \<Rightarrow> (Inr x, w1))"

definition act_finally :: "('w, 'e, 'a) act \<Rightarrow> ('w \<Rightarrow> 'w) \<Rightarrow> ('w, 'e, 'a) act" where
  "act_finally m f = (\<lambda>w. case m w of (r, w1) \<Rightarrow> (r, f w1))"

text \<open>A \<open>for\<close> loop over a list whose body says whether to go on (\<open>False\<close> is \<open>break\<close>).\<close>

fun act_for :: "('x \<Rightarrow> ('w, 'e, bool) act) \<Rightarrow> 'x list \<Rightarrow> ('w, 'e, bool) act" where
  "act_for f [] = act_return True"
| "act_for f (x # xs) = act_bind (f x) (\<lambda>go. if go then act_for f xs else act_return False)"

lemmas act_defs = act_return_def act_raise_def act_bind_def act_then_def act_modify_def act_get_def
  act_try_def act_finally_def

section \<open>Triples\<close>

definition triple ::
    "('w \<Rightarrow> bool) \<Rightarrow> ('w, 'e, 'a) act \<Rightarrow> ('a \<Rightarrow> 'w \<Rightarrow> bool) \<Rightarrow> ('e \<Rightarrow> 'w \<Rightarrow> bool) \<Rightarrow> bool" where
  "triple P m Q R \<longleftrightarrow>
     (\<forall>w. P w \<longrightarrow> (case m w of (Inr x, w') \<Rightarrow> Q x w' | (Inl e, w') \<Rightarrow> R e w'))"

lemma tripleI:
  "(\<And>w. P w \<Longrightarrow> case m w of (Inr x, w') \<Rightarrow> Q x w' | (Inl e, w') \<Rightarrow> R e w') \<Longrightarrow> triple P m Q R"
  by (simp add: triple_def)

lemma tripleD:
  "triple P m Q R \<Longrightarrow> P w \<Longrightarrow> m w = (Inr x, w') \<Longrightarrow> Q x w'"
  "triple P m Q R \<Longrightarrow> P w \<Longrightarrow> m w = (Inl e, w') \<Longrightarrow> R e w'"
  by (fastforce simp: triple_def)+

lemma triple_weaken:
  "triple P m Q R \<Longrightarrow> (\<And>w. P' w \<Longrightarrow> P w) \<Longrightarrow> (\<And>x w. Q x w \<Longrightarrow> Q' x w) \<Longrightarrow> (\<And>e w. R e w \<Longrightarrow> R' e w) \<Longrightarrow>
   triple P' m Q' R'"
  by (fastforce simp: triple_def split: prod.splits sum.splits)

lemma triple_return: "(\<And>w. P w \<Longrightarrow> Q x w) \<Longrightarrow> triple P (act_return x) Q R"
  by (simp add: triple_def act_return_def)

lemma triple_raise: "(\<And>w. P w \<Longrightarrow> R e w) \<Longrightarrow> triple P (act_raise e) Q R"
  by (simp add: triple_def act_raise_def)

lemma triple_modify: "(\<And>w. P w \<Longrightarrow> Q () (f w)) \<Longrightarrow> triple P (act_modify f) Q R"
  by (simp add: triple_def act_modify_def)

lemma triple_get: "(\<And>w. P w \<Longrightarrow> Q (f w) w) \<Longrightarrow> triple P (act_get f) Q R"
  by (simp add: triple_def act_get_def)

lemma triple_bind:
  assumes "triple P m S R" and "\<And>x. triple (S x) (f x) Q R"
  shows "triple P (act_bind m f) Q R"
  by (rule tripleI) (auto simp: act_bind_def split: prod.splits sum.splits
      dest: tripleD [OF assms(1)] tripleD [OF assms(2)])

lemma triple_then:
  "triple P m (\<lambda>x. S) R \<Longrightarrow> triple S k Q R \<Longrightarrow> triple P (act_then m k) Q R"
  unfolding act_then_def by (rule triple_bind)

lemma triple_try:
  assumes "triple P m Q S" and "\<And>e. triple (S e) (h e) Q R"
  shows "triple P (act_try m h) Q R"
  by (rule tripleI) (auto simp: act_try_def split: prod.splits sum.splits
      dest: tripleD [OF assms(1)] tripleD [OF assms(2)])

lemma triple_finally:
  assumes "triple P m (\<lambda>x w. Q x (f w)) (\<lambda>e w. R e (f w))"
  shows "triple P (act_finally m f) Q R"
  using assms by (auto simp: triple_def act_finally_def split: prod.splits sum.splits)

lemma triple_if:
  "(b \<Longrightarrow> triple P m Q R) \<Longrightarrow> (\<not> b \<Longrightarrow> triple P m' Q R) \<Longrightarrow> triple P (if b then m else m') Q R"
  by simp

lemma triple_for:
  assumes "\<And>x. x \<in> set xs \<Longrightarrow> triple I (f x) (\<lambda>go w. if go then I w else B w) R"
  shows "triple I (act_for f xs) (\<lambda>go w. if go then I w else B w) R"
  using assms
proof (induction xs)
  case Nil
  then show ?case by (simp add: triple_return)
next
  case (Cons x xs)
  show ?case unfolding act_for.simps
  proof (rule triple_bind)
    show "triple I (f x) (\<lambda>go w. if go then I w else B w) R" by (rule Cons.prems) simp
    fix go
    have rest: "triple I (act_for f xs) (\<lambda>go w. if go then I w else B w) R" using Cons by simp
    show "triple (\<lambda>w. if go then I w else B w) (if go then act_for f xs else act_return False)
        (\<lambda>go w. if go then I w else B w) R"
      using rest by (cases go) (simp_all add: triple_return)
  qed
qed

end
