(* ===== verification/AsrStream.thy ===== *)
theory AsrStream
  imports Actions Json Segmenter "HOL-Library.Sublist"
begin

text \<open>
  The streaming recognition session (\<open>asr_stream\<close>, \<open>_asr_stream_backend\<close> and their helpers in
  \<open>server/main.py\<close>).  The client's messages and the recogniser drive one session; every call of the
  session on the recogniser's stream, on the slot, on the voice activity detector and on the socket
  is logged in order.  The recogniser, the detector, punctuation, the speaker embedding and the
  diarizer are arguments, as is the verdict of the inference queue on each request for a slot.
  The client may go away at any time: \<open>as_sends\<close> frames can still be sent, any further one raises.
  \<open>accept_waveform\<close> and the inference run in threads the session waits for; their cancellation is
  the subject of \<open>AsrSlots\<close>.
\<close>

section \<open>Exceptions and calls\<close>

record py_exn =
  ex_class :: string
  ex_text :: string
  ex_status :: "int option"
  ex_slots :: "int option"

datatype asr_exn = QueueFull | ClientGone | Raised py_exn

text \<open>\<open>_is_pool_saturated\<close>: whether, and with how many slots.\<close>

definition is_pool_saturated :: "py_exn \<Rightarrow> bool \<times> int option" where
  "is_pool_saturated x =
     (if ex_status x = Some 4429 \<or> ex_class x = ''PoolSaturatedError'' then (True, ex_slots x)
      else (False, None))"

datatype session_call =
    CCreate nat
  | CAccept nat "real list"
  | CPrepare nat
  | CFinalize nat
  | CForce nat
  | CPartial nat
  | CClose nat
  | CSlotIn
  | CSlotOut
  | CVadReset
  | CAugment nat nat "real list"
  | CFrame jdict
  | CWsClose int jdict

record spk_segment =
  sg_start :: real
  sg_end :: real
  sg_speaker :: json
  sg_conf :: real

record ('s, 'd, 'v) asr_env =
  ae_create :: "nat \<Rightarrow> py_exn + 's"
  ae_accept :: "'s \<Rightarrow> real list \<Rightarrow> py_exn + unit \<times> 's"
  ae_prepare :: "'s \<Rightarrow> py_exn + unit \<times> 's"
  ae_finalize :: "'s \<Rightarrow> py_exn + (string \<times> string option) \<times> 's"
  ae_force :: "('s \<Rightarrow> py_exn + string \<times> 's) option"
  ae_partial :: "'s \<Rightarrow> py_exn + (string \<times> bool) \<times> 's"
  ae_events :: "'v \<Rightarrow> real list \<Rightarrow> (vad_event \<times> int) list \<times> 'v"
  ae_vad_reset :: "'v \<Rightarrow> 'v"
  ae_punct :: "string \<Rightarrow> string option"
  ae_embed :: "real list \<Rightarrow> jdict option option"
  ae_assign :: "'d \<Rightarrow> jdict \<Rightarrow> real \<Rightarrow> real \<Rightarrow> (json \<times> real) option \<times> 'd"
  ae_relabel :: "'d \<Rightarrow> spk_segment list option"
  ae_loads :: "string \<Rightarrow> json option"
  ae_full :: "nat \<Rightarrow> bool"
  ae_name :: string
  ae_rate :: nat
  ae_punct_on :: bool
  ae_spk_on :: bool
  ae_slots :: bool

record ('s, 'd, 'v) asr =
  as_stream :: 's
  as_id :: nat
  as_seg :: "real list list"
  as_t :: nat
  as_diar :: "'d option"
  as_vad :: "'v option"
  as_asked :: nat
  as_sends :: nat
  as_trace :: "session_call list"

type_synonym ('s, 'd, 'v, 'a) asr_act = "(('s, 'd, 'v) asr, asr_exn, 'a) act"

definition logged :: "session_call \<Rightarrow> ('s, 'd, 'v) asr \<Rightarrow> ('s, 'd, 'v) asr" where
  "logged c w = w\<lparr>as_trace := as_trace w @ [c]\<rparr>"

section \<open>Steps of a session\<close>

text \<open>A call on the current stream.\<close>

definition on_stream :: "(nat \<Rightarrow> session_call) \<Rightarrow> ('s \<Rightarrow> py_exn + 'a \<times> 's) \<Rightarrow> ('s, 'd, 'v, 'a) asr_act" where
  "on_stream c f =
     (\<lambda>w. let w1 = logged (c (as_id w)) w
          in case f (as_stream w) of
               Inl x \<Rightarrow> (Inl (Raised x), w1)
             | Inr (r, s) \<Rightarrow> (Inr r, w1\<lparr>as_stream := s\<rparr>))"

definition send_frame :: "jdict \<Rightarrow> ('s, 'd, 'v, unit) asr_act" where
  "send_frame d =
     (\<lambda>w. if as_sends w = 0 then (Inl ClientGone, w)
          else (Inr (), logged (CFrame d) (w\<lparr>as_sends := as_sends w - 1\<rparr>)))"

definition send_quietly :: "jdict \<Rightarrow> ('s, 'd, 'v, unit) asr_act" where
  "send_quietly d = act_try (send_frame d) (\<lambda>e. act_return ())"

definition create_stream :: "('s, 'd, 'v) asr_env \<Rightarrow> ('s, 'd, 'v, unit) asr_act" where
  "create_stream E =
     (\<lambda>w. case ae_create E (Suc (as_id w)) of
            Inl x \<Rightarrow> (Inl (Raised x), w)
          | Inr s \<Rightarrow> (Inr (), logged (CCreate (Suc (as_id w))) (w\<lparr>as_stream := s, as_id := Suc (as_id w)\<rparr>)))"

text \<open>The old stream is closed, if it can be, before a fresh one takes its place.\<close>

definition rearm :: "('s, 'd, 'v) asr_env \<Rightarrow> ('s, 'd, 'v, unit) asr_act" where
  "rearm E = act_then (act_modify (\<lambda>w. logged (CClose (as_id w)) w)) (create_stream E)"

definition clear_seg :: "('s, 'd, 'v, unit) asr_act" where
  "clear_seg = act_modify (\<lambda>w. w\<lparr>as_seg := []\<rparr>)"

definition vad_reset :: "('s, 'd, 'v) asr_env \<Rightarrow> ('s, 'd, 'v, unit) asr_act" where
  "vad_reset E =
     act_modify (\<lambda>w. case as_vad w of
                       None \<Rightarrow> w
                     | Some v \<Rightarrow> logged CVadReset (w\<lparr>as_vad := Some (ae_vad_reset E v)\<rparr>))"

text \<open>The slot of one utterance, when the session does not hold it for the whole connection.\<close>

definition in_slot :: "('s, 'd, 'v) asr_env \<Rightarrow> ('s, 'd, 'v, 'a) asr_act \<Rightarrow> ('s, 'd, 'v, 'a) asr_act" where
  "in_slot E body =
     (if \<not> ae_slots E then body
      else (\<lambda>w. let w1 = w\<lparr>as_asked := Suc (as_asked w)\<rparr>
                in if ae_full E (as_asked w) then (Inl QueueFull, w1)
                   else act_finally body (logged CSlotOut) (logged CSlotIn w1)))"

definition finalize_utterance :: "('s, 'd, 'v) asr_env \<Rightarrow> ('s, 'd, 'v, string \<times> string option) asr_act" where
  "finalize_utterance E =
     in_slot E (act_then (on_stream CPrepare (ae_prepare E)) (on_stream CFinalize (ae_finalize E)))"

definition final_payload :: "string \<Rightarrow> string option \<Rightarrow> bool \<Rightarrow> jdict" where
  "final_payload text language vad =
     [(''type'', JStr ''final''), (''text'', JStr text), (''is_final'', JBool True), (''is_stable'', JBool True)]
     @ (if vad then [(''endpoint'', JStr ''vad'')] else [])
     @ (case language of Some l \<Rightarrow> (if l \<noteq> [] then [(''language'', JStr l)] else []) | None \<Rightarrow> [])"

definition seg_samples :: "('s, 'd, 'v) asr \<Rightarrow> nat" where
  "seg_samples w = sum_list (map length (as_seg w))"

definition seg_window :: "('s, 'd, 'v) asr_env \<Rightarrow> ('s, 'd, 'v) asr \<Rightarrow> real \<times> real" where
  "seg_window E w =
     (if ae_rate E = 0 then (0, 0)
      else (of_int (int (as_t w) - int (seg_samples w)) / real (ae_rate E), real (as_t w) / real (ae_rate E)))"

definition round3 :: "real \<Rightarrow> real" where
  "round3 x = of_int (py_round (x * 1000)) / 1000"

text \<open>\<open>_augment_final_payload\<close>: punctuation, then the embedding of the utterance's audio with its window
  and its speaker; a model that raises leaves the payload as it is.\<close>

definition punctuated :: "('s, 'd, 'v) asr_env \<Rightarrow> string \<Rightarrow> jdict \<Rightarrow> jdict" where
  "punctuated E text p =
     (if ae_punct_on E \<and> text \<noteq> [] then
        (case ae_punct E text of Some t \<Rightarrow> dict_put ''text'' (JStr t) p | None \<Rightarrow> p)
      else p)"

definition embedded :: "('s, 'd, 'v) asr_env \<Rightarrow> jdict \<Rightarrow> ('s, 'd, 'v, jdict) asr_act" where
  "embedded E p =
     (\<lambda>w. let samples = concat (as_seg w);
              (st, en) = seg_window E w;
              w1 = logged (CAugment (as_t w - seg_samples w) (as_t w) samples) w;
              p1 = dict_put ''end'' (JFloat (Fin (round3 en))) (dict_put ''start'' (JFloat (Fin (round3 st))) p)
          in case ae_embed E samples of
               None \<Rightarrow> (Inr p, w1)
             | Some None \<Rightarrow> (Inr p1, w1)
             | Some (Some emb) \<Rightarrow>
                 (let p2 = dict_update p1 emb
                  in case as_diar w of
                       None \<Rightarrow> (Inr p2, w1)
                     | Some d \<Rightarrow>
                         (case ae_assign E d emb st en of
                            (None, d') \<Rightarrow> (Inr p2, w1\<lparr>as_diar := Some d'\<rparr>)
                          | (Some (spk, conf), d') \<Rightarrow>
                              (Inr (dict_put ''speaker_conf'' (JFloat (Fin (round3 conf)))
                                     (dict_put ''speaker'' spk p2)), w1\<lparr>as_diar := Some d'\<rparr>))))"

definition augment_final :: "('s, 'd, 'v) asr_env \<Rightarrow> string \<Rightarrow> jdict \<Rightarrow> ('s, 'd, 'v, jdict) asr_act" where
  "augment_final E text p =
     act_bind (act_get as_seg)
       (\<lambda>seg. if ae_spk_on E \<and> seg \<noteq> [] then embedded E (punctuated E text p)
               else act_return (punctuated E text p))"

text \<open>The queue is full: tell the client, drop the utterance and start afresh.\<close>

definition busy_frame :: "string \<Rightarrow> jdict" where
  "busy_frame ep = [(''type'', JStr ''busy''), (''reason'', JStr ''asr_queue_full''), (''endpoint'', JStr ep)]"

definition reject_utterance :: "('s, 'd, 'v) asr_env \<Rightarrow> string \<Rightarrow> bool \<Rightarrow> ('s, 'd, 'v, unit) asr_act" where
  "reject_utterance E ep reset =
     act_then (send_quietly (busy_frame ep))
       (act_then (rearm E) (act_then clear_seg (if reset then vad_reset E else act_return ())))"

section \<open>Messages\<close>

text \<open>What the socket receives: a text or binary message, or the disconnection.\<close>

record ws_message =
  wm_text :: "string option"
  wm_bytes :: "nat list option"
  wm_disconnect :: bool

definition reset_frame :: jdict where
  "reset_frame = [(''type'', JStr ''reset''), (''text'', JStr []), (''is_final'', JBool True),
     (''is_stable'', JBool True), (''reset'', JBool True)]"

definition send_final :: "('s, 'd, 'v) asr_env \<Rightarrow> string \<Rightarrow> string option \<Rightarrow> ('s, 'd, 'v, unit) asr_act" where
  "send_final E text language =
     act_bind (augment_final E text (final_payload text language False))
       (\<lambda>p. act_then clear_seg (send_frame p))"

definition on_reset :: "('s, 'd, 'v) asr_env \<Rightarrow> ('s, 'd, 'v, unit) asr_act" where
  "on_reset E = act_then (rearm E) (act_then clear_seg (send_frame reset_frame))"

definition force_utterance :: "('s, 'd, 'v) asr_env \<Rightarrow> ('s, 'd, 'v, string \<times> string option) asr_act" where
  "force_utterance E =
     (case ae_force E of
        Some f \<Rightarrow> in_slot E (act_bind (on_stream CForce f) (\<lambda>text. act_return (text, None)))
      | None \<Rightarrow> finalize_utterance E)"

text \<open>\<open>except InferenceQueueFull\<close>: any other exception goes on.\<close>

definition if_full :: "('s, 'd, 'v, 'a) asr_act \<Rightarrow> ('s, 'd, 'v, 'b) asr_act \<Rightarrow> ('a \<Rightarrow> ('s, 'd, 'v, 'b) asr_act) \<Rightarrow>
    ('s, 'd, 'v, 'b) asr_act" where
  "if_full m full k =
     (\<lambda>w. case m w of
            (Inl QueueFull, w1) \<Rightarrow> full w1
          | (Inl e, w1) \<Rightarrow> (Inl e, w1)
          | (Inr x, w1) \<Rightarrow> k x w1)"

definition on_end_utterance :: "('s, 'd, 'v) asr_env \<Rightarrow> ('s, 'd, 'v, unit) asr_act" where
  "on_end_utterance E =
     if_full (force_utterance E) (reject_utterance E ''end_utterance'' True) (\<lambda>(text, language). send_final E text language)"

definition attribute_error :: "string \<Rightarrow> asr_exn" where
  "attribute_error text =
     Raised \<lparr>ex_class = ''AttributeError'', ex_text = text, ex_status = None, ex_slots = None\<rparr>"

definition on_text :: "('s, 'd, 'v) asr_env \<Rightarrow> string \<Rightarrow> ('s, 'd, 'v, unit) asr_act" where
  "on_text E s =
     (case ae_loads E s of
        None \<Rightarrow> act_return ()
      | Some (JObj cmd) \<Rightarrow>
          (if jget ''command'' cmd = JStr ''reset'' then on_reset E
           else if jget ''command'' cmd = JStr ''end_utterance'' then on_end_utterance E
           else (case jor (jget ''type'' cmd) (JStr []) of
                   JStr t \<Rightarrow> (if py_lower t = ''eou'' then on_end_utterance E else act_return ())
                 | _ \<Rightarrow> act_raise (attribute_error ''lower'')))
      | Some _ \<Rightarrow> act_raise (attribute_error ''get''))"

text \<open>\<open>summary_payload\<close>: nothing to say when the diarizer raises or has no segment.\<close>

definition segment_to_dict :: "spk_segment \<Rightarrow> json" where
  "segment_to_dict s =
     JObj [(''start'', JFloat (Fin (round3 (sg_start s)))), (''end'', JFloat (Fin (round3 (sg_end s)))),
           (''speaker'', sg_speaker s), (''confidence'', JFloat (Fin (round3 (sg_conf s))))]"

definition summary_payload :: "('s, 'd, 'v) asr_env \<Rightarrow> 'd \<Rightarrow> jdict option" where
  "summary_payload E d =
     (case ae_relabel E d of
        None \<Rightarrow> None
      | Some segs \<Rightarrow>
          (if segs = [] then None
           else Some [(''type'', JStr ''diarization_summary''), (''segments'', JArr (map segment_to_dict segs)),
                      (''num_speakers'', JInt (int (card (set (map sg_speaker segs)))))]))"

definition send_summary :: "('s, 'd, 'v) asr_env \<Rightarrow> ('s, 'd, 'v, unit) asr_act" where
  "send_summary E =
     act_bind (act_get as_diar)
       (\<lambda>d. case Option.bind d (summary_payload E) of Some p \<Rightarrow> send_quietly p | None \<Rightarrow> act_return ())"

text \<open>The empty message ends the audio: finalize, and leave the loop.\<close>

definition on_eos :: "('s, 'd, 'v) asr_env \<Rightarrow> ('s, 'd, 'v, unit) asr_act" where
  "on_eos E =
     if_full (finalize_utterance E) (send_quietly (busy_frame ''eos''))
       (\<lambda>(text, language). act_then (send_final E text language) (send_summary E))"

text \<open>Audio reaches the utterance's buffer (only with speaker embedding) and the stream.\<close>

definition take_audio :: "('s, 'd, 'v) asr_env \<Rightarrow> real list \<Rightarrow> ('s, 'd, 'v, unit) asr_act" where
  "take_audio E xs =
     (if xs = [] then act_return ()
      else act_then
             (act_modify (\<lambda>w. if ae_spk_on E then w\<lparr>as_seg := as_seg w @ [xs], as_t := as_t w + length xs\<rparr> else w))
             (on_stream (\<lambda>n. CAccept n xs) (\<lambda>s. ae_accept E s xs)))"

text \<open>The end of speech: announce it, finalize, send the final (or leave the loop if the client has gone) and start
  afresh; the detector is reset only at the end of the block.\<close>

definition endpoint_frame :: jdict where
  "endpoint_frame = [(''type'', JStr ''vad_endpoint'')]"

definition on_speech_end :: "('s, 'd, 'v) asr_env \<Rightarrow> bool \<Rightarrow> ('s, 'd, 'v, bool) asr_act" where
  "on_speech_end E last_one =
     act_then (send_frame endpoint_frame)
       (if_full (finalize_utterance E)
          (act_then (reject_utterance E ''vad'' last_one) (act_return True))
          (\<lambda>(text, language).
             act_bind
               (act_try
                  (act_bind (augment_final E text (final_payload text language True))
                     (\<lambda>p. act_then (send_frame p) (act_return True)))
                  (\<lambda>e. act_return False))
               (\<lambda>sent. if \<not> sent then act_return False
                       else act_then (rearm E)
                              (act_then clear_seg
                                 (act_then (if last_one then vad_reset E else act_return ()) (act_return True))))))"

fun do_segments :: "('s, 'd, 'v) asr_env \<Rightarrow> bool \<Rightarrow> (real list \<times> vad_event option) list \<Rightarrow> ('s, 'd, 'v, bool) asr_act" where
  "do_segments E has_vad [] = act_return True"
| "do_segments E has_vad ((xs, event) # rest) =
     act_then (take_audio E xs)
       (if \<not> has_vad \<or> event \<noteq> Some SpeechEnd then do_segments E has_vad rest
        else act_bind (on_speech_end E (rest = []))
               (\<lambda>go. if go then do_segments E has_vad rest else act_return False))"

definition partial_frame :: "string \<Rightarrow> jdict" where
  "partial_frame text = [(''type'', JStr ''partial''), (''text'', JStr text), (''is_final'', JBool False),
     (''is_stable'', JBool False)]"

text \<open>The stream's own results; a stream that reports its endpoint is replaced.\<close>

definition poll_partial :: "('s, 'd, 'v) asr_env \<Rightarrow> ('s, 'd, 'v, unit) asr_act" where
  "poll_partial E =
     act_bind (on_stream CPartial (ae_partial E))
       (\<lambda>(text, is_endpoint).
          if text = [] then act_return ()
          else if is_endpoint then
            act_then (send_final E text None) (act_then (rearm E) (vad_reset E))
          else send_frame (partial_frame text))"

text \<open>Bytes to samples; an odd number of bytes makes \<open>frombuffer\<close> raise.\<close>

definition samples_of :: "nat list \<Rightarrow> real list option" where
  "samples_of bs = map_option (map (\<lambda>i. of_int i / 32768)) (pcm16 bs)"

definition vad_events :: "('s, 'd, 'v) asr_env \<Rightarrow> real list \<Rightarrow> ('s, 'd, 'v, (vad_event \<times> int) list) asr_act" where
  "vad_events E xs =
     (\<lambda>w. case as_vad w of
            None \<Rightarrow> (Inr [], w)
          | Some v \<Rightarrow> (let (evs, v') = ae_events E v xs in (Inr evs, w\<lparr>as_vad := Some v'\<rparr>)))"

text \<open>\<open>_split_vad_block\<close>: the pieces of a block between the events' offsets, each with the event that ends
  it.\<close>

fun split_at :: "'a list \<Rightarrow> nat \<Rightarrow> ('e \<times> int) list \<Rightarrow> ('a list \<times> 'e option) list" where
  "split_at xs cursor [] = (if cursor < length xs then [(drop cursor xs, None)] else [])"
| "split_at xs cursor ((e, raw) # es) =
     (let off = nat (min (max raw (int cursor)) (int (length xs)))
      in (take (off - cursor) (drop cursor xs), Some e) # split_at xs off es)"

definition split_vad_block :: "'a list \<Rightarrow> ('e \<times> int) list \<Rightarrow> ('a list \<times> 'e option) list" where
  "split_vad_block xs events = (if events = [] then [(xs, None)] else split_at xs 0 events)"

definition on_audio :: "('s, 'd, 'v) asr_env \<Rightarrow> nat list \<Rightarrow> ('s, 'd, 'v, bool) asr_act" where
  "on_audio E bs =
     (case samples_of bs of
        None \<Rightarrow> act_raise (Raised \<lparr>ex_class = ''ValueError'',
                  ex_text = ''buffer size must be a multiple of element size'', ex_status = None, ex_slots = None\<rparr>)
      | Some xs \<Rightarrow>
          act_bind (act_get (\<lambda>w. as_vad w \<noteq> None))
            (\<lambda>has_vad. act_bind (vad_events E xs)
               (\<lambda>evs. act_bind (do_segments E has_vad (split_vad_block xs evs))
                  (\<lambda>go. if go then act_then (poll_partial E) (act_return True) else act_return False))))"

text \<open>One turn of the loop; \<open>False\<close> leaves it.\<close>

definition asr_message :: "('s, 'd, 'v) asr_env \<Rightarrow> ws_message \<Rightarrow> ('s, 'd, 'v, bool) asr_act" where
  "asr_message E m =
     (case wm_text m of
        Some (c # cs) \<Rightarrow> act_then (on_text E (c # cs)) (act_return True)
      | _ \<Rightarrow>
          (if wm_disconnect m then act_return False
           else (case wm_bytes m of
                   None \<Rightarrow> act_return True
                 | Some [] \<Rightarrow> act_then (on_eos E) (act_return False)
                 | Some bs \<Rightarrow> on_audio E bs)))"

section \<open>The session\<close>

definition error_frame :: "('s, 'd, 'v) asr_env \<Rightarrow> py_exn \<Rightarrow> jdict" where
  "error_frame E x = [(''type'', JStr ''error''), (''error'', JStr (ex_class x @ '': '' @ ex_text x)),
     (''backend'', JStr (ae_name E)), (''is_final'', JBool True), (''is_stable'', JBool True)]"

text \<open>The exception handlers: the close code and the frame that says why.  (A client that has gone gets
  no frame either way.)\<close>

definition asr_handler :: "('s, 'd, 'v) asr_env \<Rightarrow> asr_exn \<Rightarrow> ('s, 'd, 'v, int \<times> jdict) asr_act" where
  "asr_handler E e =
     (case e of
        Raised x \<Rightarrow>
          (case is_pool_saturated x of
             (True, n) \<Rightarrow> act_return (4429, [(''error'', JStr ''pool_saturated''),
                            (''max_slots'', case n of Some k \<Rightarrow> JInt k | None \<Rightarrow> JNull)])
           | (False, _) \<Rightarrow> act_then (send_quietly (error_frame E x)) (act_return (1000, [])))
      | _ \<Rightarrow> act_return (1000, []))"

definition asr_finish :: "int \<times> jdict \<Rightarrow> ('s, 'd, 'v) asr \<Rightarrow> ('s, 'd, 'v) asr" where
  "asr_finish cr w = logged (CWsClose (fst cr) (snd cr)) (logged (CClose (as_id w)) w)"

datatype asr_status = Listening | Over

definition asr_session :: "('s, 'd, 'v) asr_env \<Rightarrow> ws_message list \<Rightarrow> ('s, 'd, 'v) asr \<Rightarrow> asr_status \<times> ('s, 'd, 'v) asr" where
  "asr_session E ms w =
     (case act_for (asr_message E) ms w of
        (Inr True, w1) \<Rightarrow> (Listening, w1)
      | (Inr False, w1) \<Rightarrow> (Over, asr_finish (1000, []) w1)
      | (Inl e, w1) \<Rightarrow>
          (case asr_handler E e w1 of
             (Inr cr, w2) \<Rightarrow> (Over, asr_finish cr w2)
           | (Inl _, w2) \<Rightarrow> (Over, asr_finish (1000, []) w2)))"

definition new_asr :: "'s \<Rightarrow> 'd option \<Rightarrow> 'v option \<Rightarrow> nat \<Rightarrow> ('s, 'd, 'v) asr" where
  "new_asr s diar vad sends =
     \<lparr>as_stream = s, as_id = 1, as_seg = [], as_t = 0, as_diar = diar, as_vad = vad, as_asked = 0,
      as_sends = sends, as_trace = [CCreate 1]\<rparr>"

text \<open>The first stream is made before the handlers are in place: if that raises, nothing is sent or closed
  here.\<close>

definition asr_stream_backend ::
    "('s, 'd, 'v) asr_env \<Rightarrow> 'd option \<Rightarrow> 'v option \<Rightarrow> nat \<Rightarrow> ws_message list \<Rightarrow>
     py_exn + asr_status \<times> ('s, 'd, 'v) asr" where
  "asr_stream_backend E diar vad sends ms =
     (case ae_create E 1 of
        Inl x \<Rightarrow> Inl x
      | Inr s \<Rightarrow> Inr (asr_session E ms (new_asr s diar vad sends)))"

section \<open>Splitting blocks\<close>

text \<open>The pieces make up the block, and every event stands once, in order.\<close>

lemma split_at_conserves:
  "cursor \<le> length xs \<Longrightarrow> concat (map fst (split_at xs cursor es)) = drop cursor xs"
proof (induction xs cursor es rule: split_at.induct)
  case (2 xs cursor e raw es)
  define off where "off = nat (min (max raw (int cursor)) (int (length xs)))"
  have off: "cursor \<le> off" "off \<le> length xs" using 2(2) by (auto simp: off_def)
  then have "take (off - cursor) (drop cursor xs) @ drop off xs = drop cursor xs"
    by (metis append_take_drop_id drop_drop le_add_diff_inverse2)
  then show ?case using 2(1) [OF off_def off(2)] by (simp add: off_def [symmetric] Let_def)
qed simp

lemma split_vad_block_conserves:
  "concat (map fst (split_vad_block xs es)) = xs \<and> List.map_filter snd (split_vad_block xs es) = map fst es"
proof -
  have "List.map_filter snd (split_at xs cursor es) = map fst es" for cursor
    by (induction xs cursor es rule: split_at.induct) (auto simp: List.map_filter_simps Let_def)
  then show ?thesis using split_at_conserves [of 0 xs es]
    by (auto simp: split_vad_block_def List.map_filter_simps)
qed

section \<open>The order of a session's calls\<close>

text \<open>What a session may do, as a machine over its log: it uses only the stream it has open, opens one only
  after closing the last, infers exactly inside its slot (when it takes slots), computes embeddings over windows of
  the audio that follow one another, and after announcing an endpoint sends nothing before that endpoint's final
  or refusal.\<close>

record mach =
  mc_id :: nat
  mc_open :: bool
  mc_slot :: bool
  mc_await :: bool
  mc_end :: nat
  mc_audio :: "real list"

definition mach0 :: mach where
  "mach0 = \<lparr>mc_id = 0, mc_open = False, mc_slot = False, mc_await = False, mc_end = 0, mc_audio = []\<rparr>"

definition closes_endpoint :: "jdict \<Rightarrow> bool" where
  "closes_endpoint d \<longleftrightarrow> jget ''endpoint'' d = JStr ''vad''"

definition plain_frame :: "jdict \<Rightarrow> bool" where
  "plain_frame d \<longleftrightarrow> jget ''type'' d \<noteq> JStr ''vad_endpoint'' \<and> \<not> closes_endpoint d"

fun mach_step :: "bool \<Rightarrow> session_call \<Rightarrow> mach \<Rightarrow> mach option" where
  "mach_step per (CCreate n) m =
     (if n = Suc (mc_id m) \<and> \<not> mc_open m \<and> \<not> mc_slot m then Some (m\<lparr>mc_id := n, mc_open := True\<rparr>) else None)"
| "mach_step per (CAccept n xs) m =
     (if n = mc_id m \<and> mc_open m \<and> \<not> mc_slot m then Some (m\<lparr>mc_audio := mc_audio m @ xs\<rparr>) else None)"
| "mach_step per (CPrepare n) m = (if n = mc_id m \<and> mc_open m \<and> mc_slot m = per then Some m else None)"
| "mach_step per (CFinalize n) m = (if n = mc_id m \<and> mc_open m \<and> mc_slot m = per then Some m else None)"
| "mach_step per (CForce n) m = (if n = mc_id m \<and> mc_open m \<and> mc_slot m = per then Some m else None)"
| "mach_step per (CPartial n) m = (if n = mc_id m \<and> mc_open m \<and> \<not> mc_slot m then Some m else None)"
| "mach_step per (CClose n) m =
     (if n = mc_id m \<and> mc_open m \<and> \<not> mc_slot m then Some (m\<lparr>mc_open := False\<rparr>) else None)"
| "mach_step per CSlotIn m = (if per \<and> \<not> mc_slot m then Some (m\<lparr>mc_slot := True\<rparr>) else None)"
| "mach_step per CSlotOut m = (if mc_slot m then Some (m\<lparr>mc_slot := False\<rparr>) else None)"
| "mach_step per CVadReset m = (if \<not> mc_slot m then Some m else None)"
| "mach_step per (CAugment s e xs) m =
     (if \<not> mc_slot m \<and> mc_end m \<le> s \<and> s \<le> e \<and> e = length (mc_audio m) \<and> xs = drop s (mc_audio m)
      then Some (m\<lparr>mc_end := e\<rparr>) else None)"
| "mach_step per (CFrame d) m =
     (if mc_slot m then None
      else if jget ''type'' d = JStr ''vad_endpoint'' then (if mc_await m then None else Some (m\<lparr>mc_await := True\<rparr>))
      else if closes_endpoint d then (if mc_await m then Some (m\<lparr>mc_await := False\<rparr>) else None)
      else (if mc_await m then None else Some m))"
| "mach_step per (CWsClose code reason) m = None"

fun mach_run :: "bool \<Rightarrow> session_call list \<Rightarrow> mach \<Rightarrow> mach option" where
  "mach_run per [] m = Some m"
| "mach_run per (c # cs) m = (case mach_step per c m of None \<Rightarrow> None | Some m' \<Rightarrow> mach_run per cs m')"

lemma mach_run_append [simp]:
  "mach_run per (cs @ ds) m = (case mach_run per cs m of None \<Rightarrow> None | Some m' \<Rightarrow> mach_run per ds m')"
  by (induction cs arbitrary: m) (auto split: option.splits)

text \<open>The session between two calls: \<open>opn\<close>, \<open>slt\<close> and \<open>awt\<close> say whether the stream is open, the slot
  held and an endpoint announced; \<open>fresh\<close> that the buffered audio has no embedding yet.\<close>

definition seg_ok :: "('s, 'd, 'v) asr_env \<Rightarrow> bool \<Rightarrow> mach \<Rightarrow> ('s, 'd, 'v) asr \<Rightarrow> bool" where
  "seg_ok E fresh m w \<longleftrightarrow>
     (if ae_spk_on E then
        as_t w = length (mc_audio m) \<and> seg_samples w \<le> as_t w \<and>
        concat (as_seg w) = drop (as_t w - seg_samples w) (mc_audio m) \<and>
        mc_end m \<le> (if fresh then as_t w - seg_samples w else as_t w)
      else as_seg w = [])"

definition await_ok :: "bool \<Rightarrow> mach \<Rightarrow> ('s, 'd, 'v) asr \<Rightarrow> bool" where
  "await_ok awt m w \<longleftrightarrow> (if awt then mc_await m else mc_await m \<longrightarrow> as_sends w = 0)"

definition st :: "('s, 'd, 'v) asr_env \<Rightarrow> bool \<Rightarrow> bool \<Rightarrow> bool \<Rightarrow> bool \<Rightarrow> ('s, 'd, 'v) asr \<Rightarrow> bool" where
  "st E opn slt awt fresh w \<longleftrightarrow>
     (\<exists>m. mach_run (ae_slots E) (as_trace w) mach0 = Some m \<and> mc_id m = as_id w \<and> mc_open m = opn \<and>
          mc_slot m = slt \<and> await_ok awt m w \<and> seg_ok E fresh m w)"

definition failed :: "('s, 'd, 'v) asr_env \<Rightarrow> ('s, 'd, 'v) asr \<Rightarrow> bool" where
  "failed E w \<longleftrightarrow>
     (\<exists>m. mach_run (ae_slots E) (as_trace w) mach0 = Some m \<and> mc_id m = as_id w \<and> \<not> mc_slot m)"

text \<open>The embedding's own fields do not rename the frame.\<close>

definition embedding_plain :: "('s, 'd, 'v) asr_env \<Rightarrow> bool" where
  "embedding_plain E \<longleftrightarrow>
     (\<forall>xs emb. ae_embed E xs = Some (Some emb) \<longrightarrow> map_of emb ''type'' = None \<and> map_of emb ''endpoint'' = None)"

lemma seg_frame [simp]:
  "seg_ok E fresh m (w\<lparr>as_trace := tr\<rparr>) = seg_ok E fresh m w"
  "seg_ok E fresh m (w\<lparr>as_stream := s\<rparr>) = seg_ok E fresh m w"
  "seg_ok E fresh m (w\<lparr>as_id := n\<rparr>) = seg_ok E fresh m w"
  "seg_ok E fresh m (w\<lparr>as_sends := k\<rparr>) = seg_ok E fresh m w"
  "seg_ok E fresh m (w\<lparr>as_asked := k\<rparr>) = seg_ok E fresh m w"
  "seg_ok E fresh m (w\<lparr>as_vad := v\<rparr>) = seg_ok E fresh m w"
  "seg_ok E fresh m (w\<lparr>as_diar := d\<rparr>) = seg_ok E fresh m w"
  "seg_ok E fresh (m\<lparr>mc_open := b\<rparr>) w = seg_ok E fresh m w"
  "seg_ok E fresh (m\<lparr>mc_slot := b\<rparr>) w = seg_ok E fresh m w"
  "seg_ok E fresh (m\<lparr>mc_await := b\<rparr>) w = seg_ok E fresh m w"
  "seg_ok E fresh (m\<lparr>mc_id := n\<rparr>) w = seg_ok E fresh m w"
  by (simp_all add: seg_ok_def seg_samples_def)

lemma await_frame [simp]:
  "await_ok awt m (w\<lparr>as_trace := tr\<rparr>) = await_ok awt m w"
  "await_ok awt m (w\<lparr>as_stream := s\<rparr>) = await_ok awt m w"
  "await_ok awt m (w\<lparr>as_id := n\<rparr>) = await_ok awt m w"
  "await_ok awt m (w\<lparr>as_asked := k\<rparr>) = await_ok awt m w"
  "await_ok awt m (w\<lparr>as_vad := v\<rparr>) = await_ok awt m w"
  "await_ok awt m (w\<lparr>as_diar := d\<rparr>) = await_ok awt m w"
  "await_ok awt m (w\<lparr>as_seg := sg\<rparr>) = await_ok awt m w"
  "await_ok awt m (w\<lparr>as_t := n\<rparr>) = await_ok awt m w"
  "await_ok awt (m\<lparr>mc_open := b\<rparr>) w = await_ok awt m w"
  "await_ok awt (m\<lparr>mc_slot := b\<rparr>) w = await_ok awt m w"
  "await_ok awt (m\<lparr>mc_id := n\<rparr>) w = await_ok awt m w"
  "await_ok awt (m\<lparr>mc_end := n\<rparr>) w = await_ok awt m w"
  "await_ok awt (m\<lparr>mc_audio := xs\<rparr>) w = await_ok awt m w"
  by (simp_all add: await_ok_def)

lemma st_failed: "st E opn False awt fresh w \<Longrightarrow> failed E w"
  by (auto simp: st_def failed_def)

lemma seg_ok_weaken: "seg_ok E True m w \<Longrightarrow> seg_ok E False m w"
  by (auto simp: seg_ok_def split: if_splits)

lemma st_weaken: "st E opn slt awt True w \<Longrightarrow> st E opn slt awt False w"
  unfolding st_def using seg_ok_weaken by blast

subsection \<open>Single steps\<close>

lemma infer_step:
  assumes "c \<in> {CPrepare, CFinalize, CForce}"
  shows "triple (st E True (ae_slots E) awt fresh) (on_stream c f) (\<lambda>r. st E True (ae_slots E) awt fresh)
           (\<lambda>e w. e \<noteq> QueueFull \<and> st E True (ae_slots E) awt fresh w)"
  using assms
  by (auto intro!: tripleI simp: on_stream_def st_def logged_def Let_def split: sum.splits)

lemma partial_step:
  "triple (st E True False awt fresh) (on_stream CPartial f) (\<lambda>r. st E True False awt fresh) (\<lambda>e. failed E)"
  by (auto intro!: tripleI simp: on_stream_def st_def failed_def logged_def Let_def
      split: sum.splits)

lemma accept_step:
  "triple (st E True False False True) (take_audio E xs) (\<lambda>r. st E True False False True) (\<lambda>e. failed E)"
proof (rule tripleI)
  fix w assume "st E True False False True w"
  then obtain m where m: "mach_run (ae_slots E) (as_trace w) mach0 = Some m" "mc_id m = as_id w" "mc_open m"
      "\<not> mc_slot m" "await_ok False m w" "seg_ok E True m w"
    by (auto simp: st_def)
  show "case take_audio E xs w of (Inl e, w') \<Rightarrow> failed E w' | (Inr x, w') \<Rightarrow> st E True False False True w'"
  proof (cases "xs = []")
    case True
    then show ?thesis using m by (auto simp: take_audio_def act_defs st_def)
  next
    case False
    have "seg_ok E True (m\<lparr>mc_audio := mc_audio m @ xs\<rparr>)
        (if ae_spk_on E then w\<lparr>as_seg := as_seg w @ [xs], as_t := as_t w + length xs\<rparr> else w)"
      using m(6) by (auto simp: seg_ok_def seg_samples_def)
    then show ?thesis using False m(1-5)
      by (auto simp: take_audio_def act_defs st_def failed_def on_stream_def logged_def Let_def seg_ok_def
          seg_samples_def split: sum.splits if_splits)
  qed
qed

lemma triple_send:
  "(\<And>w. P w \<Longrightarrow> as_sends w = 0 \<Longrightarrow> R ClientGone w) \<Longrightarrow>
   (\<And>w. P w \<Longrightarrow> as_sends w \<noteq> 0 \<Longrightarrow> Q () (logged (CFrame d) (w\<lparr>as_sends := as_sends w - 1\<rparr>))) \<Longrightarrow>
   triple P (send_frame d) Q R"
  by (simp add: triple_def send_frame_def)

lemma plain_step:
  "plain_frame d \<Longrightarrow>
   triple (st E opn False False fresh) (send_frame d) (\<lambda>r. st E opn False False fresh) (\<lambda>e. failed E)"
  by (rule triple_send) (auto simp: st_def await_ok_def failed_def logged_def plain_frame_def)

lemma endpoint_step:
  "triple (st E opn False False fresh) (send_frame endpoint_frame) (\<lambda>r. st E opn False True fresh) (\<lambda>e. failed E)"
  by (rule triple_send)
    (auto simp: st_def await_ok_def failed_def logged_def endpoint_frame_def jget_or_def)

lemma closing_step:
  "jget ''type'' d \<noteq> JStr ''vad_endpoint'' \<Longrightarrow> closes_endpoint d \<Longrightarrow>
   triple (st E opn False True fresh) (send_frame d) (\<lambda>r. st E opn False False fresh)
     (\<lambda>e. st E opn False False fresh)"
  by (rule triple_send) (auto simp: st_def await_ok_def logged_def)

lemma create_step:
  "triple (st E False False awt fresh) (create_stream E) (\<lambda>r. st E True False awt fresh) (\<lambda>e. failed E)"
  by (auto intro!: tripleI simp: create_stream_def st_def failed_def logged_def
      split: sum.splits)

lemma rearm_step:
  "triple (st E True False awt fresh) (rearm E) (\<lambda>r. st E True False awt fresh) (\<lambda>e. failed E)"
  unfolding rearm_def
  by (rule triple_then [OF _ create_step], rule triple_modify) (auto simp: st_def logged_def)

lemma clear_step:
  "triple (st E opn slt awt fresh) clear_seg (\<lambda>r. st E opn slt awt True) R"
  unfolding clear_seg_def
  by (rule triple_modify) (auto simp: st_def seg_ok_def seg_samples_def split: if_splits)

lemma vad_reset_step:
  "triple (st E opn False awt fresh) (vad_reset E) (\<lambda>r. st E opn False awt fresh) R"
  unfolding vad_reset_def
  by (rule triple_modify) (auto simp: st_def logged_def split: option.split)

subsection \<open>Compound steps\<close>

lemma slot_step:
  assumes "triple (st E True (ae_slots E) awt fresh) body (\<lambda>r. st E True (ae_slots E) awt fresh)
             (\<lambda>e w. e \<noteq> QueueFull \<and> st E True (ae_slots E) awt fresh w)"
  shows "triple (st E True False awt fresh) (in_slot E body) (\<lambda>r. st E True False awt fresh)
           (\<lambda>e w. if e = QueueFull then st E True False awt fresh w else failed E w)"
proof (cases "ae_slots E")
  case False
  then show ?thesis using assms
    by (auto simp: in_slot_def dest: st_failed intro: triple_weaken)
next
  case True
  have enter: "st E True True awt fresh (logged CSlotIn (w\<lparr>as_asked := k\<rparr>))" if "st E True False awt fresh w" for w k
    using that True by (auto simp: st_def logged_def)
  have leave: "st E True False awt fresh (logged CSlotOut w)" if "st E True True awt fresh w" for w
    using that by (auto simp: st_def logged_def)
  have body: "triple (st E True True awt fresh) body (\<lambda>r. st E True True awt fresh)
             (\<lambda>e w. e \<noteq> QueueFull \<and> st E True True awt fresh w)"
    using assms True by simp
  show ?thesis
  proof (rule tripleI)
    fix w assume w: "st E True False awt fresh w"
    let ?w1 = "w\<lparr>as_asked := Suc (as_asked w)\<rparr>"
    have w1: "st E True False awt fresh ?w1" using w by (auto simp: st_def)
    have fin: "triple (st E True True awt fresh) (act_finally body (logged CSlotOut))
        (\<lambda>r. st E True False awt fresh) (\<lambda>e w. e \<noteq> QueueFull \<and> failed E w)"
      by (rule triple_finally, rule triple_weaken [OF body]) (auto intro: leave st_failed)
    show "case in_slot E body w of (Inl e, w') \<Rightarrow> if e = QueueFull then st E True False awt fresh w' else failed E w'
        | (Inr x, w') \<Rightarrow> st E True False awt fresh w'"
    proof (cases "ae_full E (as_asked w)")
      case True
      then show ?thesis using w1 \<open>ae_slots E\<close> by (simp add: in_slot_def)
    next
      case False
      then have "in_slot E body w = act_finally body (logged CSlotOut) (logged CSlotIn ?w1)"
        using \<open>ae_slots E\<close> by (simp add: in_slot_def)
      then show ?thesis using tripleD [OF fin enter [OF w]] by (auto split: prod.splits sum.splits)
    qed
  qed
qed

lemma finalize_step:
  "triple (st E True False awt fresh) (finalize_utterance E) (\<lambda>r. st E True False awt fresh)
     (\<lambda>e w. if e = QueueFull then st E True False awt fresh w else failed E w)"
  unfolding finalize_utterance_def by (rule slot_step, rule triple_then; rule infer_step) simp_all

lemma force_step:
  "triple (st E True False awt fresh) (force_utterance E) (\<lambda>r. st E True False awt fresh)
     (\<lambda>e w. if e = QueueFull then st E True False awt fresh w else failed E w)"
proof (cases "ae_force E")
  case None
  then show ?thesis by (simp add: force_utterance_def finalize_step)
next
  case (Some f)
  have "triple (st E True (ae_slots E) awt fresh)
      (act_bind (on_stream CForce f) (\<lambda>text. act_return (text, None)))
      (\<lambda>r. st E True (ae_slots E) awt fresh)
      (\<lambda>e w. e \<noteq> QueueFull \<and> st E True (ae_slots E) awt fresh w)"
    by (rule triple_bind [OF infer_step]) (simp_all add: triple_return)
  then show ?thesis unfolding force_utterance_def Some option.case by (rule slot_step)
qed

lemma full_step:
  assumes "triple P m S (\<lambda>e w. if e = QueueFull then U w else R e w)" and "triple U full Q R"
    and "\<And>x. triple (S x) (k x) Q R"
  shows "triple P (if_full m full k) Q R"
proof (rule tripleI)
  fix w assume w: "P w"
  obtain r w1 where m: "m w = (r, w1)" by fastforce
  show "case if_full m full k w of (Inr x, w') \<Rightarrow> Q x w' | (Inl e, w') \<Rightarrow> R e w'"
  proof (cases r)
    case (Inl e)
    then have "if e = QueueFull then U w1 else R e w1" using tripleD(2) [OF assms(1) w] m by simp
    then show ?thesis using m Inl assms(2) by (cases e) (simp_all add: if_full_def triple_def)
  next
    case (Inr x)
    then have "S x w1" using tripleD(1) [OF assms(1) w] m by simp
    then show ?thesis using m Inr assms(3) [of x] by (simp add: if_full_def triple_def)
  qed
qed

lemma quiet_plain_step:
  "plain_frame d \<Longrightarrow>
   triple (st E opn False False fresh) (send_quietly d) (\<lambda>r. st E opn False False fresh) R"
  unfolding send_quietly_def
  by (rule triple_try [of _ _ _ "\<lambda>e. st E opn False False fresh"])
    (auto intro!: triple_send triple_return simp: st_def logged_def plain_frame_def await_ok_def)

lemma quiet_closing_step:
  "jget ''type'' d \<noteq> JStr ''vad_endpoint'' \<Longrightarrow> closes_endpoint d \<Longrightarrow>
   triple (st E opn False True fresh) (send_quietly d) (\<lambda>r. st E opn False False fresh) R"
  unfolding send_quietly_def
  by (rule triple_try [OF closing_step]) (simp_all add: triple_return)

lemma after_refusal:
  "triple (st E True False False fresh)
     (act_then (rearm E) (act_then clear_seg (if reset then vad_reset E else act_return ())))
     (\<lambda>r. st E True False False True) (\<lambda>e. failed E)"
  by (rule triple_then [OF rearm_step triple_then [OF clear_step]]) (simp add: vad_reset_step triple_return)

lemma reject_step:
  "ep \<noteq> ''vad'' \<Longrightarrow> triple (st E True False False fresh) (reject_utterance E ep reset)
     (\<lambda>r. st E True False False True) (\<lambda>e. failed E)"
  "triple (st E True False True fresh) (reject_utterance E ''vad'' reset)
     (\<lambda>r. st E True False False True) (\<lambda>e. failed E)"
  unfolding reject_utterance_def
  by (rule triple_then [OF quiet_plain_step after_refusal], simp add: plain_frame_def closes_endpoint_def busy_frame_def jget_or_def)
    (rule triple_then [OF quiet_closing_step after_refusal]; simp add: closes_endpoint_def busy_frame_def jget_or_def)

text \<open>Enriching a payload keeps its type and its endpoint.\<close>

definition same_kind :: "jdict \<Rightarrow> jdict \<Rightarrow> bool" where
  "same_kind p q \<longleftrightarrow> jget ''type'' q = jget ''type'' p \<and> jget ''endpoint'' q = jget ''endpoint'' p"

lemma punctuated_kind: "same_kind p (punctuated E text p)"
  by (simp add: same_kind_def punctuated_def split: option.split)

lemma update_kind:
  "map_of emb k = None \<Longrightarrow> jget k (dict_update p emb) = jget k p"
  by (simp add: jget_or_def map_add_def)
    (metis (no_types) map_of_eq_None_iff option.simps(4) set_rev image_set rev_map)

lemma embedded_step:
  assumes "embedding_plain E" and "ae_spk_on E"
  shows "triple (st E True False awt True) (embedded E p)
           (\<lambda>q w. st E True False awt False w \<and> same_kind p q) (\<lambda>e. failed E)"
proof (rule tripleI)
  fix w assume w: "st E True False awt True w"
  let ?w1 = "logged (CAugment (as_t w - seg_samples w) (as_t w) (concat (as_seg w))) w"
  have w1: "st E True False awt False ?w1" "st E True False awt False (?w1\<lparr>as_diar := d\<rparr>)" for d
    using w assms(2) by (auto simp: st_def logged_def seg_ok_def seg_samples_def)
  have kind: "jget ''type'' (dict_update p' emb) = jget ''type'' p'"
      "jget ''endpoint'' (dict_update p' emb) = jget ''endpoint'' p'"
    if "ae_embed E xs = Some (Some emb)" for xs emb p'
    using assms(1) that by (auto simp: embedding_plain_def intro!: update_kind)
  show "case embedded E p w of (Inl e, w') \<Rightarrow> failed E w' | (Inr q, w') \<Rightarrow> st E True False awt False w' \<and> same_kind p q"
    using w1 by (auto simp: embedded_def Let_def same_kind_def kind split: prod.splits option.splits)
qed

lemma augment_step:
  assumes "embedding_plain E"
  shows "triple (st E True False awt True) (augment_final E text p)
           (\<lambda>q w. st E True False awt False w \<and> same_kind p q) (\<lambda>e. failed E)"
  unfolding augment_final_def
proof (rule triple_bind [of _ _ "\<lambda>x. st E True False awt True"])
  show "triple (st E True False awt True) (act_get as_seg) (\<lambda>x. st E True False awt True) (\<lambda>e. failed E)"
    by (simp add: triple_get)
  fix seg :: "real list list"
  show "triple (st E True False awt True)
      (if ae_spk_on E \<and> seg \<noteq> [] then embedded E (punctuated E text p) else act_return (punctuated E text p))
      (\<lambda>q w. st E True False awt False w \<and> same_kind p q) (\<lambda>e. failed E)"
  proof (cases "ae_spk_on E \<and> seg \<noteq> []")
    case True
    have "triple (st E True False awt True) (embedded E (punctuated E text p))
        (\<lambda>q w. st E True False awt False w \<and> same_kind p q) (\<lambda>e. failed E)"
      by (rule triple_weaken [OF embedded_step [OF assms]])
        (use True punctuated_kind [of p E "text"] in \<open>auto simp: same_kind_def\<close>)
    then show ?thesis using True by simp
  next
    case False
    have "triple (st E True False awt True) (act_return (punctuated E text p))
        (\<lambda>q w. st E True False awt False w \<and> same_kind p q) (\<lambda>e. failed E)"
      by (rule triple_return) (simp add: st_weaken punctuated_kind)
    then show ?thesis using False by (simp add: if_not_P)
  qed
qed

lemma final_kind:
  "jget ''type'' (final_payload text language vad) = JStr ''final''"
  "closes_endpoint (final_payload text language vad) = vad"
  by (auto simp: final_payload_def jget_or_def closes_endpoint_def split: option.split)

text \<open>Enriching never raises.\<close>

lemma augment_total: "\<exists>q w'. augment_final E t p w = (Inr q, w')"
  by (auto simp: augment_final_def embedded_def act_defs Let_def split: prod.split option.split)

lemma augment_never_raises:
  "triple P (augment_final E t p) Q R \<Longrightarrow> triple P (augment_final E t p) Q R'"
  unfolding triple_def using augment_total [of E t p] by (fastforce split: prod.splits sum.splits)

subsection \<open>Messages\<close>

abbreviation idle :: "('s, 'd, 'v) asr_env \<Rightarrow> ('s, 'd, 'v) asr \<Rightarrow> bool" where
  "idle E \<equiv> st E True False False True"

definition left_loop :: "('s, 'd, 'v) asr_env \<Rightarrow> ('s, 'd, 'v) asr \<Rightarrow> bool" where
  "left_loop E w \<longleftrightarrow> (\<exists>awt fresh. st E True False awt fresh w)"

lemma left_loopI: "st E True False awt fresh w \<Longrightarrow> left_loop E w"
  by (auto simp: left_loop_def)

lemma final_step:
  assumes "embedding_plain E"
  shows "triple (idle E) (send_final E text language) (\<lambda>r. idle E) (\<lambda>e. failed E)"
  unfolding send_final_def
proof (rule triple_bind [OF augment_step [OF assms]])
  fix p
  show "triple (\<lambda>w. st E True False False False w \<and> same_kind (final_payload text language False) p)
      (act_then clear_seg (send_frame p)) (\<lambda>r. idle E) (\<lambda>e. failed E)"
  proof (cases "plain_frame p")
    case True
    then show ?thesis
      by (intro triple_weaken [OF triple_then [OF clear_step plain_step]]) auto
  next
    case False
    then have "\<not> same_kind (final_payload text language False) p"
      using final_kind [of "text" language False]
      by (auto simp: same_kind_def plain_frame_def closes_endpoint_def)
    then show ?thesis by (simp add: triple_def)
  qed
qed

lemma end_utterance_step:
  assumes "embedding_plain E"
  shows "triple (idle E) (on_end_utterance E) (\<lambda>r. idle E) (\<lambda>e. failed E)"
  unfolding on_end_utterance_def
  by (rule full_step [OF force_step reject_step(1)]) (auto simp: final_step [OF assms] split: prod.split)

lemma reset_step: "triple (idle E) (on_reset E) (\<lambda>r. idle E) (\<lambda>e. failed E)"
  unfolding on_reset_def
  by (rule triple_then [OF rearm_step triple_then [OF clear_step plain_step]])
    (simp add: plain_frame_def reset_frame_def closes_endpoint_def jget_or_def)

lemma text_step:
  assumes "embedding_plain E"
  shows "triple (idle E) (on_text E s) (\<lambda>r. idle E) (\<lambda>e. failed E)"
proof -
  have "triple (idle E) (act_return ()) (\<lambda>r. idle E) (\<lambda>e. failed E)" by (simp add: triple_return)
  moreover have "triple (idle E) (act_raise x) (\<lambda>r. idle E) (\<lambda>e. failed E)" for x :: asr_exn
    by (rule triple_raise) (rule st_failed)
  ultimately show ?thesis
    using end_utterance_step [OF assms] reset_step
    by (auto simp: on_text_def split: option.split json.split)
qed

lemma summary_step: "triple (idle E) (send_summary E) (\<lambda>r. idle E) (\<lambda>e. failed E)"
  unfolding send_summary_def
proof (rule triple_bind [of _ _ "\<lambda>d. idle E"])
  fix d
  have "plain_frame p" if "Option.bind d (summary_payload E) = Some p" for p
    using that by (auto simp: summary_payload_def plain_frame_def closes_endpoint_def jget_or_def
        split: option.splits if_splits bind_splits)
  then show "triple (idle E) (case Option.bind d (summary_payload E) of Some p \<Rightarrow> send_quietly p | None \<Rightarrow> act_return ())
      (\<lambda>r. idle E) (\<lambda>e. failed E)"
    by (auto simp: quiet_plain_step triple_return split: option.split)
qed (simp add: triple_get)

lemma eos_step:
  assumes "embedding_plain E"
  shows "triple (idle E) (on_eos E) (\<lambda>r. idle E) (\<lambda>e. failed E)"
  unfolding on_eos_def
proof (rule full_step [OF finalize_step quiet_plain_step])
  show "plain_frame (busy_frame ''eos'')"
    by (simp add: plain_frame_def closes_endpoint_def busy_frame_def jget_or_def)
  show "triple (idle E) (case x of (t, language) \<Rightarrow> act_then (send_final E t language) (send_summary E))
      (\<lambda>r. idle E) (\<lambda>e. failed E)" for x
    by (cases x) (simp add: triple_then [OF final_step [OF assms] summary_step])
qed

definition going :: "('s, 'd, 'v) asr_env \<Rightarrow> bool \<Rightarrow> ('s, 'd, 'v) asr \<Rightarrow> bool" where
  "going E = (\<lambda>go w. if go then idle E w else left_loop E w)"

lemma going_iff [simp]: "going E True = idle E" "going E False = left_loop E"
  by (simp_all add: going_def)

lemma going_return: "triple (going E go) (act_return go) (going E) R"
  by (rule triple_return)

lemma speech_end_step:
  assumes "embedding_plain E"
  shows "triple (idle E) (on_speech_end E last_one) (going E) (\<lambda>e. failed E)"
  unfolding on_speech_end_def
proof (rule triple_then [OF endpoint_step full_step [OF finalize_step]])
  show "triple (st E True False True True) (act_then (reject_utterance E ''vad'' last_one) (act_return True))
      (going E) (\<lambda>e. failed E)"
    by (rule triple_then [OF reject_step(2)]) (simp add: triple_return)
  fix x :: "string \<times> string option"
  obtain t language where x: "x = (t, language)" by fastforce
  have sent: "triple (st E True False True True)
      (act_try (act_bind (augment_final E t (final_payload t language True))
                 (\<lambda>p. act_then (send_frame p) (act_return True)))
         (\<lambda>e. act_return False))
      (\<lambda>sent w. if sent then st E True False False False w else left_loop E w) (\<lambda>e. failed E)"
  proof (rule triple_try [of _ _ _ "\<lambda>e. left_loop E"])
    show "triple (st E True False True True)
        (act_bind (augment_final E t (final_payload t language True))
           (\<lambda>p. act_then (send_frame p) (act_return True)))
        (\<lambda>sent w. if sent then st E True False False False w else left_loop E w) (\<lambda>e. left_loop E)"
    proof (rule triple_bind)
      show "triple (st E True False True True) (augment_final E t (final_payload t language True))
          (\<lambda>q w. st E True False True False w \<and> same_kind (final_payload t language True) q) (\<lambda>e. left_loop E)"
        using augment_never_raises [OF augment_step [OF assms]] by blast
      fix p
      show "triple (\<lambda>w. st E True False True False w \<and> same_kind (final_payload t language True) p)
          (act_then (send_frame p) (act_return True))
          (\<lambda>sent w. if sent then st E True False False False w else left_loop E w) (\<lambda>e. left_loop E)"
      proof (cases "jget ''type'' p \<noteq> JStr ''vad_endpoint'' \<and> closes_endpoint p")
        case True
        then have "triple (st E True False True False) (send_frame p) (\<lambda>r. st E True False False False)
            (\<lambda>e. st E True False False False)"
          by (intro closing_step) auto
        then have "triple (\<lambda>w. st E True False True False w \<and> same_kind (final_payload t language True) p)
            (send_frame p) (\<lambda>r. st E True False False False) (\<lambda>e. left_loop E)"
          by (rule triple_weaken) (auto intro: left_loopI)
        then show ?thesis by (rule triple_then) (simp add: triple_return)
      next
        case False
        then have "\<not> same_kind (final_payload t language True) p"
          using final_kind [of t language True]
          by (auto simp: same_kind_def closes_endpoint_def)
        then show ?thesis by (simp add: triple_def)
      qed
    qed
  qed (simp add: triple_return)
  have fresh_start: "triple (st E True False False False)
      (act_then (rearm E)
         (act_then clear_seg (act_then (if last_one then vad_reset E else act_return ()) (act_return True))))
      (going E) (\<lambda>e. failed E)"
    by (rule triple_then [OF rearm_step triple_then [OF clear_step triple_then [of _ _ "idle E"]]])
      (simp_all add: vad_reset_step triple_return)
  show "triple (st E True False True True)
      (case x of (t, language) \<Rightarrow>
         act_bind
           (act_try
              (act_bind (augment_final E t (final_payload t language True))
                 (\<lambda>p. act_then (send_frame p) (act_return True)))
              (\<lambda>e. act_return False))
           (\<lambda>sent. if \<not> sent then act_return False
                   else act_then (rearm E)
                          (act_then clear_seg
                             (act_then (if last_one then vad_reset E else act_return ()) (act_return True)))))
      (going E) (\<lambda>e. failed E)"
    unfolding x prod.case
    by (rule triple_bind [OF sent]) (auto simp: fresh_start triple_return)
qed

lemma segments_step:
  assumes "embedding_plain E"
  shows "triple (idle E) (do_segments E has_vad segs) (going E) (\<lambda>e. failed E)"
proof (induction segs)
  case (Cons s segs)
  obtain xs event where s: "s = (xs, event)" by fastforce
  have on_end: "triple (idle E)
      (act_bind (on_speech_end E (segs = [])) (\<lambda>go. if go then do_segments E has_vad segs else act_return False))
      (going E) (\<lambda>e. failed E)"
    by (rule triple_bind [OF speech_end_step [OF assms]]) (use Cons in \<open>auto simp: triple_return\<close>)
  show ?case unfolding s do_segments.simps
    by (rule triple_then [OF accept_step]) (use Cons on_end in auto)
qed (simp add: triple_return)

lemma poll_step:
  assumes "embedding_plain E"
  shows "triple (idle E) (poll_partial E) (\<lambda>r. idle E) (\<lambda>e. failed E)"
  unfolding poll_partial_def
proof (rule triple_bind [OF partial_step])
  fix x :: "string \<times> bool"
  obtain t ep where x: "x = (t, ep)" by fastforce
  have "triple (idle E) (act_then (send_final E t None) (act_then (rearm E) (vad_reset E))) (\<lambda>r. idle E) (\<lambda>e. failed E)"
    by (rule triple_then [OF final_step [OF assms] triple_then [OF rearm_step vad_reset_step]])
  moreover have "triple (idle E) (send_frame (partial_frame t)) (\<lambda>r. idle E) (\<lambda>e. failed E)"
    by (rule plain_step) (simp add: plain_frame_def closes_endpoint_def partial_frame_def jget_or_def)
  ultimately show "triple (idle E)
      (case x of (text, is_endpoint) \<Rightarrow>
          if text = [] then act_return ()
          else if is_endpoint then act_then (send_final E text None) (act_then (rearm E) (vad_reset E))
          else send_frame (partial_frame text))
      (\<lambda>r. idle E) (\<lambda>e. failed E)"
    by (simp add: x triple_return)
qed

lemma vad_events_step: "triple (idle E) (vad_events E xs) (\<lambda>r. idle E) R"
  by (rule tripleI) (auto simp: vad_events_def st_def split: option.split prod.split)

lemma audio_step:
  assumes "embedding_plain E"
  shows "triple (idle E) (on_audio E bs) (going E) (\<lambda>e. failed E)"
proof (cases "samples_of bs")
  case None
  then show ?thesis by (simp add: on_audio_def triple_raise st_failed)
next
  case (Some xs)
  have polled: "triple (going E go) (if go then act_then (poll_partial E) (act_return True) else act_return False)
      (going E) (\<lambda>e. failed E)" for go
    using triple_then [OF poll_step [OF assms], of "act_return True" "going E"]
    by (cases go) (simp_all add: triple_return)
  show ?thesis unfolding on_audio_def Some option.case
    by (rule triple_bind [of _ _ "\<lambda>h. idle E"], simp add: triple_get,
        rule triple_bind [OF vad_events_step triple_bind [OF segments_step [OF assms] polled]])
qed

lemma message_step:
  fixes E :: "('s, 'd, 'v) asr_env"
  assumes "embedding_plain E"
  shows "triple (idle E) (asr_message E m) (going E) (\<lambda>e. failed E)"
proof -
  have "triple (idle E) (act_then (on_text E s) (act_return True)) (going E) (\<lambda>e. failed E)" for s
    by (rule triple_then [OF text_step [OF assms]]) (simp add: triple_return)
  moreover have "triple (idle E) (act_then (on_eos E) (act_return False)) (going E) (\<lambda>e. failed E)"
    by (rule triple_then [OF eos_step [OF assms]]) (simp add: triple_return left_loopI)
  moreover have "triple (idle E) (act_return go :: ('s, 'd, 'v, bool) asr_act) (going E) (\<lambda>e. failed E)" for go
    by (rule triple_return) (cases go; simp add: left_loopI)
  ultimately show ?thesis
    using audio_step [OF assms] by (simp add: asr_message_def split: option.split list.split)
qed

lemma handler_trace:
  "\<exists>cr frames. asr_handler E e w = (Inr cr, w\<lparr>as_trace := as_trace w @ frames, as_sends := as_sends w - length frames\<rparr>) \<and>
     (frames = [] \<or> (\<exists>x. e = Raised x \<and> frames = [CFrame (error_frame E x)]))"
proof (cases e)
  case (Raised x)
  obtain sat n where p: "is_pool_saturated x = (sat, n)" by fastforce
  show ?thesis
  proof (cases "sat \<or> as_sends w = 0")
    case True
    then show ?thesis using Raised p
      by (intro exI [of _ "if sat then (4429, [(''error'', JStr ''pool_saturated''),
            (''max_slots'', case n of Some k \<Rightarrow> JInt k | None \<Rightarrow> JNull)]) else (1000, [])"] exI [of _ "[]"])
        (auto simp: asr_handler_def act_defs send_quietly_def send_frame_def)
  next
    case False
    then show ?thesis using Raised p
      by (intro exI [of _ "(1000, [])"] exI [of _ "[CFrame (error_frame E x)]"])
        (auto simp: asr_handler_def act_defs send_quietly_def send_frame_def logged_def)
  qed
qed (auto simp: asr_handler_def act_defs intro!: exI [of _ "[]"])

text \<open>The audio the stream was given, in order.\<close>

fun accepted :: "session_call list \<Rightarrow> real list" where
  "accepted [] = []"
| "accepted (CAccept n xs # cs) = xs @ accepted cs"
| "accepted (c # cs) = accepted cs"

lemma accepted_append [simp]: "accepted (cs @ ds) = accepted cs @ accepted ds"
  by (induction cs rule: accepted.induct) auto

lemma mach_audio: "mach_run per cs m = Some m' \<Longrightarrow> mc_audio m' = mc_audio m @ accepted cs"
proof (induction cs arbitrary: m)
  case (Cons c cs)
  then show ?case by (cases c) (auto split: option.splits if_splits)
qed simp

subsection \<open>Every sample is fed, in order\<close>

definition audio_of :: "ws_message \<Rightarrow> real list" where
  "audio_of m =
     (if wm_text m \<noteq> None \<and> wm_text m \<noteq> Some [] \<or> wm_disconnect m then []
      else (case wm_bytes m of None \<Rightarrow> [] | Some bs \<Rightarrow> (case samples_of bs of None \<Rightarrow> [] | Some xs \<Rightarrow> xs)))"

definition fed :: "real list \<Rightarrow> ('s, 'd, 'v) asr \<Rightarrow> bool" where
  "fed A w \<longleftrightarrow> accepted (as_trace w) = A"

definition fed_upto :: "real list \<Rightarrow> real list \<Rightarrow> ('s, 'd, 'v) asr \<Rightarrow> bool" where
  "fed_upto A B w \<longleftrightarrow> (\<exists>X. accepted (as_trace w) = A @ X \<and> prefix X B)"

definition fed_if :: "real list \<Rightarrow> real list \<Rightarrow> bool \<Rightarrow> ('s, 'd, 'v) asr \<Rightarrow> bool" where
  "fed_if A B go w \<longleftrightarrow> (if go then fed (A @ B) w else fed_upto A B w)"

lemma fed_if_iff [simp]: "fed_if A B True = fed (A @ B)" "fed_if A B False = fed_upto A B"
  by (simp_all add: fed_if_def fun_eq_iff)

lemma fed_upto_fed: "fed A w \<Longrightarrow> fed_upto A B w"
  by (auto simp: fed_def fed_upto_def)

definition silent :: "('s, 'd, 'v, 'a) asr_act \<Rightarrow> bool" where
  "silent m \<longleftrightarrow> (\<forall>w. accepted (as_trace (snd (m w))) = accepted (as_trace w))"

lemma silentD: "silent m \<Longrightarrow> m w = (r, w') \<Longrightarrow> accepted (as_trace w') = accepted (as_trace w)"
  unfolding silent_def by (metis snd_conv)

lemma silentI:
  "(\<And>w r w'. m w = (r, w') \<Longrightarrow> accepted (as_trace w') = accepted (as_trace w)) \<Longrightarrow> silent m"
  unfolding silent_def by (metis prod.collapse)

lemma silent_triple: "silent m \<Longrightarrow> triple (fed A) m (\<lambda>r. fed A) (\<lambda>e. fed A)"
  unfolding silent_def triple_def fed_def by (auto split: prod.splits sum.splits) (metis snd_conv)+

named_theorems silents "actions that feed no audio"

lemma silent_return [silents]: "silent (act_return x)" "silent (act_raise e)" "silent (act_get f)"
  by (simp_all add: silent_def act_defs)

lemma silent_bind [silents]:
  assumes "silent m" and "\<And>x. silent (f x)"
  shows "silent (act_bind m f)"
  by (rule silentI) (auto simp: act_bind_def silentD [OF assms(1)] silentD [OF assms(2)]
      split: prod.splits sum.splits)

lemma silent_then [silents]: "silent m \<Longrightarrow> silent k \<Longrightarrow> silent (act_then m k)"
  unfolding act_then_def by (rule silent_bind)

lemma silent_try [silents]:
  assumes "silent m" and "\<And>e. silent (h e)"
  shows "silent (act_try m h)"
  by (rule silentI) (auto simp: act_try_def silentD [OF assms(1)] silentD [OF assms(2)]
      split: prod.splits sum.splits)

lemma silent_full [silents]:
  assumes "silent m" and "silent full" and "\<And>x. silent (k x)"
  shows "silent (if_full m full k)"
  by (rule silentI) (auto simp: if_full_def silentD [OF assms(1)] silentD [OF assms(2)] silentD [OF assms(3)]
      split: prod.splits sum.splits asr_exn.splits)

lemma silent_slot [silents]:
  assumes "silent body"
  shows "silent (in_slot E body)"
  by (rule silentI)
    (auto simp: in_slot_def act_finally_def logged_def Let_def split: prod.splits if_splits dest!: silentD [OF assms])

lemma silent_stream [silents]:
  "silent (on_stream CPrepare f)" "silent (on_stream CFinalize g)" "silent (on_stream CForce h)"
  "silent (on_stream CPartial k)"
  by (auto simp: silent_def on_stream_def logged_def Let_def split: sum.split prod.split)

lemma silent_steps [silents]:
  "silent (send_frame d)" "silent (create_stream E)" "silent (act_modify (\<lambda>w. logged (CClose (as_id w)) w))"
  "silent clear_seg" "silent (vad_reset E)" "silent (vad_events E xs)"
  by (auto simp: silent_def send_frame_def create_stream_def act_modify_def clear_seg_def vad_reset_def
      vad_events_def logged_def split: sum.split prod.split option.split)

lemma silent_embedded [silents]: "silent (embedded E p)"
  by (auto simp: silent_def embedded_def logged_def Let_def split: sum.split prod.split option.split)

lemma silent_if [silents]: "silent a \<Longrightarrow> silent b \<Longrightarrow> silent (if c then a else b)"
  by simp

lemma silent_compound [silents]:
  "silent (send_quietly d)" "silent (rearm E)" "silent (finalize_utterance E)" "silent (force_utterance E)"
  "silent (augment_final E t p)"
  by (auto simp: send_quietly_def rearm_def finalize_utterance_def force_utterance_def augment_final_def
      intro!: silents split: option.split)

lemma silent_reject [silents]: "silent (reject_utterance E ep r)" "silent (send_final E t l)" "silent (send_summary E)"
  by (auto simp: reject_utterance_def send_final_def send_summary_def intro!: silents split: option.split)

lemma silent_messages [silents]:
  "silent (on_end_utterance E)" "silent (on_reset E)" "silent (on_eos E)" "silent (poll_partial E)"
  by (auto simp: on_end_utterance_def on_reset_def on_eos_def poll_partial_def intro!: silents)

lemma silent_text [silents]: "silent (on_text E s)"
  by (auto simp: on_text_def intro!: silents split: option.split json.split)

lemma silent_speech_end [silents]: "silent (on_speech_end E b)"
  unfolding on_speech_end_def
  by (rule silents | (split prod.split, intro allI impI))+

lemma take_audio_fed: "triple (fed A) (take_audio E xs) (\<lambda>r. fed (A @ xs)) (\<lambda>e. fed (A @ xs))"
  by (rule tripleI)
    (auto simp: take_audio_def act_defs on_stream_def logged_def fed_def Let_def split: sum.split)

lemma segments_fed:
  "triple (fed A) (do_segments E has_vad segs)
     (fed_if A (concat (map fst segs)))
     (\<lambda>e. fed_upto A (concat (map fst segs)))"
proof (induction segs arbitrary: A)
  case (Cons s segs)
  obtain xs event where s: "s = (xs, event)" by fastforce
  let ?B = "xs @ concat (map fst segs)"
  have up: "fed_upto A ?B w" if "fed_upto (A @ xs) (concat (map fst segs)) w" for w
    using that by (auto simp: fed_upto_def)
  have here: "fed_upto A ?B w" if "fed (A @ xs) w" for w
    using that by (auto simp: fed_upto_def fed_def)
  have rest: "triple (fed (A @ xs)) (do_segments E has_vad segs)
      (fed_if A ?B) (\<lambda>e. fed_upto A ?B)"
    by (rule triple_weaken [OF Cons]) (auto intro: up simp: fed_if_def split: if_splits)
  have ended: "triple (fed (A @ xs))
      (act_bind (on_speech_end E (segs = [])) (\<lambda>go. if go then do_segments E has_vad segs else act_return False))
      (fed_if A ?B) (\<lambda>e. fed_upto A ?B)"
  proof (rule triple_bind)
    show "triple (fed (A @ xs)) (on_speech_end E (segs = [])) (\<lambda>go. fed (A @ xs)) (\<lambda>e. fed_upto A ?B)"
      by (rule triple_weaken [OF silent_triple [OF silent_speech_end]]) (auto intro: here)
    show "triple (fed (A @ xs)) (if go then do_segments E has_vad segs else act_return False)
      (fed_if A ?B) (\<lambda>e. fed_upto A ?B)" for go
      using rest by (cases go) (auto intro!: triple_return here)
  qed
  have "triple (fed A) (take_audio E xs) (\<lambda>r. fed (A @ xs)) (\<lambda>e. fed_upto A ?B)"
    by (rule triple_weaken [OF take_audio_fed]) (auto intro: here)
  then show ?case unfolding s do_segments.simps
    by (intro triple_then [of _ _ "fed (A @ xs)"]) (use rest ended in auto)
qed (simp add: triple_return)

lemma audio_fed:
  "triple (fed A) (on_audio E bs) (fed_if A (case samples_of bs of None \<Rightarrow> [] | Some xs \<Rightarrow> xs))
     (\<lambda>e. fed_upto A (case samples_of bs of None \<Rightarrow> [] | Some xs \<Rightarrow> xs))"
proof (cases "samples_of bs")
  case None
  then show ?thesis by (simp add: on_audio_def triple_raise fed_upto_fed)
next
  case (Some xs)
  have segs: "triple (fed A) (do_segments E h (split_vad_block xs evs)) (fed_if A xs) (\<lambda>e. fed_upto A xs)"
    for h and evs :: "(vad_event \<times> int) list"
    using segments_fed [of A E h "split_vad_block xs evs"] split_vad_block_conserves [of xs evs] by simp
  have "triple (fed (A @ xs)) (poll_partial E) (\<lambda>r. fed (A @ xs)) (\<lambda>e. fed_upto A xs)"
    by (rule triple_weaken [OF silent_triple [OF silent_messages(4)]]) (auto simp: fed_upto_def fed_def)
  then have polled: "triple (fed_if A xs go) (if go then act_then (poll_partial E) (act_return True) else act_return False)
      (fed_if A xs) (\<lambda>e. fed_upto A xs)" for go
    by (cases go) (auto intro!: triple_then triple_return)
  have vad: "triple (fed A) (vad_events E xs) (\<lambda>r. fed A) (\<lambda>e. fed_upto A xs)"
    by (rule triple_weaken [OF silent_triple [OF silent_steps(6)]]) (auto intro: fed_upto_fed)
  show ?thesis unfolding on_audio_def Some option.case
    by (rule triple_bind [of _ _ "\<lambda>h. fed A"], simp add: triple_get,
        rule triple_bind [OF vad triple_bind [OF segs polled]])
qed

lemma message_fed:
  fixes E :: "('s, 'd, 'v) asr_env"
  shows "triple (fed A) (asr_message E m) (fed_if A (audio_of m)) (\<lambda>e. fed_upto A (audio_of m))"
proof -
  have quiet: "triple (fed A) k (\<lambda>r. fed A) (\<lambda>e. fed_upto A B)" if "silent k"
    for k :: "('s, 'd, 'v, 'a) asr_act" and B
    by (rule triple_weaken [OF silent_triple [OF that]]) (auto intro: fed_upto_fed)
  have ret: "triple (fed A) (act_return go :: ('s, 'd, 'v, bool) asr_act) (fed_if A []) (\<lambda>e. fed_upto A [])" for go
    by (rule triple_return) (cases go; simp add: fed_upto_fed)
  have words: "triple (fed A) (act_then (on_text E s) (act_return True)) (fed_if A []) (\<lambda>e. fed_upto A [])" for s
    by (rule triple_then [OF quiet [OF silent_text] ret])
  have eos: "triple (fed A) (act_then (on_eos E) (act_return False)) (fed_if A []) (\<lambda>e. fed_upto A [])"
    by (rule triple_then [OF quiet [OF silent_messages(3)] ret])
  show ?thesis
  proof (cases "(wm_text m \<noteq> None \<and> wm_text m \<noteq> Some []) \<or> wm_disconnect m")
    case True
    then have "audio_of m = []" by (auto simp: audio_of_def)
    with True words ret show ?thesis by (auto simp: asr_message_def split: option.split list.split)
  next
    case False
    then have step: "asr_message E m = (case wm_bytes m of None \<Rightarrow> act_return True
        | Some [] \<Rightarrow> act_then (on_eos E) (act_return False) | Some bs \<Rightarrow> on_audio E bs)"
      and audio: "audio_of m = (case wm_bytes m of None \<Rightarrow> []
        | Some bs \<Rightarrow> (case samples_of bs of None \<Rightarrow> [] | Some xs \<Rightarrow> xs))"
      by (auto simp: asr_message_def audio_of_def split: option.split list.split)
    have none: "samples_of [] = Some []" by (simp add: samples_of_def)
    show ?thesis
    proof (cases "wm_bytes m")
      case None
      then show ?thesis using ret by (simp add: step audio)
    next
      case (Some bs)
      then show ?thesis using eos none audio_fed [of A E bs] by (cases bs) (simp_all add: step audio)
    qed
  qed
qed

lemma messages_fed:
  "triple (fed A) (act_for (asr_message E) ms) (fed_if A (concat (map audio_of ms)))
     (\<lambda>e. fed_upto A (concat (map audio_of ms)))"
proof (induction ms arbitrary: A)
  case (Cons m ms)
  let ?B = "audio_of m @ concat (map audio_of ms)"
  have up: "fed_upto A ?B w" if "fed_upto (A @ audio_of m) (concat (map audio_of ms)) w" for w
    using that by (auto simp: fed_upto_def)
  have ext: "fed_upto A ?B w" if "fed_upto A (audio_of m) w" for w
    using that by (auto simp: fed_upto_def prefix_def)
  have rest: "triple (fed_if A (audio_of m) go) (if go then act_for (asr_message E) ms else act_return False)
      (fed_if A ?B) (\<lambda>e. fed_upto A ?B)" for go
  proof (cases go)
    case True
    then show ?thesis by (auto intro!: triple_weaken [OF Cons] up simp: fed_if_def split: if_splits)
  qed (auto intro!: triple_return ext)
  have "triple (fed A) (asr_message E m) (fed_if A (audio_of m)) (\<lambda>e. fed_upto A ?B)"
    by (rule triple_weaken [OF message_fed]) (auto intro: ext)
  then show ?case unfolding act_for.simps list.map concat.simps by (rule triple_bind) (rule rest)
qed (simp add: triple_return)

section \<open>Properties\<close>

lemma new_asr_idle: "idle E (new_asr s diar vad sends)"
  by (simp add: st_def new_asr_def mach0_def seg_ok_def seg_samples_def await_ok_def)

lemma loop_ok:
  assumes "embedding_plain E"
  shows "triple (idle E) (act_for (asr_message E) ms) (going E) (\<lambda>e. failed E)"
  using triple_for [of ms "idle E" "asr_message E" "left_loop E" "\<lambda>e. failed E"] message_step [OF assms]
  by (simp add: going_def)

text \<open>C26: Whatever the client sends, whatever the recogniser, the detector and the inference queue answer and
  whenever the client goes away, the log of a session is a run of the machine, up to its end: streams are
  used one at a time, each only between its creation and its close; inference happens exactly inside the
  slot (when the session takes slots), which is given back; every embedding is over the audio since
  the last final and the windows follow one another; an announced endpoint is answered by its
  final or its refusal before any other frame.  A session that has ended closed its stream and then
  the socket, after at most one frame with the error.\<close>

theorem asr_session_protocol:
  assumes "embedding_plain E"
    and "asr_stream_backend E diar vad sends ms = Inr (status, w)"
  shows "\<exists>calls m. mach_run (ae_slots E) calls mach0 = Some m \<and> \<not> mc_slot m \<and>
           (case status of
              Listening \<Rightarrow> as_trace w = calls \<and> mc_open m
            | Over \<Rightarrow> (\<exists>frames code reason.
                as_trace w = calls @ frames @ [CClose (mc_id m), CWsClose code reason] \<and>
                (frames = [] \<or> (\<exists>x. frames = [CFrame (error_frame E x)]))))"
proof -
  obtain s where s: "asr_session E ms (new_asr s diar vad sends) = (status, w)"
    using assms(2) by (auto simp: asr_stream_backend_def split: sum.splits)
  obtain r w1 where loop: "act_for (asr_message E) ms (new_asr s diar vad sends) = (r, w1)" by fastforce
  show ?thesis
  proof (cases r)
    case (Inr go)
    have "going E go w1"
      using tripleD(1) [OF loop_ok [OF assms(1)] new_asr_idle] loop Inr by blast
    then obtain m where m: "mach_run (ae_slots E) (as_trace w1) mach0 = Some m" "mc_id m = as_id w1" "mc_open m"
        "\<not> mc_slot m"
      by (cases go) (auto simp: st_def left_loop_def)
    show ?thesis
    proof (cases go)
      case True
      then have "status = Listening" "w = w1" using s loop Inr by (simp_all add: asr_session_def)
      then show ?thesis using m by auto
    next
      case False
      then have "status = Over" "as_trace w = as_trace w1 @ [] @ [CClose (mc_id m), CWsClose 1000 []]"
        using s loop Inr m(2) by (auto simp: asr_session_def asr_finish_def logged_def)
      then show ?thesis using m by fastforce
    qed
  next
    case (Inl e)
    have "failed E w1" using tripleD(2) [OF loop_ok [OF assms(1)] new_asr_idle] loop Inl by blast
    then obtain m where m: "mach_run (ae_slots E) (as_trace w1) mach0 = Some m" "mc_id m = as_id w1" "\<not> mc_slot m"
      by (auto simp: failed_def)
    obtain cr frames where h: "asr_handler E e w1 = (Inr cr, w1\<lparr>as_trace := as_trace w1 @ frames, as_sends := as_sends w1 - length frames\<rparr>)"
        "frames = [] \<or> (\<exists>x. e = Raised x \<and> frames = [CFrame (error_frame E x)])"
      using handler_trace by blast
    have "status = Over" "as_trace w = as_trace w1 @ frames @ [CClose (mc_id m), CWsClose (fst cr) (snd cr)]"
      using s loop Inl h(1) m(2) by (auto simp: asr_session_def asr_finish_def logged_def)
    then show ?thesis using m h(2) by fastforce
  qed
qed

text \<open>The stream is fed exactly the audio of the client's binary messages, in order and each sample once, however
  the detector's events split the blocks; when the session ends in between, what was fed is a prefix
  of it.\<close>

theorem asr_audio_fed_in_order:
  assumes "asr_stream_backend E diar vad sends ms = Inr (status, w)"
  shows "prefix (accepted (as_trace w)) (concat (map audio_of ms)) \<and>
         (status = Listening \<longrightarrow> accepted (as_trace w) = concat (map audio_of ms))"
proof -
  let ?A = "concat (map audio_of ms)"
  obtain s where s: "asr_session E ms (new_asr s diar vad sends) = (status, w)"
    using assms by (auto simp: asr_stream_backend_def split: sum.splits)
  obtain r w1 where loop: "act_for (asr_message E) ms (new_asr s diar vad sends) = (r, w1)" by fastforce
  have new: "fed [] (new_asr s diar vad sends)" by (simp add: fed_def new_asr_def)
  have up: "fed_upto [] ?A w1" and all: "r = Inr True \<Longrightarrow> fed ?A w1"
    using tripleD [OF messages_fed new, of E ms] loop
    by (cases r; auto simp: fed_if_def fed_upto_def fed_def split: if_splits)+
  obtain cr frames where h: "asr_handler E (projl r) w1 = (Inr cr, w1\<lparr>as_trace := as_trace w1 @ frames, as_sends := as_sends w1 - length frames\<rparr>)"
      "frames = [] \<or> (\<exists>x. projl r = Raised x \<and> frames = [CFrame (error_frame E x)])"
    using handler_trace by blast
  have "accepted (as_trace w) = accepted (as_trace w1)" and "status = Listening \<Longrightarrow> r = Inr True"
    using s loop h by (auto simp: asr_session_def asr_finish_def logged_def split: sum.splits bool.splits)
  then show ?thesis using up all by (auto simp: fed_upto_def fed_def)
qed

definition demo_asr :: "(nat, unit, unit) asr_env" where
  "demo_asr = \<lparr>ae_create = (\<lambda>n. Inr 0), ae_accept = (\<lambda>s xs. Inr ((), s + length xs)), ae_prepare = (\<lambda>s. Inr ((), s)),
     ae_finalize = (\<lambda>s. Inr ((''hi'', None), s)), ae_force = None, ae_partial = (\<lambda>s. Inr (([], False), s)),
     ae_events = (\<lambda>v xs. ([(SpeechEnd, 1)], v)), ae_vad_reset = (\<lambda>v. v), ae_punct = (\<lambda>t. None),
     ae_embed = (\<lambda>xs. Some (Some [(''dim'', JInt 0)])), ae_assign = (\<lambda>d e s t. (None, d)), ae_relabel = (\<lambda>d. None),
     ae_loads = (\<lambda>s. None), ae_full = (\<lambda>n. False), ae_name = ''demo'', ae_rate = 16000, ae_punct_on = False,
     ae_spk_on = True, ae_slots = True\<rparr>"

definition demo_messages :: "ws_message list" where
  "demo_messages =
     [\<lparr>wm_text = None, wm_bytes = Some [0, 0, 1, 0], wm_disconnect = False\<rparr>,
      \<lparr>wm_text = None, wm_bytes = Some [], wm_disconnect = False\<rparr>]"

abbreviation demo_result :: "asr_status \<times> (nat, unit, unit) asr" where
  "demo_result \<equiv> asr_session demo_asr demo_messages (new_asr 0 None (Some ()) 9)"

lemma demo_backend: "asr_stream_backend demo_asr None (Some ()) 9 demo_messages = Inr (fst demo_result, snd demo_result)"
  by (simp add: asr_stream_backend_def demo_asr_def)

theorem asr_session_protocol_witness:
  "\<exists>calls m. mach_run True calls mach0 = Some m \<and> \<not> mc_slot m \<and>
      (case fst demo_result of
         Listening \<Rightarrow> as_trace (snd demo_result) = calls \<and> mc_open m
       | Over \<Rightarrow> (\<exists>frames code reason.
           as_trace (snd demo_result) = calls @ frames @ [CClose (mc_id m), CWsClose code reason] \<and>
           (frames = [] \<or> (\<exists>x. frames = [CFrame (error_frame demo_asr x)]))))"
proof -
  have plain: "embedding_plain demo_asr" by (simp add: embedding_plain_def demo_asr_def)
  have "ae_slots demo_asr = True" by (simp add: demo_asr_def)
  then show ?thesis using asr_session_protocol [OF plain demo_backend] by simp
qed

theorem asr_audio_fed_in_order_witness:
  "prefix (accepted (as_trace (snd demo_result))) (concat (map audio_of demo_messages)) \<and>
   fst demo_result = Over \<and> accepted (as_trace (snd demo_result)) = [0, 1 / 32768]"
  using asr_audio_fed_in_order [OF demo_backend]
  by (simp add: demo_messages_def demo_asr_def asr_session_def asr_message_def on_audio_def samples_of_def sint16_def
      vad_events_def split_vad_block_def take_audio_def on_speech_end_def finalize_utterance_def in_slot_def
      on_stream_def send_frame_def augment_final_def embedded_def punctuated_def final_payload_def rearm_def
      create_stream_def clear_seg_def vad_reset_def if_full_def on_eos_def send_final_def send_summary_def
      poll_partial_def new_asr_def logged_def act_defs Let_def seg_window_def seg_samples_def asr_finish_def)

end
