(* ===== verification/AsrSlots.thy ===== *)
theory AsrSlots
  imports Capability InferGate Json
begin

text \<open>
  How streaming recognition shares the runtime (\<open>server/main.py\<close>): the choice between connection-level and
  sentence-level locking, the slot of one utterance (\<open>_asr_utterance_slot\<close>, \<open>_AsrSlotJobs\<close>) over the
  inference gate of \<open>InferGate\<close>, and the resources of one WebSocket (\<open>asr_stream\<close>).  A task is
  one utterance; a worker is the thread inside the recogniser that the task waits for.  A thread cannot be
  cancelled, only the task that waits for it can.
\<close>

section \<open>Settings\<close>

text \<open>\<open>_flag_or\<close>: a query string or a JSON value, over the default.\<close>

definition flag_or :: "(json \<Rightarrow> string) \<Rightarrow> json \<Rightarrow> bool \<Rightarrow> bool" where
  "flag_or py_repr value dflt =
     (case value of
        JNull \<Rightarrow> dflt
      | JBool b \<Rightarrow> b
      | _ \<Rightarrow> py_lower (py_strip (json_str py_repr value)) \<in> {''1'', ''true'', ''yes'', ''on''})"

definition default_vad_backend :: "env_map \<Rightarrow> string" where
  "default_vad_backend env =
     (let s = py_strip (or_str (env ''OVS_VAD_BACKEND'') ''silero'') in if s = [] then ''silero'' else s)"

definition vad_preroll_ms :: "env_map \<Rightarrow> int" where
  "vad_preroll_ms env =
     (case py_int (or_str (env ''OVS_VAD_PREROLL_MS'') ''300'') of None \<Rightarrow> 300 | Some n \<Rightarrow> max 0 n)"

definition default_vad_silence_ms :: "env_map \<Rightarrow> int" where
  "default_vad_silence_ms env =
     (case py_int (or_str (env ''OVS_VAD_SILENCE_MS'') ''400'') of None \<Rightarrow> 400 | Some n \<Rightarrow> max 0 n)"

definition sentence_level_locking :: "resolved_capability \<Rightarrow> bool" where
  "sentence_level_locking r =
     (if coordinator_mode r = ''exclusive'' then False
      else (case max_concurrent (asr_cap r) of
              None \<Rightarrow> \<not> supports_parallel (asr_cap r)
            | Some n \<Rightarrow> n > asr_infer_concurrency r))"

section \<open>The slot of an utterance\<close>

text \<open>A task asks the gate for its permit; with the permit it waits for the coordinator, then runs its jobs one at a
  time, each in a worker it awaits.  \<open>Draining\<close> is the wait of \<open>drain\<close> for the worker after the task was
  cancelled; a second cancellation there abandons the worker.\<close>

datatype slot_phase = AtGate | AtCoordinator | Inside | Awaiting | Draining | Out | Abandoned

record slots =
  sl_gate :: gate
  sl_phase :: "nat \<Rightarrow> slot_phase"
  sl_worker :: "nat \<Rightarrow> bool"

definition new_slots :: "gate \<Rightarrow> slots" where
  "new_slots g = \<lparr>sl_gate = g, sl_phase = (\<lambda>t. AtGate), sl_worker = (\<lambda>t. False)\<rparr>"

text \<open>A task that has its permit goes on to the coordinator; one that was rejected or cancelled is out.\<close>

definition after_gate :: "slots \<Rightarrow> gate \<Rightarrow> nat \<Rightarrow> slots" where
  "after_gate s g t =
     s\<lparr>sl_gate := g,
       sl_phase := (sl_phase s)(t := (case g_phase g t of
                                        PHolding \<Rightarrow> AtCoordinator | PRejected \<Rightarrow> Out | PDone \<Rightarrow> Out | _ \<Rightarrow> AtGate))\<rparr>"

definition leave_slot :: "slots \<Rightarrow> nat \<Rightarrow> slot_phase \<Rightarrow> slots" where
  "leave_slot s t p = s\<lparr>sl_gate := release_permit t (sl_gate s), sl_phase := (sl_phase s)(t := p)\<rparr>"

datatype slot_event =
    GateOp gate_event
  | CoordinatorTaken nat
  | CoordinatorCancelled nat
  | SubmitJob nat
  | WorkerDone nat
  | ResumeTask nat
  | CancelWait nat
  | LeaveSlot nat
  | SlotDrained nat
  | CancelDrain nat

fun gate_task :: "gate_event \<Rightarrow> nat" where
  "gate_task (Start t) = t"
| "gate_task (Granted t) = t"
| "gate_task (CancelReq t) = t"
| "gate_task (CancelResume t) = t"
| "gate_task (Exit t) = t"

fun slot_step_fn :: "slot_event \<Rightarrow> slots \<Rightarrow> slots option" where
  "slot_step_fn (GateOp e) s = None"
| "slot_step_fn (CoordinatorTaken t) s =
     (if sl_phase s t = AtCoordinator then Some (s\<lparr>sl_phase := (sl_phase s)(t := Inside)\<rparr>) else None)"
| "slot_step_fn (CoordinatorCancelled t) s =
     (if sl_phase s t = AtCoordinator then Some (leave_slot s t Out) else None)"
| "slot_step_fn (SubmitJob t) s =
     (if sl_phase s t = Inside
      then Some (s\<lparr>sl_phase := (sl_phase s)(t := Awaiting), sl_worker := (sl_worker s)(t := True)\<rparr>) else None)"
| "slot_step_fn (WorkerDone t) s =
     (if sl_worker s t then Some (s\<lparr>sl_worker := (sl_worker s)(t := False)\<rparr>) else None)"
| "slot_step_fn (ResumeTask t) s =
     (if sl_phase s t = Awaiting \<and> \<not> sl_worker s t then Some (s\<lparr>sl_phase := (sl_phase s)(t := Inside)\<rparr>) else None)"
| "slot_step_fn (CancelWait t) s =
     (if sl_phase s t = Awaiting then Some (s\<lparr>sl_phase := (sl_phase s)(t := Draining)\<rparr>) else None)"
| "slot_step_fn (LeaveSlot t) s = (if sl_phase s t = Inside then Some (leave_slot s t Out) else None)"
| "slot_step_fn (SlotDrained t) s =
     (if sl_phase s t = Draining \<and> \<not> sl_worker s t then Some (leave_slot s t Out) else None)"
| "slot_step_fn (CancelDrain t) s =
     (if sl_phase s t = Draining \<and> sl_worker s t then Some (leave_slot s t Abandoned) else None)"

inductive slot_step :: "slots \<Rightarrow> slot_event \<Rightarrow> slots \<Rightarrow> bool" where
  at_gate: "sl_phase s (gate_task e) = AtGate \<Longrightarrow> gate_step (sl_gate s) e g \<Longrightarrow>
            slot_step s (GateOp e) (after_gate s g (gate_task e))"
| task: "slot_step_fn e s = Some s' \<Longrightarrow> slot_step s e s'"

subsection \<open>The permits cover the workers\<close>

definition holds_permit :: "slot_phase \<Rightarrow> bool" where
  "holds_permit p \<longleftrightarrow> p \<in> {AtCoordinator, Inside, Awaiting, Draining}"

definition slots_inv :: "nat \<Rightarrow> slots \<Rightarrow> bool" where
  "slots_inv c s \<longleftrightarrow> gate_inv (sl_gate s) \<and> g_concurrency (sl_gate s) = c \<and>
     (\<forall>t. holds_permit (sl_phase s t) \<longleftrightarrow> g_phase (sl_gate s) t = PHolding) \<and>
     (\<forall>t. sl_worker s t \<longrightarrow> sl_phase s t \<in> {Awaiting, Draining, Abandoned})"

lemma wake_next_concurrency [simp]: "g_concurrency (wake_next g) = g_concurrency g"
  by (auto simp: wake_next_def split: option.split)

lemma release_phase: "g_phase (release_permit t g) = (g_phase g)(t := PDone)"
  by (simp add: release_permit_def)

lemma gate_step_other:
  "gate_step g e g' \<Longrightarrow> t \<noteq> gate_task e \<Longrightarrow> g_phase g' t = g_phase g t"
  by (cases rule: gate_step.cases)
    (auto simp: acquire_start_def resume_granted_def cancel_waiting_def resume_cancelled_def release_permit_def Let_def)

lemma gate_step_width: "gate_step g e g' \<Longrightarrow> g_concurrency g' = g_concurrency g"
  by (cases rule: gate_step.cases)
    (auto simp: acquire_start_def resume_granted_def cancel_waiting_def resume_cancelled_def release_permit_def Let_def)

lemma leave_inv:
  assumes "slots_inv c s" and "holds_permit (sl_phase s t)" and "p \<in> {Out, Abandoned}"
    and "p = Abandoned \<or> \<not> sl_worker s t"
  shows "slots_inv c (leave_slot s t p)"
proof -
  have h: "g_phase (sl_gate s) t = PHolding" using assms(1,2) by (simp add: slots_inv_def)
  have "gate_inv (release_permit t (sl_gate s))"
    using gate_step_inv [OF gate_step.exit [OF h]] assms(1) by (simp add: slots_inv_def)
  then show ?thesis using assms
    by (auto simp: slots_inv_def leave_slot_def release_phase holds_permit_def release_permit_def)
qed

lemma slot_step_inv:
  assumes "slot_step s e s'" and "slots_inv c s"
  shows "slots_inv c s'"
  using assms(1)
proof cases
  case (at_gate ge g)
  let ?t = "gate_task ge"
  have "gate_inv g" "g_concurrency g = c"
    using gate_step_inv [OF at_gate(4)] gate_step_width [OF at_gate(4)] assms(2) by (auto simp: slots_inv_def)
  moreover have "g_phase g t = g_phase (sl_gate s) t" if "t \<noteq> ?t" for t
    by (rule gate_step_other [OF at_gate(4) that])
  moreover have "\<not> sl_worker s ?t" using at_gate(3) assms(2) by (auto simp: slots_inv_def)
  ultimately show ?thesis using assms(2) at_gate(2)
    by (auto simp: slots_inv_def after_gate_def holds_permit_def split: task_phase.splits)
next
  case task
  have w: "\<And>t. sl_worker s t \<Longrightarrow> sl_phase s t \<in> {Awaiting, Draining, Abandoned}"
    using assms(2) by (simp add: slots_inv_def)
  from task show ?thesis
  proof (cases e)
    case (CoordinatorTaken t)
    then show ?thesis using task assms(2) by (auto simp: slots_inv_def holds_permit_def split: if_splits)
  next
    case (CoordinatorCancelled t)
    then show ?thesis using task w [of t] leave_inv [OF assms(2)] by (auto simp: holds_permit_def split: if_splits)
  next
    case (SubmitJob t)
    then show ?thesis using task assms(2) by (auto simp: slots_inv_def holds_permit_def split: if_splits)
  next
    case (WorkerDone t)
    then show ?thesis using task assms(2) by (auto simp: slots_inv_def split: if_splits)
  next
    case (ResumeTask t)
    then show ?thesis using task assms(2) by (auto simp: slots_inv_def holds_permit_def split: if_splits)
  next
    case (CancelWait t)
    then show ?thesis using task assms(2) by (auto simp: slots_inv_def holds_permit_def split: if_splits)
  next
    case (LeaveSlot t)
    then show ?thesis using task w [of t] leave_inv [OF assms(2)] by (auto simp: holds_permit_def split: if_splits)
  next
    case (SlotDrained t)
    then show ?thesis using task leave_inv [OF assms(2)] by (auto simp: holds_permit_def split: if_splits)
  next
    case (CancelDrain t)
    then show ?thesis using task leave_inv [OF assms(2)] by (auto simp: holds_permit_def split: if_splits)
  qed simp
qed

interpretation slot_run: rel_invariant slot_step "slots_inv c" for c
  by unfold_locales (rule slot_step_inv)

lemma no_abandoned:
  assumes "steps_rel slot_step s es s'" and "\<forall>t. CancelDrain t \<notin> set es" and "\<forall>t. sl_phase s t \<noteq> Abandoned"
  shows "sl_phase s' t \<noteq> Abandoned"
  using assms
proof (induction rule: steps_rel.induct)
  case (steps_cons s e u es s')
  from steps_cons.hyps(1) have "\<forall>t. sl_phase u t \<noteq> Abandoned"
  proof cases
    case (at_gate ge g)
    then show ?thesis using steps_cons.prems by (auto simp: after_gate_def split: task_phase.split)
  next
    case task
    then show ?thesis using steps_cons.prems
      by (cases e) (auto simp: leave_slot_def split: if_splits)
  qed
  then show ?case using steps_cons by auto
qed simp

section \<open>The resources of a connection\<close>

text \<open>\<open>asr_stream\<close>: what the handler takes and gives back, in order.  The handler may be refused, may find its
  settings or its detector raising, and may be cancelled while it reports that.\<close>

datatype ws_op =
    OpAccept | OpReject | OpAcquire | OpMetricInc | OpRegister | OpSession | OpNoBackend | OpVadError
  | OpUnregister | OpRelease | OpMetricDec | OpContextReset

record asr_request =
  rq_auth :: bool
  rq_token :: bool
  rq_metrics :: bool
  rq_manager :: bool
  rq_settings :: bool
  rq_vad :: string
  rq_vad_init :: bool
  rq_vad_cancelled :: bool
  rq_streaming :: bool

definition vad_wanted :: "string \<Rightarrow> bool" where
  "vad_wanted v \<longleftrightarrow> v \<noteq> [] \<and> v \<notin> {''none'', ''off'', ''disabled''}"

definition give_back :: "asr_request \<Rightarrow> ws_op list" where
  "give_back r =
     (if rq_manager r then [OpUnregister] else []) @ [OpRelease]
     @ (if rq_metrics r then [OpMetricDec] else []) @ [OpContextReset]"

definition asr_stream_ops :: "asr_request \<Rightarrow> ws_op list" where
  "asr_stream_ops r =
     (if \<not> rq_auth r then [OpReject]
      else if \<not> rq_token r then [OpAccept, OpReject, OpContextReset]
      else [OpAccept, OpAcquire] @ (if rq_metrics r then [OpMetricInc] else [])
           @ (if rq_manager r then [OpRegister] else [])
           @ (if \<not> rq_settings r then []
              else if vad_wanted (rq_vad r) \<and> \<not> rq_vad_init r
              then (if rq_vad_cancelled r then [OpVadError] else OpVadError # give_back r)
              else (if rq_streaming r then OpSession else OpNoBackend) # give_back r))"

text \<open>Whatever was taken is given back once, unless a setting or the check of the backend raises, or the handler is
  cancelled while it reports a detector that failed: then the session's token is lost.\<close>

lemma asr_stream_balanced:
  assumes "rq_settings r" and "vad_wanted (rq_vad r) \<and> \<not> rq_vad_init r \<longrightarrow> \<not> rq_vad_cancelled r"
  shows "count_list (asr_stream_ops r) OpRelease = count_list (asr_stream_ops r) OpAcquire"
    and "count_list (asr_stream_ops r) OpUnregister = count_list (asr_stream_ops r) OpRegister"
    and "count_list (asr_stream_ops r) OpMetricDec = count_list (asr_stream_ops r) OpMetricInc"
  using assms by (auto simp: asr_stream_ops_def give_back_def)

lemma asr_stream_token_lost:
  assumes "rq_auth r" and "rq_token r"
    and "\<not> rq_settings r \<or> vad_wanted (rq_vad r) \<and> \<not> rq_vad_init r \<and> rq_vad_cancelled r"
  shows "OpAcquire \<in> set (asr_stream_ops r) \<and> OpRelease \<notin> set (asr_stream_ops r)"
  using assms by (auto simp: asr_stream_ops_def)

section \<open>Properties\<close>

text \<open>C27: However the utterances of all connections interleave, with cancellations at the gate, at the
  coordinator and during inference, no more workers are inside the recogniser than the
  configured width, as long as no task is cancelled a second time while it waits for its worker; and a task
  never leaves its slot before its worker has.\<close>

theorem asr_workers_within_width:
  assumes "new_gate c m = Inr g0" and "steps_rel slot_step (new_slots g0) es s"
    and "\<forall>t. CancelDrain t \<notin> set es"
  shows "finite {t. sl_worker s t} \<and> int (card {t. sl_worker s t}) \<le> c \<and>
         (\<forall>t. sl_worker s t \<longrightarrow> g_phase (sl_gate s) t = PHolding)"
proof -
  have c: "int (g_concurrency g0) = c" and idle: "\<forall>t. g_phase g0 t = PIdle"
    using assms(1) by (auto simp: new_gate_def split: if_splits)
  have "slots_inv (g_concurrency g0) (new_slots g0)"
    using new_gate_inv [OF assms(1)] idle by (simp add: slots_inv_def new_slots_def holds_permit_def)
  then have inv: "slots_inv (g_concurrency g0) s" by (rule slot_run.rel_run_inv [OF assms(2)])
  have "sl_phase s t \<noteq> Abandoned" for t
    by (rule no_abandoned [OF assms(2,3)]) (simp add: new_slots_def)
  then have hold: "\<forall>t. sl_worker s t \<longrightarrow> g_phase (sl_gate s) t = PHolding"
    using inv by (fastforce simp: slots_inv_def holds_permit_def)
  then have sub: "{t. sl_worker s t} \<subseteq> owners (sl_gate s)" by (auto simp: owners_def)
  have fin: "finite (owners (sl_gate s))" and le: "card (owners (sl_gate s)) \<le> g_concurrency g0"
    using inv by (auto simp: slots_inv_def gate_inv_def)
  have "card {t. sl_worker s t} \<le> g_concurrency g0" using card_mono [OF fin sub] le by linarith
  then show ?thesis using finite_subset [OF sub fin] hold c by auto
qed

theorem asr_workers_within_width_witness:
  "\<exists>g0 s. new_gate 1 None = Inr g0 \<and>
     steps_rel slot_step (new_slots g0)
       [GateOp (Start 0), CoordinatorTaken 0, SubmitJob 0, GateOp (Start 1), CancelWait 0] s \<and>
     sl_worker s 0 \<and> sl_phase s 0 = Draining \<and> g_phase (sl_gate s) 0 = PHolding \<and> card {t. sl_worker s t} \<le> 1"
proof -
  define g0 where "g0 = projr (new_gate 1 None)"
  have new: "new_gate 1 None = Inr g0" by (simp add: g0_def new_gate_def)
  define s1 where "s1 = after_gate (new_slots g0) (acquire_start 0 g0) 0"
  define s2 where "s2 = s1\<lparr>sl_phase := (sl_phase s1)(0 := Inside)\<rparr>"
  define s3 where "s3 = s2\<lparr>sl_phase := (sl_phase s2)(0 := Awaiting), sl_worker := (sl_worker s2)(0 := True)\<rparr>"
  define s4 where "s4 = after_gate s3 (acquire_start 1 (sl_gate s3)) 1"
  define s5 where "s5 = s4\<lparr>sl_phase := (sl_phase s4)(0 := Draining)\<rparr>"
  note defs = g0_def new_gate_def new_slots_def s1_def s2_def s3_def s4_def s5_def after_gate_def acquire_start_def
  have a: "slot_step (new_slots g0) (GateOp (Start 0)) s1"
    using slot_step.at_gate [of "new_slots g0" "Start 0"] gate_step.start [of g0 0]
    by (simp add: s1_def new_slots_def g0_def new_gate_def)
  have b: "slot_step s1 (CoordinatorTaken 0) s2" "slot_step s2 (SubmitJob 0) s3" "slot_step s4 (CancelWait 0) s5"
    by (rule slot_step.task, simp add: defs)+
  have d: "slot_step s3 (GateOp (Start 1)) s4"
  proof -
    have "sl_phase s3 1 = AtGate" "g_phase (sl_gate s3) 1 = PIdle" by (simp_all add: defs)
    then show ?thesis using slot_step.at_gate [of s3 "Start 1", OF _ gate_step.start] by (simp add: s4_def)
  qed
  have run: "steps_rel slot_step (new_slots g0)
       [GateOp (Start 0), CoordinatorTaken 0, SubmitJob 0, GateOp (Start 1), CancelWait 0] s5"
    by (rule steps_rel.intros a b d)+
  have "sl_worker s5 0" "sl_phase s5 0 = Draining" by (simp_all add: defs)
  then show ?thesis using new run asr_workers_within_width [OF new run] by auto
qed

end
