(* ===== verification/SlvClient.thy ===== *)
theory SlvClient
  imports Json
begin

text \<open>
  The agent's client of the voice WebSocket (\<open>agent/ovs_agent/slv_client.py\<close>): the messages it sends in both
  versions of the protocol, the events it decodes, the handshake, and the life of its connection:
  opening with retries, sending, reconnecting, closing.  Everything that opens or closes a socket runs
  under the client's send lock, so these operations follow one another; what the network does in each of
  them is an argument.  Sockets are numbered in the order they are opened.  Activity times are not
  modelled, except for the pause of the keepalive.
\<close>

section \<open>Events and state\<close>

datatype slv_event =
    SessionCreated string jdict
  | SessionUpdated string jdict
  | ResponseCreated string jdict
  | ResponseOutputAudioDone string
  | AssistantTranscriptDelta string string
  | AssistantTranscriptDone string string
  | ResponseOutputItemAdded string jdict
  | ResponseDone string string jdict
  | InputAudioSpeechStarted string
  | InputAudioSpeechStopped string
  | InputAudioCommitted string
  | ConversationItemTruncated string int
  | ConversationResetDone
  | ASRPartial json bool
  | ASREndpoint
  | ASRFinal json bool bool json
  | TTSStarted json
  | TTSSentenceDone json
  | TTSDone bool
  | TTSAudio "nat list" int
  | SLVError string
  | ServerToolCall string string jdict pyfloat

datatype protocol = V1 | V2

record slv_env =
  se_repr :: "json \<Rightarrow> string"
  se_loads :: "string \<Rightarrow> json option"
  se_dumps :: "jdict \<Rightarrow> string"
  se_json_error :: "string \<Rightarrow> string"

record slv_client =
  sc_version :: protocol
  sc_config :: jdict
  sc_ws :: "nat option"
  sc_reader :: "nat option"
  sc_stale :: "nat set"
  sc_queue :: "slv_event list"
  sc_rate :: "int option"
  sc_closed :: bool
  sc_close_code :: "int option"
  sc_gen :: nat
  sc_response :: "string option"
  sc_item :: "string option"
  sc_caps :: jdict
  sc_opened :: nat
  sc_live :: "nat set"
  sc_wire :: "(nat \<times> jdict) list"

definition new_client :: "protocol \<Rightarrow> jdict \<Rightarrow> slv_client" where
  "new_client v config =
     \<lparr>sc_version = v, sc_config = dict_put ''multi_utterance'' (JBool True) config, sc_ws = None, sc_reader = None, sc_stale = {},
      sc_queue = [], sc_rate = None, sc_closed = False, sc_close_code = None, sc_gen = 0, sc_response = None,
      sc_item = None, sc_caps = [], sc_opened = 0, sc_live = {}, sc_wire = []\<rparr>"

section \<open>What it sends\<close>

definition audio_format :: "int \<Rightarrow> json" where
  "audio_format rate =
     JObj [(''type'', JStr ''audio/pcm''), (''rate'', JInt rate), (''channels'', JInt 1), (''endianness'', JStr ''little'')]"

definition copied :: "string \<Rightarrow> string \<Rightarrow> jdict \<Rightarrow> jdict" where
  "copied from to cfg = (if jget from cfg \<noteq> JNull then [(to, jget from cfg)] else [])"

definition session_update_payload :: "jdict \<Rightarrow> py_error + jdict" where
  "session_update_payload cfg =
     (case json_int (jget_or (JInt 16000) ''sample_rate'' cfg) of
        Inl e \<Rightarrow> Inl e
      | Inr rate \<Rightarrow>
     (let asr_language = jget ''asr_language'' cfg; tts_language = jget ''tts_language'' cfg;
          vad = jget_or (JStr (if json_truthy asr_language then ''silero'' else ''none'')) ''vad'' cfg;
          turn_type = (if vad = JNull \<or> vad = JStr ''none'' then ''none'' else ''server_vad'')
      in case json_int (jget_or (JInt 400) ''vad_silence_ms'' cfg) of
        Inl e \<Rightarrow> Inl e
      | Inr silence \<Rightarrow>
     (case json_int (jget_or (JInt rate) ''output_sample_rate'' cfg) of
        Inl e \<Rightarrow> Inl e
      | Inr out_rate \<Rightarrow>
     (let turn = [(''type'', JStr turn_type), (''backend'', vad), (''silence_duration_ms'', JInt silence),
                  (''create_response'', JBool (json_truthy (jget_or (JBool False) ''create_response'' cfg))),
                  (''interrupt_response'', JBool (json_truthy (jget_or (JBool True) ''interrupt_response'' cfg)))];
          audio_in = [(''format'', audio_format rate), (''turn_detection'', JObj turn)]
                     @ (if json_truthy asr_language
                        then [(''transcription'', JObj [(''language'', asr_language)])] else []);
          audio_out = [(''format'', audio_format out_rate)]
                      @ (if json_truthy tts_language then [(''language'', tts_language)] else [])
                      @ copied ''tts_voice'' ''voice'' cfg @ copied ''tts_speaker_id'' ''speaker_id'' cfg
                      @ copied ''tts_speed'' ''speed'' cfg
      in Inr [(''type'', JStr ''session.update''),
              (''session'', JObj [(''type'', JStr ''realtime''), (''output_modalities'', JArr [JStr ''audio'']),
                 (''audio'', JObj [(''input'', JObj audio_in), (''output'', JObj audio_out)])])]))))"

text \<open>One command of the application as the frames that go out, in order.\<close>

definition text_frames :: "string \<Rightarrow> jdict list" where
  "text_frames t = [[(''type'', JStr ''text''), (''text'', JStr t)]]"

definition flush_frames :: "jdict list" where
  "flush_frames = [[(''type'', JStr ''tts_flush'')]]"

definition speak_frames :: "protocol \<Rightarrow> string \<Rightarrow> string \<Rightarrow> jdict list" where
  "speak_frames v t conversation =
     (if t = [] \<or> py_strip t = [] then []
      else if v = V2 then
        [[(''type'', JStr ''x_v2v.response.speak''),
          (''speech'', JObj [(''text'', JStr t), (''conversation'', JStr conversation)])]]
      else text_frames t @ flush_frames)"

definition abort_frames :: "protocol \<Rightarrow> string option \<Rightarrow> bool \<Rightarrow> jdict list" where
  "abort_frames v response keep_asr =
     [(if v = V2
       then [(''type'', JStr ''response.cancel''),
             (''response_id'', case response of Some r \<Rightarrow> JStr r | None \<Rightarrow> JNull)]
       else [(''type'', JStr ''abort'')])
      @ (if keep_asr then [(''keep_asr'', JBool True)] else [])]"

definition eos_frames :: "protocol \<Rightarrow> jdict list" where
  "eos_frames v = [[(''type'', JStr (if v = V2 then ''input_audio_buffer.commit'' else ''asr_eos''))]]"

definition truncate_frames :: "slv_client \<Rightarrow> int \<Rightarrow> jdict list" where
  "truncate_frames c audio_end_ms =
     (case sc_item c of
        None \<Rightarrow> []
      | Some item \<Rightarrow>
          (if sc_version c \<noteq> V2 \<or> item = [] \<or> jget ''conversation_truncate'' (sc_caps c) = JBool False then []
           else [[(''type'', JStr ''conversation.item.truncate''), (''item_id'', JStr item),
                  (''content_index'', JInt 0), (''audio_end_ms'', JInt (max 0 audio_end_ms))]]))"

definition reset_frames :: "protocol \<Rightarrow> jdict list" where
  "reset_frames v = (if v = V2 then [[(''type'', JStr ''x_v2v.conversation.reset'')]] else [])"

datatype command_error = NeedsV2 | EmptyUpdate

definition update_frames :: "protocol \<Rightarrow> jdict \<Rightarrow> command_error + jdict list" where
  "update_frames v session =
     (if v \<noteq> V2 then Inl NeedsV2 else if session = [] then Inl EmptyUpdate
      else Inr [[(''type'', JStr ''session.update''), (''session'', JObj session)]])"

definition response_frames :: "protocol \<Rightarrow> jdict \<Rightarrow> command_error + jdict list" where
  "response_frames v response =
     (if v \<noteq> V2 then Inl NeedsV2
      else Inr [(''type'', JStr ''response.create'') # (if response = [] then [] else [(''response'', JObj response)])])"

definition policy_keys :: "string list" where
  "policy_keys = [''timeout_s'', ''preamble_text'', ''completion_text'', ''response_mode'']"

definition canonical_tool :: "json \<Rightarrow> json option" where
  "canonical_tool entry =
     (case entry of
        JObj d \<Rightarrow>
          (let fn = (case jget ''function'' d of JObj f \<Rightarrow> f | _ \<Rightarrow> d);
               policy = List.map_filter (\<lambda>k. map_option (Pair k) (map_of d k)) policy_keys
           in Some (JObj
             ([(''type'', JStr ''function''), (''name'', jget_or (JStr []) ''name'' fn),
               (''description'', jget_or (JStr []) ''description'' fn),
               (''parameters'', jor (jget ''parameters'' fn)
                  (JObj [(''type'', JStr ''object''), (''properties'', JObj [])]))]
              @ (if policy = [] then [] else [(''x_v2v'', JObj policy)]))))
      | _ \<Rightarrow> None)"

definition advertise_frames :: "protocol \<Rightarrow> json list \<Rightarrow> string option \<Rightarrow> jdict \<Rightarrow> jdict list" where
  "advertise_frames v tools prompt llm =
     (if v = V2 then
        [[(''type'', JStr ''session.update''),
          (''session'', JObj
             ([(''tools'', JArr (List.map_filter canonical_tool tools))]
              @ (case prompt of Some p \<Rightarrow> [(''instructions'', JStr p)] | None \<Rightarrow> [])
              @ (if llm \<noteq> [] then [(''x_v2v'', JObj [(''llm_params'', JObj llm)])] else [])))]]
      else
        [[(''type'', JStr ''tool_advertise''), (''tools'', JArr tools)]
         @ (case prompt of Some p \<Rightarrow> [(''system_prompt'', JStr p)] | None \<Rightarrow> [])
         @ (if llm \<noteq> [] then [(''llm_params'', JObj llm)] else [])])"

text \<open>The outcome of a tool: its result, or the error.\<close>

definition outcome_field :: "bool \<Rightarrow> jdict option \<Rightarrow> string option \<Rightarrow> string \<times> json" where
  "outcome_field ok result error =
     (if ok then (''result'', JObj (case result of Some d \<Rightarrow> d | None \<Rightarrow> []))
      else (''error'', JStr (case error of Some e \<Rightarrow> (if e = [] then ''tool execution failed'' else e)
                                         | None \<Rightarrow> ''tool execution failed'')))"

definition tool_result_frames ::
    "slv_env \<Rightarrow> protocol \<Rightarrow> string \<Rightarrow> string \<Rightarrow> bool \<Rightarrow> jdict option \<Rightarrow> string option \<Rightarrow> jdict list" where
  "tool_result_frames E v call_id name ok result error =
     [if v = V2 then
        [(''type'', JStr ''conversation.item.create''),
         (''item'', JObj [(''type'', JStr ''function_call_output''), (''call_id'', JStr call_id),
            (''output'', JStr (se_dumps E [(''ok'', JBool ok), (''name'', JStr name), outcome_field ok result error]))])]
      else
        [(''type'', JStr ''tool_result''), (''call_id'', JStr call_id), (''id'', JStr call_id), (''name'', JStr name),
         (''ok'', JBool ok), outcome_field ok result error]]"

section \<open>What it decodes\<close>

definition json_float :: "json \<Rightarrow> py_error + pyfloat" where
  "json_float j =
     (case j of
        JInt n \<Rightarrow> Inr (Fin (of_int n))
      | JBool b \<Rightarrow> Inr (Fin (if b then 1 else 0))
      | JFloat f \<Rightarrow> Inr f
      | JStr s \<Rightarrow> (case py_float s of Some f \<Rightarrow> Inr f | None \<Rightarrow> Inl ValueError)
      | _ \<Rightarrow> Inl TypeError)"

text \<open>\<open>str(evt.get(k) or "")\<close>, and \<open>x if isinstance(x, dict) else {}\<close>.\<close>

definition str_or :: "slv_env \<Rightarrow> json \<Rightarrow> string" where
  "str_or E j = json_str (se_repr E) (jor j (JStr []))"

definition sub_dict :: "string \<Rightarrow> jdict \<Rightarrow> jdict" where
  "sub_dict k d = (case jget k d of JObj s \<Rightarrow> s | _ \<Rightarrow> [])"

text \<open>A log line takes the first 80 items of the sentence: a value that cannot be sliced raises.\<close>

definition sliceable :: "json \<Rightarrow> bool" where
  "sliceable j = (case j of JStr s \<Rightarrow> True | JArr xs \<Rightarrow> True | _ \<Rightarrow> False)"

type_synonym decoded = "py_error + slv_client \<times> slv_event list"

definition emit :: "slv_client \<Rightarrow> slv_event \<Rightarrow> decoded" where
  "emit c e = Inr (c, [e])"

definition on_response_created :: "slv_env \<Rightarrow> jdict \<Rightarrow> slv_client \<Rightarrow> decoded" where
  "on_response_created E evt c =
     (let response = sub_dict ''response'' evt;
          rid = str_or E (jor (jget ''id'' response) (jget ''response_id'' evt))
      in emit (c\<lparr>sc_response := Some rid\<rparr>) (ResponseCreated rid response))"

definition on_response_done :: "slv_env \<Rightarrow> jdict \<Rightarrow> slv_client \<Rightarrow> decoded" where
  "on_response_done E evt c =
     (let response = sub_dict ''response'' evt;
          rid = str_or E (jor (jget ''id'' response) (jget ''response_id'' evt));
          c1 = (if sc_response c = Some rid then c\<lparr>sc_response := None, sc_item := None\<rparr> else c)
      in emit c1 (ResponseDone rid (json_str (se_repr E) (jor (jget ''status'' response) (JStr ''completed''))) response))"

definition on_item_added :: "slv_env \<Rightarrow> jdict \<Rightarrow> slv_client \<Rightarrow> decoded" where
  "on_item_added E evt c =
     (let item = sub_dict ''item'' evt; iid = str_or E (jget ''id'' item);
          c1 = (if jget ''type'' item = JStr ''message'' \<and> jget ''role'' item = JStr ''assistant''
                then c\<lparr>sc_item := (if iid = [] then None else Some iid)\<rparr> else c)
      in emit c1 (ResponseOutputItemAdded (str_or E (jget ''response_id'' evt)) item))"

definition on_function_call :: "slv_env \<Rightarrow> jdict \<Rightarrow> slv_client \<Rightarrow> decoded" where
  "on_function_call E evt c =
     (let raw = jor (jget ''arguments'' evt) (JStr ''{}'');
          arguments = (case raw of
                         JStr s \<Rightarrow> (case se_loads E s of Some j \<Rightarrow> j | None \<Rightarrow> JObj [])
                       | _ \<Rightarrow> raw)
      in case json_float (jget_or (JFloat (Fin 15)) ''timeout_s'' (sub_dict ''x_v2v'' evt)) of
           Inl e \<Rightarrow> Inl e
         | Inr t \<Rightarrow> emit c (ServerToolCall (str_or E (jget ''call_id'' evt)) (str_or E (jget ''name'' evt))
                            (case arguments of JObj d \<Rightarrow> d | _ \<Rightarrow> []) t))"

definition on_tool_call :: "slv_env \<Rightarrow> jdict \<Rightarrow> slv_client \<Rightarrow> decoded" where
  "on_tool_call E evt c =
     (case json_float (jget_or (JFloat (Fin 15)) ''timeout_s'' evt) of
        Inl e \<Rightarrow> Inl e
      | Inr t \<Rightarrow> emit c (ServerToolCall
                  (json_str (se_repr E) (jor (jget ''call_id'' evt) (jget_or (JStr []) ''id'' evt)))
                  (json_str (se_repr E) (jget_or (JStr []) ''name'' evt))
                  (sub_dict ''arguments'' evt) t))"

definition on_error :: "slv_env \<Rightarrow> jdict \<Rightarrow> slv_client \<Rightarrow> decoded" where
  "on_error E evt c =
     emit c (SLVError (case jget_or (JStr ''unknown'') ''error'' evt of
                         JObj d \<Rightarrow> json_str (se_repr E) (jor (jor (jget ''message'' d) (jget ''code'' d)) (JStr ''unknown''))
                       | j \<Rightarrow> json_str (se_repr E) j))"

definition on_session :: "slv_env \<Rightarrow> (string \<Rightarrow> jdict \<Rightarrow> slv_event) \<Rightarrow> jdict \<Rightarrow> slv_client \<Rightarrow> decoded" where
  "on_session E ev evt c = (let session = sub_dict ''session'' evt in emit c (ev (str_or E (jget ''id'' session)) session))"

text \<open>\<open>_handle_json\<close> on a decoded dictionary, by its type.\<close>

definition decode_event :: "slv_env \<Rightarrow> jdict \<Rightarrow> slv_client \<Rightarrow> decoded" where
  "decode_event E evt c =
     (let t = jget ''type'' evt; s = (\<lambda>k. str_or E (jget k evt));
          flag = (\<lambda>k d. json_truthy (jget_or (JBool d) k evt)); sentence = jget_or (JStr []) ''sentence'' evt in
      if t = JStr ''asr_partial'' then emit c (ASRPartial (jget_or (JStr []) ''text'' evt) (flag ''is_stable'' False))
      else if t = JStr ''asr_endpoint'' then emit c ASREndpoint
      else if t = JStr ''asr_final'' then
        emit c (ASRFinal (jget_or (JStr []) ''text'' evt) (flag ''session_complete'' True)
                  (flag ''duplicate_of_streamed'' False) (jget ''language'' evt))
      else if t = JStr ''tts_started'' then (if sliceable sentence then emit c (TTSStarted sentence) else Inl TypeError)
      else if t = JStr ''tts_sentence_done'' then emit c (TTSSentenceDone sentence)
      else if t = JStr ''tts_done'' then emit c (TTSDone (flag ''session_complete'' True))
      else if t = JStr ''input_audio_buffer.speech_started'' then emit c (InputAudioSpeechStarted (s ''item_id''))
      else if t = JStr ''input_audio_buffer.speech_stopped'' then emit c (InputAudioSpeechStopped (s ''item_id''))
      else if t = JStr ''input_audio_buffer.committed'' then emit c (InputAudioCommitted (s ''item_id''))
      else if t = JStr ''conversation.item.input_audio_transcription.delta'' then
        emit c (ASRPartial (JStr (s ''delta'')) (flag ''is_stable'' False))
      else if t = JStr ''conversation.item.input_audio_transcription.completed'' then
        emit c (ASRFinal (JStr (s ''transcript'')) False False (jget ''language'' evt))
      else if t = JStr ''session.created'' then on_session E SessionCreated evt c
      else if t = JStr ''session.updated'' then on_session E SessionUpdated evt c
      else if t = JStr ''response.created'' then on_response_created E evt c
      else if t = JStr ''response.output_audio.done'' then emit c (ResponseOutputAudioDone (s ''response_id''))
      else if t = JStr ''response.output_audio_transcript.delta'' then
        emit c (AssistantTranscriptDelta (s ''response_id'') (s ''delta''))
      else if t = JStr ''response.output_audio_transcript.done'' then
        emit c (AssistantTranscriptDone (s ''response_id'') (s ''transcript''))
      else if t = JStr ''response.done'' then on_response_done E evt c
      else if t = JStr ''response.output_item.added'' then on_item_added E evt c
      else if t = JStr ''response.function_call_arguments.done'' then on_function_call E evt c
      else if t = JStr ''conversation.item.truncated'' then
        (case json_int (jor (jget ''audio_end_ms'' evt) (JInt 0)) of
           Inl e \<Rightarrow> Inl e
         | Inr n \<Rightarrow> emit c (ConversationItemTruncated (s ''item_id'') n))
      else if t = JStr ''x_v2v.conversation.reset.done'' then emit c ConversationResetDone
      else if t = JStr ''x_v2v.tts_sentence.started'' then emit c (TTSStarted (JStr (s ''sentence'')))
      else if t = JStr ''x_v2v.tts_sentence.done'' then emit c (TTSSentenceDone (JStr (s ''sentence'')))
      else if t = JStr ''tool_call'' then on_tool_call E evt c
      else if t = JStr ''error'' then on_error E evt c
      else Inr (c, []))"

definition handle_json :: "slv_env \<Rightarrow> string \<Rightarrow> slv_client \<Rightarrow> py_error + slv_client" where
  "handle_json E raw c =
     (case se_loads E raw of
        None \<Rightarrow> Inr (c\<lparr>sc_queue := sc_queue c @ [SLVError (''bad json: '' @ se_json_error E raw)]\<rparr>)
      | Some (JObj evt) \<Rightarrow>
          (case decode_event E evt c of
             Inl e \<Rightarrow> Inl e
           | Inr (c1, evs) \<Rightarrow> Inr (c1\<lparr>sc_queue := sc_queue c1 @ evs\<rparr>))
      | Some _ \<Rightarrow> Inl AttributeError)"

text \<open>\<open>_handle_binary\<close>: while the rate is not known, the first four bytes are it.\<close>

fun le_value :: "nat list \<Rightarrow> nat" where
  "le_value [] = 0"
| "le_value (b # bs) = b + 256 * le_value bs"

definition handle_binary :: "nat list \<Rightarrow> slv_client \<Rightarrow> slv_client" where
  "handle_binary data c =
     (case sc_rate c of
        Some sr \<Rightarrow> c\<lparr>sc_queue := sc_queue c @ [TTSAudio data sr]\<rparr>
      | None \<Rightarrow>
          (if length data < 4 then c\<lparr>sc_queue := sc_queue c @ [SLVError ''first binary frame < 4 bytes'']\<rparr>
           else (let sr = int (le_value (take 4 data)); pcm = drop 4 data
                 in c\<lparr>sc_rate := Some sr,
                      sc_queue := sc_queue c @ (if pcm = [] then [] else [TTSAudio pcm sr])\<rparr>)))"

section \<open>The handshake\<close>

datatype received_frame = TextFrame string | BinaryFrame | RecvTimeout | RecvClosed

datatype handshake = HsDone | HsRefused string | HsClosed | HsRaised py_error

text \<open>\<open>session["audio"]["output"]["format"]\<close>: \<open>Inl\<close> when a key is missing or the value is no dictionary (caught), and
  the rate from it; \<open>.get\<close> on a format that is no dictionary is not caught.\<close>

fun dict_path :: "string list \<Rightarrow> json \<Rightarrow> json option" where
  "dict_path [] j = Some j"
| "dict_path (k # ks) (JObj d) = (case map_of d k of Some v \<Rightarrow> dict_path ks v | None \<Rightarrow> None)"
| "dict_path (k # ks) j = None"

definition output_rate :: "jdict \<Rightarrow> py_error + int option" where
  "output_rate session =
     (case dict_path [''audio'', ''output'', ''format''] (JObj session) of
        None \<Rightarrow> Inr None
      | Some (JObj f) \<Rightarrow>
          (case json_int (jget_or (jget ''sample_rate'' f) ''rate'' f) of
             Inr n \<Rightarrow> Inr (Some n)
           | Inl OverflowError \<Rightarrow> Inl OverflowError
           | Inl e \<Rightarrow> Inr None)
      | Some j \<Rightarrow> Inl AttributeError)"

text \<open>A frame of the expected type, as its dictionary.\<close>

definition expect_frame ::
    "slv_env \<Rightarrow> received_frame \<Rightarrow> (handshake + string \<times> jdict)" where
  "expect_frame E r =
     (case r of
        RecvTimeout \<Rightarrow> Inl (HsRefused ''timeout'')
      | RecvClosed \<Rightarrow> Inl HsClosed
      | BinaryFrame \<Rightarrow> Inl (HsRefused ''not JSON'')
      | TextFrame s \<Rightarrow>
          (case se_loads E s of
             None \<Rightarrow> Inl (HsRefused ''invalid JSON'')
           | Some (JObj d) \<Rightarrow> Inr (s, d)
           | Some _ \<Rightarrow> Inl (HsRaised AttributeError)))"

definition rejection :: "slv_env \<Rightarrow> jdict \<Rightarrow> string" where
  "rejection E d =
     (case jor (jget ''error'' d) (JObj []) of
        JObj e \<Rightarrow> json_str (se_repr E) (jor (jor (jget ''message'' e) (jget ''code'' e)) (JStr (se_repr E (JObj e))))
      | j \<Rightarrow> json_str (se_repr E) j)"

definition wire_out :: "nat \<Rightarrow> jdict \<Rightarrow> slv_client \<Rightarrow> slv_client" where
  "wire_out n d c = c\<lparr>sc_wire := sc_wire c @ [(n, d)]\<rparr>"

text \<open>\<open>_perform_v2_handshake\<close> on socket \<open>n\<close>: \<open>sent\<close> says whether the update still goes out.\<close>

definition perform_v2_handshake ::
    "slv_env \<Rightarrow> nat \<Rightarrow> received_frame \<Rightarrow> bool \<Rightarrow> received_frame \<Rightarrow> slv_client \<Rightarrow> handshake \<times> slv_client" where
  "perform_v2_handshake E n first sent second c =
     (case expect_frame E first of
        Inl h \<Rightarrow> (h, c)
      | Inr (raw, created) \<Rightarrow>
     (if jget ''type'' created \<noteq> JStr ''session.created'' then (HsRefused ''expected session.created'', c)
      else case handle_json E raw c of
        Inl e \<Rightarrow> (HsRaised e, c)
      | Inr c1 \<Rightarrow>
     (case session_update_payload (sc_config c1) of
        Inl e \<Rightarrow> (HsRaised e, c1)
      | Inr p \<Rightarrow>
     (if \<not> sent then (HsClosed, c1)
      else let c2 = wire_out n p c1 in
      case expect_frame E second of
        Inl h \<Rightarrow> (h, c2)
      | Inr (raw2, updated) \<Rightarrow>
     (if jget ''type'' updated = JStr ''error'' then (HsRefused (rejection E updated), c2)
      else if jget ''type'' updated \<noteq> JStr ''session.updated'' then (HsRefused ''expected session.updated'', c2)
      else case handle_json E raw2 c2 of
        Inl e \<Rightarrow> (HsRaised e, c2)
      | Inr c3 \<Rightarrow>
          (case jor (jget ''session'' updated) (JObj []) of
             JObj session \<Rightarrow>
               (let c4 = c3\<lparr>sc_caps := sub_dict ''capabilities'' session\<rparr>
                in case output_rate session of
                     Inl e \<Rightarrow> (HsRaised e, c4)
                   | Inr rate \<Rightarrow> (HsDone, c4\<lparr>sc_rate := rate\<rparr>))
           | _ \<Rightarrow> (HsRaised AttributeError, c3)))))))"

section \<open>Opening, sending, reconnecting, closing\<close>

text \<open>What the network does in one attempt: refuses the connection; agrees to the subprotocol or not; delivers
  the two frames of the handshake; takes the first message or has closed; and then, within
  the grace window, the reader-done flag is set (with the close code) or not.\<close>

record attempt =
  at_connects :: bool
  at_subprotocol :: bool
  at_first :: received_frame
  at_sent :: bool
  at_second :: received_frame
  at_dies :: "int option option"

datatype opened = Opened | Closed | Refused string | Escaped py_error | NoConnection

text \<open>A new reader takes the place of the old one, which goes on until its socket ends if nobody cancelled it.\<close>

definition take_reader :: "nat \<Rightarrow> slv_client \<Rightarrow> slv_client" where
  "take_reader n c =
     c\<lparr>sc_stale := (case sc_reader c of Some m \<Rightarrow> insert m (sc_stale c) | None \<Rightarrow> sc_stale c), sc_reader := Some n\<rparr>"

text \<open>One attempt, on the next socket.  \<open>Closed\<close> is what a further attempt is made after.\<close>

definition hello :: "slv_env \<Rightarrow> nat \<Rightarrow> attempt \<Rightarrow> slv_client \<Rightarrow> handshake \<times> slv_client" where
  "hello E n att c =
     (if sc_version c = V2 then
        (if \<not> at_subprotocol att then (HsRefused ''subprotocol was not accepted'', c)
         else perform_v2_handshake E n (at_first att) (at_sent att) (at_second att) c)
      else if at_sent att then (HsDone, wire_out n (dict_update [(''type'', JStr ''config'')] (sc_config c)) c)
      else (HsClosed, c))"

definition hang_up :: "nat \<Rightarrow> slv_client \<Rightarrow> slv_client" where
  "hang_up n c = c\<lparr>sc_ws := None, sc_live := sc_live c - {n}\<rparr>"

definition open_once :: "slv_env \<Rightarrow> attempt \<Rightarrow> slv_client \<Rightarrow> opened \<times> slv_client" where
  "open_once E att c =
     (let c0 = c\<lparr>sc_rate := None\<rparr>; n = sc_opened c
      in if \<not> at_connects att then (NoConnection, c0)
         else
           (case hello E n att (c0\<lparr>sc_ws := Some n, sc_opened := Suc n, sc_live := insert n (sc_live c)\<rparr>) of
              (HsClosed, c1) \<Rightarrow> (Closed, hang_up n c1)
            | (HsRefused why, c1) \<Rightarrow> (Refused why, hang_up n c1)
            | (HsRaised e, c1) \<Rightarrow> (Escaped e, c1)
            | (HsDone, c1) \<Rightarrow>
                (case at_dies att of
                   None \<Rightarrow> (Opened, take_reader n (c1\<lparr>sc_close_code := None, sc_gen := Suc (sc_gen c1)\<rparr>))
                 | Some code \<Rightarrow>
                     (Closed, (hang_up n (take_reader n c1))\<lparr>sc_reader := None, sc_close_code := code,
                                sc_queue := []\<rparr>))))"

definition reconnect_backoffs :: "real list" where
  "reconnect_backoffs = [1 / 4, 1 / 2, 1]"

datatype open_result = IsOpen | GaveUp | Rejected string | OtherError | Unreachable

text \<open>\<open>_open_with_retry\<close> over the pauses still to come: the result, the pauses slept and the sockets opened.\<close>

fun open_attempts ::
    "slv_env \<Rightarrow> real list \<Rightarrow> (nat \<Rightarrow> attempt) \<Rightarrow> nat \<Rightarrow> slv_client \<Rightarrow> open_result \<times> real list \<times> slv_client" where
  "open_attempts E backoffs net k c =
     (case open_once E (net k) c of
        (Opened, c1) \<Rightarrow> (IsOpen, [], c1)
      | (Refused why, c1) \<Rightarrow> (Rejected why, [], c1)
      | (Escaped e, c1) \<Rightarrow> (OtherError, [], c1)
      | (NoConnection, c1) \<Rightarrow> (Unreachable, [], c1)
      | (Closed, c1) \<Rightarrow>
          (case backoffs of
             [] \<Rightarrow> (GaveUp, [], c1)
           | b # bs \<Rightarrow> (let (r, slept, c2) = open_attempts E bs net (Suc k) c1 in (r, b # slept, c2))))"

definition open_with_retry ::
    "slv_env \<Rightarrow> (nat \<Rightarrow> attempt) \<Rightarrow> slv_client \<Rightarrow> open_result \<times> real list \<times> slv_client" where
  "open_with_retry E net c = open_attempts E reconnect_backoffs net 0 c"

definition connect :: "slv_env \<Rightarrow> (nat \<Rightarrow> attempt) \<Rightarrow> slv_client \<Rightarrow> open_result \<times> slv_client" where
  "connect E net c =
     (if sc_ws c \<noteq> None then (IsOpen, c)
      else (let (r, slept, c1) = open_with_retry E net c in (r, c1)))"

text \<open>\<open>_send_json\<close>, given whether the socket still takes the frame; \<open>only_on\<close> binds it to one socket.\<close>

definition put_frame :: "bool \<Rightarrow> jdict \<Rightarrow> slv_client \<Rightarrow> slv_client" where
  "put_frame ok d c =
     (case sc_ws c of
        None \<Rightarrow> c
      | Some n \<Rightarrow> (if ok then wire_out n d c else c\<lparr>sc_ws := None, sc_live := sc_live c - {n}\<rparr>))"

definition send_json ::
    "slv_env \<Rightarrow> (nat \<Rightarrow> attempt) \<Rightarrow> bool \<Rightarrow> bool \<Rightarrow> nat option \<Rightarrow> jdict \<Rightarrow> slv_client \<Rightarrow> open_result \<times> slv_client" where
  "send_json E net ok connect_if_dead only_on d c =
     (if only_on \<noteq> None \<and> sc_ws c \<noteq> only_on then (IsOpen, c)
      else if sc_ws c \<noteq> None then (IsOpen, put_frame ok d c)
      else if sc_closed c \<or> \<not> connect_if_dead then (IsOpen, c)
      else (case connect E net c of
              (IsOpen, c1) \<Rightarrow> (IsOpen, put_frame ok d c1)
            | (r, c1) \<Rightarrow> (r, c1)))"

definition reconnect :: "slv_env \<Rightarrow> (nat \<Rightarrow> attempt) \<Rightarrow> slv_client \<Rightarrow> open_result \<times> slv_client" where
  "reconnect E net c =
     (if sc_closed c then (IsOpen, c)
      else (let c1 = c\<lparr>sc_ws := None, sc_reader := None, sc_rate := None,
                       sc_live := (case sc_ws c of Some n \<Rightarrow> sc_live c - {n} | None \<Rightarrow> sc_live c)\<rparr>;
                (r, slept, c2) = open_with_retry E net c1
            in (r, c2)))"

definition close_client :: "slv_client \<Rightarrow> slv_client" where
  "close_client c =
     c\<lparr>sc_closed := True, sc_ws := None,
       sc_live := (case sc_ws c of Some n \<Rightarrow> sc_live c - {n} | None \<Rightarrow> sc_live c)\<rparr>"

definition is_healthy :: "slv_client \<Rightarrow> bool" where
  "is_healthy c \<longleftrightarrow> \<not> sc_closed c \<and> sc_ws c \<noteq> None \<and> sc_reader c \<noteq> None"

text \<open>The reader's end: the server closed socket \<open>n\<close>, or the reader raised on a frame.\<close>

definition reader_ends :: "nat \<Rightarrow> int option \<Rightarrow> string \<Rightarrow> slv_client \<Rightarrow> slv_client" where
  "reader_ends n code text c =
     (if sc_reader c = Some n
      then c\<lparr>sc_reader := None, sc_close_code := code, sc_queue := sc_queue c @ [SLVError text]\<rparr>
      else if n \<in> sc_stale c
      then c\<lparr>sc_stale := sc_stale c - {n}, sc_close_code := code, sc_queue := sc_queue c @ [SLVError text]\<rparr>
      else c)"

datatype client_op =
    SendJson "nat \<Rightarrow> attempt" bool bool "nat option" jdict
  | Reconnect "nat \<Rightarrow> attempt"
  | CloseClient
  | ServerCloses nat "int option" string
  | ReaderCrashes nat string
  | FrameText string
  | FrameBinary "nat list"

text \<open>An operation and whether an exception that is neither a closed connection nor a refused
  handshake escaped from it.\<close>

fun client_step :: "slv_env \<Rightarrow> client_op \<Rightarrow> slv_client \<Rightarrow> open_result \<times> slv_client" where
  "client_step E (SendJson net ok cid only d) c = send_json E net ok cid only d c"
| "client_step E (Reconnect net) c = reconnect E net c"
| "client_step E CloseClient c = (IsOpen, close_client c)"
| "client_step E (ServerCloses n code text) c =
     (IsOpen, reader_ends n code text (c\<lparr>sc_live := sc_live c - {n}\<rparr>))"
| "client_step E (ReaderCrashes n text) c = (IsOpen, reader_ends n (sc_close_code c) text c)"
| "client_step E (FrameText s) c = (case handle_json E s c of Inl e \<Rightarrow> (IsOpen, c) | Inr c1 \<Rightarrow> (IsOpen, c1))"
| "client_step E (FrameBinary bs) c = (IsOpen, handle_binary bs c)"

fun client_run :: "slv_env \<Rightarrow> client_op list \<Rightarrow> slv_client \<Rightarrow> open_result list \<times> slv_client" where
  "client_run E [] c = ([], c)"
| "client_run E (op # ops) c =
     (let (r, c1) = client_step E op c; (rs, c2) = client_run E ops c1 in (r # rs, c2))"

text \<open>The keepalive's pause before it looks again, or a ping and then its pause.\<close>

datatype keepalive = Pause real | PingThen real

definition keepalive_interval :: "env_map \<Rightarrow> real" where
  "keepalive_interval env =
     (case env ''OVS_SLV_KEEPALIVE_S'' of
        None \<Rightarrow> 15
      | Some raw \<Rightarrow> (if py_strip raw = [] then 15
                     else (case py_float raw of Some (Fin x) \<Rightarrow> x | _ \<Rightarrow> 15)))"

definition keepalive_turn :: "real \<Rightarrow> real \<Rightarrow> bool \<Rightarrow> keepalive" where
  "keepalive_turn interval idle dead =
     (if idle < interval then Pause (max (1 / 10) (interval - idle))
      else if dead then Pause (min 1 interval)
      else PingThen interval)"

section \<open>Lemmas\<close>

text \<open>What decoding and the handshake leave alone.\<close>

definition same_link :: "slv_client \<Rightarrow> slv_client \<Rightarrow> bool" where
  "same_link c d \<longleftrightarrow> sc_ws d = sc_ws c \<and> sc_opened d = sc_opened c \<and> sc_live d = sc_live c \<and>
     sc_reader d = sc_reader c \<and> sc_closed d = sc_closed c \<and> sc_gen d = sc_gen c \<and> sc_version d = sc_version c"

lemma same_link_refl [simp]: "same_link c c"
  by (simp add: same_link_def)

lemma same_link_trans: "same_link c d \<Longrightarrow> same_link d e \<Longrightarrow> same_link c e"
  by (simp add: same_link_def)

lemma decode_link: "decode_event E evt c = Inr (d, evs) \<Longrightarrow> same_link c d"
  unfolding decode_event_def Let_def
  by (auto simp: emit_def same_link_def on_session_def on_response_created_def on_response_done_def on_item_added_def
      on_function_call_def on_tool_call_def on_error_def Let_def split: if_splits sum.splits)

lemma handle_link: "handle_json E raw c = Inr d \<Longrightarrow> same_link c d"
  using decode_link
  by (fastforce simp: handle_json_def same_link_def split: option.splits json.splits sum.splits prod.splits)

lemma handshake_link: "perform_v2_handshake E n f s g c = (h, d) \<Longrightarrow> same_link c d"
  unfolding perform_v2_handshake_def
  by (auto simp: wire_out_def Let_def split: sum.splits prod.splits if_splits json.splits
      dest!: handle_link intro: same_link_trans) (auto simp: same_link_def)

lemma hello_link: "hello E n att c = (h, d) \<Longrightarrow> same_link c d"
  by (auto simp: hello_def wire_out_def same_link_def split: if_splits dest!: handshake_link)

definition sockets_ok :: "slv_client \<Rightarrow> bool" where
  "sockets_ok c \<longleftrightarrow> sc_live c \<subseteq> set_option (sc_ws c) \<and> (\<forall>n\<in>set_option (sc_ws c). n < sc_opened c)"

lemma open_once_spec:
  assumes "open_once E att c = (r, d)" and "sc_ws c = None" and "sc_live c = {}"
  shows "sc_opened d \<le> Suc (sc_opened c) \<and> sc_opened c \<le> sc_opened d \<and> sc_closed d = sc_closed c \<and>
     (case r of
        Opened \<Rightarrow> sc_ws d = Some (sc_opened c) \<and> sc_reader d = sc_ws d \<and> sc_live d = {sc_opened c} \<and>
                  sc_gen d = Suc (sc_gen c) \<and> sc_opened d = Suc (sc_opened c)
      | Escaped e \<Rightarrow> sc_ws d = Some (sc_opened c) \<and> sc_live d = {sc_opened c} \<and> sc_opened d = Suc (sc_opened c) \<and>
                  sc_reader d = sc_reader c
      | _ \<Rightarrow> sc_ws d = None \<and> sc_live d = {} \<and> sc_gen d = sc_gen c)"
proof (cases "at_connects att")
  case False
  then show ?thesis using assms by (auto simp: open_once_def)
next
  case True
  let ?c = "c\<lparr>sc_rate := None, sc_ws := Some (sc_opened c), sc_opened := Suc (sc_opened c),
              sc_live := insert (sc_opened c) (sc_live c)\<rparr>"
  obtain h c1 where h: "hello E (sc_opened c) att ?c = (h, c1)" by fastforce
  then have l: "same_link ?c c1" by (rule hello_link)
  have "open_once E att c =
      (case (h, c1) of
         (HsClosed, c1) \<Rightarrow> (Closed, hang_up (sc_opened c) c1)
       | (HsRefused why, c1) \<Rightarrow> (Refused why, hang_up (sc_opened c) c1)
       | (HsRaised e, c1) \<Rightarrow> (Escaped e, c1)
       | (HsDone, c1) \<Rightarrow>
           (case at_dies att of
              None \<Rightarrow> (Opened, take_reader (sc_opened c) (c1\<lparr>sc_close_code := None, sc_gen := Suc (sc_gen c1)\<rparr>))
            | Some code \<Rightarrow> (Closed, (hang_up (sc_opened c) (take_reader (sc_opened c) c1))\<lparr>sc_reader := None,
                              sc_close_code := code, sc_queue := []\<rparr>)))"
    using True h by (simp add: open_once_def Let_def)
  then show ?thesis using assms l
    by (cases h; cases "at_dies att") (auto simp: same_link_def hang_up_def take_reader_def)
qed

lemma open_attempts_spec:
  assumes "open_attempts E backoffs net k c = (r, slept, d)" and "sc_ws c = None" and "sc_live c = {}"
  shows "(\<exists>j. slept = take j backoffs) \<and> sc_opened c \<le> sc_opened d \<and>
     sc_opened d \<le> sc_opened c + Suc (length backoffs) \<and> sc_closed d = sc_closed c \<and>
     (case r of
        IsOpen \<Rightarrow> sc_live d = set_option (sc_ws d) \<and> sc_reader d = sc_ws d \<and> sc_ws d \<noteq> None \<and>
                  sc_gen d = Suc (sc_gen c) \<and> (\<forall>n\<in>set_option (sc_ws d). n < sc_opened d)
      | OtherError \<Rightarrow> sc_live d = set_option (sc_ws d) \<and> sc_ws d \<noteq> None
      | _ \<Rightarrow> sc_ws d = None \<and> sc_live d = {} \<and> sc_gen d = sc_gen c)"
  using assms
proof (induction backoffs arbitrary: k c slept)
  case Nil
  obtain o1 c1 where o1: "open_once E (net k) c = (o1, c1)" by fastforce
  show ?case using open_once_spec [OF o1 Nil.prems(2,3)] Nil.prems(1) o1
    by (cases o1) auto
next
  case (Cons b bs)
  obtain o1 c1 where o1: "open_once E (net k) c = (o1, c1)" by fastforce
  note spec = open_once_spec [OF o1 Cons.prems(2,3)]
  show ?case
  proof (cases "o1 = Closed")
    case False
    then show ?thesis using spec Cons.prems(1) o1 by (cases o1) (auto intro: exI [of _ 0])
  next
    case True
    obtain slept' where rest: "open_attempts E bs net (Suc k) c1 = (r, slept', d)" "slept = b # slept'"
      using Cons.prems(1) o1 True by (auto split: prod.splits)
    have "sc_ws c1 = None" "sc_live c1 = {}" using spec True by auto
    note ih = Cons.IH [OF rest(1) this]
    obtain j where "slept' = take j bs" using ih by blast
    then have "\<exists>j. slept = take j (b # bs)" using rest(2) by (intro exI [of _ "Suc j"]) simp
    moreover have "sc_opened c \<le> sc_opened d \<and> sc_opened d \<le> sc_opened c + Suc (length (b # bs)) \<and>
        sc_closed d = sc_closed c \<and> sc_gen c1 = sc_gen c"
      using ih spec True by auto
    ultimately show ?thesis using ih by (cases r) auto
  qed
qed

section \<open>One connection\<close>

lemma opening_ok:
  assumes "open_with_retry E net c = (r, slept, d)" and "sc_ws c = None" and "sc_live c = {}" and "r \<noteq> OtherError"
  shows "sockets_ok d"
  using open_attempts_spec [OF assms(1) [unfolded open_with_retry_def] assms(2,3)] assms(4)
  by (cases r) (auto simp: sockets_ok_def)

lemma send_ok:
  assumes "send_json E net ok cid only p c = (r, d)" and "sockets_ok c" and "r \<noteq> OtherError"
  shows "sockets_ok d"
proof -
  have put: "sockets_ok (put_frame ok p c')" if "sockets_ok c'" for c'
    using that by (auto simp: put_frame_def wire_out_def sockets_ok_def split: option.splits)
  show ?thesis
  proof (cases "(only \<noteq> None \<and> sc_ws c \<noteq> only) \<or> sc_ws c \<noteq> None \<or> sc_closed c \<or> \<not> cid")
    case True
    then show ?thesis using assms put [OF assms(2)] by (auto simp: send_json_def split: if_splits)
  next
    case False
    then have none: "sc_ws c = None" "sc_live c = {}" using assms(2) by (auto simp: sockets_ok_def)
    obtain q slept c1 where q: "open_with_retry E net c = (q, slept, c1)" by (metis prod_cases3)
    then have d: "(r, d) = (if q = IsOpen then (IsOpen, put_frame ok p c1) else (q, c1))"
      using False assms(1) none by (cases q) (auto simp: send_json_def connect_def)
    then have "q \<noteq> OtherError" using assms(3) by (auto split: if_splits)
    then have "sockets_ok c1" by (rule opening_ok [OF q none])
    then show ?thesis using d put by (auto split: if_splits)
  qed
qed

lemma reconnect_ok:
  assumes "reconnect E net c = (r, d)" and "sockets_ok c" and "r \<noteq> OtherError"
  shows "sockets_ok d"
proof (cases "sc_closed c")
  case True
  then show ?thesis using assms by (simp add: reconnect_def)
next
  case False
  let ?c = "c\<lparr>sc_ws := None, sc_reader := None, sc_rate := None,
              sc_live := (case sc_ws c of Some n \<Rightarrow> sc_live c - {n} | None \<Rightarrow> sc_live c)\<rparr>"
  have none: "sc_ws ?c = None" "sc_live ?c = {}" using assms(2) by (auto simp: sockets_ok_def split: option.split)
  obtain q slept c1 where q: "open_with_retry E net ?c = (q, slept, c1)" by (metis prod_cases3)
  then have "r = q" "d = c1" using assms(1) False by (auto simp: reconnect_def Let_def)
  then show ?thesis using opening_ok [OF q none] assms(3) by simp
qed

lemma step_ok:
  assumes "client_step E op c = (r, d)" and "sockets_ok c" and "r \<noteq> OtherError"
  shows "sockets_ok d"
proof (cases op)
  case (SendJson net ok cid only p)
  then show ?thesis using assms send_ok by simp
next
  case (Reconnect net)
  then show ?thesis using assms reconnect_ok by simp
next
  case CloseClient
  then show ?thesis using assms by (auto simp: close_client_def sockets_ok_def split: option.splits)
next
  case (ServerCloses n code t)
  then show ?thesis using assms by (auto simp: reader_ends_def sockets_ok_def split: if_splits)
next
  case (ReaderCrashes n t)
  then show ?thesis using assms by (auto simp: reader_ends_def sockets_ok_def split: if_splits)
next
  case (FrameText s)
  then show ?thesis using assms handle_link [of E s c] by (auto simp: sockets_ok_def same_link_def split: sum.splits)
next
  case (FrameBinary bs)
  then show ?thesis using assms by (auto simp: handle_binary_def sockets_ok_def Let_def split: option.splits if_splits)
qed

lemma run_ok:
  "client_run E ops c = (rs, d) \<Longrightarrow> sockets_ok c \<Longrightarrow> OtherError \<notin> set rs \<Longrightarrow> sockets_ok d"
proof (induction ops arbitrary: c rs)
  case (Cons op ops)
  then show ?case using step_ok by (auto split: prod.splits)
qed simp

text \<open>A tool's result is to stay with the session that asked for it, and is dropped while there is none; but it
  goes to another session when something else has opened one in the meantime.\<close>

lemma tool_result_reaches_next_session:
  assumes "sc_ws c = Some n" and "open_with_retry E net (c\<lparr>sc_ws := None, sc_live := sc_live c - {n}\<rparr>) = (IsOpen, s, d)"
    and "sc_ws d = Some m" and "\<not> sc_closed c"
  shows "snd (send_json E net' True False None res
               (snd (send_json E net True True None audio (snd (send_json E net False True None audio c)))))
           = wire_out m res (wire_out m audio d)"
  using assms by (simp add: send_json_def put_frame_def connect_def wire_out_def)

text \<open>An exception that is neither a closed connection nor a refused handshake leaves the socket behind: there is no
  reader, and \<open>connect\<close> takes it for a connection.\<close>

lemma escaped_handshake_sticks:
  assumes "open_once E att c = (Escaped e, d)" and "sc_ws c = None" and "sc_live c = {}" and "sc_reader c = None"
  shows "connect E net d = (IsOpen, d) \<and> \<not> is_healthy d \<and> sc_ws d \<noteq> None"
  using open_once_spec [OF assms(1-3)] assms(4) by (simp add: connect_def is_healthy_def)

section \<open>Properties\<close>

text \<open>Opening a connection ends after at most four sockets and pauses of at most 1.75 seconds together,
  whatever the network does.  When it succeeds, exactly the new socket is open, it has its reader and the session
  counts as new; when it gives up, is refused or finds nobody, no socket is left open.\<close>

theorem opening_is_bounded:
  assumes "open_with_retry E net c = (r, slept, d)" and "sc_ws c = None" and "sc_live c = {}"
  shows "sum_list slept \<le> 7 / 4 \<and> sc_opened d \<le> sc_opened c + 4 \<and>
         (r = IsOpen \<longrightarrow> is_healthy d = (\<not> sc_closed c) \<and> sc_live d = set_option (sc_ws d) \<and> sc_gen d = Suc (sc_gen c)) \<and>
         (r \<noteq> IsOpen \<and> r \<noteq> OtherError \<longrightarrow> sc_ws d = None \<and> sc_live d = {} \<and> sc_gen d = sc_gen c)"
proof -
  note spec = open_attempts_spec [OF assms(1) [unfolded open_with_retry_def] assms(2,3)]
  obtain j where "slept = take j reconnect_backoffs" using spec by blast
  then have "sum_list slept \<le> 7 / 4"
    by (cases j; cases "j - 1"; cases "j - 2"; cases "j - 3") (simp_all add: reconnect_backoffs_def)
  then show ?thesis using spec by (cases r) (auto simp: reconnect_backoffs_def is_healthy_def)
qed

definition demo_attempt :: "int option option \<Rightarrow> attempt" where
  "demo_attempt dies = \<lparr>at_connects = True, at_subprotocol = True, at_first = RecvTimeout, at_sent = True,
     at_second = RecvTimeout, at_dies = dies\<rparr>"

definition busy_once :: "nat \<Rightarrow> attempt" where
  "busy_once k = demo_attempt (if k = 0 then Some (Some 4429) else None)"

definition demo_slv :: slv_env where
  "demo_slv = \<lparr>se_repr = (\<lambda>j. []), se_loads = (\<lambda>s. None), se_dumps = (\<lambda>d. []), se_json_error = (\<lambda>s. [])\<rparr>"

lemmas demo_open = open_with_retry_def reconnect_backoffs_def open_once_def hello_def busy_once_def demo_attempt_def
  new_client_def wire_out_def hang_up_def take_reader_def Let_def

theorem opening_is_bounded_witness:
  "\<exists>d. open_with_retry demo_slv busy_once (new_client V1 []) = (IsOpen, [1 / 4], d) \<and> sc_opened d = 2 \<and> is_healthy d \<and>
     sc_live d = {1} \<and> sc_gen d = 1"
proof -
  have c: "sc_ws (new_client V1 []) = None" "sc_live (new_client V1 []) = {}" "\<not> sc_closed (new_client V1 [])"
      "sc_gen (new_client V1 []) = 0"
    by (simp_all add: new_client_def)
  obtain d where d: "open_with_retry demo_slv busy_once (new_client V1 []) = (IsOpen, [1 / 4], d)" "sc_opened d = 2"
      "sc_ws d = Some 1"
    by (simp add: demo_open)
  then show ?thesis using opening_is_bounded [OF d(1) c(1,2)] c by auto
qed




end
