(* ===== verification/ClientServer.thy ===== *)
theory ClientServer
  imports SlvClient V2Proxy
begin

text \<open>
  The agent's client against the server's proxy: a client of the second protocol version, through
  the proxy, has the voice engine hear what a client of the first version says to it directly; and the
  client's idea of the response in progress is the server's.
\<close>

section \<open>What the engine hears\<close>

text \<open>The frames of a client, sent as text through the proxy, and the messages the engine takes out: after each
  frame the pending ones come first.\<close>

fun engine_hears :: "proxy_env \<Rightarrow> (jdict \<Rightarrow> string) \<Rightarrow> jdict list \<Rightarrow> proxy \<Rightarrow> jdict list" where
  "engine_hears E dumps [] P = []"
| "engine_hears E dumps (f # fs) P =
     (case px_message E (Some (dumps f)) P of
        (Payload d, obs, P1) \<Rightarrow> d # px_pending P1 @ engine_hears E dumps fs (P1\<lparr>px_pending := []\<rparr>)
      | (r, obs, P1) \<Rightarrow> engine_hears E dumps fs P1)"

text \<open>The documents that come back from their text as they were.\<close>

definition faithful_on :: "proxy_env \<Rightarrow> (jdict \<Rightarrow> string) \<Rightarrow> jdict list \<Rightarrow> bool" where
  "faithful_on E dumps ds \<longleftrightarrow> (\<forall>d\<in>set ds. dumps d \<noteq> [] \<and> pe_loads E (dumps d) = Some (JObj d))"

lemma faithful_message:
  "faithful_on E dumps (d # ds) \<Longrightarrow> px_message E (Some (dumps d)) P = px_payload E d P"
  by (simp add: faithful_on_def px_message_def)

lemmas px_simps = px_payload_def hand_on_def px_cancel_def abort_payload_def px_speak_def px_item_create_def
  jget_or_def get_sub_def jobj_or_empty_def Let_def

text \<open>What a tool reported, as the document inside the frame.\<close>

definition tool_output_doc :: "string \<Rightarrow> bool \<Rightarrow> jdict option \<Rightarrow> string option \<Rightarrow> jdict" where
  "tool_output_doc name ok result error =
     [(''ok'', JBool ok), (''name'', JStr name), outcome_field ok result error]"

lemma eos_heard:
  "faithful_on E dumps (eos_frames V2) \<Longrightarrow> engine_hears E dumps (eos_frames V2) P = eos_frames V1 @ px_pending P"
  by (simp add: eos_frames_def faithful_message px_simps)

lemma abort_heard:
  "faithful_on E dumps (abort_frames V2 r keep) \<Longrightarrow>
   engine_hears E dumps (abort_frames V2 r keep) P = abort_frames V1 r keep @ px_pending P"
  by (cases keep) (simp_all add: abort_frames_def faithful_message px_simps)

lemma speak_heard:
  "faithful_on E dumps (speak_frames V2 t conv) \<Longrightarrow> px_pending P = [] \<Longrightarrow>
   engine_hears E dumps (speak_frames V2 t conv) P = speak_frames V1 t conv"
  by (cases "t = [] \<or> py_strip t = []")
    (auto simp: speak_frames_def faithful_message px_simps jor_def json_str_def text_frames_def flush_frames_def)

lemma tool_result_heard:
  assumes "faithful_on E (se_dumps S) (tool_result_frames S V2 call_id name ok result error)"
    and "faithful_on E (se_dumps S) [tool_output_doc name ok result error]" and "px_pending P = []"
  shows "engine_hears E (se_dumps S) (tool_result_frames S V2 call_id name ok result error) P
           = tool_result_frames S V1 call_id name ok result error"
proof -
  let ?doc = "[(''ok'', JBool ok), (''name'', JStr name), outcome_field ok result error]"
  have doc: "pe_loads E (se_dumps S ?doc) = Some (JObj ?doc)"
    using assms(2) by (simp add: faithful_on_def tool_output_doc_def)
  show ?thesis using assms(1,3) doc
    by (cases ok)
      (auto simp: tool_result_frames_def faithful_message px_simps tool_outcome_def outcome_field_def jor_def
        json_str_def split: option.split)
qed

section \<open>The response in progress\<close>

text \<open>The client decoding what the proxy sends, until a frame makes its reader raise.\<close>

fun client_hears :: "slv_env \<Rightarrow> observation list \<Rightarrow> slv_client \<Rightarrow> slv_client option" where
  "client_hears S [] c = Some c"
| "client_hears S (CancelMark # xs) c = client_hears S xs c"
| "client_hears S (Sent ev # xs) c =
     (case decode_event S ev c of Inl e \<Rightarrow> None | Inr (c1, evs) \<Rightarrow> client_hears S xs c1)"

definition response_in :: "life \<Rightarrow> string option" where
  "response_in l = (case l of Quiet \<Rightarrow> None | Speaking r n s \<Rightarrow> Some r)"

definition named_responses :: "observation list \<Rightarrow> bool" where
  "named_responses xs \<longleftrightarrow>
     (\<forall>ev. Sent ev \<in> set xs \<and> jget ''type'' ev = JStr ''response.created'' \<longrightarrow>
           jget ''id'' (get_sub ''response'' ev) \<noteq> JStr [])"

lemma decode_other:
  assumes "decode_event S ev c = Inr (c1, evs)"
    and "jget ''type'' ev \<noteq> JStr ''response.created''" and "jget ''type'' ev \<noteq> JStr ''response.done''"
  shows "sc_response c1 = sc_response c"
  using assms unfolding decode_event_def Let_def
  by (auto simp: emit_def on_session_def on_item_added_def on_function_call_def on_tool_call_def on_error_def Let_def
      split: if_splits sum.splits)

lemma decode_created:
  assumes "decode_event S ev c = Inr (c1, evs)" and "jget ''type'' ev = JStr ''response.created''"
    and "jget ''id'' (get_sub ''response'' ev) = JStr r" and "r \<noteq> []"
  shows "sc_response c1 = Some r"
  using assms
  by (auto simp: decode_event_def on_response_created_def emit_def str_or_def jor_def json_str_def sub_dict_def get_sub_def jobj_or_empty_def
      Let_def)

lemma decode_done:
  assumes "decode_event S ev c = Inr (c1, evs)" and "jget ''type'' ev = JStr ''response.done''"
    and "jget ''id'' (get_sub ''response'' ev) = JStr r" and "r \<noteq> []" and "sc_response c = Some r"
  shows "sc_response c1 = None"
  using assms
  by (auto simp: decode_event_def on_response_done_def emit_def str_or_def jor_def json_str_def sub_dict_def get_sub_def jobj_or_empty_def
      Let_def)

lemma client_hears_life:
  assumes "life_run xs l = Some l'" and "client_hears S xs c = Some c'" and "named_responses xs"
    and "sc_response c = response_in l" and "response_in l \<noteq> Some []"
  shows "sc_response c' = response_in l'"
  using assms
proof (induction xs arbitrary: l c)
  case (Cons x xs)
  have named: "named_responses xs" using Cons.prems(3) by (auto simp: named_responses_def)
  show ?case
  proof (cases x)
    case CancelMark
    then show ?thesis using Cons named by (cases l) (auto simp: response_in_def)
  next
    case (Sent ev)
    obtain l1 where l1: "life_event ev l = Some l1" "life_run xs l1 = Some l'"
      using Cons.prems(1) Sent by (auto split: option.splits)
    obtain c1 evs where c1: "decode_event S ev c = Inr (c1, evs)" "client_hears S xs c1 = Some c'"
      using Cons.prems(2) Sent by (auto split: sum.splits)
    have "sc_response c1 = response_in l1 \<and> response_in l1 \<noteq> Some []"
    proof (cases "jget ''type'' ev = JStr ''response.created'' \<or> jget ''type'' ev = JStr ''response.done''")
      case False
      then have "sc_response c1 = sc_response c" using decode_other [OF c1(1)] by blast
      moreover have "response_in l1 = response_in l" using l1(1) False
        by (auto simp: life_event_def ev_type_def life_item_def life_item_done_def response_in_def
            split: if_splits life.splits json.splits)
      ultimately show ?thesis using Cons.prems(4,5) by simp
    next
      case True
      then show ?thesis
      proof
        assume t: "jget ''type'' ev = JStr ''response.created''"
        then obtain r where r: "jget ''id'' (get_sub ''response'' ev) = JStr r" "l1 = Speaking r 0 ''completed''"
          using l1(1) by (auto simp: life_event_def ev_type_def life_created_def split: life.splits json.splits)
        then have "r \<noteq> []" using Cons.prems(3) Sent t by (auto simp: named_responses_def)
        then show ?thesis using decode_created [OF c1(1) t r(1)] r(2) by (simp add: response_in_def)
      next
        assume t: "jget ''type'' ev = JStr ''response.done''"
        then obtain r n s where r: "jget ''id'' (get_sub ''response'' ev) = JStr r" "l = Speaking r n s" "l1 = Quiet"
          using l1(1) by (auto simp: life_event_def ev_type_def life_done_def split: life.splits if_splits)
        then show ?thesis using decode_done [OF c1(1) t r(1)] Cons.prems(4,5) by (simp add: response_in_def)
      qed
    qed
    then show ?thesis using Cons.IH [OF l1(2) c1(2) named] by blast
  qed
qed simp

section \<open>Properties\<close>


definition demo_docs :: "jdict list" where
  "demo_docs =
     [[(''type'', JStr ''input_audio_buffer.commit'')],
      [(''type'', JStr ''response.cancel''), (''response_id'', JStr ''r''), (''keep_asr'', JBool True)],
      [(''type'', JStr ''x_v2v.response.speak''),
       (''speech'', JObj [(''text'', JStr ''hi''), (''conversation'', JStr ''none'')])],
      [(''type'', JStr ''conversation.item.create''),
       (''item'', JObj [(''type'', JStr ''function_call_output''), (''call_id'', JStr ''c''), (''output'', JStr ''doc'')])],
      [(''ok'', JBool False), (''name'', JStr ''wave''), (''error'', JStr ''tool execution failed'')]]"

definition demo_dumps :: "jdict \<Rightarrow> string" where
  "demo_dumps d = (case jget ''type'' d of JStr t \<Rightarrow> t | _ \<Rightarrow> ''doc'')"

definition demo_proxy_env :: proxy_env where
  "demo_proxy_env = \<lparr>pe_idf = (\<lambda>n k. k), pe_repr = (\<lambda>_. []), pe_dumps = demo_dumps,
     pe_loads = (\<lambda>s. map_option JObj (map_of (map (\<lambda>d. (demo_dumps d, d)) demo_docs) s))\<rparr>"

definition demo_client_env :: slv_env where
  "demo_client_env = demo_slv\<lparr>se_dumps := demo_dumps\<rparr>"




definition demo_talk :: "proxy_event list" where
  "demo_talk = [FromEngine [(''type'', JStr ''tts_started'')], FromWire (Some ''response.cancel'')]"


end
