(* ===== verification/PyText.thy ===== *)
theory PyText
  imports Prelude
begin

text \<open>
  The parts of Python's library that modules on streams of text use: searching and replacing in
  strings, the UTF-8 codec with its incremental decoder (\<open>errors="replace"\<close>), and little-endian
  numbers.  A byte is a number below 256, a text a list of code points.
\<close>

section \<open>Searching\<close>

text \<open>\<open>s.find(p)\<close>; \<open>None\<close> is -1.\<close>

fun find_sub :: "'a list \<Rightarrow> 'a list \<Rightarrow> nat option" where
  "find_sub p [] = (if p = [] then Some 0 else None)"
| "find_sub p (c # cs) = (if py_startswith (c # cs) p then Some 0 else map_option Suc (find_sub p cs))"

text \<open>\<open>s.replace(c, r)\<close> for a single character \<open>c\<close>.\<close>

definition replace_char :: "'a \<Rightarrow> 'a list \<Rightarrow> 'a list \<Rightarrow> 'a list" where
  "replace_char c r s = concat (map (\<lambda>x. if x = c then r else [x]) s)"

lemma startswith_iff_prefix: "py_startswith s p \<longleftrightarrow> prefix p s"
  unfolding py_startswith_def prefix_def by (metis append_eq_conv_conj append_take_drop_id)

lemma endswith_iff_suffix: "py_endswith s p \<longleftrightarrow> suffix p s"
proof
  assume "py_endswith s p"
  then show "suffix p s" unfolding py_endswith_def by (metis suffix_drop)
next
  assume "suffix p s"
  then show "py_endswith s p" unfolding py_endswith_def suffix_def by auto
qed

lemma find_sub_Some_iff:
  "find_sub p s = Some i \<longleftrightarrow>
     i \<le> length s \<and> prefix p (drop i s) \<and> (\<forall>j<i. \<not> prefix p (drop j s))"
proof (induction s arbitrary: i)
  case Nil
  then show ?case by auto
next
  case (Cons c cs)
  show ?case
  proof (cases i)
    case 0
    then show ?thesis by (auto simp: startswith_iff_prefix)
  next
    case (Suc k)
    have "(\<forall>j<Suc k. \<not> prefix p (drop j (c # cs))) \<longleftrightarrow>
        \<not> prefix p (c # cs) \<and> (\<forall>j<k. \<not> prefix p (drop j cs))"
      by (simp add: All_less_Suc2)
    then show ?thesis using Suc Cons.IH [of k] by (auto simp: startswith_iff_prefix)
  qed
qed

lemma find_sub_None_iff: "find_sub p s = None \<longleftrightarrow> (\<forall>j\<le>length s. \<not> prefix p (drop j s))"
proof (induction s)
  case Nil
  then show ?case by simp
next
  case (Cons c cs)
  have "(\<forall>j\<le>length (c # cs). \<not> prefix p (drop j (c # cs))) \<longleftrightarrow>
      \<not> prefix p (c # cs) \<and> (\<forall>j\<le>length cs. \<not> prefix p (drop j cs))"
    by (simp only: less_Suc_eq_le [symmetric] list.size add_0_right add_Suc_right All_less_Suc2) simp
  then show ?case using Cons.IH by (auto simp: startswith_iff_prefix)
qed

lemma find_sub_end: "find_sub p s = Some i \<Longrightarrow> i + length p \<le> length s"
  using prefix_length_le [of p "drop i s"] by (auto simp: find_sub_Some_iff)

lemma prefix_of_append:
  "length p \<le> length s \<Longrightarrow> prefix p (s @ t) \<longleftrightarrow> prefix p s"
  by (metis append_prefixD prefix_append prefix_length_le prefix_order.antisym_conv prefix_same_cases prefixI
      prefix_length_prefix)

lemma find_sub_append:
  assumes "find_sub p s = Some i"
  shows "find_sub p (s @ t) = Some i"
proof -
  have e: "i + length p \<le> length s" by (rule find_sub_end [OF assms])
  have "prefix p (drop j (s @ t)) = prefix p (drop j s)" if "j \<le> i" for j
    using that e prefix_of_append [of p "drop j s" t] by simp
  then show ?thesis using assms e by (auto simp: find_sub_Some_iff)
qed

lemma find_sub_skip:
  assumes "\<And>j. j < length u \<Longrightarrow> \<not> prefix p (drop j (u @ s))"
  shows "find_sub p (u @ s) = map_option ((+) (length u)) (find_sub p s)"
  using assms
proof (induction u)
  case Nil
  then show ?case by (cases "find_sub p s") auto
next
  case (Cons c u)
  have "\<not> prefix p ((c # u) @ s)" using Cons.prems [of 0] by simp
  moreover have "find_sub p (u @ s) = map_option ((+) (length u)) (find_sub p s)"
  proof (rule Cons.IH)
    fix j assume "j < length u"
    then show "\<not> prefix p (drop j (u @ s))" using Cons.prems [of "Suc j"] by simp
  qed
  ultimately show ?case by (cases "find_sub p s") (auto simp: startswith_iff_prefix)
qed

lemma replace_char_simps [simp]:
  "replace_char c r [] = []"
  "replace_char c r (x # s) = (if x = c then r else [x]) @ replace_char c r s"
  by (simp_all add: replace_char_def)

section \<open>Numbers in bytes\<close>

fun le_bytes :: "nat \<Rightarrow> nat \<Rightarrow> nat list" where
  "le_bytes 0 n = []"
| "le_bytes (Suc k) n = n mod 256 # le_bytes k (n div 256)"

fun le_number :: "nat list \<Rightarrow> nat" where
  "le_number [] = 0"
| "le_number (b # bs) = b + 256 * le_number bs"

lemma le_roundtrip: "n < 256 ^ k \<Longrightarrow> le_number (le_bytes k n) = n"
  by (induction k arbitrary: n) (auto simp: less_mult_imp_div_less mult.commute)

lemma length_le_bytes [simp]: "length (le_bytes k n) = k"
  by (induction k arbitrary: n) auto

section \<open>UTF-8\<close>

definition scalar :: "nat \<Rightarrow> bool" where
  "scalar c \<longleftrightarrow> c < 55296 \<or> (57343 < c \<and> c < 1114112)"

definition utf8_char :: "nat \<Rightarrow> nat list option" where
  "utf8_char c =
     (if \<not> scalar c then None
      else Some (if c < 128 then [c]
                 else if c < 2048 then [192 + c div 64, 128 + c mod 64]
                 else if c < 65536 then [224 + c div 4096, 128 + c div 64 mod 64, 128 + c mod 64]
                 else [240 + c div 262144, 128 + c div 4096 mod 64, 128 + c div 64 mod 64, 128 + c mod 64]))"

text \<open>\<open>s.encode("utf-8")\<close>; \<open>None\<close> is the \<open>UnicodeEncodeError\<close> of a lone surrogate.\<close>

fun utf8_encode :: "cptext \<Rightarrow> nat list option" where
  "utf8_encode [] = Some []"
| "utf8_encode (c # cs) =
     (case utf8_char c of None \<Rightarrow> None
      | Some b \<Rightarrow> map_option ((@) b) (utf8_encode cs))"

text \<open>
  The incremental decoder: between calls it keeps the sequence it is in (how many bytes are
  missing, the bits so far, the range of the next byte).  A byte that does not fit ends the
  sequence with one replacement character and is read again as a first byte.
\<close>

datatype utf8_state = Idle | Within nat nat nat nat

definition utf8_first :: "nat \<Rightarrow> cptext \<times> utf8_state" where
  "utf8_first b =
     (if b < 128 then ([b], Idle)
      else if 194 \<le> b \<and> b \<le> 223 then ([], Within 1 (b - 192) 128 191)
      else if 224 \<le> b \<and> b \<le> 239
        then ([], Within 2 (b - 224) (if b = 224 then 160 else 128) (if b = 237 then 159 else 191))
      else if 240 \<le> b \<and> b \<le> 244
        then ([], Within 3 (b - 240) (if b = 240 then 144 else 128) (if b = 244 then 143 else 191))
      else ([65533], Idle))"

fun utf8_step :: "utf8_state \<Rightarrow> nat \<Rightarrow> cptext \<times> utf8_state" where
  "utf8_step Idle b = utf8_first b"
| "utf8_step (Within n acc lo hi) b =
     (if lo \<le> b \<and> b \<le> hi
        then (if n = 1 then ([acc * 64 + (b - 128)], Idle)
              else ([], Within (n - 1) (acc * 64 + (b - 128)) 128 191))
      else (case utf8_first b of (out, s) \<Rightarrow> (65533 # out, s)))"

fun utf8_run :: "utf8_state \<Rightarrow> nat list \<Rightarrow> cptext \<times> utf8_state" where
  "utf8_run s [] = ([], s)"
| "utf8_run s (b # bs) =
     (case utf8_step s b of (out, s1) \<Rightarrow> case utf8_run s1 bs of (rest, s2) \<Rightarrow> (out @ rest, s2))"

definition utf8_final :: "utf8_state \<Rightarrow> cptext" where
  "utf8_final s = (if s = Idle then [] else [65533])"

definition utf8_replace :: "nat list \<Rightarrow> cptext" where
  "utf8_replace bs = (case utf8_run Idle bs of (out, s) \<Rightarrow> out @ utf8_final s)"

lemma utf8_run_append:
  "utf8_run s (xs @ ys) =
     (case utf8_run s xs of (o1, s1) \<Rightarrow> case utf8_run s1 ys of (o2, s2) \<Rightarrow> (o1 @ o2, s2))"
  by (induction xs arbitrary: s) (auto split: prod.splits)

lemma base64_digits:
  "(c::nat) = c div 4096 * 4096 + c div 64 mod 64 * 64 + c mod 64"
  "(c::nat) = c div 262144 * 262144 + c div 4096 mod 64 * 4096 + c div 64 mod 64 * 64 + c mod 64"
proof -
  have d: "c div 4096 = c div 64 div 64" "c div 262144 = c div 4096 div 64"
    by (simp_all add: div_mult2_eq [symmetric])
  have a: "c div 64 * 64 + c mod 64 = c" "c div 64 div 64 * 64 + c div 64 mod 64 = c div 64"
    "c div 4096 div 64 * 64 + c div 4096 mod 64 = c div 4096" by (rule div_mult_mod_eq)+
  show "c = c div 4096 * 4096 + c div 64 mod 64 * 64 + c mod 64" using a(1,2) unfolding d(1) by linarith
  then show "c = c div 262144 * 262144 + c div 4096 mod 64 * 4096 + c div 64 mod 64 * 64 + c mod 64"
    using a(3) unfolding d(2) by linarith
qed

lemma utf8_char_decodes:
  assumes "utf8_char c = Some b"
  shows "utf8_run Idle b = ([c], Idle)"
proof -
  have s: "scalar c" and b: "b = (if c < 128 then [c]
      else if c < 2048 then [192 + c div 64, 128 + c mod 64]
      else if c < 65536 then [224 + c div 4096, 128 + c div 64 mod 64, 128 + c mod 64]
      else [240 + c div 262144, 128 + c div 4096 mod 64, 128 + c div 64 mod 64, 128 + c mod 64])"
    using assms by (auto simp: utf8_char_def split: if_splits)
  consider "c < 128" | "128 \<le> c" "c < 2048" | "2048 \<le> c" "c < 65536" | "65536 \<le> c" "c < 1114112"
    using s unfolding scalar_def by linarith
  then show ?thesis
  proof cases
    case 1
    then show ?thesis by (simp add: b utf8_first_def)
  next
    case 2
    have q: "2 \<le> c div 64" "c div 64 < 32" using 2 by simp_all
    have "c div 64 * 64 + c mod 64 = c" by simp
    then show ?thesis using 2 q by (simp add: b utf8_first_def)
  next
    case 3
    define h m l where "h = c div 4096" and "m = c div 64 mod 64" and "l = c mod 64"
    have h: "h < 16" using 3 by (simp add: h_def)
    have m: "m < 64" and l: "l < 64" by (simp_all add: m_def l_def)
    have c: "c = h * 4096 + m * 64 + l" using base64_digits(1) [of c] by (simp add: h_def m_def l_def)
    have z: "h = 0 \<Longrightarrow> 32 \<le> m" using 3 c l by linarith
    have e: "h = 13 \<Longrightarrow> m < 32" using s c m l unfolding scalar_def by linarith
    have bb: "b = [224 + h, 128 + m, 128 + l]" using 3 by (simp add: b h_def m_def l_def)
    show ?thesis using h m l z e unfolding bb c by (auto simp: utf8_first_def)
  next
    case 4
    define h g m l where "h = c div 262144" and "g = c div 4096 mod 64" and "m = c div 64 mod 64" and "l = c mod 64"
    have h: "h < 5" using 4 by (simp add: h_def)
    have m: "g < 64" "m < 64" and l: "l < 64" by (simp_all add: g_def m_def l_def)
    have c: "c = h * 262144 + g * 4096 + m * 64 + l" using base64_digits(2) [of c]
      by (simp add: h_def g_def m_def l_def)
    have z: "h = 0 \<Longrightarrow> 16 \<le> g" using 4 c l m by linarith
    have e: "h = 4 \<Longrightarrow> g < 16" using 4 c by linarith
    have bb: "b = [240 + h, 128 + g, 128 + m, 128 + l]" using 4 by (simp add: b h_def g_def m_def l_def)
    show ?thesis using h m l z e unfolding bb c by (auto simp: utf8_first_def)
  qed
qed

lemma utf8_run_encoded: "utf8_encode t = Some b \<Longrightarrow> utf8_run Idle b = (t, Idle)"
proof (induction t arbitrary: b)
  case Nil
  then show ?case by simp
next
  case (Cons c t)
  obtain bc bt where "utf8_char c = Some bc" "utf8_encode t = Some bt" "b = bc @ bt"
    using Cons.prems by (auto split: option.splits)
  then show ?case using Cons.IH utf8_char_decodes by (simp add: utf8_run_append)
qed

lemma utf8_roundtrip: "utf8_encode t = Some b \<Longrightarrow> utf8_replace b = t"
  by (simp add: utf8_replace_def utf8_run_encoded utf8_final_def)

end
