(* ===== verification/RkLlm.thy ===== *)
theory RkLlm
  imports PyText Json
begin

text \<open>
  The OpenAI-compatible server of the RK1828 accelerator
  (\<open>services/rk1828-llm/rk1828_llm_server.py\<close>): the worker process and its framed protocol, the
  splitter of tool calls, the prompt, and the streamed and the plain completion.

  The process itself is a parameter: what it writes is given as the segments its reads return, what
  its start does as outcomes.  \<open>loads\<close>, \<open>dumps\<close> and \<open>py_repr\<close> stand for \<open>json\<close> and \<open>repr\<close>.
\<close>

section \<open>Settings\<close>

definition end_of_stream :: nat where
  "end_of_stream = 4294967294"

definition max_frame_bytes :: nat where
  "max_frame_bytes = 8 * 1024 * 1024"

definition tool_min_max_tokens :: int where
  "tool_min_max_tokens = 320"

definition env_raw :: "env_map \<Rightarrow> string \<Rightarrow> string" where
  "env_raw env name = (case env name of None \<Rightarrow> [] | Some v \<Rightarrow> py_strip v)"

definition rk_env_float :: "env_map \<Rightarrow> string \<Rightarrow> real \<Rightarrow> real" where
  "rk_env_float env name d =
     (let raw = env_raw env name
      in if raw = [] then d
         else (case py_float raw of
                 None \<Rightarrow> d
               | Some (Fin x) \<Rightarrow> (if x \<le> 0 then d else x)
               | Some v \<Rightarrow> d))"

definition rk_env_int :: "env_map \<Rightarrow> string \<Rightarrow> int \<Rightarrow> int" where
  "rk_env_int env name d =
     (let raw = env_raw env name
      in if raw = [] then d
         else (case py_int raw of None \<Rightarrow> d | Some n \<Rightarrow> (if n < 1 then d else n)))"

definition start_attempts_of :: "env_map \<Rightarrow> nat" where
  "start_attempts_of env = nat (rk_env_int env ''RK1828_START_ATTEMPTS'' 3)"

definition ready_timeout_of :: "env_map \<Rightarrow> real" where
  "ready_timeout_of env = rk_env_float env ''RK1828_READY_TIMEOUT'' 180"

definition fail_cooldown_of :: "env_map \<Rightarrow> real" where
  "fail_cooldown_of env = rk_env_float env ''RK1828_FAIL_COOLDOWN_S'' 300"

section \<open>The request line\<close>

text \<open>\<open>_escape\<close>: backslash first, then line feed_piece, carriage return and tab.\<close>

definition escape :: "cptext \<Rightarrow> cptext" where
  "escape t = replace_char 9 [92, 116] (replace_char 13 [92, 114]
     (replace_char 10 [92, 110] (replace_char 92 [92, 92] t)))"

definition tab_join :: "cptext list \<Rightarrow> cptext" where
  "tab_join fs = concat (map (\<lambda>f. f @ [9]) (butlast fs)) @ last fs"

text \<open>\<open>digits\<close> is the decimal form of a number, \<open>f"{n}"\<close>.\<close>

function digits :: "nat \<Rightarrow> cptext" where
  "digits n = (if n < 10 then [48 + n] else digits (n div 10) @ [48 + n mod 10])"
  by auto
termination by (relation "measure id") auto

declare digits.simps [simp del]

definition decimal :: "int \<Rightarrow> cptext" where
  "decimal n = (if n < 0 then 45 # digits (nat (- n)) else digits (nat n))"

text \<open>The line of a request; with tools it is the second version of the protocol.\<close>

definition request_line :: "cptext option \<Rightarrow> int \<Rightarrow> cptext \<Rightarrow> cptext" where
  "request_line tools_json max_new prompt =
     (case tools_json of
        Some j \<Rightarrow> tab_join [cp_of ''V2'', decimal max_new, cp_of ''0'', escape j, cp_of ''1'', [], escape prompt] @ [10]
      | None \<Rightarrow> tab_join [decimal max_new, escape prompt] @ [10])"

section \<open>The worker process\<close>

datatype worker_error =
    NotReady
  | StdoutEof
  | FrameTooLong nat
  | EncodeError
  | BrokenPipe
  | ExitedDuringInit int
  | HandshakeTimeout
  | SpawnFailed
  | StartFailed
  | RequestTimeout

text \<open>
  The pipe of a process: the segments its reads will find, none of them empty, up to its end.
  \<open>read(n)\<close> returns at most \<open>n\<close> bytes of the first segment.
\<close>

type_synonym out_pipe = "nat list list"

record rk_worker =
  rk_running :: bool
  rk_ready :: bool
  rk_stdin_ok :: bool
  rk_stdin :: "nat list"
  rk_stdout :: out_pipe

definition is_ready :: "rk_worker \<Rightarrow> bool" where
  "is_ready w \<longleftrightarrow> rk_running w \<and> rk_ready w"

fun pipe_read :: "nat \<Rightarrow> out_pipe \<Rightarrow> nat list \<times> out_pipe" where
  "pipe_read n [] = ([], [])"
| "pipe_read n (seg # segs) = (take n seg, if length seg \<le> n then segs else drop n seg # segs)"

text \<open>\<open>_read_exact\<close>; \<open>None\<close> is the error at the end of the output.\<close>

function read_exact :: "nat \<Rightarrow> nat list \<Rightarrow> out_pipe \<Rightarrow> nat list option \<times> out_pipe" where
  "read_exact n buf p =
     (if length buf < n
        then (case pipe_read (n - length buf) p of
                (chunk, p') \<Rightarrow> if chunk = [] then (None, p') else read_exact n (buf @ chunk) p')
        else (Some buf, p))"
  by auto
termination by (relation "measure (\<lambda>(n, buf, p). n - length buf)") (simp, case_tac x, simp_all)

declare read_exact.simps [simp del]

lemma read_exact_concat:
  assumes "[] \<notin> set p" and "n \<le> length buf + length (concat p)" and "length buf \<le> n"
  shows "\<exists>p'. read_exact n buf p = (Some (buf @ take (n - length buf) (concat p)), p') \<and>
      concat p' = drop (n - length buf) (concat p) \<and> [] \<notin> set p'"
  using assms
proof (induction n buf p rule: read_exact.induct)
  case (1 n buf p)
  show ?case
  proof (cases "length buf < n")
    case False
    then show ?thesis using 1 by (simp add: read_exact.simps)
  next
    case True
    then obtain seg segs where p: "p = seg # segs" using 1(3) by (cases p) auto
    have ne: "seg \<noteq> []" "[] \<notin> set segs" using 1(2) by (auto simp: p)
    let ?k = "n - length buf"
    let ?p = "if length seg \<le> ?k then segs else drop ?k seg # segs"
    have r: "pipe_read ?k p = (take ?k seg, ?p)" by (simp add: p)
    have c: "take ?k seg \<noteq> []" using True ne by simp
    have "\<exists>p'. read_exact n (buf @ take ?k seg) ?p =
        (Some ((buf @ take ?k seg) @ take (n - length (buf @ take ?k seg)) (concat ?p)), p') \<and>
        concat p' = drop (n - length (buf @ take ?k seg)) (concat ?p) \<and> [] \<notin> set p'"
      by (rule 1(1) [OF True r [symmetric] c]) (use 1(2-4) ne True in \<open>auto simp: p\<close>)
    moreover have "read_exact n buf p = read_exact n (buf @ take ?k seg) ?p"
      using True r c by (subst read_exact.simps) simp
    ultimately show ?thesis using True by (auto simp: p min_def)
  qed
qed

lemma read_exact_short:
  assumes "[] \<notin> set p" and "length buf + length (concat p) < n"
  shows "read_exact n buf p = (None, [])"
  using assms
proof (induction n buf p rule: read_exact.induct)
  case (1 n buf p)
  have True: "length buf < n" using 1(3) by simp
  show ?case
  proof (cases p)
    case Nil
    then show ?thesis using True by (subst read_exact.simps) simp
  next
    case (Cons seg segs)
    let ?k = "n - length buf"
    have r: "pipe_read ?k p = (seg, segs)" using 1(3) by (simp add: Cons)
    have c: "seg \<noteq> []" using 1(2) by (auto simp: Cons)
    have "read_exact n (buf @ seg) segs = (None, [])"
      by (rule 1(1) [OF True r [symmetric] c]) (use 1(2,3) in \<open>auto simp: Cons\<close>)
    then show ?thesis using True r c by (subst read_exact.simps) simp
  qed
qed

lemma read_exact_shrinks:
  "read_exact n buf p = (Some b, p') \<Longrightarrow> length b = max n (length buf) \<and>
     length b + length (concat p') = length buf + length (concat p)"
proof (induction n buf p rule: read_exact.induct)
  case (1 n buf p)
  show ?case
  proof (cases "length buf < n")
    case False
    then show ?thesis using 1(2) by (simp add: read_exact.simps)
  next
    case True
    obtain chunk q where r: "pipe_read (n - length buf) p = (chunk, q)" by fastforce
    have c: "chunk \<noteq> []" and e: "read_exact n (buf @ chunk) q = (Some b, p')"
      using 1(2) True r by (subst (asm) read_exact.simps, simp split: if_splits)+
    have len: "length chunk + length (concat q) = length (concat p)" "length chunk \<le> n - length buf"
      using r True by (cases p; auto split: if_splits)+
    show ?thesis using 1(1) [OF True r [symmetric] c e] len True by simp
  qed
qed

text \<open>What the thread of a request puts into the queue.\<close>

datatype piece_item = PText cptext | PError worker_error | PDone

text \<open>The loop over the frames: the texts, the exception that ends it (if any), the rest of the pipe.\<close>

function read_frames :: "utf8_state \<Rightarrow> out_pipe \<Rightarrow> cptext list \<times> worker_error option \<times> out_pipe" where
  "read_frames dec p =
     (case read_exact 4 [] p of
        (None, p1) \<Rightarrow> ([], Some StdoutEof, p1)
      | (Some h, p1) \<Rightarrow>
          (let len = le_number h
           in if len = end_of_stream
                then ((if utf8_final dec = [] then [] else [utf8_final dec]), None, p1)
              else if len > max_frame_bytes then ([], Some (FrameTooLong len), p1)
              else (case read_exact len [] p1 of
                      (None, p2) \<Rightarrow> ([], Some StdoutEof, p2)
                    | (Some body, p2) \<Rightarrow>
                        (let piece = fst (utf8_run dec body)
                         in case read_frames (snd (utf8_run dec body)) p2 of
                              (ts, r, p3) \<Rightarrow> ((if piece = [] then ts else piece # ts), r, p3)))))"
  by auto
termination
proof (relation "measure (\<lambda>(dec, p). length (concat p))", goal_cases)
  case 1
  then show ?case by simp
next
  case (2 dec p x p1 h len y p2 body piece)
  then show ?case
    using read_exact_shrinks [of 4 "[]" p h p1] read_exact_shrinks [of len "[]" p1 body p2] by auto
qed

declare read_frames.simps [simp del]

text \<open>
  \<open>_run_request\<close>, which runs on a thread of its own with the worker's lock: whatever becomes of the
  client, it reads to the end of its answer.
\<close>

definition run_request :: "cptext option \<Rightarrow> int \<Rightarrow> cptext \<Rightarrow> rk_worker \<Rightarrow> piece_item list \<times> rk_worker" where
  "run_request tools_json max_new prompt w =
     (if \<not> is_ready w then ([PError NotReady, PDone], w)
      else
        (case utf8_encode (request_line tools_json max_new prompt) of
           None \<Rightarrow> ([PError EncodeError, PDone], w)
         | Some line \<Rightarrow>
             (if \<not> rk_stdin_ok w then ([PError BrokenPipe, PDone], w)
              else
                (case read_frames Idle (rk_stdout w) of
                   (ts, r, p) \<Rightarrow>
                     (map PText ts @ (case r of None \<Rightarrow> [] | Some e \<Rightarrow> [PError e]) @ [PDone],
                      w\<lparr>rk_stdin := rk_stdin w @ line, rk_stdout := p\<rparr>)))))"

text \<open>
  \<open>generate\<close>: the pieces of the queue until it ends; \<open>None\<close> in the list is a \<open>get\<close> that ran into the
  time limit.
\<close>

fun generate :: "piece_item option list \<Rightarrow> cptext list \<times> worker_error option" where
  "generate [] = ([], Some RequestTimeout)"
| "generate (None # qs) = ([], Some RequestTimeout)"
| "generate (Some (PText t) # qs) = (case generate qs of (ts, r) \<Rightarrow> (t # ts, r))"
| "generate (Some (PError e) # qs) = ([], Some e)"
| "generate (Some PDone # qs) = ([], None)"

section \<open>Starting and stopping\<close>

text \<open>
  \<open>_spawn\<close>: creating the process may fail; then it is asked until the time limit whether it is ready
  or has exited (one entry per round of the loop; the limit is the end of the list).
\<close>

datatype spawn_poll = PollReady | PollRunning | PollExited int

fun await_ready :: "spawn_poll list \<Rightarrow> worker_error option" where
  "await_ready [] = Some HandshakeTimeout"
| "await_ready (PollReady # ps) = None"
| "await_ready (PollExited rc # ps) = Some (ExitedDuringInit rc)"
| "await_ready (PollRunning # ps) = await_ready ps"

datatype attempt_outcome = CannotSpawn | Spawned "spawn_poll list"

text \<open>The line of \<open>stderr\<close> that counts as the handshake, and the tail of lines kept.\<close>

definition ready_line :: "string \<Rightarrow> bool" where
  "ready_line line \<longleftrightarrow> py_contains (py_lower line) ''ready''"

definition keep_stderr :: "string list \<Rightarrow> string \<Rightarrow> string list" where
  "keep_stderr kept line =
     (let kept1 = kept @ [line] in if length kept1 > 200 then drop 100 kept1 else kept1)"

text \<open>What the server does with processes, in order.\<close>

datatype proc_event = Spawn nat | StopProc nat | SleepFor nat

text \<open>\<open>start\<close> with its attempts; \<open>stop\<close> does nothing when no process was created.\<close>

fun start_from :: "nat \<Rightarrow> nat \<Rightarrow> (nat \<Rightarrow> attempt_outcome) \<Rightarrow> proc_event list \<times> worker_error option" where
  "start_from k 0 outcome = ([], Some StartFailed)"
| "start_from k (Suc left) outcome =
     (let pause = (if left = 0 then [] else [SleepFor (2 * k)])
      in case outcome k of
           CannotSpawn \<Rightarrow>
             (case start_from (Suc k) left outcome of (evs, r) \<Rightarrow> (pause @ evs, r))
         | Spawned polls \<Rightarrow>
             (case await_ready polls of
                None \<Rightarrow> ([Spawn k], None)
              | Some e \<Rightarrow>
                  (case start_from (Suc k) left outcome of
                     (evs, r) \<Rightarrow> (Spawn k # StopProc k # pause @ evs, r))))"

definition start_worker :: "nat \<Rightarrow> (nat \<Rightarrow> attempt_outcome) \<Rightarrow> proc_event list \<times> worker_error option" where
  "start_worker attempts outcome = start_from 1 attempts outcome"

text \<open>Starting tries at most so often, and no process of a failed attempt is left running.\<close>

lemma start_from_bounded:
  "start_from k n outcome = (evs, r) \<Longrightarrow>
     length (filter (\<lambda>e. case e of Spawn i \<Rightarrow> True | _ \<Rightarrow> False) evs) \<le> n \<and>
     (\<forall>i. Spawn i \<in> set evs \<and> StopProc i \<notin> set evs \<longrightarrow> r = None \<and> last evs = Spawn i)"
proof (induction n arbitrary: k evs r)
  case 0
  then show ?case by auto
next
  case (Suc n)
  obtain evs1 r1 where o: "start_from (Suc k) n outcome = (evs1, r1)" by fastforce
  show ?case using Suc.IH [OF o] Suc.prems o
    by (auto simp: Let_def split: attempt_outcome.splits option.splits if_splits)
qed

section \<open>The worker's end of the request line\<close>

text \<open>
  The parser of the worker (\<open>patches/Qwen3-cpp-main.cc\<close>), on bytes.  \<open>strtol\<close> saturates at 64 bits and
  is cast to 32; a count that is not positive becomes 256.
\<close>

fun unescape_request :: "nat list \<Rightarrow> nat list" where
  "unescape_request [] = []"
| "unescape_request [b] = [b]"
| "unescape_request (b # c # s) =
     (if b = 92
        then (if c = 110 then 10 # unescape_request s
              else if c = 116 then 9 # unescape_request s
              else if c = 114 then 13 # unescape_request s
              else if c = 92 then 92 # unescape_request s
              else 92 # c # unescape_request s)
      else b # unescape_request (c # s))"

fun strtol_digits :: "int \<Rightarrow> nat list \<Rightarrow> int" where
  "strtol_digits acc [] = acc"
| "strtol_digits acc (c # s) = (if 48 \<le> c \<and> c \<le> 57 then strtol_digits (10 * acc + int (c - 48)) s else acc)"

definition strtol :: "nat list \<Rightarrow> int" where
  "strtol s =
     (let t = dropWhile (\<lambda>c. c = 32 \<or> (9 \<le> c \<and> c \<le> 13)) s;
          v = (case t of [] \<Rightarrow> 0
               | c # cs \<Rightarrow> (if c = 45 then - strtol_digits 0 cs
                            else if c = 43 then strtol_digits 0 cs
                            else strtol_digits 0 (c # cs)))
      in max (- (2 ^ 63)) (min (2 ^ 63 - 1) v))"

definition int32_of :: "int \<Rightarrow> int" where
  "int32_of v = (v + 2 ^ 31) mod 2 ^ 32 - 2 ^ 31"

definition max_new_of :: "nat list \<Rightarrow> int" where
  "max_new_of s = (let n = int32_of (strtol s) in if n \<le> 0 then 256 else n)"

fun split_tabs :: "nat list \<Rightarrow> nat list list" where
  "split_tabs [] = [[]]"
| "split_tabs (c # s) = (if c = 9 then [] # split_tabs s else (c # hd (split_tabs s)) # tl (split_tabs s))"

fun turn_texts :: "nat list list \<Rightarrow> nat \<Rightarrow> nat list list" where
  "turn_texts (role # txt # fs) (Suc n) = unescape_request txt # turn_texts fs n"
| "turn_texts fs n = []"

record worker_request =
  wq_max_new :: int
  wq_tools :: "nat list"
  wq_texts :: "nat list list"

definition strip_eol :: "nat list \<Rightarrow> nat list" where
  "strip_eol s = rstrip_by (\<lambda>c. c = 13 \<or> c = 10) s"

definition parse_v2 :: "nat list list \<Rightarrow> worker_request" where
  "parse_v2 f =
     (if length f < 4 then \<lparr>wq_max_new = 256, wq_tools = [], wq_texts = []\<rparr>
      else
        (let n = int32_of (strtol (f ! 3))
         in \<lparr>wq_max_new = max_new_of (f ! 0), wq_tools = unescape_request (f ! 2),
             wq_texts = (if 0 < n \<and> int (length f) \<ge> 4 + 2 * n then turn_texts (drop 4 f) (nat n) else [])\<rparr>))"

definition parse_request :: "nat list \<Rightarrow> worker_request" where
  "parse_request line =
     (if prefix (cp_of ''V2'' @ [9]) line then parse_v2 (split_tabs (drop 3 line))
      else
        (case find_sub [9] line of
           None \<Rightarrow> \<lparr>wq_max_new = 256, wq_tools = [], wq_texts = [unescape_request line]\<rparr>
         | Some t \<Rightarrow>
             \<lparr>wq_max_new = max_new_of (take t line), wq_tools = [],
              wq_texts = [unescape_request (drop (t + 1) line)]\<rparr>))"

text \<open>The tool set of the session: only a set that is not empty and differs is registered.\<close>

definition register_tools :: "nat list \<Rightarrow> worker_request \<Rightarrow> nat list" where
  "register_tools last_tools q =
     (if wq_tools q \<noteq> [] \<and> wq_tools q \<noteq> last_tools then wq_tools q else last_tools)"

section \<open>The request line arrives\<close>

fun escape1 :: "nat \<Rightarrow> nat list" where
  "escape1 c = (if c = 92 then [92, 92] else if c = 10 then [92, 110] else if c = 13 then [92, 114]
     else if c = 9 then [92, 116] else [c])"

lemma escape_simps [simp]: "escape [] = []" "escape (c # t) = escape1 c @ escape t"
  by (auto simp: escape_def)

lemma escape_append [simp]: "escape (s @ t) = escape s @ escape t"
  by (induction s) (auto simp del: escape1.simps)

lemma unescape_other: "b \<noteq> 92 \<Longrightarrow> unescape_request (b # s) = b # unescape_request s"
  by (cases s) auto

lemma unescape_escape1: "unescape_request (escape1 c @ s) = c # unescape_request s"
  by (auto simp: unescape_other)

lemma unescape_escape [simp]: "unescape_request (escape t) = t"
  by (induction t) (simp_all add: unescape_escape1 del: escape1.simps)

lemma escape_clean: "c \<in> set (escape t) \<Longrightarrow> c \<noteq> 9 \<and> c \<noteq> 10 \<and> c \<noteq> 13"
  by (induction t) (auto split: if_splits)

lemma escape_plain: "(\<And>c. c \<in> set s \<Longrightarrow> 128 \<le> c) \<Longrightarrow> escape s = s"
  by (induction s) fastforce+

lemma utf8_char_big: "utf8_char c = Some b \<Longrightarrow> 128 \<le> c \<Longrightarrow> x \<in> set b \<Longrightarrow> 128 \<le> x"
  by (auto simp: utf8_char_def split: if_splits)

lemma utf8_char_small: "c < 128 \<Longrightarrow> utf8_char c = Some [c]"
  by (simp add: utf8_char_def scalar_def)

lemma utf8_encode_append:
  "utf8_encode (s @ t) = (case utf8_encode s of None \<Rightarrow> None | Some a \<Rightarrow> map_option ((@) a) (utf8_encode t))"
  by (cases "utf8_encode t"; induction s) (auto split: option.splits)

lemma utf8_encode_ascii: "(\<And>c. c \<in> set t \<Longrightarrow> c < 128) \<Longrightarrow> utf8_encode t = Some t"
  by (induction t) (auto simp: utf8_char_small)

lemma utf8_encode_escape: "utf8_encode t = Some b \<Longrightarrow> utf8_encode (escape t) = Some (escape b)"
proof (induction t arbitrary: b)
  case Nil
  then show ?case by simp
next
  case (Cons c t)
  obtain bc bt where b: "utf8_char c = Some bc" "utf8_encode t = Some bt" "b = bc @ bt"
    using Cons.prems by (auto split: option.splits)
  have "utf8_encode (escape1 c) = Some (escape bc)"
  proof (cases "c < 128")
    case True
    then have "bc = [c]" using b(1) by (simp add: utf8_char_small)
    moreover have "utf8_encode (escape1 c) = Some (escape1 c)" by (rule utf8_encode_ascii) (use True in \<open>auto split: if_splits\<close>)
    ultimately show ?thesis by (simp del: escape1.simps)
  next
    case False
    then have "escape bc = bc" using utf8_char_big [OF b(1)] by (intro escape_plain) auto
    then show ?thesis using False b(1) by simp
  qed
  then show ?case using Cons.IH b by (simp add: utf8_encode_append del: escape1.simps)
qed

lemma digits_are_digits: "c \<in> set (digits n) \<Longrightarrow> 48 \<le> c \<and> c \<le> 57"
  by (induction n rule: digits.induct) (subst (asm) (2) digits.simps, auto split: if_splits)

lemma digits_nonempty [simp]: "digits n \<noteq> []"
  by (subst digits.simps) auto

lemma strtol_digits_append:
  "(\<And>c. c \<in> set s \<Longrightarrow> 48 \<le> c \<and> c \<le> 57) \<Longrightarrow> strtol_digits acc (s @ t) = strtol_digits (strtol_digits acc s) t"
  by (induction s arbitrary: acc) auto

lemma strtol_digits_digits: "strtol_digits 0 (digits n) = int n"
proof (induction n rule: digits.induct)
  case (1 n)
  show ?case
  proof (cases "n < 10")
    case True
    then show ?thesis by (subst digits.simps) simp
  next
    case False
    have "strtol_digits 0 (digits (n div 10) @ [48 + n mod 10]) = 10 * int (n div 10) + int (n mod 10)"
      using 1 [OF False] digits_are_digits by (subst strtol_digits_append) auto
    moreover have "10 * int (n div 10) + int (n mod 10) = int n"
      by (metis mult_div_mod_eq of_nat_add of_nat_mult of_nat_numeral)
    ultimately show ?thesis using False by (subst digits.simps) simp
  qed
qed

lemma strtol_digits_of: "n < 2 ^ 63 \<Longrightarrow> strtol (digits n) = int n"
proof -
  assume n: "n < 2 ^ 63"
  obtain c cs where d: "digits n = c # cs" by (cases "digits n") auto
  then have "48 \<le> c" "c \<le> 57" using digits_are_digits [of c n] by auto
  then show ?thesis using n strtol_digits_digits [of n] by (simp add: strtol_def Let_def d)
qed

lemma max_new_of_decimal: "1 \<le> n \<Longrightarrow> n < 2 ^ 31 \<Longrightarrow> max_new_of (decimal n) = n"
  using strtol_digits_of [of "nat n"] by (simp add: max_new_of_def decimal_def int32_of_def)

lemma decimal_clean: "c \<in> set (decimal n) \<Longrightarrow> c = 45 \<or> (48 \<le> c \<and> c \<le> 57)"
  using digits_are_digits by (fastforce simp: decimal_def split: if_splits)

lemma split_tabs_field: "9 \<notin> set f \<Longrightarrow> split_tabs f = [f]"
  by (induction f) auto

lemma split_tabs_cons: "9 \<notin> set f \<Longrightarrow> split_tabs (f @ 9 # s) = f # split_tabs s"
  by (induction f) auto

lemma no_tab: "9 \<notin> set (decimal n)" "9 \<notin> set (escape t)"
  using decimal_clean [of 9 n] escape_clean [of 9 t] by auto

lemma decimal_not_v2: "\<not> prefix (cp_of ''V2'' @ [9]) (decimal n @ s)"
proof -
  obtain c cs where d: "decimal n = c # cs" by (cases "decimal n") (auto simp: decimal_def split: if_splits)
  then have "c \<noteq> 86" using decimal_clean [of c n] by auto
  then show ?thesis by (simp add: d cp_of_def)
qed

lemma parse_plain: "parse_request (tab_join [decimal n, escape b]) =
    \<lparr>wq_max_new = max_new_of (decimal n), wq_tools = [], wq_texts = [b]\<rparr>"
proof -
  have "find_sub [9] (decimal n @ 9 # escape b) = Some (length (decimal n))"
    using no_tab(1) [of n] by (auto simp: find_sub_Some_iff) (metis nth_mem nth_append prefix_def Cons_nth_drop_Suc append_Cons length_append less_Suc_eq list.inject trans_less_add1)
  then show ?thesis
    using decimal_not_v2 [of n "9 # escape b"] by (simp add: parse_request_def tab_join_def)
qed

lemma parse_with_tools:
  "parse_request (tab_join [cp_of ''V2'', decimal n, cp_of ''0'', escape j, cp_of ''1'', [], escape b]) =
    \<lparr>wq_max_new = max_new_of (decimal n), wq_tools = j, wq_texts = [b]\<rparr>"
proof -
  let ?l = "decimal n @ 9 # cp_of ''0'' @ 9 # escape j @ 9 # cp_of ''1'' @ 9 # [] @ 9 # escape b"
  have l: "tab_join [cp_of ''V2'', decimal n, cp_of ''0'', escape j, cp_of ''1'', [], escape b] = (cp_of ''V2'' @ [9]) @ ?l"
    by (simp add: tab_join_def)
  have c: "9 \<notin> set (cp_of ''0'')" "9 \<notin> set (cp_of ''1'')" by (simp_all add: cp_of_def)
  have "split_tabs ?l = [decimal n, cp_of ''0'', escape j, cp_of ''1'', [], escape b]"
    by (simp add: split_tabs_cons split_tabs_field no_tab c)
  moreover have "int32_of (strtol (cp_of ''1'')) = 1" by (simp add: cp_of_def strtol_def int32_of_def)
  moreover have "drop 3 ((cp_of ''V2'' @ [9]) @ ?l) = ?l" by (simp add: cp_of_def)
  ultimately show ?thesis
    unfolding l by (simp add: parse_request_def parse_v2_def nth_Cons')
qed

lemma utf8_encode_tab_join:
  assumes "list_all2 (\<lambda>f b. utf8_encode f = Some b) fs bs" and "fs \<noteq> []"
  shows "utf8_encode (tab_join fs) = Some (tab_join bs)"
proof -
  have "utf8_encode (concat (map (\<lambda>f. f @ [9]) fs)) = Some (concat (map (\<lambda>f. f @ [9]) bs))"
    if "list_all2 (\<lambda>f b. utf8_encode f = Some b) fs bs" for fs bs
    using that by induction (auto simp: utf8_encode_append utf8_char_small)
  then show ?thesis using assms
    by (cases fs rule: rev_cases)
       (auto simp: tab_join_def utf8_encode_append list_all2_append1 list_all2_Cons1)
qed

lemma no_eol: "10 \<notin> set (decimal n)" "13 \<notin> set (decimal n)" "10 \<notin> set (escape t)" "13 \<notin> set (escape t)"
  using decimal_clean [of 10 n] decimal_clean [of 13 n] escape_clean [of 10 t] escape_clean [of 13 t] by auto

lemma encode_decimal: "utf8_encode (decimal n) = Some (decimal n)"
  by (rule utf8_encode_ascii) (use decimal_clean in fastforce)

lemma strip_eol_id: "10 \<notin> set s \<Longrightarrow> 13 \<notin> set s \<Longrightarrow> strip_eol s = s"
  by (cases s rule: rev_cases) (auto simp: strip_eol_def rstrip_by_def)

lemma tab_join_clean: "c \<noteq> 9 \<Longrightarrow> fs \<noteq> [] \<Longrightarrow> c \<in> set (tab_join fs) \<longleftrightarrow> (\<exists>f\<in>set fs. c \<in> set f)"
proof -
  assume c: "c \<noteq> 9" and "fs \<noteq> []"
  then obtain gs g where "fs = gs @ [g]" by (cases fs rule: rev_cases) auto
  then show ?thesis using c by (auto simp: tab_join_def)
qed

definition line_bytes :: "nat list option \<Rightarrow> int \<Rightarrow> nat list \<Rightarrow> nat list" where
  "line_bytes tools n b =
     (case tools of
        None \<Rightarrow> tab_join [decimal n, escape b]
      | Some j \<Rightarrow> tab_join [cp_of ''V2'', decimal n, cp_of ''0'', escape j, cp_of ''1'', [], escape b])"

lemma request_line_encodes:
  assumes "utf8_encode prompt = Some b" and "rel_option (\<lambda>t j. utf8_encode t = Some j) tools j"
  shows "utf8_encode (request_line tools n prompt) = Some (line_bytes j n b @ [10])"
proof -
  have b: "utf8_encode (escape prompt) = Some (escape b)" by (rule utf8_encode_escape [OF assms(1)])
  show ?thesis
  proof (cases tools)
    case None
    have "utf8_encode (tab_join [decimal n, escape prompt]) = Some (tab_join [decimal n, escape b])"
      by (rule utf8_encode_tab_join) (simp_all add: b encode_decimal)
    then show ?thesis using assms(2)
      by (simp add: None request_line_def line_bytes_def utf8_encode_append utf8_char_small)
  next
    case (Some t)
    then obtain k where k: "j = Some k" "utf8_encode (escape t) = Some (escape k)"
      using assms(2) utf8_encode_escape by (auto simp: option_rel_Some1)
    have a: "utf8_encode (cp_of ''V2'') = Some (cp_of ''V2'')" "utf8_encode (cp_of ''0'') = Some (cp_of ''0'')"
      "utf8_encode (cp_of ''1'') = Some (cp_of ''1'')"
      by (rule utf8_encode_ascii; force simp: cp_of_def)+
    have "utf8_encode (tab_join [cp_of ''V2'', decimal n, cp_of ''0'', escape t, cp_of ''1'', [], escape prompt]) =
        Some (tab_join [cp_of ''V2'', decimal n, cp_of ''0'', escape k, cp_of ''1'', [], escape b])"
      by (rule utf8_encode_tab_join) (simp_all add: b k a encode_decimal)
    then show ?thesis
      by (simp add: Some k request_line_def line_bytes_def utf8_encode_append utf8_char_small)
  qed
qed

lemma line_bytes_clean: "10 \<notin> set (line_bytes j n b)" "13 \<notin> set (line_bytes j n b)"
  by (simp_all add: line_bytes_def tab_join_clean no_eol cp_of_def split: option.split)

lemma parse_line_bytes:
  "parse_request (line_bytes j n b) =
     \<lparr>wq_max_new = max_new_of (decimal n), wq_tools = (case j of None \<Rightarrow> [] | Some k \<Rightarrow> k), wq_texts = [b]\<rparr>"
  by (simp add: line_bytes_def parse_plain parse_with_tools split: option.split)

text \<open>C31: the request line arrives.  For every prompt and tool set that can be encoded and every token
  limit of a positive 32-bit number, the line the server writes has no line feed_piece before its end, and the
  worker's parser gets from it exactly the limit, the tools and the prompt back, whatever
  characters they contain.\<close>

theorem request_line_arrives:
  assumes "1 \<le> n" and "n < 2 ^ 31" and "utf8_encode prompt = Some b"
    and "rel_option (\<lambda>t j. utf8_encode t = Some j) tools j"
  shows "\<exists>line. utf8_encode (request_line tools n prompt) = Some (line @ [10]) \<and> 10 \<notin> set line \<and>
      parse_request (strip_eol line) =
        \<lparr>wq_max_new = n, wq_tools = (case j of None \<Rightarrow> [] | Some k \<Rightarrow> k), wq_texts = [b]\<rparr>"
  using request_line_encodes [OF assms(3,4)] assms(1,2)
  by (intro exI [of _ "line_bytes j n b"])
     (simp add: line_bytes_clean strip_eol_id parse_line_bytes max_new_of_decimal)

lemma request_line_arrives_witness:
  "\<exists>line. utf8_encode (request_line (Some [91, 9, 93]) 96 [92, 110, 10, 20320]) = Some (line @ [10]) \<and> 10 \<notin> set line \<and>
      parse_request (strip_eol line) =
        \<lparr>wq_max_new = 96, wq_tools = [91, 9, 93], wq_texts = [[92, 110, 10, 228, 189, 160]]\<rparr>"
  using request_line_arrives [of 96 "[92, 110, 10, 20320]" "[92, 110, 10, 228, 189, 160]" "Some [91, 9, 93]" "Some [91, 9, 93]"]
  by (simp add: utf8_char_def scalar_def)

text \<open>A request without tools leaves the tools of an earlier one registered.\<close>

lemma tools_outlive_request:
  "register_tools j (parse_request (tab_join [decimal n, escape b])) = j"
  by (simp add: register_tools_def parse_plain)

section \<open>Every request gets its own answer\<close>

text \<open>What the worker writes for one request.\<close>

definition answer_bytes :: "nat list list \<Rightarrow> nat list" where
  "answer_bytes fs = concat (map (\<lambda>f. le_bytes 4 (length f) @ f) fs) @ le_bytes 4 end_of_stream"

lemma le_bytes4: "le_bytes 4 n = [n mod 256, n div 256 mod 256, n div 65536 mod 256, n div 16777216 mod 256]"
proof -
  have "le_bytes (Suc (Suc (Suc (Suc 0)))) n =
      [n mod 256, n div 256 mod 256, n div 65536 mod 256, n div 16777216 mod 256]"
    by (simp add: div_mult2_eq [symmetric])
  moreover have "Suc (Suc (Suc (Suc 0))) = 4" by simp
  ultimately show ?thesis by metis
qed

lemma read_header:
  assumes "[] \<notin> set p" and "concat p = le_bytes 4 n @ rest" and "n < 256 ^ 4"
  shows "\<exists>h p'. read_exact 4 [] p = (Some h, p') \<and> le_number h = n \<and> concat p' = rest \<and> [] \<notin> set p'"
  using read_exact_concat [of p 4 "[]"] assms le_roundtrip [of n 4] by auto

lemma read_body:
  assumes "[] \<notin> set p" and "concat p = b @ rest"
  shows "\<exists>p'. read_exact (length b) [] p = (Some b, p') \<and> concat p' = rest \<and> [] \<notin> set p'"
  using read_exact_concat [of p "length b" "[]"] assms by auto

lemma read_frames_answer:
  assumes "[] \<notin> set p" and "concat p = answer_bytes fs @ rest" and "\<forall>f\<in>set fs. length f \<le> max_frame_bytes"
  shows "\<exists>ts p'. read_frames dec p = (ts, None, p') \<and> concat p' = rest \<and> [] \<notin> set p' \<and> [] \<notin> set ts \<and>
      concat ts = fst (utf8_run dec (concat fs)) @ utf8_final (snd (utf8_run dec (concat fs)))"
  using assms
proof (induction fs arbitrary: dec p)
  case Nil
  have "concat p = le_bytes 4 end_of_stream @ rest" using Nil(2) by (simp add: answer_bytes_def)
  then obtain h p' where r: "read_exact 4 [] p = (Some h, p')" "le_number h = end_of_stream" "concat p' = rest" "[] \<notin> set p'"
    using read_header [OF Nil(1), of end_of_stream rest] by (auto simp: end_of_stream_def)
  have "read_frames dec p = ((if utf8_final dec = [] then [] else [utf8_final dec]), None, p')"
    by (subst read_frames.simps) (simp add: r)
  then show ?case using r by simp
next
  case (Cons f fs)
  have small: "length f \<le> max_frame_bytes" using Cons.prems(3) by simp
  have "concat p = le_bytes 4 (length f) @ (f @ answer_bytes fs @ rest)" using Cons.prems(2) by (simp add: answer_bytes_def)
  then obtain h p1 where h: "read_exact 4 [] p = (Some h, p1)" "le_number h = length f"
      "concat p1 = f @ answer_bytes fs @ rest" "[] \<notin> set p1"
    using read_header [OF Cons.prems(1), of "length f" "f @ answer_bytes fs @ rest"] small
    by (auto simp: max_frame_bytes_def)
  obtain p2 where b: "read_exact (length f) [] p1 = (Some f, p2)" "concat p2 = answer_bytes fs @ rest" "[] \<notin> set p2"
    using read_body [OF h(4,3)] by auto
  obtain o1 d1 where u: "utf8_run dec f = (o1, d1)" by fastforce
  obtain ts p' where i: "read_frames d1 p2 = (ts, None, p')" "concat p' = rest" "[] \<notin> set p'" "[] \<notin> set ts"
      "concat ts = fst (utf8_run d1 (concat fs)) @ utf8_final (snd (utf8_run d1 (concat fs)))"
    using Cons.IH [where dec = d1, OF b(3,2)] Cons.prems(3) by auto
  have "length f \<noteq> end_of_stream" using small by (simp add: max_frame_bytes_def end_of_stream_def)
  then have "read_frames dec p = ((if o1 = [] then ts else o1 # ts), None, p')"
    using small by (subst read_frames.simps) (simp add: h b u i)
  then show ?case using i u by (auto simp: utf8_run_append split: prod.splits)
qed

text \<open>Requests one after another, in the order in which they get the lock.\<close>

fun run_requests ::
    "(cptext option \<times> int \<times> cptext) list \<Rightarrow> rk_worker \<Rightarrow> piece_item list list \<times> rk_worker" where
  "run_requests [] w = ([], w)"
| "run_requests ((tools, n, prompt) # rs) w =
     (case run_request tools n prompt w of
        (q, w1) \<Rightarrow> case run_requests rs w1 of (qs, w2) \<Rightarrow> (q # qs, w2))"

definition encodable :: "cptext option \<times> int \<times> cptext \<Rightarrow> bool" where
  "encodable r = (case r of (tools, n, prompt) \<Rightarrow> utf8_encode (request_line tools n prompt) \<noteq> None)"

text \<open>The text \<open>t\<close>, in frames cut anywhere, also within a character.\<close>

definition framed :: "cptext \<Rightarrow> nat list list \<Rightarrow> bool" where
  "framed t fs \<longleftrightarrow> utf8_encode t = Some (concat fs) \<and> (\<forall>f\<in>set fs. length f \<le> max_frame_bytes)"

definition delivers :: "piece_item list \<Rightarrow> cptext \<Rightarrow> bool" where
  "delivers q t \<longleftrightarrow> (\<exists>ts. q = map PText ts @ [PDone] \<and> concat ts = t \<and> [] \<notin> set ts)"

lemma run_request_answer:
  assumes w: "is_ready w" "rk_stdin_ok w" and p: "[] \<notin> set (rk_stdout w)"
    and out: "concat (rk_stdout w) = answer_bytes fs @ rest" and t: "framed t fs" and e: "encodable (tools, n, prompt)"
  shows "\<exists>q w'. run_request tools n prompt w = (q, w') \<and> delivers q t \<and> concat (rk_stdout w') = rest \<and>
      [] \<notin> set (rk_stdout w') \<and> is_ready w' \<and> rk_stdin_ok w'"
proof -
  obtain line where l: "utf8_encode (request_line tools n prompt) = Some line" using e by (auto simp: encodable_def)
  obtain ts p' where r: "read_frames Idle (rk_stdout w) = (ts, None, p')" "concat p' = rest" "[] \<notin> set p'" "[] \<notin> set ts"
      "concat ts = fst (utf8_run Idle (concat fs)) @ utf8_final (snd (utf8_run Idle (concat fs)))"
    using read_frames_answer [where dec = Idle, OF p out] t by (auto simp: framed_def)
  have "concat ts = t" using r(5) utf8_run_encoded [of t "concat fs"] t by (simp add: framed_def utf8_final_def)
  then show ?thesis using w l r by (auto simp: run_request_def delivers_def is_ready_def)
qed

text \<open>C32: every request gets its own answer.  If the worker answers each request with frames of the
  UTF-8 form of a text, cut anywhere (also inside a character) and followed by the end mark, and the
  pipe hands these bytes over in any segments, then each queue holds exactly the text of its own
  request and ends with one end marker; nothing is left over for the next request.  A client that goes
  away changes nothing, because reading does not depend on it.\<close>

theorem requests_get_their_answers:
  assumes "is_ready w" and "rk_stdin_ok w" and "[] \<notin> set (rk_stdout w)"
    and "list_all2 framed texts answers" and "concat (rk_stdout w) = concat (map answer_bytes answers)"
    and "list_all encodable reqs" and "length reqs = length answers"
  shows "list_all2 delivers (fst (run_requests reqs w)) texts \<and> concat (rk_stdout (snd (run_requests reqs w))) = []"
  using assms
proof (induction reqs arbitrary: w texts answers)
  case Nil
  then show ?case by auto
next
  case (Cons r reqs)
  obtain tools n prompt where r: "r = (tools, n, prompt)" by (cases r) auto
  obtain fs as t ts where a: "answers = fs # as" "texts = t # ts" "framed t fs" "list_all2 framed ts as" "length reqs = length as"
    using Cons.prems(4,7) by (cases answers) (auto simp: list_all2_Cons2)
  have out: "concat (rk_stdout w) = answer_bytes fs @ concat (map answer_bytes as)" using Cons.prems(5) a(1) by simp
  have e: "encodable (tools, n, prompt)" "list_all encodable reqs" using Cons.prems(6) r by simp_all
  obtain q w' where q: "run_request tools n prompt w = (q, w')" "delivers q t" "concat (rk_stdout w') = concat (map answer_bytes as)"
      "[] \<notin> set (rk_stdout w')" "is_ready w'" "rk_stdin_ok w'"
    using run_request_answer [OF Cons.prems(1-3) out a(3) e(1)] by auto
  show ?case using Cons.IH [OF q(5,6,4) a(4) q(3) e(2) a(5)] q(1,2) r a(2) by (auto split: prod.splits)
qed

lemma requests_get_their_answers_witness:
  "let w = \<lparr>rk_running = True, rk_ready = True, rk_stdin_ok = True, rk_stdin = [],
            rk_stdout = [[1, 0, 0, 0, 195], [2, 0], [0, 0, 169, 33, 254, 255, 255], [255, 254, 255, 255, 255]]\<rparr>
   in list_all2 delivers (fst (run_requests [(None, 5, [97]), (None, 5, [98])] w)) [[233, 33], []] \<and>
      concat (rk_stdout (snd (run_requests [(None, 5, [97]), (None, 5, [98])] w))) = []"
proof -
  have d: "digits 5 = [53]" by (subst digits.simps) simp
  have a: "answer_bytes [[195], [169, 33]] = [1, 0, 0, 0, 195, 2, 0, 0, 0, 169, 33, 254, 255, 255, 255]"
    "answer_bytes [] = [254, 255, 255, 255]"
    by (simp_all add: answer_bytes_def le_bytes4 end_of_stream_def)
  have f: "framed [233, 33] [[195], [169, 33]]" "framed [] []"
    by (simp_all add: framed_def utf8_char_def scalar_def max_frame_bytes_def)
  have e: "encodable (None, 5, [97])" "encodable (None, 5, [98])"
    by (simp_all add: encodable_def request_line_def tab_join_def decimal_def d utf8_char_small)
  show ?thesis unfolding Let_def
    by (rule requests_get_their_answers [of _ _ "[[[195], [169, 33]], []]"])
       (simp_all add: is_ready_def a f e)
qed

text \<open>After a length that cannot be, the request fails where it stands, and the next one reads on in the
  middle of the stream: nothing restarts the worker, and it still counts as ready.\<close>

lemma desync_is_not_repaired:
  assumes "read_frames Idle (rk_stdout w) = (ts, Some (FrameTooLong len), p)" and "is_ready w" "rk_stdin_ok w"
    and "encodable (tools, n, prompt)"
  shows "rk_stdout (snd (run_request tools n prompt w)) = p \<and> is_ready (snd (run_request tools n prompt w))"
  using assms by (auto simp: run_request_def encodable_def is_ready_def)

section \<open>Tool calls in the text\<close>

definition tool_open :: cptext where
  "tool_open = cp_of ''<tool_call>''"

definition tool_close :: cptext where
  "tool_close = cp_of ''</tool_call>''"

text \<open>\<open>_partial_tail\<close>: the longest proper prefix of the sentinel that ends the text.\<close>

definition tail_lengths :: "cptext \<Rightarrow> cptext \<Rightarrow> nat list" where
  "tail_lengths t s = filter (\<lambda>k. py_endswith t (take k s)) (rev [1..<Suc (min (length s - 1) (length t))])"

definition partial_tail :: "cptext \<Rightarrow> cptext \<Rightarrow> nat" where
  "partial_tail t sentinel = (case tail_lengths t sentinel of [] \<Rightarrow> 0 | k # ks \<Rightarrow> k)"

record splitter =
  sp_buf :: cptext
  sp_in_call :: bool
  sp_bodies :: "cptext list"
  sp_truncated :: bool

definition new_splitter :: splitter where
  "new_splitter = \<lparr>sp_buf = [], sp_in_call = False, sp_bodies = [], sp_truncated = False\<rparr>"

text \<open>The loop of \<open>feed\<close> on the buffer: each round removes a sentinel.\<close>

function split_loop :: "splitter \<Rightarrow> cptext \<times> splitter" where
  "split_loop s =
     (if sp_in_call s
        then (case find_sub tool_close (sp_buf s) of
                None \<Rightarrow> ([], s)
              | Some e \<Rightarrow>
                  split_loop (s\<lparr>sp_bodies := sp_bodies s @ [take e (sp_buf s)],
                                sp_buf := drop (e + length tool_close) (sp_buf s), sp_in_call := False\<rparr>))
      else
        (case find_sub tool_open (sp_buf s) of
           Some b \<Rightarrow>
             (case split_loop (s\<lparr>sp_buf := drop (b + length tool_open) (sp_buf s), sp_in_call := True\<rparr>) of
                (out, s1) \<Rightarrow> (take b (sp_buf s) @ out, s1))
         | None \<Rightarrow>
             (let hold = partial_tail (sp_buf s) tool_open; k = length (sp_buf s) - hold
              in if hold \<noteq> 0 then (take k (sp_buf s), s\<lparr>sp_buf := drop k (sp_buf s)\<rparr>)
                 else (sp_buf s, s\<lparr>sp_buf := []\<rparr>))))"
  by auto
termination
  by (relation "measure (\<lambda>s. length (sp_buf s))")
     (auto dest!: find_sub_end simp: tool_open_def tool_close_def cp_of_def)

declare split_loop.simps [simp del]

definition feed_piece :: "cptext \<Rightarrow> splitter \<Rightarrow> cptext \<times> splitter" where
  "feed_piece piece s = split_loop (s\<lparr>sp_buf := sp_buf s @ piece\<rparr>)"

definition flush :: "splitter \<Rightarrow> cptext \<times> splitter" where
  "flush s =
     (if sp_in_call s then ([], s\<lparr>sp_buf := [], sp_truncated := True\<rparr>)
      else (sp_buf s, s\<lparr>sp_buf := []\<rparr>))"

subsection \<open>The pieces do not matter\<close>

lemma tail_lengths_iff:
  "k \<in> set (tail_lengths t s) \<longleftrightarrow> 1 \<le> k \<and> k < length s \<and> k \<le> length t \<and> py_endswith t (take k s)"
  by (auto simp: tail_lengths_def simp del: upt_Suc)

lemma partial_tail_le: "partial_tail t s \<le> length t"
proof (cases "tail_lengths t s")
  case (Cons k ks)
  then have "k \<le> length t" using tail_lengths_iff [of k t s] by (metis list.set_intros(1))
  then show ?thesis using Cons by (simp add: partial_tail_def)
qed (simp add: partial_tail_def)

text \<open>A position of the text after which a proper prefix of the sentinel fits to the end.\<close>

definition begins_at :: "cptext \<Rightarrow> cptext \<Rightarrow> nat \<Rightarrow> bool" where
  "begins_at s t i \<longleftrightarrow> i < length t \<and> length t - i < length s \<and> prefix (drop i t) s"

lemma begins_at_iff:
  "i \<le> length t \<Longrightarrow> begins_at s t i \<longleftrightarrow> length t - i \<in> set (tail_lengths t s)"
proof -
  assume i: "i \<le> length t"
  have "prefix (drop i t) s \<longleftrightarrow> py_endswith t (take (length t - i) s)" if "length t - i < length s"
  proof -
    have "prefix (drop i t) s \<longleftrightarrow> drop i t = take (length t - i) s"
      using startswith_iff_prefix [of s "drop i t"] by (auto simp: py_startswith_def)
    then show ?thesis using that i by (simp add: py_endswith_def)
  qed
  then show ?thesis using i by (auto simp: begins_at_def tail_lengths_iff)
qed

lemma partial_tail_first:
  assumes "j < length t - partial_tail t s"
  shows "\<not> begins_at s t j"
proof
  assume b: "begins_at s t j"
  have m: "length t - j \<in> set (tail_lengths t s)" using b begins_at_iff [of j t s] by (auto simp: begins_at_def)
  obtain k ks where k: "tail_lengths t s = k # ks" using m by (cases "tail_lengths t s") auto
  have "sorted_wrt (>) (tail_lengths t s)"
    unfolding tail_lengths_def by (rule sorted_wrt_filter) (simp add: sorted_wrt_rev del: upt_Suc)
  then have "length t - j \<le> k" using m by (auto simp: k)
  then show False using assms by (simp add: partial_tail_def k)
qed

lemma partial_tail_Max: "partial_tail t s = Max (insert 0 (set (tail_lengths t s)))"
proof (cases "tail_lengths t s")
  case Nil
  then show ?thesis by (simp add: partial_tail_def)
next
  case (Cons k ks)
  have "sorted_wrt (>) (tail_lengths t s)"
    unfolding tail_lengths_def by (rule sorted_wrt_filter) (simp add: sorted_wrt_rev del: upt_Suc)
  then have "Max (insert 0 (set (tail_lengths t s))) = k"
    by (intro Max_eqI) (auto simp: Cons)
  then show ?thesis by (simp add: partial_tail_def Cons)
qed

lemma held_back:
  assumes "find_sub s t = None" and "j < length t - partial_tail t s"
  shows "\<not> prefix s (drop j t @ b)"
proof
  assume p: "prefix s (drop j t @ b)"
  show False
  proof (cases "length s \<le> length (drop j t)")
    case True
    then have "prefix s (drop j t)" using p prefix_of_append by blast
    then show False using assms by (auto simp: find_sub_None_iff)
  next
    case False
    then have "prefix (drop j t) s" using p by (meson nat_le_linear prefixI prefix_length_prefix)
    then have "begins_at s t j" using False assms(2) by (auto simp: begins_at_def)
    then show False using partial_tail_first assms(2) by blast
  qed
qed

lemma held_back_tail:
  assumes "k = length t - partial_tail t s"
  shows "partial_tail (t @ b) s = partial_tail (drop k t @ b) s"
proof -
  have tb: "t @ b = take k t @ (drop k t @ b)" by (simp flip: append_assoc)
  have "n \<in> set (tail_lengths (t @ b) s) \<longleftrightarrow> n \<in> set (tail_lengths (drop k t @ b) s)" for n
  proof -
    have "n \<le> length (drop k t @ b)" if n: "n \<in> set (tail_lengths (t @ b) s)"
    proof (rule ccontr)
      assume far: "\<not> n \<le> length (drop k t @ b)"
      define i where "i = length (t @ b) - n"
      have n': "n \<le> length (t @ b)" using n by (simp add: tail_lengths_iff)
      then have i: "i < k" "n = length (t @ b) - i" using far by (auto simp: i_def)
      have k: "k \<le> length t" using assms by simp
      have "length (t @ b) - i = n" using n' by (simp add: i_def)
      then have a: "begins_at s (t @ b) i" using begins_at_iff [of i "t @ b" s] n by (simp add: i_def)
      then have "prefix (drop i t) s" using i(1) k append_prefixD [of "drop i t" "drop (i - length t) b" s]
        by (simp add: begins_at_def)
      moreover have "length t - i < length s" using a by (auto simp: begins_at_def)
      ultimately have "begins_at s t i" using i(1) k by (simp add: begins_at_def)
      then show False using partial_tail_first [of i t s] i(1) assms by simp
    qed
    moreover have "suffix p (t @ b) \<longleftrightarrow> suffix p (drop k t @ b)" if "length p \<le> length (drop k t @ b)" for p
      using that by (subst tb) (metis suffix_append suffix_appendI suffix_length_suffix suffix_order.refl)
    ultimately show ?thesis by (auto simp: tail_lengths_iff endswith_iff_suffix)
  qed
  then have "set (tail_lengths (t @ b) s) = set (tail_lengths (drop k t @ b) s)" by auto
  then show ?thesis by (simp add: partial_tail_Max)
qed

lemma split_loop_stuck:
  assumes "\<not> sp_in_call s" and "find_sub tool_open (sp_buf s) = None"
  shows "split_loop s = (take (length (sp_buf s) - partial_tail (sp_buf s) tool_open) (sp_buf s),
      s\<lparr>sp_buf := drop (length (sp_buf s) - partial_tail (sp_buf s) tool_open) (sp_buf s)\<rparr>)"
  using assms by (subst split_loop.simps) (simp add: Let_def)

lemma split_loop_skip:
  assumes c: "\<not> sp_in_call s" and u: "\<And>j. j < length u \<Longrightarrow> \<not> prefix tool_open (drop j (u @ t))"
    and h: "partial_tail (u @ t) tool_open = partial_tail t tool_open"
  shows "split_loop (s\<lparr>sp_buf := u @ t\<rparr>) = (u @ fst (split_loop (s\<lparr>sp_buf := t\<rparr>)), snd (split_loop (s\<lparr>sp_buf := t\<rparr>)))"
proof -
  have f: "find_sub tool_open (u @ t) = map_option ((+) (length u)) (find_sub tool_open t)"
    by (rule find_sub_skip [OF u])
  show ?thesis
  proof (cases "find_sub tool_open t")
    case None
    then show ?thesis using c f h partial_tail_le [of t tool_open] by (simp add: split_loop_stuck)
  next
    case (Some b)
    then show ?thesis using c f
      by (subst (1 2 3) split_loop.simps) (simp split: prod.split)
  qed
qed

lemma split_loop_append:
  "split_loop s = (o1, s1) \<Longrightarrow>
     split_loop (s\<lparr>sp_buf := sp_buf s @ b\<rparr>) =
       (o1 @ fst (split_loop (s1\<lparr>sp_buf := sp_buf s1 @ b\<rparr>)), snd (split_loop (s1\<lparr>sp_buf := sp_buf s1 @ b\<rparr>)))"
proof (induction s arbitrary: o1 s1 rule: split_loop.induct)
  case (1 s)
  show ?case
  proof (cases "sp_in_call s")
    case True
    show ?thesis
    proof (cases "find_sub tool_close (sp_buf s)")
      case None
      then have "split_loop s = ([], s)" using True by (subst split_loop.simps) simp
      then show ?thesis using 1(3) by simp
    next
      case (Some e)
      let ?s = "s\<lparr>sp_bodies := sp_bodies s @ [take e (sp_buf s)], sp_buf := drop (e + length tool_close) (sp_buf s), sp_in_call := False\<rparr>"
      have l: "split_loop s = split_loop ?s" using True Some by (subst split_loop.simps) simp
      have f: "find_sub tool_close (sp_buf s @ b) = Some e" by (rule find_sub_append [OF Some])
      have "split_loop (s\<lparr>sp_buf := sp_buf s @ b\<rparr>) = split_loop (?s\<lparr>sp_buf := sp_buf ?s @ b\<rparr>)"
        using True f find_sub_end [OF Some] by (subst split_loop.simps) (cases s, simp)
      then show ?thesis using 1(1) [OF True Some] 1(3) l by simp
    qed
  next
    case False
    show ?thesis
    proof (cases "find_sub tool_open (sp_buf s)")
      case (Some e)
      let ?s = "s\<lparr>sp_buf := drop (e + length tool_open) (sp_buf s), sp_in_call := True\<rparr>"
      obtain o2 s2 where o: "split_loop ?s = (o2, s2)" by fastforce
      have l: "split_loop s = (take e (sp_buf s) @ o2, s2)" using False Some o by (subst split_loop.simps) simp
      have f: "find_sub tool_open (sp_buf s @ b) = Some e" by (rule find_sub_append [OF Some])
      have "split_loop (s\<lparr>sp_buf := sp_buf s @ b\<rparr>) =
          (take e (sp_buf s) @ fst (split_loop (?s\<lparr>sp_buf := sp_buf ?s @ b\<rparr>)), snd (split_loop (?s\<lparr>sp_buf := sp_buf ?s @ b\<rparr>)))"
        using False f find_sub_end [OF Some] by (subst split_loop.simps) (cases s, simp split: prod.split)
      then show ?thesis using 1(2) [OF False Some o] 1(3) l by simp
    next
      case None
      define k where "k = length (sp_buf s) - partial_tail (sp_buf s) tool_open"
      have l: "o1 = take k (sp_buf s)" "s1 = s\<lparr>sp_buf := drop k (sp_buf s)\<rparr>"
        using 1(3) split_loop_stuck [OF False None] by (simp_all add: k_def)
      have tb: "sp_buf s @ b = take k (sp_buf s) @ (drop k (sp_buf s) @ b)" by (simp flip: append_assoc)
      have "split_loop (s\<lparr>sp_buf := take k (sp_buf s) @ (drop k (sp_buf s) @ b)\<rparr>) =
          (take k (sp_buf s) @ fst (split_loop (s\<lparr>sp_buf := drop k (sp_buf s) @ b\<rparr>)), snd (split_loop (s\<lparr>sp_buf := drop k (sp_buf s) @ b\<rparr>)))"
      proof (rule split_loop_skip [OF False])
        fix j assume "j < length (take k (sp_buf s))"
        then have "j < k" "j < length (sp_buf s)" by simp_all
        then show "\<not> prefix tool_open (drop j (take k (sp_buf s) @ drop k (sp_buf s) @ b))"
          using held_back [OF None, of j b] unfolding tb [symmetric] by (simp add: k_def)
      next
        show "partial_tail (take k (sp_buf s) @ drop k (sp_buf s) @ b) tool_open = partial_tail (drop k (sp_buf s) @ b) tool_open"
          using held_back_tail [OF k_def, of b] unfolding tb .
      qed
      then show ?thesis by (simp add: l tb)
    qed
  qed
qed

lemma split_loop_again: "split_loop s = (out, s1) \<Longrightarrow> split_loop s1 = ([], s1)"
  using split_loop_append [of s out s1 "[]"] by (auto simp: prod_eq_iff)

lemma feed_piece_append:
  "feed_piece (a @ b) s = (fst (feed_piece a s) @ fst (feed_piece b (snd (feed_piece a s))), snd (feed_piece b (snd (feed_piece a s))))"
  using split_loop_append [of "s\<lparr>sp_buf := sp_buf s @ a\<rparr>" "fst (feed_piece a s)" "snd (feed_piece a s)" b]
  by (simp add: feed_piece_def)

definition settled :: "splitter \<Rightarrow> bool" where
  "settled s \<longleftrightarrow> feed_piece [] s = ([], s)"

lemma settled_feed: "settled (snd (feed_piece a s))"
  using split_loop_again [of "s\<lparr>sp_buf := sp_buf s @ a\<rparr>" "fst (feed_piece a s)" "snd (feed_piece a s)"]
  by (simp add: feed_piece_def settled_def)

lemma settled_new: "settled new_splitter"
  by (simp add: settled_def feed_piece_def new_splitter_def split_loop_stuck tool_open_def cp_of_def)

section \<open>Tool calls as the client gets them\<close>

record rk_lib =
  lb_loads :: "cptext \<Rightarrow> json option"
  lb_dumps :: "json \<Rightarrow> string"
  lb_repr :: "json \<Rightarrow> string"
  lb_uuid :: "nat \<Rightarrow> string"

record rk_call =
  rc_index :: nat
  rc_id :: string
  rc_name :: json
  rc_arguments :: string

text \<open>A body that is JSON but not an object has no \<open>get\<close>: the \<open>AttributeError\<close> is not caught.\<close>

fun to_openai_tool_calls :: "rk_lib \<Rightarrow> cptext list \<Rightarrow> rk_call list \<Rightarrow> py_error + rk_call list" where
  "to_openai_tool_calls L [] calls = Inr calls"
| "to_openai_tool_calls L (body # bodies) calls =
     (case lb_loads L (cp_strip body) of
        None \<Rightarrow> to_openai_tool_calls L bodies calls
      | Some (JObj d) \<Rightarrow>
          (let nm = jget ''name'' d; args = jget ''arguments'' d
           in if \<not> json_truthy nm then to_openai_tool_calls L bodies calls
              else to_openai_tool_calls L bodies
                (calls @ [\<lparr>rc_index = length calls, rc_id = ''call_'' @ take 20 (lb_uuid L (length calls)), rc_name = nm,
                  rc_arguments = (case args of JStr a \<Rightarrow> a | JNull \<Rightarrow> lb_dumps L (JObj []) | _ \<Rightarrow> lb_dumps L args)\<rparr>]))
      | Some _ \<Rightarrow> Inl AttributeError)"

section \<open>The prompt\<close>

datatype prompt_error = BadRequest string | PromptRaised py_error

definition join_with :: "'a list \<Rightarrow> 'a list list \<Rightarrow> 'a list" where
  "join_with sep xs = (case xs of [] \<Rightarrow> [] | y # ys \<Rightarrow> y @ concat (map (\<lambda>z. sep @ z) ys))"

definition content_of :: "rk_lib \<Rightarrow> jdict \<Rightarrow> string" where
  "content_of L m = json_str (lb_repr L) (jor (jget ''content'' m) (JStr []))"

fun json_iter :: "json \<Rightarrow> py_error + json list" where
  "json_iter (JArr xs) = Inr xs"
| "json_iter (JObj d) = Inr (map (JStr \<circ> fst) d)"
| "json_iter (JStr s) = Inr (map (\<lambda>c. JStr [c]) s)"
| "json_iter _ = Inl TypeError"

text \<open>One earlier tool call, as the model wrote it; \<open>get\<close> on anything but an object raises.\<close>

definition tool_block :: "rk_lib \<Rightarrow> json \<Rightarrow> py_error + string" where
  "tool_block L tc =
     (case tc of
        JObj d \<Rightarrow>
          (case jor (jget ''function'' d) (JObj []) of
             JObj f \<Rightarrow>
               Inr (''<tool_call>'' @ [CHR 0x0A] @
                    lb_dumps L (JObj [(''name'', jget ''name'' f), (''arguments'', jget ''arguments'' f)]) @
                    [CHR 0x0A] @ ''</tool_call>'')
           | _ \<Rightarrow> Inl AttributeError)
      | _ \<Rightarrow> Inl AttributeError)"

fun tool_blocks :: "rk_lib \<Rightarrow> json list \<Rightarrow> py_error + string list" where
  "tool_blocks L [] = Inr []"
| "tool_blocks L (tc # tcs) =
     (case tool_block L tc of Inl e \<Rightarrow> Inl e
      | Inr b \<Rightarrow> (case tool_blocks L tcs of Inl e \<Rightarrow> Inl e | Inr bs \<Rightarrow> Inr (b # bs)))"

definition render_turn :: "rk_lib \<Rightarrow> jdict \<Rightarrow> py_error + string" where
  "render_turn L m =
     (let content = py_strip (content_of L m); role = jget ''role'' m
      in if role = JStr ''tool''
           then Inr (''Tool: <tool_response>'' @ [CHR 0x0A] @ content @ [CHR 0x0A] @ ''</tool_response>'')
         else if role = JStr ''assistant''
           then (case json_iter (jor (jget ''tool_calls'' m) (JArr [])) of
                   Inl e \<Rightarrow> Inl e
                 | Inr tcs \<Rightarrow>
                     (case tool_blocks L tcs of
                        Inl e \<Rightarrow> Inl e
                      | Inr bs \<Rightarrow> Inr (''Assistant: '' @ py_strip (join_with [CHR 0x0A] (content # bs)))))
         else Inr (''User: '' @ content))"

fun render_turns :: "rk_lib \<Rightarrow> jdict list \<Rightarrow> py_error + string list" where
  "render_turns L [] = Inr []"
| "render_turns L (m # ms) =
     (case render_turn L m of Inl e \<Rightarrow> Inl e
      | Inr p \<Rightarrow> (case render_turns L ms of Inl e \<Rightarrow> Inl e | Inr ps \<Rightarrow> Inr (p # ps)))"

definition is_turn :: "jdict \<Rightarrow> bool" where
  "is_turn m \<longleftrightarrow> jget ''role'' m \<in> {JStr ''user'', JStr ''assistant'', JStr ''tool''}"

definition build_prompt :: "rk_lib \<Rightarrow> jdict list \<Rightarrow> prompt_error + string" where
  "build_prompt L msgs =
     (if msgs = [] then Inl (BadRequest ''messages must not be empty'')
      else
        (let system = filter (\<lambda>m. jget ''role'' m = JStr ''system'') msgs; turns = filter is_turn msgs;
             parts = map (\<lambda>m. py_strip (content_of L m)) system
         in if turns = [] then Inl (BadRequest ''no user/assistant messages'')
            else
              (case (if length turns = 1 \<and> jget ''role'' (hd turns) = JStr ''user''
                       then Inr [content_of L (hd turns)]
                     else
                       (case render_turns L (butlast turns) of
                          Inl e \<Rightarrow> Inl e
                        | Inr ps \<Rightarrow>
                            (if jget ''role'' (last turns) = JStr ''user'' then Inr (ps @ [content_of L (last turns)])
                             else (case render_turn L (last turns) of Inl e \<Rightarrow> Inl e | Inr p \<Rightarrow> Inr (ps @ [p]))))) of
                 Inl e \<Rightarrow> Inl (PromptRaised e)
               | Inr ps \<Rightarrow> Inr (join_with [CHR 0x0A, CHR 0x0A] (filter (\<lambda>p. p \<noteq> []) (parts @ ps))))))"

section \<open>Completions\<close>

definition think_open :: cptext where
  "think_open = cp_of ''<think>''"

definition think_close :: cptext where
  "think_close = cp_of ''</think>''"

text \<open>\<open>_THINK_RE.sub("", text)\<close>: \<open><think>.*?</think>\s*\<close> over all lines.\<close>

function strip_think :: "cptext \<Rightarrow> cptext" where
  "strip_think t =
     (case find_sub think_open t of
        None \<Rightarrow> t
      | Some i \<Rightarrow>
          (let rest = drop (i + length think_open) t
           in case find_sub think_close rest of
                None \<Rightarrow> t
              | Some j \<Rightarrow> take i t @ strip_think (cp_lstrip (drop (j + length think_close) rest))))"
  by auto
termination
  by (relation "measure length")
     (auto dest!: find_sub_end simp: think_open_def think_close_def cp_of_def intro: le_less_trans [OF length_lstrip_by])

declare strip_think.simps [simp del]

record chat_request =
  cr_messages :: "jdict list"
  cr_max_tokens :: "int option"
  cr_stream :: "bool option"
  cr_tools :: "jdict list option"

definition has_tools :: "chat_request \<Rightarrow> bool" where
  "has_tools r \<longleftrightarrow> (case cr_tools r of None \<Rightarrow> False | Some ts \<Rightarrow> ts \<noteq> [])"

definition max_new_tokens :: "chat_request \<Rightarrow> int" where
  "max_new_tokens r =
     (let n = (case cr_max_tokens r of None \<Rightarrow> 512 | Some k \<Rightarrow> if k = 0 then 512 else k)
      in if has_tools r \<and> n < tool_min_max_tokens then tool_min_max_tokens else n)"

definition tools_json :: "rk_lib \<Rightarrow> chat_request \<Rightarrow> cptext option" where
  "tools_json L r =
     (if has_tools r then map_option (\<lambda>ts. cp_of (lb_dumps L (JArr (map JObj ts)))) (cr_tools r) else None)"

datatype completion =
    Completion "cptext option" "rk_call list"
  | WorkerFailed worker_error
  | Crashed py_error

definition strip_or_none :: "cptext \<Rightarrow> cptext option" where
  "strip_or_none t = (if cp_strip t = [] then None else Some (cp_strip t))"

text \<open>The plain answer: the whole text, then the splitter on it.\<close>

definition plain_completion :: "rk_lib \<Rightarrow> bool \<Rightarrow> cptext list \<times> worker_error option \<Rightarrow> completion" where
  "plain_completion L tools gen =
     (case gen of
        (pieces, Some e) \<Rightarrow> WorkerFailed e
      | (pieces, None) \<Rightarrow>
          (let t = strip_think (concat pieces)
           in if tools
                then (case feed_piece t new_splitter of
                        (out, sp) \<Rightarrow>
                          (case to_openai_tool_calls L (sp_bodies (snd (flush sp))) [] of
                             Inl e \<Rightarrow> Crashed e
                           | Inr calls \<Rightarrow> Completion (strip_or_none (out @ fst (flush sp))) calls))
              else Completion (strip_or_none t) []))"

datatype sse =
    SseRole
  | SseContent cptext
  | SseError worker_error
  | SseTool rk_call
  | SseFinish bool nat
  | SseDone

fun stream_loop :: "splitter option \<Rightarrow> nat \<Rightarrow> cptext list \<Rightarrow> sse list \<times> splitter option \<times> nat" where
  "stream_loop sp n [] = ([], sp, n)"
| "stream_loop sp n (p # ps) =
     (if p = think_open \<or> p = think_close then stream_loop sp n ps
      else
        (case sp of
           None \<Rightarrow> (case stream_loop None (Suc n) ps of (evs, r) \<Rightarrow> (SseContent p # evs, r))
         | Some s \<Rightarrow>
             (case feed_piece p s of
                (out, s1) \<Rightarrow>
                  (if out = [] then stream_loop (Some s1) (Suc n) ps
                   else (case stream_loop (Some s1) (Suc n) ps of (evs, r) \<Rightarrow> (SseContent out # evs, r))))))"

text \<open>The events of a stream; the second component is an exception that breaks it off.\<close>

definition stream_events :: "rk_lib \<Rightarrow> bool \<Rightarrow> cptext list \<times> worker_error option \<Rightarrow> sse list \<times> py_error option" where
  "stream_events L tools gen =
     (case stream_loop (if tools then Some new_splitter else None) 0 (fst gen) of
        (evs, sp, n) \<Rightarrow>
          (let (tail, sp1) = (case snd gen of
                 Some e \<Rightarrow> ([SseError e], sp)
               | None \<Rightarrow>
                   (case sp of None \<Rightarrow> ([], None)
                    | Some s \<Rightarrow> ((if fst (flush s) = [] then [] else [SseContent (fst (flush s))]), Some (snd (flush s)))))
           in case (case sp1 of None \<Rightarrow> Inr [] | Some s \<Rightarrow> to_openai_tool_calls L (sp_bodies s) []) of
                Inl e \<Rightarrow> (SseRole # evs @ tail, Some e)
              | Inr calls \<Rightarrow>
                  (SseRole # evs @ tail @ map SseTool calls @ [SseFinish (calls \<noteq> []) n, SseDone], None)))"

text \<open>What the queue gives to the consumer when its time limit strikes after \<open>k\<close> items, or never.\<close>

definition observed :: "nat option \<Rightarrow> piece_item list \<Rightarrow> piece_item option list" where
  "observed limit q = (case limit of None \<Rightarrow> map Some q | Some k \<Rightarrow> map Some (take k q) @ [None])"

datatype chat_result =
    NotReady503
  | Bad400 string
  | Failed500 py_error
  | Plain completion
  | Streamed "sse list" "py_error option"

definition chat_completions ::
    "rk_lib \<Rightarrow> chat_request \<Rightarrow> nat option \<Rightarrow> rk_worker \<Rightarrow> chat_result \<times> rk_worker" where
  "chat_completions L r limit w =
     (if \<not> is_ready w then (NotReady503, w)
      else
        (case build_prompt L (cr_messages r) of
           Inl (BadRequest d) \<Rightarrow> (Bad400 d, w)
         | Inl (PromptRaised e) \<Rightarrow> (Failed500 e, w)
         | Inr prompt \<Rightarrow>
             (case run_request (tools_json L r) (max_new_tokens r) (cp_of prompt) w of
                (q, w1) \<Rightarrow>
                  (let gen = generate (observed limit q)
                   in ((if cr_stream r = Some True
                          then (case stream_events L (has_tools r) gen of (evs, crash) \<Rightarrow> Streamed evs crash)
                        else Plain (plain_completion L (has_tools r) gen)), w1)))))"

section \<open>Streamed and plain answers agree\<close>

text \<open>A client that puts a stream together.\<close>

fun contents :: "sse list \<Rightarrow> cptext" where
  "contents [] = []"
| "contents (SseContent t # evs) = t @ contents evs"
| "contents (_ # evs) = contents evs"

fun calls_of :: "sse list \<Rightarrow> rk_call list" where
  "calls_of [] = []"
| "calls_of (SseTool c # evs) = c # calls_of evs"
| "calls_of (_ # evs) = calls_of evs"

definition finished_with :: "sse list \<Rightarrow> rk_call list \<Rightarrow> bool" where
  "finished_with evs calls \<longleftrightarrow> (\<exists>pre n. evs = pre @ [SseFinish (calls \<noteq> []) n, SseDone])"

definition no_think :: "cptext list \<Rightarrow> bool" where
  "no_think pieces \<longleftrightarrow> think_open \<notin> set pieces \<and> think_close \<notin> set pieces \<and> find_sub think_open (concat pieces) = None"

lemma contents_append [simp]: "contents (a @ b) = contents a @ contents b"
  by (induction a rule: contents.induct) auto

lemma calls_of_append [simp]: "calls_of (a @ b) = calls_of a @ calls_of b"
  by (induction a rule: calls_of.induct) auto

lemma contents_tools [simp]: "contents (map SseTool cs) = []" "calls_of (map SseTool cs) = cs"
  by (induction cs) auto

lemma stream_loop_plain:
  assumes "think_open \<notin> set ps" and "think_close \<notin> set ps"
  shows "\<exists>evs m. stream_loop None n ps = (evs, None, m) \<and> contents evs = concat ps \<and> calls_of evs = []"
  using assms
proof (induction ps arbitrary: n)
  case Nil
  then show ?case by simp
next
  case (Cons p ps)
  obtain evs m where "stream_loop None (Suc n) ps = (evs, None, m)" "contents evs = concat ps" "calls_of evs = []"
    using Cons.IH [of "Suc n"] Cons.prems by auto
  moreover have "p \<noteq> think_open" "p \<noteq> think_close" using Cons.prems by auto
  ultimately show ?case by simp
qed

lemma stream_loop_split:
  assumes "think_open \<notin> set ps" and "think_close \<notin> set ps" and "settled s"
  shows "\<exists>evs m. stream_loop (Some s) n ps = (evs, Some (snd (feed_piece (concat ps) s)), m) \<and>
      contents evs = fst (feed_piece (concat ps) s) \<and> calls_of evs = []"
  using assms
proof (induction ps arbitrary: n s)
  case Nil
  then show ?case by (simp add: settled_def)
next
  case (Cons p ps)
  obtain out s1 where f: "feed_piece p s = (out, s1)" by fastforce
  have "settled s1" using settled_feed [of p s] f by simp
  then obtain evs m where e: "stream_loop (Some s1) (Suc n) ps = (evs, Some (snd (feed_piece (concat ps) s1)), m)"
      "contents evs = fst (feed_piece (concat ps) s1)" "calls_of evs = []"
    using Cons.IH [of s1 "Suc n"] Cons.prems by auto
  have "feed_piece (concat (p # ps)) s = (out @ fst (feed_piece (concat ps) s1), snd (feed_piece (concat ps) s1))"
    using feed_piece_append [of p "concat ps" s] f by simp
  moreover have "p \<noteq> think_open" "p \<noteq> think_close" using Cons.prems by auto
  ultimately show ?case using f e by (cases "out = []") simp_all
qed

text \<open>What a client makes of a stream is what the plain answer says.\<close>

definition same_answer :: "sse list \<times> py_error option \<Rightarrow> completion \<Rightarrow> bool" where
  "same_answer st c =
     (case c of
        Completion t calls \<Rightarrow>
          snd st = None \<and> strip_or_none (contents (fst st)) = t \<and> calls_of (fst st) = calls \<and> finished_with (fst st) calls
      | Crashed e \<Rightarrow> snd st = Some e
      | WorkerFailed e \<Rightarrow> SseError e \<in> set (fst st))"

lemma stream_is_plain:
  assumes "no_think pieces"
  shows "same_answer (stream_events L tools (pieces, None)) (plain_completion L tools (pieces, None))"
proof (cases tools)
  case False
  obtain evs m where "stream_loop None 0 pieces = (evs, None, m)" "contents evs = concat pieces" "calls_of evs = []"
    using stream_loop_plain assms unfolding no_think_def by blast
  moreover have "strip_think (concat pieces) = concat pieces"
    using assms by (subst strip_think.simps) (simp add: no_think_def)
  ultimately show ?thesis using False
    by (simp add: stream_events_def plain_completion_def same_answer_def finished_with_def)
next
  case True
  obtain out sp where f: "feed_piece (concat pieces) new_splitter = (out, sp)" by fastforce
  obtain evs m where "stream_loop (Some new_splitter) 0 pieces = (evs, Some sp, m)" "contents evs = out" "calls_of evs = []"
    using stream_loop_split [OF _ _ settled_new, of pieces 0] assms f unfolding no_think_def by auto
  moreover have "strip_think (concat pieces) = concat pieces"
    using assms by (subst strip_think.simps) (simp add: no_think_def)
  ultimately show ?thesis using True f
    by (auto simp: stream_events_def plain_completion_def same_answer_def finished_with_def split: sum.split)
qed


definition demo_lib :: rk_lib where
  "demo_lib = \<lparr>lb_loads = (\<lambda>t. if t = cp_of ''1'' then Some (JInt 1) else Some (JObj [(''name'', JStr ''f'')])),
     lb_dumps = (\<lambda>j. ''{}''), lb_repr = (\<lambda>j. []), lb_uuid = (\<lambda>n. ''0'')\<rparr>"

definition demo_request :: chat_request where
  "demo_request = \<lparr>cr_messages = [[(''role'', JStr ''user''), (''content'', JStr ''hi'')]], cr_max_tokens = Some 96,
     cr_stream = None, cr_tools = Some [[]]\<rparr>"

definition demo_worker :: rk_worker where
  "demo_worker = \<lparr>rk_running = True, rk_ready = True, rk_stdin_ok = True, rk_stdin = [],
     rk_stdout = [answer_bytes [[111], [107]]]\<rparr>"

lemma generate_texts: "generate (observed None (map PText ts @ [PDone])) = (ts, None)"
  by (induction ts) (simp_all add: observed_def)


text \<open>A body that is JSON but no object breaks the stream off, after the content has been sent.\<close>

lemma number_body_breaks_off:
  assumes "think_open \<notin> set pieces" and "think_close \<notin> set pieces"
    and "sp_bodies (snd (feed_piece (concat pieces) new_splitter)) = b # bs" and "lb_loads L (cp_strip b) = Some (JInt k)"
  shows "snd (stream_events L True (pieces, None)) = Some AttributeError \<and>
      SseDone \<notin> set (fst (stream_events L True (pieces, None)))"
proof -
  obtain out sp where f: "feed_piece (concat pieces) new_splitter = (out, sp)" by fastforce
  obtain evs m where e: "stream_loop (Some new_splitter) 0 pieces = (evs, Some sp, m)"
    using stream_loop_split [OF assms(1,2) settled_new, of 0] f by auto
  have "SseDone \<notin> set (fst (stream_loop s n ps))" for s n ps
    by (induction ps arbitrary: s n) (auto simp: case_prod_beta split: option.split)
  then have "SseDone \<notin> set evs" using e by (metis fst_conv)
  then show ?thesis using f e assms(3,4)
    by (auto simp: stream_events_def flush_def)
qed

text \<open>Thinking that arrives in pieces of its own is streamed but removed from the plain answer.\<close>

lemma thinking_is_streamed:
  "contents (fst (stream_events L False ([think_open, [104, 109], think_close, [111, 107]], None))) = [104, 109, 111, 107]"
  "plain_completion L False ([think_open, [104, 109], think_close, [111, 107]], None) = Completion (Some [111, 107]) []"
proof -
  have o: "think_open = [60, 116, 104, 105, 110, 107, 62]" by (simp add: think_open_def cp_of_def)
  have c: "think_close = [60, 47, 116, 104, 105, 110, 107, 62]" by (simp add: think_close_def cp_of_def)
  show "contents (fst (stream_events L False ([think_open, [104, 109], think_close, [111, 107]], None))) = [104, 109, 111, 107]"
    by (simp add: stream_events_def o c)
  have "strip_think [111, 107] = [111, 107]" by (subst strip_think.simps) (simp add: o py_startswith_def)
  then have "strip_think (concat [think_open, [104, 109], think_close, [111, 107]]) = [111, 107]"
    by (subst strip_think.simps) (simp add: o c py_startswith_def lstrip_by_def cp_isspace_def)
  moreover have "strip_or_none [111, 107] = Some [111, 107]"
    by (simp add: strip_or_none_def strip_by_def lstrip_by_def rstrip_by_def cp_isspace_def)
  ultimately show "plain_completion L False ([think_open, [104, 109], think_close, [111, 107]], None) = Completion (Some [111, 107]) []"
    by (simp add: plain_completion_def)
qed

end
