(* ===== verification/Coroutines.thy ===== *)
theory Coroutines
  imports Prelude
begin

text \<open>
  Coroutines of one event loop: a piece of code runs without interruption up to its next await, where
  it is suspended, and goes on when what it awaits has returned or raised.  Between the two, other
  coroutines may have changed the shared state.

  With them a rely-guarantee logic: a contract says what holds whenever a coroutine is suspended (the
  invariant), what others do in the meantime (rely), and what the coroutine does itself (guarantee).  The
  locale \<open>event_loop\<close> composes contracts: in every interleaving the invariant holds between any two
  steps.
\<close>

section \<open>Coroutines\<close>

text \<open>
  What a piece of code ends with: a value, an exception, or an await, which names what is awaited and
  how to go on when it returns (\<open>None\<close>) or raises (\<open>Some e\<close>).
\<close>

datatype ('s, 'o, 'e, 'a) out =
    Ret 'a
  | Exc 'e
  | Susp 'o "'e option \<Rightarrow> 's \<Rightarrow> 's \<times> ('s, 'o, 'e, 'a) out"

type_synonym ('s, 'o, 'e, 'a) co = "'s \<Rightarrow> 's \<times> ('s, 'o, 'e, 'a) out"

definition co_return :: "'a \<Rightarrow> ('s, 'o, 'e, 'a) co" where
  "co_return a = (\<lambda>s. (s, Ret a))"

definition co_raise :: "'e \<Rightarrow> ('s, 'o, 'e, 'a) co" where
  "co_raise e = (\<lambda>s. (s, Exc e))"

definition co_modify :: "('s \<Rightarrow> 's) \<Rightarrow> ('s, 'o, 'e, unit) co" where
  "co_modify f = (\<lambda>s. (f s, Ret ()))"

definition co_await :: "'o \<Rightarrow> ('s, 'o, 'e, unit) co" where
  "co_await op = (\<lambda>s. (s, Susp op (\<lambda>r t. (t, case r of None \<Rightarrow> Ret () | Some e \<Rightarrow> Exc e))))"

primrec out_bind :: "('s, 'o, 'e, 'a) out \<Rightarrow> ('a \<Rightarrow> ('s, 'o, 'e, 'b) co) \<Rightarrow> ('s, 'o, 'e, 'b) co" where
  "out_bind (Ret a) f = f a"
| "out_bind (Exc e) f = (\<lambda>s. (s, Exc e))"
| "out_bind (Susp op k) f =
     (\<lambda>s. (s, Susp op (\<lambda>r t. case map_prod id (\<lambda>x. out_bind x f) (k r t) of (t', g) \<Rightarrow> g t')))"

primrec out_try :: "('s, 'o, 'e, 'a) out \<Rightarrow> ('e \<Rightarrow> ('s, 'o, 'e, 'a) co) \<Rightarrow> ('s, 'o, 'e, 'a) co" where
  "out_try (Ret a) h = (\<lambda>s. (s, Ret a))"
| "out_try (Exc e) h = h e"
| "out_try (Susp op k) h =
     (\<lambda>s. (s, Susp op (\<lambda>r t. case map_prod id (\<lambda>x. out_try x h) (k r t) of (t', g) \<Rightarrow> g t')))"

definition co_bind :: "('s, 'o, 'e, 'a) co \<Rightarrow> ('a \<Rightarrow> ('s, 'o, 'e, 'b) co) \<Rightarrow> ('s, 'o, 'e, 'b) co" where
  "co_bind m f = (\<lambda>s. case m s of (s1, x) \<Rightarrow> out_bind x f s1)"

definition co_then :: "('s, 'o, 'e, 'a) co \<Rightarrow> ('s, 'o, 'e, 'b) co \<Rightarrow> ('s, 'o, 'e, 'b) co" where
  "co_then m n = co_bind m (\<lambda>x. n)"

definition co_try :: "('s, 'o, 'e, 'a) co \<Rightarrow> ('e \<Rightarrow> ('s, 'o, 'e, 'a) co) \<Rightarrow> ('s, 'o, 'e, 'a) co" where
  "co_try m h = (\<lambda>s. case m s of (s1, x) \<Rightarrow> out_try x h s1)"

text \<open>Code that depends on the state it finds.\<close>

definition co_with :: "('s \<Rightarrow> 'x) \<Rightarrow> ('x \<Rightarrow> ('s, 'o, 'e, 'a) co) \<Rightarrow> ('s, 'o, 'e, 'a) co" where
  "co_with f m = (\<lambda>s. m (f s) s)"

definition co_when :: "('s \<Rightarrow> bool) \<Rightarrow> ('s, 'o, 'e, 'a) co \<Rightarrow> ('s, 'o, 'e, 'a) co \<Rightarrow> ('s, 'o, 'e, 'a) co" where
  "co_when b m n = (\<lambda>s. if b s then m s else n s)"

fun co_seq :: "('s, 'o, 'e, unit) co list \<Rightarrow> ('s, 'o, 'e, unit) co" where
  "co_seq [] = co_return ()"
| "co_seq (m # ms) = co_then m (co_seq ms)"

lemmas co_defs = co_return_def co_raise_def co_modify_def co_await_def co_bind_def co_then_def co_try_def
  co_with_def co_when_def

section \<open>Running a coroutine\<close>

text \<open>The same combinators applied to a state, with what goes on after an await under a name.\<close>

named_theorems co_run "how a coroutine runs"

definition goes_on :: "'e option \<Rightarrow> ('s, 'o, 'e, unit) co" where
  "goes_on r t = (t, case r of None \<Rightarrow> Ret () | Some e \<Rightarrow> Exc e)"

definition then_on ::
    "('e option \<Rightarrow> ('s, 'o, 'e, 'a) co) \<Rightarrow> ('a \<Rightarrow> ('s, 'o, 'e, 'b) co) \<Rightarrow> 'e option \<Rightarrow> ('s, 'o, 'e, 'b) co" where
  "then_on k f r t = (case k r t of (t', x) \<Rightarrow> out_bind x f t')"

definition try_on ::
    "('e option \<Rightarrow> ('s, 'o, 'e, 'a) co) \<Rightarrow> ('e \<Rightarrow> ('s, 'o, 'e, 'a) co) \<Rightarrow> 'e option \<Rightarrow> ('s, 'o, 'e, 'a) co" where
  "try_on k h r t = (case k r t of (t', x) \<Rightarrow> out_try x h t')"

lemma run_return [co_run]: "co_return a s = (s, Ret a)"
  by (simp add: co_return_def)

lemma run_raise [co_run]: "co_raise e s = (s, Exc e)"
  by (simp add: co_raise_def)

lemma run_modify [co_run]: "co_modify f s = (f s, Ret ())"
  by (simp add: co_modify_def)

lemma run_await [co_run]: "co_await op s = (s, Susp op goes_on)"
  by (simp add: co_await_def goes_on_def [abs_def])

lemma run_goes_on [co_run]: "goes_on None t = (t, Ret ())" "goes_on (Some e) t = (t, Exc e)"
  by (simp_all add: goes_on_def)

lemma run_out_bind [co_run]:
  "out_bind (Ret a) f s = f a s" "out_bind (Exc e) f s = (s, Exc e)"
  "out_bind (Susp op k) f s = (s, Susp op (then_on k f))"
  by (simp_all add: then_on_def [abs_def] map_prod_def split_def)

lemma run_out_try [co_run]:
  "out_try (Ret a) h s = (s, Ret a)" "out_try (Exc e) h s = h e s"
  "out_try (Susp op k) h s = (s, Susp op (try_on k h))"
  by (simp_all add: try_on_def [abs_def] map_prod_def split_def)

lemma run_bind [co_run]: "co_bind m f s = (case m s of (s1, x) \<Rightarrow> out_bind x f s1)"
  by (simp add: co_bind_def)

lemma run_then [co_run]: "co_then m n s = (case m s of (s1, x) \<Rightarrow> out_bind x (\<lambda>a. n) s1)"
  by (simp add: co_then_def co_bind_def)

lemma run_try [co_run]: "co_try m h s = (case m s of (s1, x) \<Rightarrow> out_try x h s1)"
  by (simp add: co_try_def)

lemma run_when [co_run]: "co_when b m n s = (if b s then m s else n s)"
  by (simp add: co_when_def)

lemma run_with [co_run]: "co_with f m s = m (f s) s"
  by (simp add: co_with_def)

lemma run_seq [co_run]: "co_seq [] s = (s, Ret ())" "co_seq (m # ms) s = (case m s of (s1, x) \<Rightarrow> out_bind x (\<lambda>a. co_seq ms) s1)"
  by (simp_all add: run_return run_then)

section \<open>Contracts\<close>

text \<open>
  \<open>cn_resume op r t\<close> is what is known when an await of \<open>op\<close> goes on with \<open>r\<close> in the state \<open>t\<close>.
\<close>

record ('s, 'o, 'e) contract =
  cn_inv :: "'s \<Rightarrow> bool"
  cn_rely :: "'s \<Rightarrow> 's \<Rightarrow> bool"
  cn_guar :: "'s \<Rightarrow> 's \<Rightarrow> bool"
  cn_resume :: "'o \<Rightarrow> 'e option \<Rightarrow> 's \<Rightarrow> bool"

primrec ok_out ::
    "('s, 'o, 'e) contract \<Rightarrow> ('a \<Rightarrow> 's \<Rightarrow> bool) \<Rightarrow> ('e \<Rightarrow> 's \<Rightarrow> bool) \<Rightarrow> ('s, 'o, 'e, 'a) out \<Rightarrow> 's \<Rightarrow> bool" where
  "ok_out C Q R (Ret a) = Q a"
| "ok_out C Q R (Exc e) = R e"
| "ok_out C Q R (Susp op k) =
     (\<lambda>s. cn_inv C s \<and>
        (\<forall>r t. cn_inv C t \<longrightarrow> cn_rely C s t \<longrightarrow> cn_resume C op r t \<longrightarrow>
           (case map_prod id (ok_out C Q R) (k r t) of (t', P) \<Rightarrow> cn_guar C t t' \<and> P t')))"

definition co_ok ::
    "('s, 'o, 'e) contract \<Rightarrow> ('s \<Rightarrow> bool) \<Rightarrow> ('s, 'o, 'e, 'a) co \<Rightarrow> ('a \<Rightarrow> 's \<Rightarrow> bool) \<Rightarrow> ('e \<Rightarrow> 's \<Rightarrow> bool) \<Rightarrow> bool" where
  "co_ok C P m Q R \<longleftrightarrow>
     (\<forall>s. P s \<longrightarrow> (case m s of (s1, x) \<Rightarrow> cn_guar C s s1 \<and> ok_out C Q R x s1))"

text \<open>The contract of code that starts and ends where the invariant holds.\<close>

definition keeps :: "('s, 'o, 'e) contract \<Rightarrow> ('s, 'o, 'e, 'a) co \<Rightarrow> bool" where
  "keeps C m \<longleftrightarrow> co_ok C (cn_inv C) m (\<lambda>a. cn_inv C) (\<lambda>e. cn_inv C)"

named_theorems co_rules "how programs keep a contract"

lemma ok_out_resume:
  assumes "ok_out C Q R (Susp op k) s" and "cn_inv C t" "cn_rely C s t" "cn_resume C op r t" and "k r t = (t', x')"
  shows "cn_guar C t t' \<and> ok_out C Q R x' t'"
proof -
  have "\<forall>r t. cn_inv C t \<longrightarrow> cn_rely C s t \<longrightarrow> cn_resume C op r t \<longrightarrow>
      (case map_prod id (ok_out C Q R) (k r t) of (t', P) \<Rightarrow> cn_guar C t t' \<and> P t')"
    using assms(1) unfolding ok_out.simps by (rule conjunct2)
  from this [rule_format, OF assms(2-4)] show ?thesis by (simp add: assms(5))
qed

lemma ok_outI:
  assumes "cn_inv C s"
    and "\<And>r t t' x'. cn_inv C t \<Longrightarrow> cn_rely C s t \<Longrightarrow> cn_resume C op r t \<Longrightarrow> k r t = (t', x') \<Longrightarrow>
      cn_guar C t t' \<and> ok_out C Q R x' t'"
  shows "ok_out C Q R (Susp op k) s"
  unfolding ok_out.simps
proof (intro conjI allI impI)
  show "cn_inv C s" by (rule assms(1))
  fix r t assume a: "cn_inv C t" "cn_rely C s t" "cn_resume C op r t"
  obtain t' x' where k: "k r t = (t', x')" by fastforce
  show "case map_prod id (ok_out C Q R) (k r t) of (t', P) \<Rightarrow> cn_guar C t t' \<and> P t'"
    using assms(2) [OF a k] by (simp add: k)
qed

lemma ok_out_inv: "ok_out C Q R (Susp op k) s \<Longrightarrow> cn_inv C s"
  unfolding ok_out.simps by (rule conjunct1)

lemma co_okI:
  "(\<And>s s1 x. P s \<Longrightarrow> m s = (s1, x) \<Longrightarrow> cn_guar C s s1 \<and> ok_out C Q R x s1) \<Longrightarrow> co_ok C P m Q R"
  by (simp add: co_ok_def split: prod.split)

lemma co_okD: "co_ok C P m Q R \<Longrightarrow> P s \<Longrightarrow> m s = (s1, x) \<Longrightarrow> cn_guar C s s1 \<and> ok_out C Q R x s1"
  by (auto simp: co_ok_def)

declare ok_out.simps(3) [simp del]

lemma ok_out_weaken:
  assumes "\<And>a s. Q a s \<Longrightarrow> Q' a s" and "\<And>e s. R e s \<Longrightarrow> R' e s"
  shows "ok_out C Q R x s \<Longrightarrow> ok_out C Q' R' x s"
proof (induction x arbitrary: s)
  case (Susp op k)
  show ?case
  proof (rule ok_outI)
    show "cn_inv C s" by (rule ok_out_inv [OF Susp.prems])
    fix r t t' x' assume a: "cn_inv C t" "cn_rely C s t" "cn_resume C op r t" and k: "k r t = (t', x')"
    have "cn_guar C t t' \<and> ok_out C Q R x' t'" by (rule ok_out_resume [OF Susp.prems a k])
    moreover have "ok_out C Q R x' t' \<Longrightarrow> ok_out C Q' R' x' t'"
      using Susp.IH [of "k r" "k r t" x' t'] rangeI [of "k r" t] k by (simp add: snds.simps)
    ultimately show "cn_guar C t t' \<and> ok_out C Q' R' x' t'" by simp
  qed
qed (use assms in auto)

lemma co_ok_weaken:
  "co_ok C P m Q R \<Longrightarrow> (\<And>s. P' s \<Longrightarrow> P s) \<Longrightarrow> (\<And>a s. Q a s \<Longrightarrow> Q' a s) \<Longrightarrow> (\<And>e s. R e s \<Longrightarrow> R' e s) \<Longrightarrow>
   co_ok C P' m Q' R'"
  by (rule co_okI) (blast dest: co_okD intro: ok_out_weaken)

text \<open>Rely and guarantee are closed under doing nothing and doing one thing after another.\<close>

locale rely_guarantee =
  fixes C :: "('s, 'o, 'e) contract"
  assumes rely_refl: "cn_rely C s s"
    and rely_trans: "cn_rely C s t \<Longrightarrow> cn_rely C t u \<Longrightarrow> cn_rely C s u"
    and guar_refl: "cn_guar C s s"
    and guar_trans: "cn_guar C s t \<Longrightarrow> cn_guar C t u \<Longrightarrow> cn_guar C s u"
begin

lemma ok_return: "(\<And>s. P s \<Longrightarrow> Q a s) \<Longrightarrow> co_ok C P (co_return a) Q R"
  by (simp add: co_ok_def co_return_def guar_refl)

lemma ok_raise: "(\<And>s. P s \<Longrightarrow> R e s) \<Longrightarrow> co_ok C P (co_raise e) Q R"
  by (simp add: co_ok_def co_raise_def guar_refl)

lemma ok_modify: "(\<And>s. P s \<Longrightarrow> cn_guar C s (f s) \<and> Q () (f s)) \<Longrightarrow> co_ok C P (co_modify f) Q R"
  by (simp add: co_ok_def co_modify_def)

lemma ok_await:
  assumes "\<And>s. P s \<Longrightarrow> cn_inv C s"
    and "\<And>s t. P s \<Longrightarrow> cn_inv C t \<Longrightarrow> cn_rely C s t \<Longrightarrow> cn_resume C op None t \<Longrightarrow> Q () t"
    and "\<And>s t e. P s \<Longrightarrow> cn_inv C t \<Longrightarrow> cn_rely C s t \<Longrightarrow> cn_resume C op (Some e) t \<Longrightarrow> R e t"
  shows "co_ok C P (co_await op) Q R"
  by (rule co_okI)
     (auto simp: co_await_def guar_refl intro!: ok_outI split: option.splits dest: assms)

lemma ok_bind_out:
  assumes "\<And>a. co_ok C (S a) (f a) Q R"
  shows "ok_out C S R x s \<Longrightarrow> case out_bind x f s of (s1, y) \<Rightarrow> cn_guar C s s1 \<and> ok_out C Q R y s1"
proof (induction x arbitrary: s)
  case (Ret a)
  then show ?case using assms [of a] by (auto simp: co_ok_def)
next
  case (Exc e)
  then show ?case by (simp add: guar_refl)
next
  case (Susp op k)
  have "case out_bind x' f t' of (s1, y) \<Rightarrow> cn_guar C t s1 \<and> ok_out C Q R y s1"
    if "cn_inv C t" "cn_rely C s t" "cn_resume C op r t" "k r t = (t', x')" for r t t' x'
  proof -
    have o: "cn_guar C t t'" "ok_out C S R x' t'" using ok_out_resume [OF Susp.prems that] by simp_all
    have "case out_bind x' f t' of (s1, y) \<Rightarrow> cn_guar C t' s1 \<and> ok_out C Q R y s1"
      using Susp.IH [of "k r" "k r t" x' t'] rangeI [of "k r" t] that(4) o(2) by (simp add: snds.simps)
    then show ?thesis using o(1) guar_trans by (auto split: prod.split)
  qed
  note step = this
  have "ok_out C Q R (snd (out_bind (Susp op k) f s)) s"
    unfolding out_bind.simps snd_conv
  proof (rule ok_outI)
    show "cn_inv C s" by (rule ok_out_inv [OF Susp.prems])
    fix r t t' y
    assume a: "cn_inv C t" "cn_rely C s t" "cn_resume C op r t"
      and e: "(case map_prod id (\<lambda>x. out_bind x f) (k r t) of (t', g) \<Rightarrow> g t') = (t', y)"
    obtain t1 x1 where k: "k r t = (t1, x1)" by fastforce
    show "cn_guar C t t' \<and> ok_out C Q R y t'" using step [OF a k] e by (simp add: k)
  qed
  then show ?case by (simp add: guar_refl)
qed

lemma ok_bind: "co_ok C P m S R \<Longrightarrow> (\<And>a. co_ok C (S a) (f a) Q R) \<Longrightarrow> co_ok C P (co_bind m f) Q R"
proof (rule co_okI)
  assume m: "co_ok C P m S R" and f: "\<And>a. co_ok C (S a) (f a) Q R"
  fix s s1 x assume "P s" and b: "co_bind m f s = (s1, x)"
  obtain s0 y where y: "m s = (s0, y)" by fastforce
  have "cn_guar C s s0" "ok_out C S R y s0" using co_okD [OF m \<open>P s\<close> y] by simp_all
  then show "cn_guar C s s1 \<and> ok_out C Q R x s1"
    using ok_bind_out [where x = y and s = s0 and f = f and S = S, OF f] b guar_trans by (auto simp: co_bind_def y)
qed

lemma ok_then: "co_ok C P m (\<lambda>a. S) R \<Longrightarrow> co_ok C S n Q R \<Longrightarrow> co_ok C P (co_then m n) Q R"
  unfolding co_then_def by (rule ok_bind)

lemma ok_try_out:
  assumes "\<And>e. co_ok C (S e) (h e) Q R"
  shows "ok_out C Q S x s \<Longrightarrow> case out_try x h s of (s1, y) \<Rightarrow> cn_guar C s s1 \<and> ok_out C Q R y s1"
proof (induction x arbitrary: s)
  case (Ret a)
  then show ?case by (simp add: guar_refl)
next
  case (Exc e)
  then show ?case using assms [of e] by (auto simp: co_ok_def)
next
  case (Susp op k)
  have "case out_try x' h t' of (s1, y) \<Rightarrow> cn_guar C t s1 \<and> ok_out C Q R y s1"
    if "cn_inv C t" "cn_rely C s t" "cn_resume C op r t" "k r t = (t', x')" for r t t' x'
  proof -
    have o: "cn_guar C t t'" "ok_out C Q S x' t'" using ok_out_resume [OF Susp.prems that] by simp_all
    have "case out_try x' h t' of (s1, y) \<Rightarrow> cn_guar C t' s1 \<and> ok_out C Q R y s1"
      using Susp.IH [of "k r" "k r t" x' t'] rangeI [of "k r" t] that(4) o(2) by (simp add: snds.simps)
    then show ?thesis using o(1) guar_trans by (auto split: prod.split)
  qed
  note step = this
  have "ok_out C Q R (snd (out_try (Susp op k) h s)) s"
    unfolding out_try.simps snd_conv
  proof (rule ok_outI)
    show "cn_inv C s" by (rule ok_out_inv [OF Susp.prems])
    fix r t t' y
    assume a: "cn_inv C t" "cn_rely C s t" "cn_resume C op r t"
      and e: "(case map_prod id (\<lambda>x. out_try x h) (k r t) of (t', g) \<Rightarrow> g t') = (t', y)"
    obtain t1 x1 where k: "k r t = (t1, x1)" by fastforce
    show "cn_guar C t t' \<and> ok_out C Q R y t'" using step [OF a k] e by (simp add: k)
  qed
  then show ?case by (simp add: guar_refl)
qed

lemma ok_try: "co_ok C P m Q S \<Longrightarrow> (\<And>e. co_ok C (S e) (h e) Q R) \<Longrightarrow> co_ok C P (co_try m h) Q R"
proof (rule co_okI)
  assume m: "co_ok C P m Q S" and h: "\<And>e. co_ok C (S e) (h e) Q R"
  fix s s1 x assume "P s" and b: "co_try m h s = (s1, x)"
  obtain s0 y where y: "m s = (s0, y)" by fastforce
  have "cn_guar C s s0" "ok_out C Q S y s0" using co_okD [OF m \<open>P s\<close> y] by simp_all
  then show "cn_guar C s s1 \<and> ok_out C Q R x s1"
    using ok_try_out [where x = y and s = s0 and h = h and S = S, OF h] b guar_trans by (auto simp: co_try_def y)
qed

lemma ok_when:
  "co_ok C (\<lambda>s. P s \<and> b s) m Q R \<Longrightarrow> co_ok C (\<lambda>s. P s \<and> \<not> b s) n Q R \<Longrightarrow> co_ok C P (co_when b m n) Q R"
  by (auto simp: co_ok_def co_when_def)

lemma ok_with: "(\<And>x. co_ok C (\<lambda>s. P s \<and> f s = x) (m x) Q R) \<Longrightarrow> co_ok C P (co_with f m) Q R"
  by (auto simp: co_ok_def co_with_def)

lemma ok_if: "(b \<Longrightarrow> co_ok C P m Q R) \<Longrightarrow> (\<not> b \<Longrightarrow> co_ok C P n Q R) \<Longrightarrow> co_ok C P (if b then m else n) Q R"
  by simp

subsection \<open>Code that keeps the invariant\<close>

lemma keeps_return [co_rules]: "keeps C (co_return a)"
  by (simp add: keeps_def ok_return)

lemma keeps_raise [co_rules]: "keeps C (co_raise e)"
  by (simp add: keeps_def ok_raise)

lemma keeps_modify: "(\<And>s. cn_inv C s \<Longrightarrow> cn_guar C s (f s) \<and> cn_inv C (f s)) \<Longrightarrow> keeps C (co_modify f)"
  by (simp add: keeps_def ok_modify)

lemma keeps_await [co_rules]: "keeps C (co_await op)"
  by (simp add: keeps_def ok_await)

lemma keeps_bind: "keeps C m \<Longrightarrow> (\<And>a. keeps C (f a)) \<Longrightarrow> keeps C (co_bind m f)"
  unfolding keeps_def by (rule ok_bind)

lemma keeps_then [co_rules]: "keeps C m \<Longrightarrow> keeps C n \<Longrightarrow> keeps C (co_then m n)"
  unfolding keeps_def by (rule ok_then)

lemma keeps_try [co_rules]: "keeps C m \<Longrightarrow> (\<And>e. keeps C (h e)) \<Longrightarrow> keeps C (co_try m h)"
  unfolding keeps_def by (rule ok_try)

lemma keeps_when [co_rules]: "keeps C m \<Longrightarrow> keeps C n \<Longrightarrow> keeps C (co_when b m n)"
  unfolding keeps_def by (rule ok_when; erule co_ok_weaken; simp)

lemma keeps_with [co_rules]: "(\<And>x. keeps C (m x)) \<Longrightarrow> keeps C (co_with f m)"
proof -
  assume m: "\<And>x. keeps C (m x)"
  show ?thesis unfolding keeps_def
    by (rule ok_with, rule co_ok_weaken [OF m [unfolded keeps_def]]) auto
qed

lemma keeps_if [co_rules]: "keeps C m \<Longrightarrow> keeps C n \<Longrightarrow> keeps C (if b then m else n)"
  by simp

lemma keeps_seq: "(\<And>m. m \<in> set ms \<Longrightarrow> keeps C m) \<Longrightarrow> keeps C (co_seq ms)"
  by (induction ms) (auto intro: keeps_return keeps_then)

text \<open>A suspended coroutine does not mind what it relies on.\<close>

lemma ok_out_stable:
  assumes "ok_out C Q R (Susp op k) s" and "cn_rely C s t" and "cn_inv C t"
  shows "ok_out C Q R (Susp op k) t"
proof (rule ok_outI)
  fix r u u' x' assume u: "cn_inv C u" "cn_rely C t u" "cn_resume C op r u" and k: "k r u = (u', x')"
  have "cn_rely C s u" by (rule rely_trans [OF assms(2) u(2)])
  then show "cn_guar C u u' \<and> ok_out C Q R x' u'" by (rule ok_out_resume [OF assms(1) u(1) _ u(3) k])
qed (rule assms(3))

text \<open>What both the others and the code itself leave alone stays true from beginning to end.\<close>

lemma ok_out_with:
  assumes r: "\<And>s t. cn_rely C s t \<Longrightarrow> K s \<Longrightarrow> K t" and g: "\<And>s t. cn_guar C s t \<Longrightarrow> K s \<Longrightarrow> K t"
  shows "ok_out C Q R x s \<Longrightarrow> K s \<Longrightarrow> ok_out C (\<lambda>a s. Q a s \<and> K s) (\<lambda>e s. R e s \<and> K s) x s"
proof (induction x arbitrary: s)
  case (Susp op k)
  show ?case
  proof (rule ok_outI)
    show "cn_inv C s" by (rule ok_out_inv [OF Susp.prems(1)])
    fix q t t' x' assume a: "cn_inv C t" "cn_rely C s t" "cn_resume C op q t" and k: "k q t = (t', x')"
    have o: "cn_guar C t t'" "ok_out C Q R x' t'" using ok_out_resume [OF Susp.prems(1) a k] by simp_all
    have "K t'" by (rule g [OF o(1) r [OF a(2) Susp.prems(2)]])
    moreover have "x' \<in> Basic_BNFs.snds (k q t)" by (simp add: k prod_set_simps)
    ultimately have "ok_out C (\<lambda>a s. Q a s \<and> K s) (\<lambda>e s. R e s \<and> K s) x' t'"
      using Susp.IH [of "k q" "k q t" x' t'] o(2) by blast
    then show "cn_guar C t t' \<and> ok_out C (\<lambda>a s. Q a s \<and> K s) (\<lambda>e s. R e s \<and> K s) x' t'" using o(1) by simp
  qed
qed simp_all

lemma ok_with_stable:
  assumes "co_ok C P m Q R"
    and "\<And>s t. cn_rely C s t \<Longrightarrow> K s \<Longrightarrow> K t" and "\<And>s t. cn_guar C s t \<Longrightarrow> K s \<Longrightarrow> K t"
  shows "co_ok C (\<lambda>s. P s \<and> K s) m (\<lambda>a s. Q a s \<and> K s) (\<lambda>e s. R e s \<and> K s)"
proof (rule co_okI)
  fix s s1 x assume P: "P s \<and> K s" and m: "m s = (s1, x)"
  have o: "cn_guar C s s1" "ok_out C Q R x s1" using co_okD [OF assms(1) conjunct1 [OF P] m] by simp_all
  have "K s1" by (rule assms(3) [OF o(1) conjunct2 [OF P]])
  then show "cn_guar C s s1 \<and> ok_out C (\<lambda>a s. Q a s \<and> K s) (\<lambda>e s. R e s \<and> K s) x s1"
    using ok_out_with [OF assms(2,3) o(2)] o(1) by simp
qed

end

text \<open>Code may be held to less than it keeps.\<close>

lemma ok_out_less:
  assumes "\<And>s t. cn_guar C s t \<Longrightarrow> G s t"
  shows "ok_out C Q R x s \<Longrightarrow> ok_out (C\<lparr>cn_guar := G\<rparr>) Q R x s"
proof (induction x arbitrary: s)
  case (Susp op k)
  show ?case
  proof (rule ok_outI)
    show "cn_inv (C\<lparr>cn_guar := G\<rparr>) s" using ok_out_inv [OF Susp.prems] by simp
    fix q t t' x'
    assume a: "cn_inv (C\<lparr>cn_guar := G\<rparr>) t" "cn_rely (C\<lparr>cn_guar := G\<rparr>) s t" "cn_resume (C\<lparr>cn_guar := G\<rparr>) op q t"
      and k: "k q t = (t', x')"
    have b: "cn_inv C t" "cn_rely C s t" "cn_resume C op q t" using a by simp_all
    have o: "cn_guar C t t'" "ok_out C Q R x' t'" using ok_out_resume [OF Susp.prems b k] by simp_all
    have "x' \<in> Basic_BNFs.snds (k q t)" by (simp add: k prod_set_simps)
    then have "ok_out (C\<lparr>cn_guar := G\<rparr>) Q R x' t'" using Susp.IH [of "k q" "k q t" x' t'] o(2) by blast
    then show "cn_guar (C\<lparr>cn_guar := G\<rparr>) t t' \<and> ok_out (C\<lparr>cn_guar := G\<rparr>) Q R x' t'" using assms [OF o(1)] by simp
  qed
qed simp_all

lemma ok_less:
  assumes "co_ok C P m Q R" and "\<And>s t. cn_guar C s t \<Longrightarrow> G s t"
  shows "co_ok (C\<lparr>cn_guar := G\<rparr>) P m Q R"
proof (rule co_okI)
  fix s s1 x assume "P s" and "m s = (s1, x)"
  then have o: "cn_guar C s s1" "ok_out C Q R x s1" using co_okD [OF assms(1)] by blast+
  show "cn_guar (C\<lparr>cn_guar := G\<rparr>) s s1 \<and> ok_out (C\<lparr>cn_guar := G\<rparr>) Q R x s1"
    using ok_out_less [OF assms(2) o(2)] assms(2) [OF o(1)] by simp
qed

section \<open>The event loop\<close>

record ('s, 'o, 'e, 't) loop =
  lp_state :: 's
  lp_tasks :: "'t \<Rightarrow> ('s, 'o, 'e, unit) out option"

fun still_running :: "('s, 'o, 'e, 'a) out \<Rightarrow> ('s, 'o, 'e, 'a) out option" where
  "still_running (Susp op k) = Some (Susp op k)"
| "still_running x = None"

datatype ('t, 'ev, 'e) loop_event = Begin 't 'ev | Resume 't "'e option"

text \<open>
  \<open>code t ev\<close> is the coroutine that the event \<open>ev\<close> starts on the task \<open>t\<close>, \<open>may_start t ev\<close> when it
  may start, and \<open>may_resume\<close> when an await may go on.
\<close>

inductive loop_step ::
    "('t \<Rightarrow> 'ev \<Rightarrow> ('s, 'o, 'e, unit) co) \<Rightarrow> ('t \<Rightarrow> 'ev \<Rightarrow> 's \<Rightarrow> bool) \<Rightarrow> ('o \<Rightarrow> 'e option \<Rightarrow> 's \<Rightarrow> bool) \<Rightarrow>
     ('s, 'o, 'e, 't) loop \<Rightarrow> ('t, 'ev, 'e) loop_event \<Rightarrow> ('s, 'o, 'e, 't) loop \<Rightarrow> bool"
  for code may_start may_resume where
  begins: "lp_tasks L t = None \<Longrightarrow> may_start t ev (lp_state L) \<Longrightarrow> code t ev (lp_state L) = (s, x) \<Longrightarrow>
     loop_step code may_start may_resume L (Begin t ev)
       \<lparr>lp_state = s, lp_tasks = (lp_tasks L)(t := still_running x)\<rparr>"
| resumes: "lp_tasks L t = Some (Susp op k) \<Longrightarrow> may_resume op r (lp_state L) \<Longrightarrow> k r (lp_state L) = (s, x) \<Longrightarrow>
     loop_step code may_start may_resume L (Resume t r)
       \<lparr>lp_state = s, lp_tasks = (lp_tasks L)(t := still_running x)\<rparr>"

text \<open>One step, computed.\<close>

fun loop_next ::
    "('t \<Rightarrow> 'ev \<Rightarrow> ('s, 'o, 'e, unit) co) \<Rightarrow> ('t \<Rightarrow> 'ev \<Rightarrow> 's \<Rightarrow> bool) \<Rightarrow> ('o \<Rightarrow> 'e option \<Rightarrow> 's \<Rightarrow> bool) \<Rightarrow>
     ('t, 'ev, 'e) loop_event \<Rightarrow> ('s, 'o, 'e, 't) loop \<Rightarrow> ('s, 'o, 'e, 't) loop option" where
  "loop_next code may_start may_resume (Begin t ev) L =
     (if lp_tasks L t = None \<and> may_start t ev (lp_state L)
      then (case code t ev (lp_state L) of (s, x) \<Rightarrow>
              Some \<lparr>lp_state = s, lp_tasks = (lp_tasks L)(t := still_running x)\<rparr>)
      else None)"
| "loop_next code may_start may_resume (Resume t r) L =
     (case lp_tasks L t of
        Some (Susp op k) \<Rightarrow>
          (if may_resume op r (lp_state L)
           then (case k r (lp_state L) of (s, x) \<Rightarrow>
                   Some \<lparr>lp_state = s, lp_tasks = (lp_tasks L)(t := still_running x)\<rparr>)
           else None)
      | _ \<Rightarrow> None)"

lemma loop_next_step: "loop_next code may_start may_resume e L = Some L' \<Longrightarrow> loop_step code may_start may_resume L e L'"
  by (cases e) (auto split: if_splits prod.splits option.splits out.splits intro: loop_step.intros)

fun loop_nexts ::
    "('t \<Rightarrow> 'ev \<Rightarrow> ('s, 'o, 'e, unit) co) \<Rightarrow> ('t \<Rightarrow> 'ev \<Rightarrow> 's \<Rightarrow> bool) \<Rightarrow> ('o \<Rightarrow> 'e option \<Rightarrow> 's \<Rightarrow> bool) \<Rightarrow>
     ('t, 'ev, 'e) loop_event list \<Rightarrow> ('s, 'o, 'e, 't) loop \<Rightarrow> ('s, 'o, 'e, 't) loop option" where
  "loop_nexts code may_start may_resume [] L = Some L"
| "loop_nexts code may_start may_resume (e # es) L =
     (case loop_next code may_start may_resume e L of
        None \<Rightarrow> None
      | Some L' \<Rightarrow> loop_nexts code may_start may_resume es L')"

lemma loop_nexts_steps:
  "loop_nexts code may_start may_resume es L = Some L' \<Longrightarrow> steps_rel (loop_step code may_start may_resume) L es L'"
proof (induction es arbitrary: L)
  case (Cons e es)
  then obtain K where K: "loop_next code may_start may_resume e L = Some K"
    and "loop_nexts code may_start may_resume es K = Some L'" by (auto split: option.splits)
  then show ?case using Cons.IH loop_next_step [OF K] by (blast intro: steps_rel.steps_cons)
qed (simp add: steps_rel.steps_nil)

definition idle_loop :: "'s \<Rightarrow> ('s, 'o, 'e, 't) loop" where
  "idle_loop s = \<lparr>lp_state = s, lp_tasks = (\<lambda>t. None)\<rparr>"

text \<open>
  Every task has a contract: its invariant is the shared one and what the task holds while it is
  suspended.  What one task guarantees is what every other task relies on.
\<close>

locale event_loop =
  fixes code :: "'t \<Rightarrow> 'ev \<Rightarrow> ('s, 'o, 'e, unit) co"
    and may_start :: "'t \<Rightarrow> 'ev \<Rightarrow> 's \<Rightarrow> bool"
    and may_resume :: "'o \<Rightarrow> 'e option \<Rightarrow> 's \<Rightarrow> bool"
    and Inv :: "'s \<Rightarrow> bool"
    and Own :: "'t \<Rightarrow> 's \<Rightarrow> bool"
    and C :: "'t \<Rightarrow> ('s, 'o, 'e) contract"
  assumes rg: "rely_guarantee (C t)"
    and inv: "cn_inv (C t) s \<longleftrightarrow> Inv s \<and> Own t s" and resume: "cn_resume (C t) = may_resume"
    and owned: "cn_rely (C t) s s' \<Longrightarrow> Own t s \<Longrightarrow> Own t s'"
    and compatible: "t \<noteq> u \<Longrightarrow> cn_guar (C t) s s' \<Longrightarrow> cn_rely (C u) s s'"
    and code_ok: "co_ok (C t) (\<lambda>s. Inv s \<and> may_start t ev s) (code t ev) (\<lambda>a. Inv) (\<lambda>e. Inv)"
begin

definition task_ok :: "'t \<Rightarrow> ('s, 'o, 'e, unit) out option \<Rightarrow> 's \<Rightarrow> bool" where
  "task_ok t x s \<longleftrightarrow> (case x of None \<Rightarrow> True | Some y \<Rightarrow> (\<exists>op k. y = Susp op k) \<and> ok_out (C t) (\<lambda>a. Inv) (\<lambda>e. Inv) y s)"

definition loop_ok :: "('s, 'o, 'e, 't) loop \<Rightarrow> bool" where
  "loop_ok L \<longleftrightarrow> Inv (lp_state L) \<and> (\<forall>t. task_ok t (lp_tasks L t) (lp_state L))"

lemma ended_segment:
  assumes "ok_out (C t) (\<lambda>a. Inv) (\<lambda>e. Inv) x s"
  shows "Inv s \<and> task_ok t (still_running x) s"
proof (cases x)
  case (Susp op k)
  have "cn_inv (C t) s" by (rule ok_out_inv [OF assms [unfolded Susp]])
  then show ?thesis using assms Susp by (simp add: inv task_ok_def)
qed (use assms in \<open>simp_all add: task_ok_def\<close>)

lemma suspended_owns: "task_ok t (Some y) s \<Longrightarrow> Own t s"
proof -
  assume "task_ok t (Some y) s"
  then have y: "\<exists>op k. y = Susp op k" and o: "ok_out (C t) (\<lambda>a. Inv) (\<lambda>e. Inv) y s"
    unfolding task_ok_def option.case by (rule conjunct1, rule conjunct2)
  from y obtain op k where "y = Susp op k" by blast
  from ok_out_inv [OF o [unfolded this]] show ?thesis by (simp add: inv)
qed

lemma others_unmoved:
  assumes "t \<noteq> u" and "cn_guar (C t) s s'" and "task_ok u x s" and "Inv s'"
  shows "task_ok u x s'"
proof (cases x)
  case (Some y)
  obtain op k where y: "y = Susp op k" using assms(3) Some by (auto simp: task_ok_def)
  have o: "ok_out (C u) (\<lambda>a. Inv) (\<lambda>e. Inv) (Susp op k) s" using assms(3) Some y by (simp add: task_ok_def)
  have r: "cn_rely (C u) s s'" by (rule compatible [OF assms(1,2)])
  have "Own u s" using ok_out_inv [OF o] by (simp add: inv)
  then have "cn_inv (C u) s'" using owned [OF r] assms(4) by (simp add: inv)
  then have "ok_out (C u) (\<lambda>a. Inv) (\<lambda>e. Inv) (Susp op k) s'" by (rule rely_guarantee.ok_out_stable [OF rg o r])
  then show ?thesis using Some y by (simp add: task_ok_def)
qed (simp add: task_ok_def)

lemma segment_ok:
  assumes "loop_ok L" and "cn_guar (C t) (lp_state L) s" and "ok_out (C t) (\<lambda>a. Inv) (\<lambda>e. Inv) x s"
  shows "loop_ok \<lparr>lp_state = s, lp_tasks = (lp_tasks L)(t := still_running x)\<rparr>"
  unfolding loop_ok_def
proof (intro conjI allI)
  note e = ended_segment [OF assms(3)]
  show "Inv (lp_state \<lparr>lp_state = s, lp_tasks = (lp_tasks L)(t := still_running x)\<rparr>)" using e by simp
  fix u
  have "task_ok u (lp_tasks L u) (lp_state L)" using assms(1) by (simp add: loop_ok_def)
  then show "task_ok u (lp_tasks \<lparr>lp_state = s, lp_tasks = (lp_tasks L)(t := still_running x)\<rparr> u)
      (lp_state \<lparr>lp_state = s, lp_tasks = (lp_tasks L)(t := still_running x)\<rparr>)"
    using e others_unmoved [OF _ assms(2)] by (cases "t = u") simp_all
qed

lemma loop_step_ok: "loop_step code may_start may_resume L e L' \<Longrightarrow> loop_ok L \<Longrightarrow> loop_ok L'"
proof (induction rule: loop_step.induct)
  case (begins L t ev s x)
  have "cn_guar (C t) (lp_state L) s \<and> ok_out (C t) (\<lambda>a. Inv) (\<lambda>e. Inv) x s"
    by (rule co_okD [OF code_ok _ begins(3)]) (use begins in \<open>simp add: loop_ok_def\<close>)
  then show ?case using segment_ok [OF begins(4)] by simp
next
  case (resumes L t op k r s x)
  have t: "task_ok t (lp_tasks L t) (lp_state L)" using resumes(4) by (simp add: loop_ok_def)
  have o: "ok_out (C t) (\<lambda>a. Inv) (\<lambda>e. Inv) (Susp op k) (lp_state L)"
    using t unfolding resumes(1) task_ok_def option.case by (rule conjunct2)
  have "cn_rely (C t) (lp_state L) (lp_state L)" by (rule rely_guarantee.rely_refl [OF rg])
  then have "cn_guar (C t) (lp_state L) s \<and> ok_out (C t) (\<lambda>a. Inv) (\<lambda>e. Inv) x s"
    by (rule ok_out_resume [OF o ok_out_inv [OF o] _ _ resumes(3)]) (simp_all only: resume resumes(2))
  then show ?case using segment_ok [OF resumes(4)] by simp
qed

lemma loop_run_ok: "steps_rel (loop_step code may_start may_resume) L es L' \<Longrightarrow> loop_ok L \<Longrightarrow> loop_ok L'"
  by (induction rule: steps_rel.induct) (auto intro: loop_step_ok)

lemma idle_ok: "Inv s \<Longrightarrow> loop_ok (idle_loop s)"
  by (simp add: loop_ok_def idle_loop_def task_ok_def)

lemma always: "steps_rel (loop_step code may_start may_resume) (idle_loop s) es L \<Longrightarrow> Inv s \<Longrightarrow> Inv (lp_state L)"
  using loop_run_ok idle_ok by (auto simp: loop_ok_def)

lemma always_owns:
  assumes "steps_rel (loop_step code may_start may_resume) (idle_loop s) es L" and "Inv s" and "lp_tasks L t \<noteq> None"
  shows "Own t (lp_state L)"
proof -
  obtain y where "lp_tasks L t = Some y" using assms(3) by blast
  moreover have "task_ok t (lp_tasks L t) (lp_state L)"
    using loop_run_ok [OF assms(1) idle_ok [OF assms(2)]] by (simp add: loop_ok_def)
  ultimately show ?thesis using suspended_owns by metis
qed

end

end
