(* ===== verification/AgentText.thy ===== *)
theory AgentText
  imports PyText
begin

text \<open>
  What the agent reads out of a transcript (\<open>agent/ovs_agent/app_base.py\<close>): joining the segments of an
  utterance, whether a final says anything, wake phrases, stop and exit words, trigger phrases of tools.

  \<open>str.lower\<close> and the letters and digits of \<open>unicodedata.category\<close> are tables of Python's library and
  arguments here.
\<close>

record text_lib =
  tl_lower :: "cptext \<Rightarrow> cptext"
  tl_letter_or_digit :: "nat \<Rightarrow> bool"

section \<open>Joining segments\<close>

definition is_ascii_word_char :: "nat \<Rightarrow> bool" where
  "is_ascii_word_char c \<longleftrightarrow>
     (48 \<le> c \<and> c \<le> 57) \<or> (65 \<le> c \<and> c \<le> 90) \<or> (97 \<le> c \<and> c \<le> 122) \<or> c = 95"

definition join_segments :: "cptext \<Rightarrow> cptext \<Rightarrow> cptext" where
  "join_segments l r =
     (let left = cp_strip l; right = cp_strip r
      in if left = [] then right
         else if right = [] then left
         else if is_ascii_word_char (last left) \<and> is_ascii_word_char (hd right) then left @ [32] @ right
         else left @ right)"

section \<open>Low-signal finals\<close>

definition strip_for_signal :: "text_lib \<Rightarrow> cptext \<Rightarrow> cptext" where
  "strip_for_signal T t = tl_lower T (filter (tl_letter_or_digit T) t)"

definition interjections :: "cptext list" where
  "interjections =
     [[21999], [21834], [21734], [21571], [21769], [35830], [21710], [22114], [21780], [21568], [21704],
      [21703], [21602], [21543], [21527], [21584], [22043], [35830, 21568], [21834, 21834], [21999, 21999]] @
     map cp_of [''uh'', ''um'', ''ah'', ''oh'', ''ok'', ''okay'', ''hmm'', ''huh'', ''yeah'', ''yep'',
      ''you'', ''the'', ''and'', ''a'', ''i'']"

definition low_signal :: "text_lib \<Rightarrow> cptext \<Rightarrow> bool" where
  "low_signal T t \<longleftrightarrow>
     cp_strip t = [] \<or> length (strip_for_signal T t) \<le> 1 \<or> strip_for_signal T t \<in> set interjections"

section \<open>Stop and exit words\<close>

definition sentence_end_mark :: "nat \<Rightarrow> bool" where
  "sentence_end_mark c \<longleftrightarrow> c \<in> {12290, 65292, 65281, 65311, 46, 33, 63, 44, 59, 58}"

definition trad_to_simp :: "nat \<Rightarrow> nat" where
  "trad_to_simp c =
     (case map_of [(21029, 21035), (35498, 35828), (35211, 35265), (32893, 21548), (38281, 38381),
        (38748, 38745), (32080, 32467), (26463, 26463), (24460, 21518), (24185, 24178)] c of
        Some d \<Rightarrow> d | None \<Rightarrow> c)"

definition normalise_for_stop :: "text_lib \<Rightarrow> cptext \<Rightarrow> cptext" where
  "normalise_for_stop T t =
     map trad_to_simp (tl_lower T (cp_strip (rstrip_by sentence_end_mark (cp_strip t))))"

definition all_ascii :: "cptext \<Rightarrow> bool" where
  "all_ascii t \<longleftrightarrow> (\<forall>c\<in>set t. c < 128)"

text \<open>\<open>s.split()\<close>: the runs of characters that are not white space.\<close>

fun split_words :: "cptext \<Rightarrow> cptext \<Rightarrow> cptext list" where
  "split_words w [] = (if w = [] then [] else [w])"
| "split_words w (c # cs) =
     (if cp_isspace c then (if w = [] then split_words [] cs else w # split_words [] cs)
      else split_words (w @ [c]) cs)"

definition tail_words :: "cptext \<Rightarrow> nat" where
  "tail_words t = length (split_words [] (map (\<lambda>c. if c \<in> {44, 46, 33, 63} then 32 else c) t))"

definition stop_prefix_max_tail_words :: nat where
  "stop_prefix_max_tail_words = 2"

definition matches_word :: "text_lib \<Rightarrow> cptext \<Rightarrow> cptext \<Rightarrow> bool" where
  "matches_word T nrm w =
     (let wn = tl_lower T (cp_strip w)
      in w \<noteq> [] \<and> wn \<noteq> [] \<and>
         (nrm = wn \<or>
          (all_ascii wn \<and> 2 \<le> length wn \<and>
           list_ex (\<lambda>sep. py_startswith nrm (wn @ [sep])) [32, 44, 33, 63, 46] \<and>
           tail_words (drop (length wn) nrm) \<le> stop_prefix_max_tail_words)))"

definition says_one_of :: "text_lib \<Rightarrow> cptext list \<Rightarrow> cptext \<Rightarrow> bool" where
  "says_one_of T ws t =
     (let nrm = normalise_for_stop T t in nrm \<noteq> [] \<and> list_ex (matches_word T nrm) ws)"

section \<open>Wake phrases\<close>

definition wake_separators :: "nat list" where
  "wake_separators = [32, 44, 65292, 46, 12290, 33, 65281, 63, 65311, 58, 65306, 59, 12289]"

text \<open>\<open>None\<close>: the utterance is the wake phrase and nothing else.\<close>

fun strip_phrases :: "text_lib \<Rightarrow> cptext \<Rightarrow> cptext list \<Rightarrow> cptext option" where
  "strip_phrases T stripped [] = Some stripped"
| "strip_phrases T stripped (raw # phrases) =
     (let p = tl_lower T (cp_strip raw)
      in if p = [] then strip_phrases T stripped phrases
         else if normalise_for_stop T stripped = p then None
         else if py_startswith (tl_lower T stripped) p
           then (let rest = drop (length p) stripped
                 in if take 1 rest = [] \<or> hd rest \<in> set wake_separators
                      then (let remainder = cp_strip (dropWhile (\<lambda>c. c \<in> set wake_separators) rest)
                            in if remainder = [] then None else Some remainder)
                    else strip_phrases T stripped phrases)
         else strip_phrases T stripped phrases)"

definition strip_wake_prefix :: "text_lib \<Rightarrow> cptext list \<Rightarrow> cptext \<Rightarrow> cptext option" where
  "strip_wake_prefix T phrases t =
     (if t = [] \<or> phrases = [] then Some t else strip_phrases T (cp_strip t) phrases)"

definition is_exit_intent :: "text_lib \<Rightarrow> cptext list \<Rightarrow> cptext list \<Rightarrow> cptext \<Rightarrow> bool" where
  "is_exit_intent T exit_words phrases t =
     (says_one_of T exit_words t \<or>
      (case strip_wake_prefix T phrases t of
         Some s \<Rightarrow> s \<noteq> [] \<and> s \<noteq> t \<and> says_one_of T exit_words s
       | None \<Rightarrow> False))"

section \<open>Trigger phrases of tools\<close>

definition normalize_trigger :: "text_lib \<Rightarrow> cptext \<Rightarrow> cptext" where
  "normalize_trigger T t = concat (map (\<lambda>c. tl_lower T [c]) (filter (tl_letter_or_digit T) t))"

text \<open>The guard of a tool: it has trigger phrases and none of them is in what the user said.\<close>

definition trigger_guard_blocks :: "text_lib \<Rightarrow> bool \<Rightarrow> cptext \<Rightarrow> cptext list \<Rightarrow> bool" where
  "trigger_guard_blocks T exempt user_text phrases \<longleftrightarrow>
     \<not> exempt \<and> cp_strip user_text \<noteq> [] \<and> phrases \<noteq> [] \<and>
     \<not> list_ex (\<lambda>p. normalize_trigger T p \<noteq> [] \<and>
          py_contains (normalize_trigger T user_text) (normalize_trigger T p)) phrases"

section \<open>Facts\<close>

lemma strip_by_idem: "strip_by p (strip_by p xs) = strip_by p xs"
proof (cases "strip_by p xs = []")
  case False
  then have a: "lstrip_by p xs \<noteq> []" by (auto simp: strip_by_def)
  define ys where "ys = strip_by p xs"
  have l: "\<not> p (hd ys)"
  proof -
    obtain ws where ws: "lstrip_by p xs = ys @ ws"
      using rstrip_by_append [of "lstrip_by p xs" p] by (auto simp: ys_def strip_by_def)
    then have "hd ys = hd (lstrip_by p xs)" using False by (simp add: ys_def)
    then show ?thesis using lstrip_by_hd [OF a] by simp
  qed
  have r: "\<not> p (last ys)"
  proof -
    have "dropWhile p (rev (lstrip_by p xs)) \<noteq> []" using False by (simp add: strip_by_def rstrip_by_def)
    then have "\<not> p (hd (dropWhile p (rev (lstrip_by p xs))))" by (rule hd_dropWhile)
    then show ?thesis by (simp add: ys_def strip_by_def rstrip_by_def last_rev)
  qed
  have "lstrip_by p ys = ys" using l False by (cases ys) (auto simp: lstrip_by_def ys_def)
  moreover have "rstrip_by p ys = ys" using r False
    by (cases ys rule: rev_cases) (auto simp: rstrip_by_def ys_def)
  ultimately have "strip_by p ys = ys" unfolding strip_by_def by simp
  then show ?thesis by (simp only: ys_def)
qed simp

text \<open>Nothing is lost in joining, and Chinese segments stay unspaced.\<close>

lemma join_segments_keeps:
  "filter (\<lambda>c. \<not> cp_isspace c) (join_segments l r) =
     filter (\<lambda>c. \<not> cp_isspace c) l @ filter (\<lambda>c. \<not> cp_isspace c) r"
proof -
  have s: "filter (\<lambda>c. \<not> cp_isspace c) (cp_strip x) = filter (\<lambda>c. \<not> cp_isspace c) x" for x
    by (rule filter_strip_by)
  have e: "cp_strip x = [] \<Longrightarrow> filter (\<lambda>c. \<not> cp_isspace c) x = []" for x
    using s [of x] by simp
  have "cp_isspace 32" by (simp add: cp_isspace_def)
  then show ?thesis by (auto simp: join_segments_def Let_def s e)
qed

text \<open>A stop word followed by more than two words is an instruction, not a stop.\<close>

lemma long_tail_is_no_stop:
  assumes "\<And>w. w \<in> set ws \<Longrightarrow> normalise_for_stop T t \<noteq> tl_lower T (cp_strip w)"
    and "\<And>w. w \<in> set ws \<Longrightarrow> 2 < tail_words (drop (length (tl_lower T (cp_strip w))) (normalise_for_stop T t))"
  shows "\<not> says_one_of T ws t"
  using assms by (fastforce simp: says_one_of_def matches_word_def Let_def list_ex_iff stop_prefix_max_tail_words_def)

end
