(* ===== verification/AgentApp.thy ===== *)
theory AgentApp
  imports AgentText Coroutines VadGate
begin

text \<open>
  The agent's conversation state machine (\<open>agent/ovs_agent/app_base.py\<close>, class \<open>BaseApp\<close>): what it keeps,
  and every coroutine that works on it.  A coroutine is written with the combinators of
  \<open>Coroutines\<close>; an await names what is awaited, and everything between two awaits happens at once, as on
  the event loop of the program.

  Times are milliseconds of the monotonic clock.  The speech service's client is seen through what it
  tells the agent (\<open>link\<close>); it changes between any two steps.  A plugin's hook and the application's own
  code are awaits.  Fire-and-forget tasks that only tell plugins something are left out.
\<close>

section \<open>Audio output\<close>

text \<open>
  \<open>AudioIO\<close>: the bytes the sound card has not fetched yet, each with whether it is speech of the
  assistant (\<open>play\<close>) or a notification tone (\<open>play_notification\<close>).
\<close>

record audio =
  au_buffer :: "(bool \<times> nat) list"
  au_playing :: bool
  au_discard :: bool
  au_response :: "cptext option"
  au_device_bytes :: nat
  au_source_sr :: nat
  au_output_sr :: nat

definition is_playing :: "audio \<Rightarrow> bool" where
  "is_playing a \<longleftrightarrow> au_playing a \<or> au_buffer a \<noteq> []"

definition output_callback :: "nat \<Rightarrow> audio \<Rightarrow> nat list \<times> audio" where
  "output_callback needed a =
     (let n = min needed (length (au_buffer a))
      in (map snd (take n (au_buffer a)) @ replicate (needed - n) 0,
          a\<lparr>au_buffer := drop n (au_buffer a),
            au_device_bytes := au_device_bytes a + (if au_response a \<noteq> None then n else 0)\<rparr>))"

definition mark_playback_done :: "audio \<Rightarrow> audio" where
  "mark_playback_done a = a\<lparr>au_playing := False\<rparr>"

definition begin_response_playback :: "cptext \<Rightarrow> audio \<Rightarrow> audio" where
  "begin_response_playback r a = a\<lparr>au_response := Some r, au_device_bytes := 0\<rparr>"

definition playback_position_ms :: "cptext option \<Rightarrow> audio \<Rightarrow> nat" where
  "playback_position_ms r a =
     (if (case r of Some i \<Rightarrow> i \<noteq> [] \<and> au_response a \<noteq> Some i | None \<Rightarrow> False) then 0
      else au_device_bytes a * 1000 div (2 * max 1 (au_output_sr a)))"

definition play_notification :: "nat list \<Rightarrow> audio \<Rightarrow> audio" where
  "play_notification pcm a = a\<lparr>au_buffer := au_buffer a @ map (Pair False) pcm\<rparr>"

definition play :: "(nat \<Rightarrow> nat \<Rightarrow> nat list \<Rightarrow> nat list) \<Rightarrow> nat list \<Rightarrow> audio \<Rightarrow> audio" where
  "play resample pcm a =
     (if au_discard a then a
      else (let out = (if au_source_sr a \<noteq> au_output_sr a \<and> pcm \<noteq> []
                       then resample (au_source_sr a) (au_output_sr a) pcm else pcm)
            in a\<lparr>au_playing := True, au_buffer := au_buffer a @ map (Pair True) out\<rparr>))"

definition arm_for_next_turn :: "audio \<Rightarrow> audio" where
  "arm_for_next_turn a = a\<lparr>au_discard := False\<rparr>"

definition set_output_sample_rate :: "nat \<Rightarrow> audio \<Rightarrow> audio" where
  "set_output_sample_rate sr a = a\<lparr>au_source_sr := sr\<rparr>"

definition stop_playback :: "audio \<Rightarrow> audio" where
  "stop_playback a = a\<lparr>au_buffer := [], au_playing := False, au_discard := True\<rparr>"

section \<open>Configuration and state\<close>

datatype conv = CIdle | CListening | CThinking | CSpeaking | CBargedIn | CSleeping

datatype pipeline = AlwaysOn | WakeWord | PushToTalk

text \<open>A notification tone: its samples, and how long the microphone is ignored from its beginning.\<close>

record tone =
  tn_pcm :: "nat list"
  tn_suppress_ms :: nat

record app_config =
  cf_text :: text_lib
  cf_pipeline :: pipeline
  cf_server_loop :: bool
  cf_mode_barge_in :: "bool option"
  cf_barge_in :: "bool option"
  cf_barge_min_speaking_ms :: nat
  cf_barge_min_chars :: nat
  cf_drive_eos :: bool
  cf_vad_speech_min_ms :: nat
  cf_vad_silence_ms :: nat
  cf_chunk_ms :: nat
  cf_ptt_no_vad_silence :: bool
  cf_wake_single_turn :: bool
  cf_wake_timeout :: bool
  cf_stall_eos :: bool
  cf_drain :: bool
  cf_drain_timeout_ms :: nat
  cf_stop_to_sleep :: bool
  cf_reconnect_on_wake :: bool
  cf_wake_mic_skip_ms :: nat
  cf_drop_while_speaking :: bool
  cf_duplicate_window_ms :: nat
  cf_client_vad :: bool
  cf_gate :: bool
  cf_gate_hangover_ms :: nat
  cf_gate_drive_eos :: bool
  cf_gate_min_speech_ms :: nat
  cf_gate_eos_delay_ms :: nat
  cf_gain :: "nat list \<Rightarrow> nat list"
  cf_stop_words :: "cptext list"
  cf_exit_words :: "cptext list"
  cf_wake_phrases :: "cptext list"
  cf_wake_reply :: cptext
  cf_exit_reply :: cptext
  cf_no_final_text :: cptext
  cf_wake_tone :: "tone option"
  cf_sleep_tone :: "tone option"
  cf_v2 :: bool
  cf_guard :: bool
  cf_resample :: "nat \<Rightarrow> nat \<Rightarrow> nat list \<Rightarrow> nat list"

definition barge_in_enabled :: "app_config \<Rightarrow> bool" where
  "barge_in_enabled cf =
     (case cf_mode_barge_in cf of Some b \<Rightarrow> b
      | None \<Rightarrow> (case cf_barge_in cf of None \<Rightarrow> True | Some b \<Rightarrow> b))"

definition wake_single_turn :: "app_config \<Rightarrow> bool" where
  "wake_single_turn cf \<longleftrightarrow> cf_pipeline cf = WakeWord \<and> cf_wake_single_turn cf"

text \<open>The tasks that begin with a sleep, one attribute of the agent each.\<close>

datatype timer = AsrWatchdog | ThinkingWatchdog | StallWatchdog | BargeInEos | WakeCommand | SleepTimer | Drain

text \<open>What the client says of the connection to the speech service.\<close>

record link =
  lk_ws :: "nat option"
  lk_gen :: nat
  lk_healthy :: bool
  lk_reconnecting :: bool
  lk_evicted :: bool
  lk_idle_ms :: nat

record vad =
  vd_speech :: bool
  vd_speech_ms :: nat
  vd_silence_ms :: nat
  vd_eos_sent :: bool
  vd_echo :: bool

text \<open>The energy gate of a microphone without the client's speech detection.\<close>

record mic_gate =
  gt_open :: bool
  gt_opened_at :: nat
  gt_last_loud :: nat

text \<open>A tool call of the server's model loop, and what the registry knows of the tool.\<close>

record server_tool =
  st_id :: nat
  st_known :: bool
  st_exempt :: bool
  st_phrases :: "cptext list"

text \<open>
  What the agent has done, in order: segments kept for the utterance, segments dropped, utterances
  handed over (the last final and the whole), language-model turns begun, and ends of utterance sent.
\<close>

datatype deed = Kept cptext | Dropped | Utterance cptext cptext | Turn nat cptext | SentEos

record agent =
  ag_state :: conv
  ag_turn :: "nat option"
  ag_live :: "nat set"
  ag_next :: nat
  ag_first_tts :: bool
  ag_eos :: bool
  ag_awaiting :: bool
  ag_sleep_after :: bool
  ag_greeting :: bool
  ag_retry :: bool
  ag_ptt :: bool
  ag_drop_sentence :: bool
  ag_last_sentence :: cptext
  ag_last_sentence_at :: nat
  ag_pending :: cptext
  ag_last_text :: cptext
  ag_speaking_since :: nat
  ag_response :: "cptext option"
  ag_reconnects :: nat
  ag_advertised_gen :: "nat option"
  ag_mic_skip_until :: nat
  ag_mic_suppress_until :: nat
  ag_preroll :: "nat list list"
  ag_timer :: "timer \<Rightarrow> nat option"
  ag_asleep :: "(timer \<times> nat) set"
  ag_unfinished :: "(timer \<times> nat) set"
  ag_barge_owner :: "nat option"
  ag_barge_deferred :: nat
  ag_drain_deadline :: nat
  ag_tools :: "(nat \<times> server_tool) set"
  ag_clock :: nat
  ag_backoff :: nat
  ag_link :: link
  ag_vad :: vad
  ag_gate :: mic_gate
  ag_audio :: audio
  ag_log :: "deed list"

definition log_deed :: "deed \<Rightarrow> agent \<Rightarrow> agent" where
  "log_deed d s = s\<lparr>ag_log := ag_log s @ [d]\<rparr>"

definition on_output :: "(audio \<Rightarrow> audio) \<Rightarrow> agent \<Rightarrow> agent" where
  "on_output f s = s\<lparr>ag_audio := f (ag_audio s)\<rparr>"

definition on_vad :: "(vad \<Rightarrow> vad) \<Rightarrow> agent \<Rightarrow> agent" where
  "on_vad f s = s\<lparr>ag_vad := f (ag_vad s)\<rparr>"

definition enter_state :: "conv \<Rightarrow> agent \<Rightarrow> agent" where
  "enter_state new s = s\<lparr>ag_state := new\<rparr>"

text \<open>
  \<open>_state\<close> of a new agent, and everything else of \<open>__init__\<close>.
\<close>

definition new_agent :: "app_config \<Rightarrow> nat \<Rightarrow> link \<Rightarrow> agent" where
  "new_agent cf output_sr lk =
     \<lparr>ag_state = (if cf_pipeline cf = AlwaysOn then CIdle else CSleeping), ag_turn = None, ag_live = {}, ag_next = 0,
      ag_first_tts = False, ag_eos = False, ag_awaiting = False, ag_sleep_after = False, ag_greeting = False,
      ag_retry = False, ag_ptt = False, ag_drop_sentence = False, ag_last_sentence = [], ag_last_sentence_at = 0,
      ag_pending = [], ag_last_text = [], ag_speaking_since = 0, ag_response = None, ag_reconnects = 0,
      ag_advertised_gen = None, ag_mic_skip_until = 0, ag_mic_suppress_until = 0, ag_preroll = [],
      ag_timer = (\<lambda>k. None), ag_asleep = {}, ag_unfinished = {}, ag_barge_owner = None, ag_barge_deferred = 0,
      ag_drain_deadline = 0, ag_tools = {}, ag_clock = 0, ag_backoff = 500, ag_link = lk,
      ag_vad = \<lparr>vd_speech = False, vd_speech_ms = 0, vd_silence_ms = 0, vd_eos_sent = False, vd_echo = False\<rparr>,
      ag_gate = \<lparr>gt_open = False, gt_opened_at = 0, gt_last_loud = 0\<rparr>,
      ag_audio = \<lparr>au_buffer = [], au_playing = False, au_discard = False, au_response = None, au_device_bytes = 0,
        au_source_sr = output_sr, au_output_sr = output_sr\<rparr>,
      ag_log = []\<rparr>"

subsection \<open>The utterance that is being heard\<close>

definition keep_segment :: "cptext \<Rightarrow> agent \<Rightarrow> agent" where
  "keep_segment text s =
     (let seg = cp_strip text
      in if seg = [] then s else log_deed (Kept seg) (s\<lparr>ag_pending := join_segments (ag_pending s) seg\<rparr>))"

definition clear_pending :: "agent \<Rightarrow> agent" where
  "clear_pending s = log_deed Dropped (s\<lparr>ag_pending := []\<rparr>)"

subsection \<open>Timers\<close>

text \<open>
  \<open>task.cancel()\<close> of a task that is still asleep ends it.  One that has begun gets the cancellation at
  its next await; here any await may end with it.
\<close>

definition cancel_timer :: "timer \<Rightarrow> agent \<Rightarrow> agent" where
  "cancel_timer k s =
     (case ag_timer s k of
        None \<Rightarrow> s
      | Some n \<Rightarrow> s\<lparr>ag_timer := (ag_timer s)(k := None), ag_asleep := ag_asleep s - {(k, n)},
                   ag_unfinished := (if (k, n) \<in> ag_asleep s then ag_unfinished s - {(k, n)} else ag_unfinished s)\<rparr>)"

definition start_timer :: "timer \<Rightarrow> agent \<Rightarrow> agent" where
  "start_timer k s =
     s\<lparr>ag_timer := (ag_timer s)(k \<mapsto> ag_next s), ag_asleep := insert (k, ag_next s) (ag_asleep s),
       ag_unfinished := insert (k, ag_next s) (ag_unfinished s), ag_next := ag_next s + 1\<rparr>"

definition arm_timer :: "timer \<Rightarrow> agent \<Rightarrow> agent" where
  "arm_timer k s = start_timer k (cancel_timer k s)"

definition timer_unfinished :: "timer \<Rightarrow> agent \<Rightarrow> bool" where
  "timer_unfinished k s = (case ag_timer s k of Some n \<Rightarrow> (k, n) \<in> ag_unfinished s | None \<Rightarrow> False)"

definition reset_sleep_timer :: "app_config \<Rightarrow> agent \<Rightarrow> agent" where
  "reset_sleep_timer cf s = (if cf_pipeline cf = AlwaysOn then s else arm_timer SleepTimer s)"

definition ensure_sleep_timer :: "app_config \<Rightarrow> agent \<Rightarrow> agent" where
  "ensure_sleep_timer cf s =
     (if cf_pipeline cf = AlwaysOn \<or> timer_unfinished SleepTimer s then s else reset_sleep_timer cf s)"

definition arm_wake_timeout :: "app_config \<Rightarrow> agent \<Rightarrow> agent" where
  "arm_wake_timeout cf s =
     (let s1 = cancel_timer WakeCommand s
      in if wake_single_turn cf \<and> cf_wake_timeout cf then start_timer WakeCommand s1 else s1)"

definition arm_stall_watchdog :: "app_config \<Rightarrow> agent \<Rightarrow> agent" where
  "arm_stall_watchdog cf s = (if cf_stall_eos cf then arm_timer StallWatchdog s else s)"

definition arm_barge_in_eos :: "app_config \<Rightarrow> agent \<Rightarrow> agent" where
  "arm_barge_in_eos cf s =
     (let s1 = cancel_timer BargeInEos s
      in if \<not> cf_drive_eos cf \<or> vd_speech (ag_vad s1) then s1
         else (start_timer BargeInEos s1)\<lparr>ag_barge_owner := lk_ws (ag_link s1), ag_barge_deferred := 0\<rparr>)"

text \<open>The drain's deadline is taken by the task itself; nothing runs between its creation and its first step.\<close>

definition start_drain :: "app_config \<Rightarrow> agent \<Rightarrow> agent" where
  "start_drain cf s = (start_timer Drain s)\<lparr>ag_drain_deadline := ag_clock s + max 100 (cf_drain_timeout_ms cf)\<rparr>"

subsection \<open>Tones\<close>

definition play_tone :: "tone option \<Rightarrow> agent \<Rightarrow> agent" where
  "play_tone tone s =
     (case tone of
        None \<Rightarrow> s
      | Some t \<Rightarrow> (on_output (play_notification (tn_pcm t)) s)
          \<lparr>ag_mic_suppress_until := max (ag_mic_suppress_until s) (ag_clock s + tn_suppress_ms t)\<rparr>)"

text \<open>A new reply's first text goes out (the callback of the client).\<close>

definition on_reply_text_sent :: "agent \<Rightarrow> agent" where
  "on_reply_text_sent s = (if ag_awaiting s then on_output arm_for_next_turn (s\<lparr>ag_awaiting := False\<rparr>) else s)"

definition barge_in_delay_elapsed :: "app_config \<Rightarrow> agent \<Rightarrow> bool" where
  "barge_in_delay_elapsed cf s \<longleftrightarrow>
     cf_barge_min_speaking_ms cf \<le> (if ag_speaking_since s = 0 then 99999 else ag_clock s - ag_speaking_since s)"

section \<open>Awaits\<close>

datatype aexn = Cancelled | NotImplemented | Unavailable | NetFailed | Failed

text \<open>
  What the coroutines await: a plugin hook, the client's operations, another task, a sleep, or the
  application's own code.
\<close>

datatype ag_op =
    OpHook string
  | OpReconnect
  | OpAbort bool
  | OpTruncate nat
  | OpAsrEos "nat option option"
  | OpSpeak cptext
  | OpSendText cptext
  | OpFlush
  | OpAdvertise
  | OpSendAudio "nat list"
  | OpToolResult nat bool
  | OpRunTool nat
  | OpJoinTurn nat
  | OpSleep nat
  | OpApp

type_synonym 'a app = "(agent, ag_op, aexn, 'a) co"

text \<open>
  A hook's own exceptions end in \<open>_safe_call\<close>, and a sleep raises nothing; both may be cancelled.  A task
  that is awaited goes on only when the other has ended, whatever it ends with.
\<close>

definition app_may_resume :: "ag_op \<Rightarrow> aexn option \<Rightarrow> agent \<Rightarrow> bool" where
  "app_may_resume op r s \<longleftrightarrow>
     (case op of
        OpHook h \<Rightarrow> r = None \<or> r = Some Cancelled
      | OpSleep n \<Rightarrow> r = None \<or> r = Some Cancelled
      | OpJoinTurn n \<Rightarrow> n \<notin> ag_live s
      | _ \<Rightarrow> True)"

definition hook :: "string \<Rightarrow> unit app" where
  "hook h = co_await (OpHook h)"

text \<open>\<open>try: ... except Exception:\<close>, which lets a cancellation through.\<close>

definition catching :: "'a app \<Rightarrow> 'a app \<Rightarrow> 'a app" where
  "catching m h = co_try m (\<lambda>e. if e = Cancelled then co_raise Cancelled else h)"

definition ignoring :: "unit app \<Rightarrow> unit app" where
  "ignoring m = catching m (co_return ())"

section \<open>The coroutines of the agent\<close>

text \<open>
  The running turn is cancelled and waited for; \<open>except (CancelledError, Exception): pass\<close>.
\<close>

definition cancel_turn :: "unit app" where
  "cancel_turn =
     co_with ag_turn (\<lambda>t.
       case t of
         None \<Rightarrow> co_return ()
       | Some n \<Rightarrow> co_when (\<lambda>s. n \<in> ag_live s) (co_try (co_await (OpJoinTurn n)) (\<lambda>e. co_return ())) (co_return ()))"

definition readvertise :: "app_config \<Rightarrow> unit app" where
  "readvertise cf =
     (if \<not> cf_server_loop cf then co_return ()
      else ignoring (co_seq [co_await OpAdvertise, co_modify (\<lambda>s. s\<lparr>ag_advertised_gen := Some (lk_gen (ag_link s))\<rparr>)]))"

definition readvertise_if_advanced :: "app_config \<Rightarrow> unit app" where
  "readvertise_if_advanced cf =
     (if \<not> cf_server_loop cf then co_return ()
      else co_when (\<lambda>s. Some (lk_gen (ag_link s)) \<noteq> ag_advertised_gen s) (readvertise cf) (co_return ()))"

definition count_reconnect :: "agent \<Rightarrow> agent" where
  "count_reconnect s = s\<lparr>ag_reconnects := ag_reconnects s + 1\<rparr>"

definition send_eos_once :: "nat option option \<Rightarrow> bool app" where
  "send_eos_once only_on_ws =
     co_when ag_eos (co_return False)
       (co_then (co_seq [co_modify (\<lambda>s. log_deed SentEos (s\<lparr>ag_eos := True\<rparr>)),
                         ignoring (co_await (OpAsrEos only_on_ws)),
                         co_modify (arm_timer AsrWatchdog)])
          (co_return True))"

definition eos_then_done :: "nat option option \<Rightarrow> unit app" where
  "eos_then_done only_on_ws = co_bind (send_eos_once only_on_ws) (\<lambda>sent. co_return ())"

subsection \<open>Text to speak\<close>

text \<open>\<open>send_text\<close> and \<open>flush_tts\<close> of the client; the first tells the agent only of a text that is not empty.\<close>

definition send_text :: "cptext \<Rightarrow> unit app" where
  "send_text t = co_seq [co_modify (if t = [] then id else on_reply_text_sent), co_await (OpSendText t)]"

definition flush_tts :: "unit app" where
  "flush_tts = co_seq [co_modify on_reply_text_sent, co_await OpFlush]"

definition speak_text :: "app_config \<Rightarrow> cptext \<Rightarrow> unit app" where
  "speak_text cf t =
     (if cp_strip t = [] then co_return ()
      else co_then (co_modify on_reply_text_sent)
             (if cf_v2 cf then co_await (OpSpeak t) else co_seq [send_text t, flush_tts]))"

subsection \<open>Sleep and wake\<close>

definition sleep_now :: "agent \<Rightarrow> agent" where
  "sleep_now s =
     cancel_timer SleepTimer (enter_state CSleeping
       ((cancel_timer Drain (clear_pending (cancel_timer WakeCommand (on_output stop_playback s))))\<lparr>ag_first_tts := False\<rparr>))"

definition sleep_app :: "unit app" where
  "sleep_app =
     co_when (\<lambda>s. ag_state s = CSleeping) (co_return ())
       (co_seq [ignoring (hook ''on_sleep''), cancel_turn, ignoring (co_await (OpAbort False)), co_modify sleep_now])"

definition speak_wake_reply :: "app_config \<Rightarrow> unit app" where
  "speak_wake_reply cf =
     (if cf_wake_reply cf = [] then co_return ()
      else catching (co_seq [co_modify (\<lambda>s. s\<lparr>ag_greeting := True\<rparr>), hook ''on_wake_reply'', speak_text cf (cf_wake_reply cf)])
             (co_modify (\<lambda>s. s\<lparr>ag_greeting := False\<rparr>)))"

definition awake_now :: "app_config \<Rightarrow> agent \<Rightarrow> agent" where
  "awake_now cf s =
     play_tone (cf_wake_tone cf) (arm_wake_timeout cf (reset_sleep_timer cf (enter_state CIdle (on_output arm_for_next_turn s))))"

definition wake_up :: "app_config \<Rightarrow> unit app" where
  "wake_up cf = co_seq [ignoring (hook ''on_wake''), co_modify (awake_now cf), speak_wake_reply cf]"

text \<open>The connection is renewed when it is dead, stale or always; when that fails the agent stays asleep.\<close>

definition wake_needs_reconnect :: "app_config \<Rightarrow> agent \<Rightarrow> bool" where
  "wake_needs_reconnect cf s \<longleftrightarrow>
     cf_reconnect_on_wake cf \<or> \<not> lk_healthy (ag_link s) \<or> 30000 < lk_idle_ms (ag_link s)"

definition wake_reconnect :: "app_config \<Rightarrow> bool app" where
  "wake_reconnect cf =
     co_try (co_then (co_seq [co_await OpReconnect, co_modify count_reconnect, ignoring (hook ''on_slv_reconnect''), readvertise cf])
               (co_return True))
       (\<lambda>e. case e of
              Cancelled \<Rightarrow> co_raise Cancelled
            | NetFailed \<Rightarrow> co_then (ignoring (hook ''on_wake_failed'')) (co_return False)
            | _ \<Rightarrow> co_return False)"

definition skip_wake_word :: "app_config \<Rightarrow> bool \<Rightarrow> agent \<Rightarrow> agent" where
  "skip_wake_word cf local_audio s =
     (if local_audio \<and> 0 < cf_wake_mic_skip_ms cf then s\<lparr>ag_mic_skip_until := ag_clock s + cf_wake_mic_skip_ms cf\<rparr> else s)"

definition wake :: "app_config \<Rightarrow> bool \<Rightarrow> unit app" where
  "wake cf local_audio =
     co_then (co_modify (skip_wake_word cf local_audio))
       (co_when (\<lambda>s. ag_state s \<noteq> CSleeping) (co_return ())
          (co_when (wake_needs_reconnect cf)
             (co_bind (wake_reconnect cf) (\<lambda>ok. if ok then wake_up cf else co_return ()))
             (wake_up cf)))"

definition return_to_sleep :: "app_config \<Rightarrow> agent \<Rightarrow> agent" where
  "return_to_sleep cf s =
     (let s1 = cancel_timer WakeCommand s
      in if ag_state s1 = CSleeping then s1
         else enter_state CSleeping (play_tone (cf_sleep_tone cf)
                (clear_pending ((cancel_timer SleepTimer s1)\<lparr>ag_first_tts := False, ag_eos := False, ag_retry := False\<rparr>))))"

definition open_retry_window :: "app_config \<Rightarrow> agent \<Rightarrow> agent" where
  "open_retry_window cf s =
     (let s1 = (cancel_timer SleepTimer (cancel_timer WakeCommand s))\<lparr>ag_first_tts := False, ag_eos := False, ag_retry := False\<rparr>
      in if ag_state s1 \<noteq> CBargedIn then arm_wake_timeout cf (enter_state CIdle s1) else s1)"

subsection \<open>The end of an assistant turn\<close>

definition greeting_over :: "app_config \<Rightarrow> agent \<Rightarrow> agent" where
  "greeting_over cf s =
     (let s1 = s\<lparr>ag_greeting := False\<rparr>
      in if ag_state s1 = CBargedIn then s1
         else (let s2 = reset_sleep_timer cf (enter_state CIdle s1)
               in if wake_single_turn cf then arm_wake_timeout cf s2 else s2))"

definition turn_over :: "app_config \<Rightarrow> agent \<Rightarrow> agent" where
  "turn_over cf s =
     (if ag_state s = CBargedIn then s
      else if wake_single_turn cf then return_to_sleep cf s
      else reset_sleep_timer cf (enter_state CIdle s))"

definition complete_assistant_turn :: "app_config \<Rightarrow> unit app" where
  "complete_assistant_turn cf =
     co_when ag_sleep_after
       (co_seq [co_modify (\<lambda>s. s\<lparr>ag_sleep_after := False\<rparr>), sleep_app, hook ''on_assistant_done''])
       (co_when ag_greeting (co_seq [co_modify (greeting_over cf), hook ''on_assistant_done''])
          (co_when (\<lambda>s. ag_state s \<noteq> CBargedIn \<and> wake_single_turn cf \<and> ag_retry s)
             (co_seq [co_modify (open_retry_window cf), hook ''on_assistant_done''])
             (co_seq [co_modify (turn_over cf), hook ''on_assistant_done''])))"

definition no_final_feedback :: "app_config \<Rightarrow> bool app" where
  "no_final_feedback cf =
     (let t = cp_strip (cf_no_final_text cf)
      in if t = [] then co_return False
         else catching
                (co_then (co_seq [co_modify (\<lambda>s. s\<lparr>ag_retry := True\<rparr>), hook ''on_assistant_sentence_start'',
                                  send_text t, flush_tts])
                   (co_return True))
                (co_then (co_modify (\<lambda>s. s\<lparr>ag_retry := False\<rparr>)) (co_return False)))"

definition no_final_or_sleep :: "app_config \<Rightarrow> unit app" where
  "no_final_or_sleep cf =
     co_bind (no_final_feedback cf) (\<lambda>spoken.
       if spoken then co_return ()
       else co_seq [co_modify (return_to_sleep cf), hook ''on_assistant_done''])"

subsection \<open>Barge-in\<close>

definition interrupted :: "app_config \<Rightarrow> agent \<Rightarrow> agent" where
  "interrupted cf s =
     arm_barge_in_eos cf ((cancel_timer AsrWatchdog (s\<lparr>ag_eos := False\<rparr>))
       \<lparr>ag_first_tts := False, ag_sleep_after := False, ag_greeting := False\<rparr>)"

definition interrupt_current_turn :: "app_config \<Rightarrow> unit app" where
  "interrupt_current_turn cf =
     co_then cancel_turn
       (co_with (\<lambda>s. playback_position_ms (ag_response s) (ag_audio s)) (\<lambda>ms.
          co_seq [co_modify (on_output stop_playback), ignoring (co_await (OpAbort True)),
                  ignoring (co_await (OpTruncate ms)), co_modify (interrupted cf)]))"

subsection \<open>The timers\<close>

text \<open>What a timer does when its sleep is over; the value says whether it sleeps once more.\<close>

definition asr_final_watchdog :: "app_config \<Rightarrow> unit app" where
  "asr_final_watchdog cf =
     co_when (\<lambda>s. \<not> ag_eos s) (co_return ())
       (co_when (\<lambda>s. ag_state s \<noteq> CThinking) (co_modify (\<lambda>s. s\<lparr>ag_eos := False\<rparr>))
          (co_then (co_modify (\<lambda>s. (clear_pending s)\<lparr>ag_eos := False\<rparr>))
             (if wake_single_turn cf then no_final_or_sleep cf else co_modify (enter_state CIdle))))"

definition thinking_over :: "app_config \<Rightarrow> agent \<Rightarrow> agent" where
  "thinking_over cf s = reset_sleep_timer cf (enter_state CIdle (s\<lparr>ag_first_tts := False, ag_eos := False\<rparr>))"

definition thinking_watchdog :: "app_config \<Rightarrow> unit app" where
  "thinking_watchdog cf =
     co_when (\<lambda>s. ag_state s \<noteq> CThinking) (co_return ())
       (co_seq [cancel_turn, ignoring (co_await (OpAbort False)),
                ignoring (co_seq [co_await OpReconnect, co_modify count_reconnect, hook ''on_slv_reconnect'', readvertise cf]),
                co_modify (thinking_over cf)])"

definition stall_eos_watchdog :: "unit app" where
  "stall_eos_watchdog =
     co_when (\<lambda>s. (ag_state s \<noteq> CIdle \<and> ag_state s \<noteq> CListening) \<or> ag_eos s) (co_return ())
       (ignoring (eos_then_done None))"

definition wake_command_timeout :: "app_config \<Rightarrow> unit app" where
  "wake_command_timeout cf =
     co_when (\<lambda>s. wake_single_turn cf \<and> (ag_state s = CIdle \<or> ag_state s = CListening))
       (co_then (co_modify (enter_state CThinking)) (catching (eos_then_done None) (co_modify (return_to_sleep cf))))
       (co_return ())"

definition sleep_after :: "unit app" where
  "sleep_after = co_when (\<lambda>s. ag_state s = CIdle) sleep_app (co_return ())"

definition barge_in_defers :: "agent \<Rightarrow> bool" where
  "barge_in_defers s \<longleftrightarrow> 0 < vd_speech_ms (ag_vad s) \<and> ag_barge_deferred s < 5000"

definition barge_in_eos :: "app_config \<Rightarrow> bool app" where
  "barge_in_eos cf =
     co_when (\<lambda>s. vd_speech (ag_vad s) \<or> ag_state s \<noteq> CBargedIn) (co_return False)
       (co_when barge_in_defers
          (co_then (co_modify (\<lambda>s. s\<lparr>ag_barge_deferred := ag_barge_deferred s + cf_vad_silence_ms cf\<rparr>)) (co_return True))
          (co_with ag_barge_owner (\<lambda>owner.
             co_when (\<lambda>s. owner = None \<or> lk_ws (ag_link s) \<noteq> owner) (co_return False)
               (co_then (eos_then_done (Some owner))
                  (co_then (co_modify (\<lambda>s. if ag_state s = CBargedIn
                                           then arm_timer ThinkingWatchdog (enter_state CThinking s) else s))
                     (co_return False))))))"

definition playback_drain :: "app_config \<Rightarrow> bool app" where
  "playback_drain cf =
     co_when (\<lambda>s. ag_state s \<noteq> CBargedIn \<and> is_playing (ag_audio s) \<and> ag_clock s < ag_drain_deadline s)
       (co_return True)
       (co_then (ignoring (complete_assistant_turn cf)) (co_return False))"

definition once :: "unit app \<Rightarrow> bool app" where
  "once m = co_then m (co_return False)"

primrec timer_body :: "app_config \<Rightarrow> timer \<Rightarrow> bool app" where
  "timer_body cf AsrWatchdog = once (asr_final_watchdog cf)"
| "timer_body cf ThinkingWatchdog = once (thinking_watchdog cf)"
| "timer_body cf StallWatchdog = once stall_eos_watchdog"
| "timer_body cf BargeInEos = barge_in_eos cf"
| "timer_body cf WakeCommand = once (wake_command_timeout cf)"
| "timer_body cf SleepTimer = once sleep_after"
| "timer_body cf Drain = playback_drain cf"

definition finish_timer :: "timer \<Rightarrow> nat \<Rightarrow> bool \<Rightarrow> agent \<Rightarrow> agent" where
  "finish_timer k n again s =
     (if again then s\<lparr>ag_asleep := insert (k, n) (ag_asleep s)\<rparr>
      else s\<lparr>ag_unfinished := ag_unfinished s - {(k, n)}\<rparr>)"

definition timer_fires :: "app_config \<Rightarrow> timer \<Rightarrow> nat \<Rightarrow> unit app" where
  "timer_fires cf k n =
     co_then (co_modify (\<lambda>s. s\<lparr>ag_asleep := ag_asleep s - {(k, n)}\<rparr>))
       (co_try (co_bind (timer_body cf k) (\<lambda>again. co_modify (finish_timer k n again)))
          (\<lambda>e. co_then (co_modify (finish_timer k n False)) (co_raise e)))"

subsection \<open>The client's speech detection\<close>

definition speech_onset :: "agent \<Rightarrow> agent" where
  "speech_onset s =
     (let s1 = cancel_timer BargeInEos
                 (on_vad (\<lambda>v. v\<lparr>vd_speech := True, vd_silence_ms := 0, vd_eos_sent := False, vd_echo := False\<rparr>) s)
      in if ag_state s1 = CThinking \<and> ag_eos s1 then cancel_timer AsrWatchdog (s1\<lparr>ag_eos := False\<rparr>) else s1)"

definition may_barge_in :: "app_config \<Rightarrow> agent \<Rightarrow> bool" where
  "may_barge_in cf s \<longleftrightarrow> is_playing (ag_audio s) \<and> ag_state s = CSpeaking \<and> barge_in_enabled cf"

definition quiet_onset :: "app_config \<Rightarrow> agent \<Rightarrow> agent" where
  "quiet_onset cf s =
     (if may_barge_in cf s then on_vad (\<lambda>v. v\<lparr>vd_echo := True\<rparr>) s
      else if is_playing (ag_audio s) then s
      else enter_state CListening s)"

definition vad_idle_chunk :: "app_config \<Rightarrow> bool \<Rightarrow> unit app" where
  "vad_idle_chunk cf is_speech =
     (if \<not> is_speech then co_modify (on_vad (\<lambda>v. v\<lparr>vd_speech_ms := 0\<rparr>))
      else co_then (co_modify (on_vad (\<lambda>v. v\<lparr>vd_speech_ms := vd_speech_ms v + cf_chunk_ms cf\<rparr>)))
             (co_when (\<lambda>s. vd_speech_ms (ag_vad s) < cf_vad_speech_min_ms cf) (co_return ())
                (co_then (co_modify speech_onset)
                   (co_when (\<lambda>s. may_barge_in cf s \<and> barge_in_delay_elapsed cf s)
                      (co_then (co_modify (enter_state CBargedIn)) (interrupt_current_turn cf))
                      (co_modify (quiet_onset cf))))))"

definition speech_over :: "app_config \<Rightarrow> unit app" where
  "speech_over cf =
     co_seq [hook ''on_user_speech_end_client'',
             if cf_drive_eos cf then eos_then_done None else co_return (),
             co_modify (\<lambda>s. on_vad (\<lambda>v. v\<lparr>vd_eos_sent := True\<rparr>) (arm_timer ThinkingWatchdog (enter_state CThinking s)))]"

definition vad_speech_chunk :: "app_config \<Rightarrow> bool \<Rightarrow> unit app" where
  "vad_speech_chunk cf is_speech =
     (if is_speech then co_modify (on_vad (\<lambda>v. v\<lparr>vd_silence_ms := 0\<rparr>))
      else co_then (co_modify (on_vad (\<lambda>v. v\<lparr>vd_silence_ms := vd_silence_ms v + cf_chunk_ms cf\<rparr>)))
             (co_when (\<lambda>s. vd_silence_ms (ag_vad s) < cf_vad_silence_ms cf) (co_return ())
                (co_then
                   (co_when (\<lambda>s. vd_echo (ag_vad s) \<and> ag_state s = CSpeaking)
                      (co_modify (on_vad (\<lambda>v. v\<lparr>vd_eos_sent := True\<rparr>)))
                      (co_when (\<lambda>s. vd_eos_sent (ag_vad s)) (co_return ()) (speech_over cf)))
                   (co_modify (on_vad (\<lambda>v. v\<lparr>vd_speech := False, vd_speech_ms := 0, vd_silence_ms := 0\<rparr>))))))"

definition update_vad :: "app_config \<Rightarrow> bool \<Rightarrow> unit app" where
  "update_vad cf is_speech =
     co_when (\<lambda>s. ag_state s = CSleeping \<or> (cf_pipeline cf = PushToTalk \<and> cf_ptt_no_vad_silence cf)) (co_return ())
       (co_when (\<lambda>s. vd_speech (ag_vad s)) (vad_speech_chunk cf is_speech) (vad_idle_chunk cf is_speech))"

subsection \<open>The microphone\<close>

definition send_audio :: "nat list \<Rightarrow> unit app" where
  "send_audio pcm =
     co_when (\<lambda>s. lk_reconnecting (ag_link s)) (co_return ()) (ignoring (co_await (OpSendAudio pcm)))"

definition mic_muted :: "app_config \<Rightarrow> agent \<Rightarrow> bool" where
  "mic_muted cf s \<longleftrightarrow>
     ag_state s = CSleeping
     \<or> (cf_drop_while_speaking cf \<and> (ag_state s = CSpeaking \<or> ag_state s = CThinking))
     \<or> lk_reconnecting (ag_link s)
     \<or> ag_clock s < ag_mic_skip_until s
     \<or> ag_clock s < ag_mic_suppress_until s"

definition preroll_chunks :: "app_config \<Rightarrow> nat" where
  "preroll_chunks cf = max 1 (400 div max 1 (cf_chunk_ms cf))"

definition forward_chunk :: "nat list \<Rightarrow> unit app" where
  "forward_chunk chunk =
     co_with ag_preroll (\<lambda>buffered.
       co_then (co_modify (\<lambda>s. s\<lparr>ag_preroll := []\<rparr>))
         (co_then (co_seq (map send_audio buffered)) (send_audio chunk)))"

text \<open>
  The loudness of a chunk against the gate's two thresholds.  While the gate is closed the service gets
  silence and the real audio is kept for when it opens; at its closing the utterance may be ended.
\<close>

datatype loudness = Loud | Middling | Soft

definition open_gate :: "app_config \<Rightarrow> nat \<Rightarrow> unit app" where
  "open_gate cf now =
     co_then
       (co_when (\<lambda>s. gt_open (ag_gate s)) (co_return ())
          (co_then (co_modify (\<lambda>s. s\<lparr>ag_gate := (ag_gate s)\<lparr>gt_opened_at := now\<rparr>\<rparr>))
             (co_with ag_preroll (\<lambda>buffered.
                co_then (co_modify (\<lambda>s. s\<lparr>ag_preroll := []\<rparr>)) (co_seq (map (\<lambda>c. send_audio (cf_gain cf c)) buffered))))))
       (co_modify (\<lambda>s. s\<lparr>ag_gate := (ag_gate s)\<lparr>gt_open := True, gt_last_loud := now\<rparr>\<rparr>))"

definition gate_ends_speech :: "app_config \<Rightarrow> mic_gate \<Rightarrow> bool" where
  "gate_ends_speech cf g \<longleftrightarrow>
     gt_open g \<and> cf_gate_drive_eos cf \<and> cf_gate_min_speech_ms cf \<le> gt_last_loud g - gt_opened_at g"

definition run_gate :: "app_config \<Rightarrow> nat \<Rightarrow> loudness \<Rightarrow> bool app" where
  "run_gate cf now level =
     (case level of
        Loud \<Rightarrow> co_then (open_gate cf now) (co_return False)
      | Middling \<Rightarrow> co_return False
      | Soft \<Rightarrow>
          co_when (\<lambda>s. now - gt_last_loud (ag_gate s) < cf_gate_hangover_ms cf) (co_return False)
            (co_with (\<lambda>s. gate_ends_speech cf (ag_gate s)) (\<lambda>ends.
               co_then (co_modify (\<lambda>s. s\<lparr>ag_gate := (ag_gate s)\<lparr>gt_open := False\<rparr>\<rparr>)) (co_return ends))))"

definition gate_eos :: "app_config \<Rightarrow> unit app" where
  "gate_eos cf =
     co_then (if 0 < cf_gate_eos_delay_ms cf then co_await (OpSleep (cf_gate_eos_delay_ms cf)) else co_return ())
       (ignoring (co_bind (send_eos_once None) (\<lambda>sent.
          if sent then co_modify (\<lambda>s. enter_state CThinking (cancel_timer WakeCommand s)) else co_return ())))"

definition gated_chunk :: "app_config \<Rightarrow> nat list \<Rightarrow> loudness \<Rightarrow> unit app" where
  "gated_chunk cf chunk level =
     (if cf_gate cf
      then co_with ag_clock (\<lambda>now.
             co_bind (run_gate cf now level) (\<lambda>ends.
               co_then
                 (co_when (\<lambda>s. gt_open (ag_gate s)) (send_audio (cf_gain cf chunk))
                    (co_then (co_modify (\<lambda>s. s\<lparr>ag_preroll := ring_append (preroll_chunks cf) chunk (ag_preroll s)\<rparr>))
                       (send_audio (replicate (length chunk) 0))))
                 (if ends then gate_eos cf else co_return ())))
      else send_audio (cf_gain cf chunk))"

definition mic_dropped :: "agent \<Rightarrow> agent" where
  "mic_dropped s = s\<lparr>ag_preroll := [], ag_gate := \<lparr>gt_open = False, gt_opened_at = 0, gt_last_loud = 0\<rparr>\<rparr>"

definition mic_chunk :: "app_config \<Rightarrow> nat list \<Rightarrow> bool \<Rightarrow> loudness \<Rightarrow> unit app" where
  "mic_chunk cf chunk is_speech level =
     co_when (mic_muted cf) (co_modify mic_dropped)
       (if \<not> cf_client_vad cf then gated_chunk cf chunk level
        else co_then (ignoring (update_vad cf is_speech))
               (co_when (\<lambda>s. vd_speech (ag_vad s)) (forward_chunk chunk)
                  (co_modify (\<lambda>s. s\<lparr>ag_preroll := ring_append (preroll_chunks cf) chunk (ag_preroll s)\<rparr>))))"

section \<open>Events of the speech service\<close>

datatype agent_event =
    ASRPartial cptext
  | ASREndpoint
  | ASRFinal cptext bool bool
  | InputAudioSpeechStarted
  | InputAudioSpeechStopped
  | InputAudioCommitted
  | ConversationItemTruncated
  | ConversationResetDone
  | TTSStarted cptext
  | ResponseCreated cptext
  | TTSAudio "nat list" nat
  | TTSSentenceDone
  | ResponseOutputAudioDone
  | AssistantTranscriptDelta
  | AssistantTranscriptDone
  | ResponseDone bool
  | TTSDone
  | SLVError
  | ServerToolCall server_tool

text \<open>Events of a reply; they are ignored while a superseded reply is being replaced.\<close>

fun of_a_reply :: "agent_event \<Rightarrow> bool" where
  "of_a_reply (TTSAudio pcm sr) = True"
| "of_a_reply (TTSStarted t) = True"
| "of_a_reply TTSSentenceDone = True"
| "of_a_reply TTSDone = True"
| "of_a_reply ResponseOutputAudioDone = True"
| "of_a_reply (ResponseDone b) = True"
| "of_a_reply AssistantTranscriptDelta = True"
| "of_a_reply AssistantTranscriptDone = True"
| "of_a_reply ev = False"

subsection \<open>Partials and speech starts\<close>

definition partial_barge_in :: "app_config \<Rightarrow> unit app" where
  "partial_barge_in cf =
     co_when (\<lambda>s. (ag_state s = CSpeaking \<or> ag_state s = CBargedIn) \<and> is_playing (ag_audio s) \<and> barge_in_enabled cf)
       (co_seq [co_modify (enter_state CBargedIn), cancel_turn, interrupt_current_turn cf])
       (co_return ())"

definition arm_stall_if_listening :: "app_config \<Rightarrow> agent \<Rightarrow> agent" where
  "arm_stall_if_listening cf s =
     (if ag_state s = CIdle \<or> ag_state s = CListening then arm_stall_watchdog cf s else s)"

definition asr_partial :: "app_config \<Rightarrow> cptext \<Rightarrow> unit app" where
  "asr_partial cf t =
     (if cp_strip t = [] then co_return ()
      else co_then (co_modify (arm_stall_if_listening cf))
             (co_when (\<lambda>s. length (cp_strip t) < cf_barge_min_chars cf \<or> \<not> barge_in_delay_elapsed cf s) (co_return ())
                (co_seq [partial_barge_in cf, hook ''on_user_partial'', co_await OpApp])))"

definition speech_started :: "app_config \<Rightarrow> unit app" where
  "speech_started cf =
     co_then (hook ''on_user_speech_start'')
       (co_when (\<lambda>s. may_barge_in cf s \<and> barge_in_delay_elapsed cf s)
          (co_seq [co_modify (enter_state CBargedIn), cancel_turn, interrupt_current_turn cf])
          (co_return ()))"

subsection \<open>Finals\<close>

definition is_stop :: "app_config \<Rightarrow> cptext \<Rightarrow> bool" where
  "is_stop cf t = says_one_of (cf_text cf) (cf_stop_words cf) t"

definition is_exit :: "app_config \<Rightarrow> cptext \<Rightarrow> bool" where
  "is_exit cf t = is_exit_intent (cf_text cf) (cf_exit_words cf) (cf_wake_phrases cf) t"

definition duplicate_final :: "app_config \<Rightarrow> agent \<Rightarrow> agent" where
  "duplicate_final cf s = (if ag_state s = CThinking then reset_sleep_timer cf (enter_state CIdle s) else s)"

definition reconnect_after_final :: "app_config \<Rightarrow> unit app" where
  "reconnect_after_final cf =
     ignoring (co_seq [co_await OpReconnect, co_modify (\<lambda>s. (count_reconnect s)\<lparr>ag_first_tts := False\<rparr>),
                       hook ''on_slv_reconnect'', readvertise cf])"

definition ignored_final :: "app_config \<Rightarrow> bool \<Rightarrow> cptext \<Rightarrow> agent \<Rightarrow> bool" where
  "ignored_final cf had_eos t s \<longleftrightarrow>
     low_signal (cf_text cf) t \<and> \<not> (is_stop cf t \<or> is_exit cf t) \<and> \<not> (had_eos \<and> ag_pending s \<noteq> [])"

definition low_signal_final :: "app_config \<Rightarrow> bool \<Rightarrow> unit app" where
  "low_signal_final cf had_eos =
     co_then (co_modify (on_output arm_for_next_turn))
       (co_when (\<lambda>s. (ag_state s = CListening \<or> ag_state s = CBargedIn) \<and> ag_pending s = [])
          (co_modify (\<lambda>s. ensure_sleep_timer cf (enter_state CIdle s)))
          (co_when (\<lambda>s. ag_state s = CThinking \<and> had_eos)
             (if wake_single_turn cf then no_final_or_sleep cf
              else co_modify (\<lambda>s. ensure_sleep_timer cf (enter_state CIdle s)))
             (co_return ())))"

definition mid_utterance :: "app_config \<Rightarrow> bool \<Rightarrow> agent \<Rightarrow> bool" where
  "mid_utterance cf had_eos s \<longleftrightarrow>
     cf_drive_eos cf \<and> \<not> had_eos \<and> (ag_state s = CListening \<or> ag_state s = CBargedIn)"

definition segment_final :: "cptext \<Rightarrow> unit app" where
  "segment_final t =
     co_seq [co_modify (\<lambda>s. cancel_timer WakeCommand (keep_segment t s)), hook ''on_user_utterance'']"

text \<open>The utterance ends: what was kept and the last final become its text.\<close>

definition take_utterance :: "cptext \<Rightarrow> agent \<Rightarrow> agent" where
  "take_utterance final s =
     (let full = join_segments (ag_pending s) final
      in cancel_timer WakeCommand (log_deed (Utterance final full) (s\<lparr>ag_pending := [], ag_last_text := full\<rparr>)))"

definition supersedes :: "app_config \<Rightarrow> agent \<Rightarrow> bool" where
  "supersedes cf s \<longleftrightarrow> is_playing (ag_audio s) \<and> barge_in_enabled cf \<and> \<not> cf_server_loop cf"

definition supersede_reply :: "app_config \<Rightarrow> unit app" where
  "supersede_reply cf =
     co_when (supersedes cf)
       (co_seq [co_modify (cancel_timer Drain), interrupt_current_turn cf,
                co_modify (\<lambda>s. s\<lparr>ag_response := None, ag_awaiting := True\<rparr>)])
       (co_modify (\<lambda>s. on_output arm_for_next_turn (s\<lparr>ag_awaiting := False\<rparr>)))"

definition fresh_utterance_round :: "agent \<Rightarrow> agent" where
  "fresh_utterance_round s =
     (on_vad (\<lambda>v. v\<lparr>vd_speech := False, vd_speech_ms := 0, vd_silence_ms := 0, vd_eos_sent := False\<rparr>) s)\<lparr>ag_eos := False\<rparr>"

definition say_farewell :: "app_config \<Rightarrow> unit app" where
  "say_farewell cf =
     co_seq [co_modify (\<lambda>s. let s1 = on_output arm_for_next_turn (s\<lparr>ag_sleep_after := True\<rparr>)
                            in if ag_state s1 = CBargedIn then enter_state CIdle s1 else s1),
             hook ''on_assistant_sentence_start'', speak_text cf (cf_exit_reply cf)]"

definition stop_or_exit :: "app_config \<Rightarrow> cptext \<Rightarrow> unit app" where
  "stop_or_exit cf full =
     co_then
       (co_seq [co_modify (\<lambda>s. s\<lparr>ag_awaiting := False\<rparr>), cancel_turn, ignoring (co_await (OpAbort False)),
                co_modify (on_output stop_playback),
                if is_exit cf full then hook ''on_user_exit_intent'' else co_return (),
                if is_stop cf full then hook ''on_user_stop_intent'' else co_return ()])
       (if is_exit cf full \<or> cf_stop_to_sleep cf
        then (if cf_exit_reply cf \<noteq> []
              then catching (say_farewell cf)
                     (co_then (co_modify (\<lambda>s. s\<lparr>ag_sleep_after := False\<rparr>)) sleep_app)
              else sleep_app)
        else co_modify (\<lambda>s. reset_sleep_timer cf (enter_state CIdle s)))"

definition create_turn :: "cptext \<Rightarrow> agent \<Rightarrow> agent" where
  "create_turn full s =
     log_deed (Turn (ag_next s) full)
       (s\<lparr>ag_turn := Some (ag_next s), ag_live := insert (ag_next s) (ag_live s), ag_next := ag_next s + 1\<rparr>)"

definition start_turn :: "cptext \<Rightarrow> unit app" where
  "start_turn full =
     co_seq [cancel_turn, co_modify (\<lambda>s. create_turn full (arm_timer ThinkingWatchdog (enter_state CThinking s)))]"

definition utterance_end :: "app_config \<Rightarrow> cptext \<Rightarrow> unit app" where
  "utterance_end cf final =
     co_with (\<lambda>s. join_segments (ag_pending s) final) (\<lambda>full.
       co_then (co_modify (take_utterance final))
         (co_then (co_seq [supersede_reply cf, co_modify fresh_utterance_round, hook ''on_user_utterance''])
            (if is_exit cf full \<or> is_stop cf full then stop_or_exit cf full else start_turn full)))"

definition asr_final :: "app_config \<Rightarrow> cptext \<Rightarrow> bool \<Rightarrow> bool \<Rightarrow> unit app" where
  "asr_final cf t session_complete duplicate =
     co_with ag_eos (\<lambda>had_eos.
       co_then (co_modify (\<lambda>s. (cancel_timer StallWatchdog (cancel_timer AsrWatchdog s))\<lparr>ag_eos := False\<rparr>))
         (co_when (\<lambda>s. duplicate \<and> ag_pending s = []) (co_modify (duplicate_final cf))
            (co_then (if session_complete then reconnect_after_final cf else co_return ())
               (co_when (ignored_final cf had_eos t) (low_signal_final cf had_eos)
                  (co_when (mid_utterance cf had_eos) (segment_final (if duplicate then [] else t))
                     (utterance_end cf (if duplicate then [] else t)))))))"

subsection \<open>Events of a reply\<close>

definition repeats_sentence :: "app_config \<Rightarrow> cptext \<Rightarrow> agent \<Rightarrow> bool" where
  "repeats_sentence cf t s \<longleftrightarrow>
     0 < cf_duplicate_window_ms cf \<and> t \<noteq> [] \<and> t = ag_last_sentence s
     \<and> ag_clock s - ag_last_sentence_at s \<le> cf_duplicate_window_ms cf"

definition tts_started :: "app_config \<Rightarrow> cptext \<Rightarrow> unit app" where
  "tts_started cf sentence =
     co_then (co_modify (cancel_timer ThinkingWatchdog))
       (co_when (repeats_sentence cf (cp_strip sentence)) (co_modify (\<lambda>s. s\<lparr>ag_drop_sentence := True\<rparr>))
          (co_seq [co_modify (\<lambda>s. s\<lparr>ag_drop_sentence := False, ag_last_sentence := cp_strip sentence,
                                    ag_last_sentence_at := ag_clock s\<rparr>),
                   hook ''on_assistant_sentence_start'']))"

definition response_created :: "cptext \<Rightarrow> unit app" where
  "response_created r =
     co_seq [co_modify (\<lambda>s. cancel_timer ThinkingWatchdog (on_output (begin_response_playback r) (s\<lparr>ag_response := Some r\<rparr>))),
             hook ''on_response_created'']"

definition first_frame :: "nat \<Rightarrow> agent \<Rightarrow> agent" where
  "first_frame sr s =
     (if ag_first_tts s then s
      else (enter_state CSpeaking (on_output (set_output_sample_rate sr) (s\<lparr>ag_first_tts := True\<rparr>)))
             \<lparr>ag_speaking_since := ag_clock s\<rparr>)"

definition tts_audio :: "app_config \<Rightarrow> nat list \<Rightarrow> nat \<Rightarrow> unit app" where
  "tts_audio cf pcm sr =
     co_when (\<lambda>s. ag_drop_sentence s \<or> ag_state s = CBargedIn) (co_return ())
       (co_seq [co_modify (first_frame sr), hook ''on_tts_audio_frame'',
                co_modify (on_output (play (cf_resample cf) pcm))])"

definition tts_sentence_done :: "unit app" where
  "tts_sentence_done =
     co_when ag_drop_sentence (co_modify (\<lambda>s. s\<lparr>ag_drop_sentence := False\<rparr>)) (hook ''on_assistant_sentence'')"

text \<open>The reply is complete: at once, or when the speaker has played what it has.\<close>

definition finish_reply :: "app_config \<Rightarrow> unit app" where
  "finish_reply cf =
     (let finish = co_seq [complete_assistant_turn cf, co_modify (\<lambda>s. s\<lparr>ag_first_tts := False, ag_eos := False\<rparr>)]
      in co_when (\<lambda>s. ag_state s \<noteq> CBargedIn)
           (co_then (co_modify (cancel_timer Drain))
              (co_when (\<lambda>s. cf_drain cf \<and> is_playing (ag_audio s)) (co_modify (start_drain cf)) finish))
           finish)"

definition response_done :: "app_config \<Rightarrow> bool \<Rightarrow> unit app" where
  "response_done cf only_function_calls =
     co_then (co_seq [co_modify (\<lambda>s. (cancel_timer ThinkingWatchdog s)\<lparr>ag_response := None, ag_first_tts := False\<rparr>),
                      hook ''on_response_done''])
       (if only_function_calls
        then co_modify (\<lambda>s. if ag_state s = CBargedIn then s else enter_state CThinking s)
        else finish_reply cf)"

definition tts_done :: "app_config \<Rightarrow> unit app" where
  "tts_done cf =
     co_then (co_modify (\<lambda>s. on_output mark_playback_done ((cancel_timer ThinkingWatchdog s)\<lparr>ag_first_tts := False\<rparr>)))
       (finish_reply cf)"

definition slv_error :: "unit app" where
  "slv_error =
     co_then (co_modify (\<lambda>s. clear_pending (cancel_timer ThinkingWatchdog (cancel_timer AsrWatchdog s))))
       (co_with ag_state (\<lambda>old.
          co_seq [hook ''on_error'', cancel_turn,
                  co_modify (if old \<noteq> CSleeping then enter_state CIdle else id)]))"

subsection \<open>Dispatch\<close>

fun handle_event :: "app_config \<Rightarrow> agent_event \<Rightarrow> unit app" where
  "handle_event cf (ASRPartial t) = asr_partial cf t"
| "handle_event cf InputAudioSpeechStarted = speech_started cf"
| "handle_event cf InputAudioSpeechStopped = hook ''on_user_speech_end''"
| "handle_event cf InputAudioCommitted = hook ''on_user_audio_committed''"
| "handle_event cf ConversationItemTruncated = hook ''on_conversation_item_truncated''"
| "handle_event cf ConversationResetDone = hook ''on_conversation_reset''"
| "handle_event cf ASREndpoint = hook ''on_user_speech_start''"
| "handle_event cf (ASRFinal t session_complete duplicate) = asr_final cf t session_complete duplicate"
| "handle_event cf (TTSStarted t) = tts_started cf t"
| "handle_event cf (ResponseCreated r) = response_created r"
| "handle_event cf (TTSAudio pcm sr) = tts_audio cf pcm sr"
| "handle_event cf TTSSentenceDone = tts_sentence_done"
| "handle_event cf ResponseOutputAudioDone =
     co_seq [co_modify (on_output mark_playback_done), hook ''on_response_output_audio_done'']"
| "handle_event cf AssistantTranscriptDelta = hook ''on_assistant_token''"
| "handle_event cf AssistantTranscriptDone = hook ''on_assistant_transcript_done''"
| "handle_event cf (ResponseDone only_function_calls) = response_done cf only_function_calls"
| "handle_event cf TTSDone = tts_done cf"
| "handle_event cf SLVError = slv_error"
| "handle_event cf (ServerToolCall tool) =
     co_modify (\<lambda>s. s\<lparr>ag_tools := insert (ag_next s, tool) (ag_tools s), ag_next := ag_next s + 1\<rparr>)"

text \<open>While the agent sleeps, what was heard starts nothing; only the connection is renewed.\<close>

fun asleep_event :: "app_config \<Rightarrow> agent_event \<Rightarrow> unit app" where
  "asleep_event cf (ASRPartial t) = co_return ()"
| "asleep_event cf ASREndpoint = co_return ()"
| "asleep_event cf (ASRFinal t session_complete duplicate) =
     (if session_complete then reconnect_after_final cf else co_return ())"
| "asleep_event cf ev = handle_event cf ev"

definition dispatch_one :: "app_config \<Rightarrow> agent_event \<Rightarrow> unit app" where
  "dispatch_one cf ev =
     co_when (\<lambda>s. ag_awaiting s \<and> of_a_reply ev) (co_return ())
       (co_then (readvertise_if_advanced cf)
          (co_when (\<lambda>s. ag_state s = CSleeping) (asleep_event cf ev) (handle_event cf ev)))"

definition connection_renewed :: "agent \<Rightarrow> agent" where
  "connection_renewed s =
     (let s1 = clear_pending (cancel_timer AsrWatchdog ((count_reconnect s)\<lparr>ag_first_tts := False, ag_eos := False\<rparr>))
      in if ag_state s1 = CThinking \<or> ag_state s1 = CBargedIn then enter_state CIdle s1 else s1)"

text \<open>One turn of the dispatch loop after the events have run out.\<close>

definition reader_exited :: "app_config \<Rightarrow> unit app" where
  "reader_exited cf =
     co_when (\<lambda>s. lk_healthy (ag_link s)) (co_return ())
       (co_when (\<lambda>s. lk_reconnecting (ag_link s) \<or> lk_evicted (ag_link s)) (co_await (OpSleep 300))
          (catching
             (co_seq [co_await OpReconnect, co_modify connection_renewed, ignoring (hook ''on_slv_reconnect''),
                      readvertise cf, co_modify (\<lambda>s. s\<lparr>ag_backoff := 500\<rparr>)])
             (co_with ag_backoff (\<lambda>b.
                co_seq [co_await (OpSleep b), co_modify (\<lambda>s. s\<lparr>ag_backoff := min (b * 2) 5000\<rparr>)]))))"

section \<open>Language-model turns and tools\<close>

text \<open>
  What the application does with an utterance (\<open>on_user_utterance\<close>): it speaks, waits, gives the
  conversation back when nothing will be spoken, in any order, and may end with any exception.
\<close>

datatype turn_act = Say cptext | Flush | Wait | RestoreIdle

definition restore_idle :: "app_config \<Rightarrow> agent \<Rightarrow> agent" where
  "restore_idle cf s = (if ag_state s = CThinking then reset_sleep_timer cf (enter_state CIdle s) else s)"

fun turn_act_code :: "app_config \<Rightarrow> turn_act \<Rightarrow> unit app" where
  "turn_act_code cf (Say t) = send_text t"
| "turn_act_code cf Flush = flush_tts"
| "turn_act_code cf Wait = co_await OpApp"
| "turn_act_code cf RestoreIdle = co_modify (restore_idle cf)"

definition run_user_utterance :: "app_config \<Rightarrow> turn_act list \<Rightarrow> aexn option \<Rightarrow> unit app" where
  "run_user_utterance cf acts ending =
     co_try (co_then (co_seq (map (turn_act_code cf) acts))
               (case ending of None \<Rightarrow> co_return () | Some e \<Rightarrow> co_raise e))
       (\<lambda>e. case e of
              Cancelled \<Rightarrow> co_raise Cancelled
            | NotImplemented \<Rightarrow> co_modify (enter_state CIdle)
            | _ \<Rightarrow> co_seq [ignoring (hook ''on_error''), co_modify (\<lambda>s. reset_sleep_timer cf (enter_state CIdle s))])"

definition end_turn :: "nat \<Rightarrow> agent \<Rightarrow> agent" where
  "end_turn n s = s\<lparr>ag_live := ag_live s - {n}\<rparr>"

definition turn_task :: "app_config \<Rightarrow> nat \<Rightarrow> turn_act list \<Rightarrow> aexn option \<Rightarrow> unit app" where
  "turn_task cf n acts ending =
     co_then (co_try (run_user_utterance cf acts ending) (\<lambda>e. co_then (co_modify (end_turn n)) (co_raise e)))
       (co_modify (end_turn n))"

definition guard_blocks :: "app_config \<Rightarrow> server_tool \<Rightarrow> agent \<Rightarrow> bool" where
  "guard_blocks cf tool s \<longleftrightarrow>
     cf_guard cf \<and>
     trigger_guard_blocks (cf_text cf) (st_exempt tool \<or> \<not> st_known tool) (ag_last_text s) (st_phrases tool)"

definition handle_server_tool_call :: "app_config \<Rightarrow> server_tool \<Rightarrow> bool \<Rightarrow> unit app" where
  "handle_server_tool_call cf tool ok =
     co_when (guard_blocks cf tool) (co_await (OpToolResult (st_id tool) False))
       (co_bind (catching (co_then (co_await (OpRunTool (st_id tool))) (co_return ok)) (co_return False))
          (\<lambda>r. co_await (OpToolResult (st_id tool) r)))"

definition run_tool_task :: "app_config \<Rightarrow> nat \<Rightarrow> server_tool \<Rightarrow> bool \<Rightarrow> unit app" where
  "run_tool_task cf m tool ok =
     co_then (co_modify (\<lambda>s. s\<lparr>ag_tools := ag_tools s - {(m, tool)}\<rparr>))
       (ignoring (handle_server_tool_call cf tool ok))"

section \<open>The dashboard's controls\<close>

datatype control = CtlWake bool | CtlSleep | CtlPttStart | CtlPttEnd | CtlReconnect | CtlAbort | CtlSendText cptext | CtlSpeak cptext

fun control_code :: "app_config \<Rightarrow> control \<Rightarrow> unit app" where
  "control_code cf (CtlWake local_audio) = wake cf local_audio"
| "control_code cf CtlSleep = sleep_app"
| "control_code cf CtlPttStart =
     co_seq [wake cf False,
             co_modify (\<lambda>s. (on_vad (\<lambda>v. v\<lparr>vd_speech := True, vd_speech_ms := 0, vd_silence_ms := 0, vd_eos_sent := False\<rparr>)
                               (enter_state CListening s))\<lparr>ag_ptt := True, ag_eos := False\<rparr>)]"
| "control_code cf CtlPttEnd =
     co_seq [ignoring (eos_then_done None),
             co_modify (\<lambda>s. arm_timer ThinkingWatchdog (enter_state CThinking (s\<lparr>ag_ptt := False\<rparr>)))]"
| "control_code cf CtlReconnect =
     ignoring (co_seq [co_modify (\<lambda>s. enter_state CIdle ((on_output stop_playback s)\<lparr>ag_first_tts := False\<rparr>)),
                       co_await OpReconnect, co_modify (on_output arm_for_next_turn)])"
| "control_code cf CtlAbort = co_seq [ignoring (co_await (OpAbort False)), co_modify (on_output stop_playback)]"
| "control_code cf (CtlSendText t) =
     (if cp_strip t = [] then co_return ()
      else co_seq [co_modify (on_output arm_for_next_turn), ignoring (co_seq [send_text t, flush_tts])])"
| "control_code cf (CtlSpeak t) = speak_text cf t"

section \<open>The tasks of the agent\<close>

datatype task = TDispatch | TMic | TTimer timer nat | TTurn nat | TTool nat | TControl nat | TWorld

datatype happening =
    Hears agent_event
  | ReaderExits
  | MicChunk "nat list" bool loudness
  | Fires
  | RunsTurn "turn_act list" "aexn option"
  | TurnNeverBegins
  | RunsTool server_tool bool
  | Controls control
  | ClockAt nat
  | DeviceFetches nat
  | LinkIs link

definition task_code :: "app_config \<Rightarrow> task \<Rightarrow> happening \<Rightarrow> unit app" where
  "task_code cf t ev =
     (case ev of
        Hears e \<Rightarrow> ignoring (dispatch_one cf e)
      | ReaderExits \<Rightarrow> reader_exited cf
      | MicChunk chunk is_speech level \<Rightarrow> mic_chunk cf chunk is_speech level
      | Fires \<Rightarrow> (case t of TTimer k n \<Rightarrow> timer_fires cf k n | _ \<Rightarrow> co_return ())
      | RunsTurn acts ending \<Rightarrow> (case t of TTurn n \<Rightarrow> turn_task cf n acts ending | _ \<Rightarrow> co_return ())
      | TurnNeverBegins \<Rightarrow> (case t of TTurn n \<Rightarrow> co_modify (end_turn n) | _ \<Rightarrow> co_return ())
      | RunsTool tool ok \<Rightarrow> (case t of TTool m \<Rightarrow> run_tool_task cf m tool ok | _ \<Rightarrow> co_return ())
      | Controls c \<Rightarrow> control_code cf c
      | ClockAt now \<Rightarrow> co_modify (\<lambda>s. s\<lparr>ag_clock := max now (ag_clock s)\<rparr>)
      | DeviceFetches n \<Rightarrow> co_modify (on_output (\<lambda>a. snd (output_callback n a)))
      | LinkIs l \<Rightarrow> co_modify (\<lambda>s. s\<lparr>ag_link := l\<rparr>))"

definition task_may_start :: "task \<Rightarrow> happening \<Rightarrow> agent \<Rightarrow> bool" where
  "task_may_start t ev s \<longleftrightarrow>
     (case ev of
        Hears e \<Rightarrow> t = TDispatch
      | ReaderExits \<Rightarrow> t = TDispatch
      | MicChunk chunk is_speech level \<Rightarrow> t = TMic
      | Fires \<Rightarrow> (case t of TTimer k n \<Rightarrow> (k, n) \<in> ag_asleep s | _ \<Rightarrow> False)
      | RunsTurn acts ending \<Rightarrow> (case t of TTurn n \<Rightarrow> n \<in> ag_live s | _ \<Rightarrow> False)
      | TurnNeverBegins \<Rightarrow> (case t of TTurn n \<Rightarrow> n \<in> ag_live s | _ \<Rightarrow> False)
      | RunsTool tool ok \<Rightarrow> (case t of TTool m \<Rightarrow> (m, tool) \<in> ag_tools s | _ \<Rightarrow> False)
      | Controls c \<Rightarrow> (case t of TControl m \<Rightarrow> True | _ \<Rightarrow> False)
      | ClockAt now \<Rightarrow> t = TWorld
      | DeviceFetches n \<Rightarrow> t = TWorld
      | LinkIs l \<Rightarrow> t = TWorld)"

text \<open>A run of the agent: any interleaving of its tasks with each other and the world.\<close>

definition app_run :: "app_config \<Rightarrow> agent \<Rightarrow> (task, happening, aexn) loop_event list \<Rightarrow> (agent, ag_op, aexn, task) loop \<Rightarrow> bool" where
  "app_run cf s es L \<longleftrightarrow> steps_rel (loop_step (task_code cf) task_may_start app_may_resume) (idle_loop s) es L"

end
