(* ===== verification/AgentRuns.thy ===== *)
theory AgentRuns
  imports AgentApp
begin

text \<open>
  What holds in every run of the agent's tasks (\<open>AgentApp\<close>), whatever is interleaved with what.
\<close>

section \<open>What the agent has done\<close>

fun pending_after :: "cptext \<Rightarrow> deed \<Rightarrow> cptext" where
  "pending_after p (Kept t) = join_segments p t"
| "pending_after p Dropped = []"
| "pending_after p (Utterance f full) = []"
| "pending_after p (Turn n t) = p"
| "pending_after p SentEos = p"

definition pending_of :: "deed list \<Rightarrow> cptext" where
  "pending_of ds = foldl pending_after [] ds"

fun utterance_after :: "cptext option \<Rightarrow> deed \<Rightarrow> cptext option" where
  "utterance_after u (Utterance f full) = Some full"
| "utterance_after u d = u"

definition last_utterance :: "deed list \<Rightarrow> cptext option" where
  "last_utterance ds = foldl utterance_after None ds"

text \<open>An utterance is what is pending with the final; a turn is about the last utterance.\<close>

fun deed_ok :: "deed list \<Rightarrow> deed \<Rightarrow> bool" where
  "deed_ok ds (Utterance f full) \<longleftrightarrow> full = join_segments (pending_of ds) f"
| "deed_ok ds (Turn n t) \<longleftrightarrow> last_utterance ds = Some t"
| "deed_ok ds d \<longleftrightarrow> True"

definition log_ok :: "deed list \<Rightarrow> bool" where
  "log_ok ds \<longleftrightarrow> (\<forall>as d bs. ds = as @ d # bs \<longrightarrow> deed_ok as d)"

lemma pending_of_simps [simp]: "pending_of [] = []" "pending_of (ds @ [d]) = pending_after (pending_of ds) d"
  by (simp_all add: pending_of_def)

lemma last_utterance_simps [simp]:
  "last_utterance [] = None" "last_utterance (ds @ [d]) = utterance_after (last_utterance ds) d"
  by (simp_all add: last_utterance_def)

lemma log_ok_snoc [simp]: "log_ok (ds @ [d]) \<longleftrightarrow> log_ok ds \<and> deed_ok ds d"
proof
  assume l: "log_ok (ds @ [d])"
  have "deed_ok as e" if "ds = as @ e # bs" for as e bs
    using l that unfolding log_ok_def by (metis append.assoc append_Cons)
  moreover have "deed_ok ds d" using l unfolding log_ok_def by blast
  ultimately show "log_ok ds \<and> deed_ok ds d" unfolding log_ok_def by blast
next
  assume l: "log_ok ds \<and> deed_ok ds d"
  show "log_ok (ds @ [d])" unfolding log_ok_def
  proof (intro allI impI)
    fix as e bs assume e: "ds @ [d] = as @ e # bs"
    show "deed_ok as e"
    proof (cases bs rule: rev_cases)
      case Nil
      then show ?thesis using e l by simp
    next
      case (snoc cs c)
      then have "ds = as @ e # cs" using e by simp
      then show ?thesis using l unfolding log_ok_def by blast
    qed
  qed
qed

lemma log_ok_Nil [simp]: "log_ok []"
  by (simp add: log_ok_def)

section \<open>The invariant\<close>

definition speech_free :: "agent \<Rightarrow> bool" where
  "speech_free s \<longleftrightarrow> (\<forall>x\<in>set (au_buffer (ag_audio s)). \<not> fst x)"

definition agent_inv :: "agent \<Rightarrow> bool" where
  "agent_inv s \<longleftrightarrow>
     ag_live s \<subseteq> set_option (ag_turn s) \<and> (ag_awaiting s \<longrightarrow> speech_free s)
     \<and> ag_pending s = pending_of (ag_log s) \<and> log_ok (ag_log s)"

text \<open>What every task but the dispatcher does to the state at most.\<close>

definition quiet :: "agent \<Rightarrow> agent \<Rightarrow> bool" where
  "quiet s s' \<longleftrightarrow>
     ag_turn s' = ag_turn s \<and> ag_live s' = ag_live s \<and> (ag_awaiting s' \<longrightarrow> ag_awaiting s)
     \<and> (speech_free s \<longrightarrow> speech_free s') \<and> last_utterance (ag_log s') = last_utterance (ag_log s)"

definition quiet_but :: "nat set \<Rightarrow> agent \<Rightarrow> agent \<Rightarrow> bool" where
  "quiet_but N s s' \<longleftrightarrow>
     ag_turn s' = ag_turn s \<and> ag_live s' \<subseteq> ag_live s \<and> ag_live s - N \<subseteq> ag_live s'
     \<and> (ag_awaiting s' \<longrightarrow> ag_awaiting s)
     \<and> (speech_free s \<longrightarrow> speech_free s') \<and> last_utterance (ag_log s') = last_utterance (ag_log s)"

fun task_own :: "task \<Rightarrow> agent \<Rightarrow> bool" where
  "task_own (TTurn n) s = (n \<in> ag_live s)"
| "task_own t s = True"

fun task_rely :: "task \<Rightarrow> agent \<Rightarrow> agent \<Rightarrow> bool" where
  "task_rely TDispatch s s' = quiet_but UNIV s s'"
| "task_rely (TTurn n) s s' = (n \<in> ag_live s \<longrightarrow> n \<in> ag_live s')"
| "task_rely t s s' = True"

fun task_guar :: "task \<Rightarrow> agent \<Rightarrow> agent \<Rightarrow> bool" where
  "task_guar TDispatch s s' = (ag_live s \<subseteq> ag_live s')"
| "task_guar (TTurn n) s s' = quiet_but {n} s s'"
| "task_guar t s s' = quiet s s'"

definition quiet_contract :: "task \<Rightarrow> (agent, ag_op, aexn) contract" where
  "quiet_contract t =
     \<lparr>cn_inv = (\<lambda>s. agent_inv s \<and> task_own t s), cn_rely = task_rely t, cn_guar = quiet, cn_resume = app_may_resume\<rparr>"

definition task_contract :: "task \<Rightarrow> (agent, ag_op, aexn) contract" where
  "task_contract t = (quiet_contract t)\<lparr>cn_guar := task_guar t\<rparr>"

lemma quiet_refl: "quiet s s"
  by (simp add: quiet_def)

lemma quiet_trans: "quiet s t \<Longrightarrow> quiet t u \<Longrightarrow> quiet s u"
  by (simp add: quiet_def)

lemma quiet_but_refl: "quiet_but N s s"
  by (simp add: quiet_but_def)

lemma quiet_but_trans: "quiet_but N s t \<Longrightarrow> quiet_but N t u \<Longrightarrow> quiet_but N s u"
  by (auto simp: quiet_but_def)

lemma quiet_quiet_but: "quiet s t \<Longrightarrow> quiet_but N s t"
  by (simp add: quiet_def quiet_but_def)

lemma quiet_task: "quiet s s' \<Longrightarrow> task_guar t s s'"
  by (cases t) (simp_all add: quiet_quiet_but, simp add: quiet_def)

lemma task_rely_refl: "task_rely t s s"
  by (cases t) (simp_all add: quiet_but_refl)

lemma task_rely_trans: "task_rely t s u \<Longrightarrow> task_rely t u v \<Longrightarrow> task_rely t s v"
  by (cases t) (auto intro: quiet_but_trans)

lemma task_guar_refl: "task_guar t s s"
  by (rule quiet_task [OF quiet_refl])

lemma task_guar_trans: "task_guar t s u \<Longrightarrow> task_guar t u v \<Longrightarrow> task_guar t s v"
  by (cases t) (auto intro: quiet_but_trans quiet_trans)

interpretation quiet_task: rely_guarantee "quiet_contract t" for t
  by unfold_locales (auto simp: quiet_contract_def intro: task_rely_refl task_rely_trans quiet_refl quiet_trans)

interpretation task: rely_guarantee "task_contract t" for t
  by unfold_locales (auto simp: task_contract_def quiet_contract_def intro: task_rely_refl task_rely_trans task_guar_refl task_guar_trans)

section \<open>Quiet code\<close>

named_theorems agent_frame "which parts of the state an operation leaves alone"

lemma cancel_timer_frame [agent_frame]:
  "ag_turn (cancel_timer k s) = ag_turn s" "ag_live (cancel_timer k s) = ag_live s"
  "ag_awaiting (cancel_timer k s) = ag_awaiting s" "ag_pending (cancel_timer k s) = ag_pending s"
  "ag_log (cancel_timer k s) = ag_log s" "ag_audio (cancel_timer k s) = ag_audio s"
  by (simp_all add: cancel_timer_def split: option.split)

lemma start_timer_frame [agent_frame]:
  "ag_turn (start_timer k s) = ag_turn s" "ag_live (start_timer k s) = ag_live s"
  "ag_awaiting (start_timer k s) = ag_awaiting s" "ag_pending (start_timer k s) = ag_pending s"
  "ag_log (start_timer k s) = ag_log s" "ag_audio (start_timer k s) = ag_audio s"
  by (simp_all add: start_timer_def agent_frame)

lemma arm_timer_frame [agent_frame]:
  "ag_turn (arm_timer k s) = ag_turn s" "ag_live (arm_timer k s) = ag_live s"
  "ag_awaiting (arm_timer k s) = ag_awaiting s" "ag_pending (arm_timer k s) = ag_pending s"
  "ag_log (arm_timer k s) = ag_log s" "ag_audio (arm_timer k s) = ag_audio s"
  by (simp_all add: arm_timer_def agent_frame)

lemma enter_state_frame [agent_frame]:
  "ag_turn (enter_state c s) = ag_turn s" "ag_live (enter_state c s) = ag_live s"
  "ag_awaiting (enter_state c s) = ag_awaiting s" "ag_pending (enter_state c s) = ag_pending s"
  "ag_log (enter_state c s) = ag_log s" "ag_audio (enter_state c s) = ag_audio s"
  by (simp_all add: enter_state_def agent_frame)

lemma on_vad_frame [agent_frame]:
  "ag_turn (on_vad f s) = ag_turn s" "ag_live (on_vad f s) = ag_live s"
  "ag_awaiting (on_vad f s) = ag_awaiting s" "ag_pending (on_vad f s) = ag_pending s"
  "ag_log (on_vad f s) = ag_log s" "ag_audio (on_vad f s) = ag_audio s"
  by (simp_all add: on_vad_def agent_frame)

lemma reset_sleep_timer_frame [agent_frame]:
  "ag_turn (reset_sleep_timer cf s) = ag_turn s" "ag_live (reset_sleep_timer cf s) = ag_live s"
  "ag_awaiting (reset_sleep_timer cf s) = ag_awaiting s" "ag_pending (reset_sleep_timer cf s) = ag_pending s"
  "ag_log (reset_sleep_timer cf s) = ag_log s" "ag_audio (reset_sleep_timer cf s) = ag_audio s"
  by (simp_all add: reset_sleep_timer_def agent_frame)

lemma ensure_sleep_timer_frame [agent_frame]:
  "ag_turn (ensure_sleep_timer cf s) = ag_turn s" "ag_live (ensure_sleep_timer cf s) = ag_live s"
  "ag_awaiting (ensure_sleep_timer cf s) = ag_awaiting s" "ag_pending (ensure_sleep_timer cf s) = ag_pending s"
  "ag_log (ensure_sleep_timer cf s) = ag_log s" "ag_audio (ensure_sleep_timer cf s) = ag_audio s"
  by (simp_all add: ensure_sleep_timer_def agent_frame)

lemma arm_wake_timeout_frame [agent_frame]:
  "ag_turn (arm_wake_timeout cf s) = ag_turn s" "ag_live (arm_wake_timeout cf s) = ag_live s"
  "ag_awaiting (arm_wake_timeout cf s) = ag_awaiting s" "ag_pending (arm_wake_timeout cf s) = ag_pending s"
  "ag_log (arm_wake_timeout cf s) = ag_log s" "ag_audio (arm_wake_timeout cf s) = ag_audio s"
  by (simp_all add: arm_wake_timeout_def Let_def agent_frame)

lemma arm_stall_watchdog_frame [agent_frame]:
  "ag_turn (arm_stall_watchdog cf s) = ag_turn s" "ag_live (arm_stall_watchdog cf s) = ag_live s"
  "ag_awaiting (arm_stall_watchdog cf s) = ag_awaiting s" "ag_pending (arm_stall_watchdog cf s) = ag_pending s"
  "ag_log (arm_stall_watchdog cf s) = ag_log s" "ag_audio (arm_stall_watchdog cf s) = ag_audio s"
  by (simp_all add: arm_stall_watchdog_def agent_frame)

lemma arm_barge_in_eos_frame [agent_frame]:
  "ag_turn (arm_barge_in_eos cf s) = ag_turn s" "ag_live (arm_barge_in_eos cf s) = ag_live s"
  "ag_awaiting (arm_barge_in_eos cf s) = ag_awaiting s" "ag_pending (arm_barge_in_eos cf s) = ag_pending s"
  "ag_log (arm_barge_in_eos cf s) = ag_log s" "ag_audio (arm_barge_in_eos cf s) = ag_audio s"
  by (simp_all add: arm_barge_in_eos_def Let_def agent_frame)

lemma start_drain_frame [agent_frame]:
  "ag_turn (start_drain cf s) = ag_turn s" "ag_live (start_drain cf s) = ag_live s"
  "ag_awaiting (start_drain cf s) = ag_awaiting s" "ag_pending (start_drain cf s) = ag_pending s"
  "ag_log (start_drain cf s) = ag_log s" "ag_audio (start_drain cf s) = ag_audio s"
  by (simp_all add: start_drain_def agent_frame)

lemma count_reconnect_frame [agent_frame]:
  "ag_turn (count_reconnect s) = ag_turn s" "ag_live (count_reconnect s) = ag_live s"
  "ag_awaiting (count_reconnect s) = ag_awaiting s" "ag_pending (count_reconnect s) = ag_pending s"
  "ag_log (count_reconnect s) = ag_log s" "ag_audio (count_reconnect s) = ag_audio s"
  by (simp_all add: count_reconnect_def agent_frame)

lemma finish_timer_frame [agent_frame]:
  "ag_turn (finish_timer k n again s) = ag_turn s" "ag_live (finish_timer k n again s) = ag_live s"
  "ag_awaiting (finish_timer k n again s) = ag_awaiting s" "ag_pending (finish_timer k n again s) = ag_pending s"
  "ag_log (finish_timer k n again s) = ag_log s" "ag_audio (finish_timer k n again s) = ag_audio s"
  by (simp_all add: finish_timer_def agent_frame)

lemma restore_idle_frame [agent_frame]:
  "ag_turn (restore_idle cf s) = ag_turn s" "ag_live (restore_idle cf s) = ag_live s"
  "ag_awaiting (restore_idle cf s) = ag_awaiting s" "ag_pending (restore_idle cf s) = ag_pending s"
  "ag_log (restore_idle cf s) = ag_log s" "ag_audio (restore_idle cf s) = ag_audio s"
  by (simp_all add: restore_idle_def agent_frame)

lemma duplicate_final_frame [agent_frame]:
  "ag_turn (duplicate_final cf s) = ag_turn s" "ag_live (duplicate_final cf s) = ag_live s"
  "ag_awaiting (duplicate_final cf s) = ag_awaiting s" "ag_pending (duplicate_final cf s) = ag_pending s"
  "ag_log (duplicate_final cf s) = ag_log s" "ag_audio (duplicate_final cf s) = ag_audio s"
  by (simp_all add: duplicate_final_def agent_frame)

lemma arm_stall_if_listening_frame [agent_frame]:
  "ag_turn (arm_stall_if_listening cf s) = ag_turn s" "ag_live (arm_stall_if_listening cf s) = ag_live s"
  "ag_awaiting (arm_stall_if_listening cf s) = ag_awaiting s" "ag_pending (arm_stall_if_listening cf s) = ag_pending s"
  "ag_log (arm_stall_if_listening cf s) = ag_log s" "ag_audio (arm_stall_if_listening cf s) = ag_audio s"
  by (simp_all add: arm_stall_if_listening_def agent_frame)

lemma skip_wake_word_frame [agent_frame]:
  "ag_turn (skip_wake_word cf b s) = ag_turn s" "ag_live (skip_wake_word cf b s) = ag_live s"
  "ag_awaiting (skip_wake_word cf b s) = ag_awaiting s" "ag_pending (skip_wake_word cf b s) = ag_pending s"
  "ag_log (skip_wake_word cf b s) = ag_log s" "ag_audio (skip_wake_word cf b s) = ag_audio s"
  by (simp_all add: skip_wake_word_def agent_frame)

lemma greeting_over_frame [agent_frame]:
  "ag_turn (greeting_over cf s) = ag_turn s" "ag_live (greeting_over cf s) = ag_live s"
  "ag_awaiting (greeting_over cf s) = ag_awaiting s" "ag_pending (greeting_over cf s) = ag_pending s"
  "ag_log (greeting_over cf s) = ag_log s" "ag_audio (greeting_over cf s) = ag_audio s"
  by (simp_all add: greeting_over_def Let_def agent_frame)

lemma open_retry_window_frame [agent_frame]:
  "ag_turn (open_retry_window cf s) = ag_turn s" "ag_live (open_retry_window cf s) = ag_live s"
  "ag_awaiting (open_retry_window cf s) = ag_awaiting s" "ag_pending (open_retry_window cf s) = ag_pending s"
  "ag_log (open_retry_window cf s) = ag_log s" "ag_audio (open_retry_window cf s) = ag_audio s"
  by (simp_all add: open_retry_window_def Let_def agent_frame)

lemma thinking_over_frame [agent_frame]:
  "ag_turn (thinking_over cf s) = ag_turn s" "ag_live (thinking_over cf s) = ag_live s"
  "ag_awaiting (thinking_over cf s) = ag_awaiting s" "ag_pending (thinking_over cf s) = ag_pending s"
  "ag_log (thinking_over cf s) = ag_log s" "ag_audio (thinking_over cf s) = ag_audio s"
  by (simp_all add: thinking_over_def agent_frame)

lemma interrupted_frame [agent_frame]:
  "ag_turn (interrupted cf s) = ag_turn s" "ag_live (interrupted cf s) = ag_live s"
  "ag_awaiting (interrupted cf s) = ag_awaiting s" "ag_pending (interrupted cf s) = ag_pending s"
  "ag_log (interrupted cf s) = ag_log s" "ag_audio (interrupted cf s) = ag_audio s"
  by (simp_all add: interrupted_def agent_frame)

lemma speech_onset_frame [agent_frame]:
  "ag_turn (speech_onset s) = ag_turn s" "ag_live (speech_onset s) = ag_live s"
  "ag_awaiting (speech_onset s) = ag_awaiting s" "ag_pending (speech_onset s) = ag_pending s"
  "ag_log (speech_onset s) = ag_log s" "ag_audio (speech_onset s) = ag_audio s"
  by (simp_all add: speech_onset_def Let_def agent_frame)

lemma quiet_onset_frame [agent_frame]:
  "ag_turn (quiet_onset cf s) = ag_turn s" "ag_live (quiet_onset cf s) = ag_live s"
  "ag_awaiting (quiet_onset cf s) = ag_awaiting s" "ag_pending (quiet_onset cf s) = ag_pending s"
  "ag_log (quiet_onset cf s) = ag_log s" "ag_audio (quiet_onset cf s) = ag_audio s"
  by (simp_all add: quiet_onset_def agent_frame)

lemma fresh_utterance_round_frame [agent_frame]:
  "ag_turn (fresh_utterance_round s) = ag_turn s" "ag_live (fresh_utterance_round s) = ag_live s"
  "ag_awaiting (fresh_utterance_round s) = ag_awaiting s" "ag_pending (fresh_utterance_round s) = ag_pending s"
  "ag_log (fresh_utterance_round s) = ag_log s" "ag_audio (fresh_utterance_round s) = ag_audio s"
  by (simp_all add: fresh_utterance_round_def agent_frame)

lemma on_output_frame [agent_frame]:
  "ag_turn (on_output f s) = ag_turn s" "ag_live (on_output f s) = ag_live s"
  "ag_awaiting (on_output f s) = ag_awaiting s" "ag_pending (on_output f s) = ag_pending s"
  "ag_log (on_output f s) = ag_log s" "ag_audio (on_output f s) = f (ag_audio s)"
  by (simp_all add: on_output_def)

lemma log_deed_frame [agent_frame]:
  "ag_turn (log_deed d s) = ag_turn s" "ag_live (log_deed d s) = ag_live s"
  "ag_awaiting (log_deed d s) = ag_awaiting s" "ag_pending (log_deed d s) = ag_pending s"
  "ag_log (log_deed d s) = ag_log s @ [d]" "ag_audio (log_deed d s) = ag_audio s"
  by (simp_all add: log_deed_def)

lemma clear_pending_frame [agent_frame]:
  "ag_turn (clear_pending s) = ag_turn s" "ag_live (clear_pending s) = ag_live s"
  "ag_awaiting (clear_pending s) = ag_awaiting s" "ag_pending (clear_pending s) = []"
  "ag_log (clear_pending s) = ag_log s @ [Dropped]" "ag_audio (clear_pending s) = ag_audio s"
  by (simp_all add: clear_pending_def agent_frame)

text \<open>What the audio operations do to the speech in the buffer.\<close>

definition no_speech :: "audio \<Rightarrow> bool" where
  "no_speech a \<longleftrightarrow> (\<forall>x\<in>set (au_buffer a). \<not> fst x)"

lemma speech_free_audio: "speech_free s \<longleftrightarrow> no_speech (ag_audio s)"
  by (simp add: speech_free_def no_speech_def)

lemma no_speech_ops [agent_frame]:
  "no_speech (stop_playback a)" "no_speech (arm_for_next_turn a) = no_speech a"
  "no_speech (mark_playback_done a) = no_speech a" "no_speech (begin_response_playback r a) = no_speech a"
  "no_speech (set_output_sample_rate sr a) = no_speech a" "no_speech (play_notification pcm a) = no_speech a"
  by (auto simp: no_speech_def stop_playback_def arm_for_next_turn_def mark_playback_done_def
      begin_response_playback_def set_output_sample_rate_def play_notification_def)

lemma no_speech_fetched: "no_speech a \<Longrightarrow> no_speech (snd (output_callback n a))"
  by (auto simp: no_speech_def output_callback_def Let_def dest: in_set_dropD)

lemma play_tone_frame [agent_frame]:
  "ag_turn (play_tone t s) = ag_turn s" "ag_live (play_tone t s) = ag_live s"
  "ag_awaiting (play_tone t s) = ag_awaiting s" "ag_pending (play_tone t s) = ag_pending s"
  "ag_log (play_tone t s) = ag_log s" "no_speech (ag_audio (play_tone t s)) = no_speech (ag_audio s)"
  by (simp_all add: play_tone_def agent_frame split: option.split)

lemmas agent_inv_audio = agent_inv_def [unfolded speech_free_audio]
lemmas quiet_audio = quiet_def [unfolded speech_free_audio]

lemma quiet_modify:
  assumes "\<And>s. agent_inv s \<Longrightarrow> quiet s (f s) \<and> agent_inv (f s)"
  shows "keeps (quiet_contract t) (co_modify f)"
proof (rule quiet_task.keeps_modify)
  fix s assume s: "cn_inv (quiet_contract t) s"
  then have q: "quiet s (f s) \<and> agent_inv (f s)" using assms by (simp add: quiet_contract_def)
  moreover have "task_own t (f s)" using s q by (cases t) (simp_all add: quiet_contract_def quiet_def)
  ultimately show "cn_guar (quiet_contract t) s (f s) \<and> cn_inv (quiet_contract t) (f s)"
    by (simp add: quiet_contract_def)
qed

lemma quiet_simp_modify:
  assumes "\<And>s. agent_inv s \<Longrightarrow>
      ag_turn (f s) = ag_turn s \<and> ag_live (f s) = ag_live s \<and> (ag_awaiting (f s) \<longrightarrow> ag_awaiting s)
      \<and> (no_speech (ag_audio s) \<longrightarrow> no_speech (ag_audio (f s)))
      \<and> last_utterance (ag_log (f s)) = last_utterance (ag_log s)
      \<and> ag_pending (f s) = pending_of (ag_log (f s)) \<and> log_ok (ag_log (f s))"
  shows "keeps (quiet_contract t) (co_modify f)"
proof (rule quiet_modify)
  fix s assume s: "agent_inv s"
  show "quiet s (f s) \<and> agent_inv (f s)" using assms [OF s] s by (simp add: quiet_audio agent_inv_audio)
qed

lemma quiet_hook [co_rules]: "keeps (quiet_contract t) (hook h)"
  unfolding hook_def by (rule quiet_task.keeps_await)

lemma quiet_catching [co_rules]:
  "keeps (quiet_contract t) m \<Longrightarrow> keeps (quiet_contract t) h \<Longrightarrow> keeps (quiet_contract t) (catching m h)"
  unfolding catching_def by (intro quiet_task.keeps_try quiet_task.keeps_if quiet_task.keeps_raise)

lemma quiet_ignoring [co_rules]: "keeps (quiet_contract t) m \<Longrightarrow> keeps (quiet_contract t) (ignoring m)"
  unfolding ignoring_def by (intro quiet_catching quiet_task.keeps_return)

lemma quiet_cancel_turn [co_rules]: "keeps (quiet_contract t) cancel_turn"
  unfolding cancel_turn_def
  by (rule quiet_task.keeps_with) (auto split: option.split intro!: quiet_task.keeps_return quiet_task.keeps_when quiet_task.keeps_try quiet_task.keeps_await)

text \<open>The state functions of the agent that keep what the invariant is about.\<close>

lemma on_reply_text_sent_frame [agent_frame]:
  "ag_turn (on_reply_text_sent s) = ag_turn s" "ag_live (on_reply_text_sent s) = ag_live s"
  "ag_awaiting (on_reply_text_sent s) = False" "ag_pending (on_reply_text_sent s) = ag_pending s"
  "ag_log (on_reply_text_sent s) = ag_log s" "no_speech (ag_audio (on_reply_text_sent s)) = no_speech (ag_audio s)"
  by (simp_all add: on_reply_text_sent_def agent_frame)

lemma sleep_now_frame [agent_frame]:
  "ag_turn (sleep_now s) = ag_turn s" "ag_live (sleep_now s) = ag_live s"
  "ag_awaiting (sleep_now s) = ag_awaiting s" "ag_pending (sleep_now s) = []"
  "ag_log (sleep_now s) = ag_log s @ [Dropped]" "ag_audio (sleep_now s) = stop_playback (ag_audio s)"
  by (simp_all add: sleep_now_def agent_frame)

lemma awake_now_frame [agent_frame]:
  "ag_turn (awake_now cf s) = ag_turn s" "ag_live (awake_now cf s) = ag_live s"
  "ag_awaiting (awake_now cf s) = ag_awaiting s" "ag_pending (awake_now cf s) = ag_pending s"
  "ag_log (awake_now cf s) = ag_log s" "no_speech (ag_audio (awake_now cf s)) = no_speech (ag_audio s)"
  by (simp_all add: awake_now_def agent_frame)

lemma return_to_sleep_frame [agent_frame]:
  "ag_turn (return_to_sleep cf s) = ag_turn s" "ag_live (return_to_sleep cf s) = ag_live s"
  "ag_awaiting (return_to_sleep cf s) = ag_awaiting s"
  "ag_pending s = pending_of (ag_log s) \<Longrightarrow> ag_pending (return_to_sleep cf s) = pending_of (ag_log (return_to_sleep cf s))"
  "log_ok (ag_log s) \<Longrightarrow> log_ok (ag_log (return_to_sleep cf s))"
  "last_utterance (ag_log (return_to_sleep cf s)) = last_utterance (ag_log s)"
  "no_speech (ag_audio (return_to_sleep cf s)) = no_speech (ag_audio s)"
  by (simp_all add: return_to_sleep_def Let_def agent_frame)

lemma turn_over_frame [agent_frame]:
  "ag_turn (turn_over cf s) = ag_turn s" "ag_live (turn_over cf s) = ag_live s"
  "ag_awaiting (turn_over cf s) = ag_awaiting s"
  "ag_pending s = pending_of (ag_log s) \<Longrightarrow> ag_pending (turn_over cf s) = pending_of (ag_log (turn_over cf s))"
  "log_ok (ag_log s) \<Longrightarrow> log_ok (ag_log (turn_over cf s))"
  "last_utterance (ag_log (turn_over cf s)) = last_utterance (ag_log s)"
  "no_speech (ag_audio (turn_over cf s)) = no_speech (ag_audio s)"
  by (simp_all add: turn_over_def agent_frame)

lemma agent_inv_log: "agent_inv s \<Longrightarrow> ag_pending s = pending_of (ag_log s) \<and> log_ok (ag_log s)"
  by (simp add: agent_inv_def)

lemma quiet_readvertise [co_rules]: "keeps (quiet_contract t) (readvertise cf)"
  unfolding readvertise_def co_seq.simps once_def
  by (intro co_rules quiet_task.keeps_bind quiet_simp_modify; auto dest: agent_inv_log simp: agent_frame)

lemma quiet_readvertise_if_advanced [co_rules]: "keeps (quiet_contract t) (readvertise_if_advanced cf)"
  unfolding readvertise_if_advanced_def co_seq.simps once_def
  by (intro co_rules quiet_task.keeps_bind quiet_simp_modify; auto dest: agent_inv_log simp: agent_frame)

lemma quiet_send_eos_once [co_rules]: "keeps (quiet_contract t) (send_eos_once w)"
  unfolding send_eos_once_def co_seq.simps once_def
  by (intro co_rules quiet_task.keeps_bind quiet_simp_modify; auto dest: agent_inv_log simp: agent_frame)

lemma quiet_eos_then_done [co_rules]: "keeps (quiet_contract t) (eos_then_done w)"
  unfolding eos_then_done_def co_seq.simps once_def
  by (intro co_rules quiet_task.keeps_bind quiet_simp_modify; auto dest: agent_inv_log simp: agent_frame)

lemma quiet_send_text [co_rules]: "keeps (quiet_contract t) (send_text t')"
  unfolding send_text_def co_seq.simps once_def
  by (intro co_rules quiet_task.keeps_bind quiet_simp_modify; auto dest: agent_inv_log simp: agent_frame)

lemma quiet_flush_tts [co_rules]: "keeps (quiet_contract t) (flush_tts)"
  unfolding flush_tts_def co_seq.simps once_def
  by (intro co_rules quiet_task.keeps_bind quiet_simp_modify; auto dest: agent_inv_log simp: agent_frame)

lemma quiet_speak_text [co_rules]: "keeps (quiet_contract t) (speak_text cf t')"
  unfolding speak_text_def co_seq.simps once_def
  by (intro co_rules quiet_task.keeps_bind quiet_simp_modify; auto dest: agent_inv_log simp: agent_frame)

lemma quiet_sleep_app [co_rules]: "keeps (quiet_contract t) (sleep_app)"
  unfolding sleep_app_def co_seq.simps once_def
  by (intro co_rules quiet_task.keeps_bind quiet_simp_modify; auto dest: agent_inv_log simp: agent_frame)

lemma quiet_speak_wake_reply [co_rules]: "keeps (quiet_contract t) (speak_wake_reply cf)"
  unfolding speak_wake_reply_def co_seq.simps once_def
  by (intro co_rules quiet_task.keeps_bind quiet_simp_modify; auto dest: agent_inv_log simp: agent_frame)

lemma quiet_wake_up [co_rules]: "keeps (quiet_contract t) (wake_up cf)"
  unfolding wake_up_def co_seq.simps once_def
  by (intro co_rules quiet_task.keeps_bind quiet_simp_modify; auto dest: agent_inv_log simp: agent_frame)

lemma quiet_wake_reconnect [co_rules]: "keeps (quiet_contract t) (wake_reconnect cf)"
  unfolding wake_reconnect_def co_seq.simps
  by (intro co_rules quiet_simp_modify; auto dest: agent_inv_log simp: agent_frame split: aexn.split intro!: co_rules)

lemma quiet_wake [co_rules]: "keeps (quiet_contract t) (wake cf b)"
  unfolding wake_def co_seq.simps once_def
  by (intro co_rules quiet_task.keeps_bind quiet_simp_modify; auto dest: agent_inv_log simp: agent_frame)

lemma quiet_complete_assistant_turn [co_rules]: "keeps (quiet_contract t) (complete_assistant_turn cf)"
  unfolding complete_assistant_turn_def co_seq.simps once_def
  by (intro co_rules quiet_task.keeps_bind quiet_simp_modify; auto dest: agent_inv_log simp: agent_frame)

lemma quiet_no_final_feedback [co_rules]: "keeps (quiet_contract t) (no_final_feedback cf)"
  unfolding no_final_feedback_def Let_def co_seq.simps once_def
  by (intro co_rules quiet_task.keeps_bind quiet_simp_modify; auto dest: agent_inv_log simp: agent_frame)

lemma quiet_no_final_or_sleep [co_rules]: "keeps (quiet_contract t) (no_final_or_sleep cf)"
  unfolding no_final_or_sleep_def co_seq.simps once_def
  by (intro co_rules quiet_task.keeps_bind quiet_simp_modify; auto dest: agent_inv_log simp: agent_frame)

lemma quiet_interrupt_current_turn [co_rules]: "keeps (quiet_contract t) (interrupt_current_turn cf)"
  unfolding interrupt_current_turn_def co_seq.simps once_def
  by (intro co_rules quiet_task.keeps_bind quiet_simp_modify; auto dest: agent_inv_log simp: agent_frame)

lemma quiet_asr_final_watchdog [co_rules]: "keeps (quiet_contract t) (asr_final_watchdog cf)"
  unfolding asr_final_watchdog_def co_seq.simps once_def
  by (intro co_rules quiet_task.keeps_bind quiet_simp_modify; auto dest: agent_inv_log simp: agent_frame)

lemma quiet_thinking_watchdog [co_rules]: "keeps (quiet_contract t) (thinking_watchdog cf)"
  unfolding thinking_watchdog_def co_seq.simps once_def
  by (intro co_rules quiet_task.keeps_bind quiet_simp_modify; auto dest: agent_inv_log simp: agent_frame)

lemma quiet_stall_eos_watchdog [co_rules]: "keeps (quiet_contract t) (stall_eos_watchdog)"
  unfolding stall_eos_watchdog_def co_seq.simps once_def
  by (intro co_rules quiet_task.keeps_bind quiet_simp_modify; auto dest: agent_inv_log simp: agent_frame)

lemma quiet_wake_command_timeout [co_rules]: "keeps (quiet_contract t) (wake_command_timeout cf)"
  unfolding wake_command_timeout_def co_seq.simps once_def
  by (intro co_rules quiet_task.keeps_bind quiet_simp_modify; auto dest: agent_inv_log simp: agent_frame)

lemma quiet_sleep_after [co_rules]: "keeps (quiet_contract t) (sleep_after)"
  unfolding sleep_after_def co_seq.simps once_def
  by (intro co_rules quiet_task.keeps_bind quiet_simp_modify; auto dest: agent_inv_log simp: agent_frame)

lemma quiet_barge_in_eos [co_rules]: "keeps (quiet_contract t) (barge_in_eos cf)"
  unfolding barge_in_eos_def co_seq.simps once_def
  by (intro co_rules quiet_task.keeps_bind quiet_simp_modify; auto dest: agent_inv_log simp: agent_frame)

lemma quiet_playback_drain [co_rules]: "keeps (quiet_contract t) (playback_drain cf)"
  unfolding playback_drain_def co_seq.simps once_def
  by (intro co_rules quiet_task.keeps_bind quiet_simp_modify; auto dest: agent_inv_log simp: agent_frame)

lemma quiet_timer_body [co_rules]: "keeps (quiet_contract t) (timer_body cf k)"
  by (cases k) (simp_all add: once_def, (intro co_rules)+)

lemma quiet_timer_fires [co_rules]: "keeps (quiet_contract t) (timer_fires cf k n)"
  unfolding timer_fires_def co_seq.simps
  by (intro co_rules quiet_task.keeps_bind quiet_simp_modify; auto dest: agent_inv_log simp: agent_frame)

lemma quiet_speech_over [co_rules]: "keeps (quiet_contract t) (speech_over cf)"
  unfolding speech_over_def co_seq.simps
  by (intro co_rules quiet_task.keeps_bind quiet_simp_modify; auto dest: agent_inv_log simp: agent_frame)

lemma quiet_vad_idle_chunk [co_rules]: "keeps (quiet_contract t) (vad_idle_chunk cf b)"
  unfolding vad_idle_chunk_def co_seq.simps
  by (intro co_rules quiet_task.keeps_bind quiet_simp_modify; auto dest: agent_inv_log simp: agent_frame)

lemma quiet_vad_speech_chunk [co_rules]: "keeps (quiet_contract t) (vad_speech_chunk cf b)"
  unfolding vad_speech_chunk_def co_seq.simps
  by (intro co_rules quiet_task.keeps_bind quiet_simp_modify; auto dest: agent_inv_log simp: agent_frame)

lemma quiet_update_vad [co_rules]: "keeps (quiet_contract t) (update_vad cf b)"
  unfolding update_vad_def co_seq.simps
  by (intro co_rules quiet_task.keeps_bind quiet_simp_modify; auto dest: agent_inv_log simp: agent_frame)

lemma quiet_send_audio [co_rules]: "keeps (quiet_contract t) (send_audio pcm)"
  unfolding send_audio_def co_seq.simps
  by (intro co_rules quiet_task.keeps_bind quiet_simp_modify; auto dest: agent_inv_log simp: agent_frame)

lemma quiet_forward_chunk [co_rules]: "keeps (quiet_contract t) (forward_chunk chunk)"
  unfolding forward_chunk_def
  by (intro co_rules quiet_simp_modify quiet_task.keeps_seq; auto dest: agent_inv_log intro: co_rules)

lemma quiet_open_gate [co_rules]: "keeps (quiet_contract t) (open_gate cf now)"
  unfolding open_gate_def
  by (intro co_rules quiet_simp_modify quiet_task.keeps_seq; auto dest: agent_inv_log intro: co_rules)

lemma quiet_run_gate [co_rules]: "keeps (quiet_contract t) (run_gate cf now level)"
  unfolding run_gate_def
  by (cases level; simp; intro co_rules quiet_simp_modify; auto dest: agent_inv_log)

lemma mic_dropped_frame [agent_frame]:
  "ag_turn (mic_dropped s) = ag_turn s" "ag_live (mic_dropped s) = ag_live s"
  "ag_awaiting (mic_dropped s) = ag_awaiting s" "ag_pending (mic_dropped s) = ag_pending s"
  "ag_log (mic_dropped s) = ag_log s" "ag_audio (mic_dropped s) = ag_audio s"
  by (simp_all add: mic_dropped_def)

lemma quiet_gate_eos [co_rules]: "keeps (quiet_contract t) (gate_eos cf)"
  unfolding gate_eos_def co_seq.simps
  by (intro co_rules quiet_task.keeps_bind quiet_simp_modify; auto dest: agent_inv_log simp: agent_frame)

lemma quiet_gated_chunk [co_rules]: "keeps (quiet_contract t) (gated_chunk cf chunk level)"
  unfolding gated_chunk_def co_seq.simps
  by (intro co_rules quiet_task.keeps_bind quiet_simp_modify; auto dest: agent_inv_log simp: agent_frame)

lemma quiet_mic_chunk [co_rules]: "keeps (quiet_contract t) (mic_chunk cf chunk b level)"
  unfolding mic_chunk_def co_seq.simps
  by (intro co_rules quiet_task.keeps_bind quiet_simp_modify; auto dest: agent_inv_log simp: agent_frame)

lemma quiet_partial_barge_in [co_rules]: "keeps (quiet_contract t) (partial_barge_in cf)"
  unfolding partial_barge_in_def co_seq.simps
  by (intro co_rules quiet_task.keeps_bind quiet_simp_modify; auto dest: agent_inv_log simp: agent_frame)

lemma quiet_asr_partial [co_rules]: "keeps (quiet_contract t) (asr_partial cf t')"
  unfolding asr_partial_def co_seq.simps
  by (intro co_rules quiet_task.keeps_bind quiet_simp_modify; auto dest: agent_inv_log simp: agent_frame)

lemma quiet_speech_started [co_rules]: "keeps (quiet_contract t) (speech_started cf)"
  unfolding speech_started_def co_seq.simps
  by (intro co_rules quiet_task.keeps_bind quiet_simp_modify; auto dest: agent_inv_log simp: agent_frame)

lemma quiet_reconnect_after_final [co_rules]: "keeps (quiet_contract t) (reconnect_after_final cf)"
  unfolding reconnect_after_final_def co_seq.simps
  by (intro co_rules quiet_task.keeps_bind quiet_simp_modify; auto dest: agent_inv_log simp: agent_frame)

lemma quiet_low_signal_final [co_rules]: "keeps (quiet_contract t) (low_signal_final cf b)"
  unfolding low_signal_final_def co_seq.simps
  by (intro co_rules quiet_task.keeps_bind quiet_simp_modify; auto dest: agent_inv_log simp: agent_frame)

lemma quiet_say_farewell [co_rules]: "keeps (quiet_contract t) (say_farewell cf)"
  unfolding say_farewell_def co_seq.simps Let_def
  by (intro co_rules quiet_task.keeps_bind quiet_simp_modify; auto dest: agent_inv_log simp: agent_frame)

lemma quiet_stop_or_exit [co_rules]: "keeps (quiet_contract t) (stop_or_exit cf full)"
  unfolding stop_or_exit_def co_seq.simps
  by (intro co_rules quiet_task.keeps_bind quiet_simp_modify; auto dest: agent_inv_log simp: agent_frame)

lemma quiet_tts_started [co_rules]: "keeps (quiet_contract t) (tts_started cf t')"
  unfolding tts_started_def co_seq.simps
  by (intro co_rules quiet_task.keeps_bind quiet_simp_modify; auto dest: agent_inv_log simp: agent_frame)

lemma quiet_response_created [co_rules]: "keeps (quiet_contract t) (response_created r)"
  unfolding response_created_def co_seq.simps
  by (intro co_rules quiet_task.keeps_bind quiet_simp_modify; auto dest: agent_inv_log simp: agent_frame)

lemma quiet_tts_sentence_done [co_rules]: "keeps (quiet_contract t) (tts_sentence_done)"
  unfolding tts_sentence_done_def co_seq.simps
  by (intro co_rules quiet_task.keeps_bind quiet_simp_modify; auto dest: agent_inv_log simp: agent_frame)

lemma quiet_finish_reply [co_rules]: "keeps (quiet_contract t) (finish_reply cf)"
  unfolding finish_reply_def co_seq.simps Let_def
  by (intro co_rules quiet_task.keeps_bind quiet_simp_modify; auto dest: agent_inv_log simp: agent_frame)

lemma quiet_response_done [co_rules]: "keeps (quiet_contract t) (response_done cf b)"
  unfolding response_done_def co_seq.simps
  by (intro co_rules quiet_task.keeps_bind quiet_simp_modify; auto dest: agent_inv_log simp: agent_frame)

lemma quiet_tts_done [co_rules]: "keeps (quiet_contract t) (tts_done cf)"
  unfolding tts_done_def co_seq.simps
  by (intro co_rules quiet_task.keeps_bind quiet_simp_modify; auto dest: agent_inv_log simp: agent_frame)

lemma quiet_slv_error [co_rules]: "keeps (quiet_contract t) (slv_error)"
  unfolding slv_error_def co_seq.simps
  by (intro co_rules quiet_task.keeps_bind quiet_simp_modify; auto dest: agent_inv_log simp: agent_frame)

lemma connection_renewed_frame [agent_frame]:
  "ag_turn (connection_renewed s) = ag_turn s" "ag_live (connection_renewed s) = ag_live s"
  "ag_awaiting (connection_renewed s) = ag_awaiting s" "ag_pending (connection_renewed s) = []"
  "ag_log (connection_renewed s) = ag_log s @ [Dropped]" "ag_audio (connection_renewed s) = ag_audio s"
  by (simp_all add: connection_renewed_def Let_def agent_frame)

lemma quiet_reader_exited [co_rules]: "keeps (quiet_contract t) (reader_exited cf)"
  unfolding reader_exited_def co_seq.simps
  by (intro co_rules quiet_task.keeps_bind quiet_simp_modify; auto dest: agent_inv_log simp: agent_frame)

lemma quiet_turn_act_code [co_rules]: "keeps (quiet_contract t) (turn_act_code cf a)"
  by (cases a; simp; intro co_rules quiet_simp_modify; auto dest: agent_inv_log simp: agent_frame)

lemma quiet_run_user_utterance [co_rules]: "keeps (quiet_contract t) (run_user_utterance cf acts ending)"
  unfolding run_user_utterance_def co_seq.simps
  by (intro co_rules quiet_task.keeps_seq; auto dest: agent_inv_log simp: agent_frame split: option.split aexn.split intro!: co_rules quiet_simp_modify)

lemma quiet_handle_server_tool_call [co_rules]: "keeps (quiet_contract t) (handle_server_tool_call cf tool ok)"
  unfolding handle_server_tool_call_def co_seq.simps
  by (intro co_rules quiet_task.keeps_bind quiet_simp_modify; auto dest: agent_inv_log simp: agent_frame)

lemma quiet_run_tool_task [co_rules]: "keeps (quiet_contract t) (run_tool_task cf m tool ok)"
  unfolding run_tool_task_def co_seq.simps
  by (intro co_rules quiet_task.keeps_bind quiet_simp_modify; auto dest: agent_inv_log simp: agent_frame)

lemma quiet_control_code [co_rules]: "keeps (quiet_contract t) (control_code cf c)"
  by (cases c; simp add: co_seq.simps; intro conjI impI co_rules quiet_simp_modify; auto dest: agent_inv_log simp: agent_frame)

section \<open>The dispatcher\<close>

lemma task_contract_simps [simp]:
  "cn_inv (task_contract t) = (\<lambda>s. agent_inv s \<and> task_own t s)" "cn_rely (task_contract t) = task_rely t"
  "cn_guar (task_contract t) = task_guar t" "cn_resume (task_contract t) = app_may_resume"
  "cn_inv (quiet_contract t) = (\<lambda>s. agent_inv s \<and> task_own t s)" "cn_rely (quiet_contract t) = task_rely t"
  "cn_guar (quiet_contract t) = quiet" "cn_resume (quiet_contract t) = app_may_resume"
  by (simp_all add: task_contract_def quiet_contract_def)

lemma quiet_ok:
  assumes "keeps (quiet_contract t) m"
  shows "co_ok (task_contract t) (\<lambda>s. agent_inv s \<and> task_own t s) m
    (\<lambda>a s. agent_inv s \<and> task_own t s) (\<lambda>e s. agent_inv s \<and> task_own t s)"
  using ok_less [OF assms [unfolded keeps_def], of "task_guar t"] quiet_task by (simp add: task_contract_def)

text \<open>Quiet code of the dispatcher also leaves alone what no other task changes.\<close>

lemma quiet_dispatch_with:
  assumes "keeps (quiet_contract TDispatch) m" and "\<And>s s'. quiet_but UNIV s s' \<Longrightarrow> K s \<Longrightarrow> K s'"
  shows "co_ok (task_contract TDispatch) (\<lambda>s. agent_inv s \<and> K s) m (\<lambda>a s. agent_inv s \<and> K s) (\<lambda>e s. agent_inv s \<and> K s)"
proof -
  have g: "quiet s s' \<Longrightarrow> K s \<Longrightarrow> K s'" for s s' by (rule assms(2) [OF quiet_quiet_but])
  have "co_ok (quiet_contract TDispatch) (\<lambda>s. agent_inv s \<and> K s) m (\<lambda>a s. agent_inv s \<and> K s) (\<lambda>e s. agent_inv s \<and> K s)"
    using quiet_task.ok_with_stable [OF assms(1) [unfolded keeps_def], of K] assms(2) g by simp
  from ok_less [OF this, of "task_guar TDispatch"] show ?thesis
    unfolding task_contract_def by (simp only: task_contract_simps quiet_task)
qed

definition disp_ok :: "(agent \<Rightarrow> bool) \<Rightarrow> 'a app \<Rightarrow> ('a \<Rightarrow> agent \<Rightarrow> bool) \<Rightarrow> bool" where
  "disp_ok P m Q \<longleftrightarrow>
     co_ok (task_contract TDispatch) (\<lambda>s. agent_inv s \<and> P s) m (\<lambda>a s. agent_inv s \<and> Q a s) (\<lambda>e. agent_inv)"

lemma disp_quiet:
  assumes "keeps (quiet_contract TDispatch) m" and "\<And>s s'. quiet_but UNIV s s' \<Longrightarrow> K s \<Longrightarrow> K s'"
  shows "disp_ok K m (\<lambda>a. K)"
  unfolding disp_ok_def by (rule co_ok_weaken [OF quiet_dispatch_with [OF assms]]) auto

lemma disp_quiet_any: "keeps (quiet_contract TDispatch) m \<Longrightarrow> disp_ok P m (\<lambda>a s. True)"
  unfolding disp_ok_def by (rule co_ok_weaken [OF quiet_ok]) auto

lemma disp_weaken: "disp_ok P m Q \<Longrightarrow> (\<And>s. P' s \<Longrightarrow> P s) \<Longrightarrow> (\<And>a s. Q a s \<Longrightarrow> Q' a s) \<Longrightarrow> disp_ok P' m Q'"
  unfolding disp_ok_def by (erule co_ok_weaken) auto

lemma disp_return: "(\<And>s. P s \<Longrightarrow> Q a s) \<Longrightarrow> disp_ok P (co_return a) Q"
  unfolding disp_ok_def by (rule task.ok_return) auto

lemma disp_modify:
  "(\<And>s. agent_inv s \<Longrightarrow> P s \<Longrightarrow> ag_live s \<subseteq> ag_live (f s) \<and> agent_inv (f s) \<and> Q () (f s)) \<Longrightarrow> disp_ok P (co_modify f) Q"
  unfolding disp_ok_def by (rule task.ok_modify) auto

lemma disp_then: "disp_ok P m (\<lambda>a. S) \<Longrightarrow> disp_ok S n Q \<Longrightarrow> disp_ok P (co_then m n) Q"
  unfolding disp_ok_def by (rule task.ok_then)

lemma disp_quiet_then:
  assumes "keeps (quiet_contract TDispatch) m" and "\<And>s s'. quiet_but UNIV s s' \<Longrightarrow> K s \<Longrightarrow> K s'"
    and "disp_ok K n Q"
  shows "disp_ok K (co_then m n) Q"
  by (rule disp_then [OF disp_quiet [OF assms(1,2)] assms(3)])

lemma disp_when:
  "disp_ok (\<lambda>s. P s \<and> b s) m Q \<Longrightarrow> disp_ok (\<lambda>s. P s \<and> \<not> b s) n Q \<Longrightarrow> disp_ok P (co_when b m n) Q"
  unfolding disp_ok_def by (rule task.ok_when; erule co_ok_weaken; simp)

lemma disp_with: "(\<And>x. disp_ok (\<lambda>s. P s \<and> f s = x) (m x) Q) \<Longrightarrow> disp_ok P (co_with f m) Q"
  unfolding disp_ok_def by (rule task.ok_with, rule co_ok_weaken, assumption) auto

lemma disp_catching:
  assumes "disp_ok P m Q" and "disp_ok (\<lambda>s. True) h Q"
  shows "disp_ok P (catching m h) Q"
  unfolding disp_ok_def catching_def
proof (rule task.ok_try)
  show "co_ok (task_contract TDispatch) (\<lambda>s. agent_inv s \<and> P s) m (\<lambda>a s. agent_inv s \<and> Q a s) (\<lambda>e. agent_inv)"
    using assms(1) by (simp add: disp_ok_def)
  fix e show "co_ok (task_contract TDispatch) agent_inv (if e = Cancelled then co_raise Cancelled else h)
      (\<lambda>a s. agent_inv s \<and> Q a s) (\<lambda>e. agent_inv)"
    using assms(2) by (auto simp: disp_ok_def intro!: task.ok_raise)
qed

subsection \<open>The turn that runs is waited for\<close>

lemma disp_cancel_turn:
  assumes K: "\<And>s s'. quiet_but UNIV s s' \<Longrightarrow> K s \<Longrightarrow> K s'"
  shows "disp_ok K cancel_turn (\<lambda>a s. K s \<and> ag_live s = {})"
  unfolding cancel_turn_def
proof (rule disp_with)
  fix t :: "nat option"
  let ?Q = "\<lambda>a s. agent_inv s \<and> K s \<and> ag_live s = {}"
  show "disp_ok (\<lambda>s. K s \<and> ag_turn s = t)
     (case t of None \<Rightarrow> co_return ()
      | Some n \<Rightarrow> co_when (\<lambda>s. n \<in> ag_live s) (co_try (co_await (OpJoinTurn n)) (\<lambda>e. co_return ())) (co_return ()))
     (\<lambda>a s. K s \<and> ag_live s = {})"
  proof (cases t)
    case None
    have "co_ok (task_contract TDispatch) (\<lambda>s. agent_inv s \<and> K s \<and> ag_turn s = None) (co_return ()) ?Q (\<lambda>e. agent_inv)"
      by (rule task.ok_return) (auto simp: agent_inv_def)
    then show ?thesis by (simp add: None disp_ok_def)
  next
    case (Some n)
    have j: "agent_inv u \<Longrightarrow> quiet_but UNIV s u \<Longrightarrow> ag_turn s = Some n \<Longrightarrow> n \<notin> ag_live u \<Longrightarrow> ag_live u = {}" for s u
      by (auto simp: agent_inv_def quiet_but_def)
    have a: "co_ok (task_contract TDispatch) (\<lambda>s. agent_inv s \<and> K s \<and> ag_turn s = Some n \<and> n \<in> ag_live s)
        (co_try (co_await (OpJoinTurn n)) (\<lambda>e. co_return ())) ?Q (\<lambda>e. agent_inv)"
    proof (rule task.ok_try)
      show "co_ok (task_contract TDispatch) (\<lambda>s. agent_inv s \<and> K s \<and> ag_turn s = Some n \<and> n \<in> ag_live s)
          (co_await (OpJoinTurn n)) ?Q (\<lambda>e. ?Q ())"
        by (rule task.ok_await) (auto simp: app_may_resume_def dest: j K)
      fix e :: aexn show "co_ok (task_contract TDispatch) (?Q ()) (co_return ()) ?Q (\<lambda>e. agent_inv)"
        by (rule task.ok_return) simp
    qed
    have b: "co_ok (task_contract TDispatch) (\<lambda>s. agent_inv s \<and> K s \<and> ag_turn s = Some n \<and> n \<notin> ag_live s)
        (co_return ()) ?Q (\<lambda>e. agent_inv)"
      by (rule task.ok_return) (auto simp: agent_inv_def)
    have "co_ok (task_contract TDispatch) (\<lambda>s. agent_inv s \<and> K s \<and> ag_turn s = Some n)
        (co_when (\<lambda>s. n \<in> ag_live s) (co_try (co_await (OpJoinTurn n)) (\<lambda>e. co_return ())) (co_return ())) ?Q (\<lambda>e. agent_inv)"
      using a b by (simp add: co_ok_def co_when_def)
    then show ?thesis by (simp add: Some disp_ok_def)
  qed
qed

lemma last_utterance_stays: "quiet_but UNIV s s' \<Longrightarrow> last_utterance (ag_log s) = u \<Longrightarrow> last_utterance (ag_log s') = u"
  by (simp add: quiet_but_def)

lemma speech_free_stays: "quiet_but UNIV s s' \<Longrightarrow> speech_free s \<Longrightarrow> speech_free s'"
  by (simp add: quiet_but_def)

lemma not_awaiting_stays: "quiet_but UNIV s s' \<Longrightarrow> \<not> ag_awaiting s \<Longrightarrow> \<not> ag_awaiting s'"
  by (auto simp: quiet_but_def)

lemma no_live_stays: "quiet_but UNIV s s' \<Longrightarrow> ag_live s = {} \<Longrightarrow> ag_live s' = {}"
  by (auto simp: quiet_but_def)

subsection \<open>Segments and utterances\<close>

lemma disp_segment_final: "disp_ok P (segment_final t) (\<lambda>a s. True)"
  unfolding segment_final_def co_seq.simps
proof (rule disp_then)
  show "disp_ok P (co_modify (\<lambda>s. cancel_timer WakeCommand (keep_segment t s))) (\<lambda>a s. True)"
    by (rule disp_modify) (auto simp: keep_segment_def Let_def agent_frame agent_inv_audio)
  show "disp_ok (\<lambda>s. True) (co_then (hook ''on_user_utterance'') (co_return ())) (\<lambda>a s. True)"
    by (intro disp_quiet_any co_rules)
qed

lemma disp_interrupt:
  assumes K: "\<And>s s'. quiet_but UNIV s s' \<Longrightarrow> K s \<Longrightarrow> K s'"
  shows "disp_ok K (interrupt_current_turn cf) (\<lambda>a s. K s \<and> speech_free s)"
  unfolding interrupt_current_turn_def
proof (rule disp_then)
  show "disp_ok K cancel_turn (\<lambda>a. K)" by (intro disp_quiet co_rules) (rule K)
  show "disp_ok K (co_with (\<lambda>s. playback_position_ms (ag_response s) (ag_audio s))
     (\<lambda>ms. co_seq [co_modify (on_output stop_playback), ignoring (co_await (OpAbort True)),
        ignoring (co_await (OpTruncate ms)), co_modify (interrupted cf)])) (\<lambda>a s. K s \<and> speech_free s)"
  proof (rule disp_with)
    fix ms
    show "disp_ok (\<lambda>s. K s \<and> playback_position_ms (ag_response s) (ag_audio s) = ms)
       (co_seq [co_modify (on_output stop_playback), ignoring (co_await (OpAbort True)),
        ignoring (co_await (OpTruncate ms)), co_modify (interrupted cf)]) (\<lambda>a s. K s \<and> speech_free s)"
      unfolding co_seq.simps
    proof (rule disp_then [where S = "\<lambda>s. K s \<and> speech_free s"])
      have q: "quiet_but UNIV s (on_output stop_playback s)" for s
        by (simp add: quiet_but_def agent_frame speech_free_audio)
      show "disp_ok (\<lambda>s. K s \<and> playback_position_ms (ag_response s) (ag_audio s) = ms)
          (co_modify (on_output stop_playback)) (\<lambda>a s. K s \<and> speech_free s)"
        by (rule disp_modify) (use K [OF q] in \<open>auto simp: agent_frame agent_inv_audio speech_free_audio\<close>)
      show "disp_ok (\<lambda>s. K s \<and> speech_free s) (co_then (ignoring (co_await (OpAbort True)))
         (co_then (ignoring (co_await (OpTruncate ms))) (co_then (co_modify (interrupted cf)) (co_return ()))))
         (\<lambda>a s. K s \<and> speech_free s)"
        by (rule disp_quiet, (intro co_rules quiet_simp_modify; auto dest: agent_inv_log simp: agent_frame))
           (auto intro: K speech_free_stays)
    qed
  qed
qed

lemma disp_supersede: "disp_ok (\<lambda>s. last_utterance (ag_log s) = u) (supersede_reply cf) (\<lambda>a s. last_utterance (ag_log s) = u)"
  unfolding supersede_reply_def
proof (rule disp_when)
  show "disp_ok (\<lambda>s. last_utterance (ag_log s) = u \<and> supersedes cf s)
     (co_seq [co_modify (cancel_timer Drain), interrupt_current_turn cf,
        co_modify (\<lambda>s. s\<lparr>ag_response := None, ag_awaiting := True\<rparr>)]) (\<lambda>a s. last_utterance (ag_log s) = u)"
    unfolding co_seq.simps
  proof (rule disp_then [where S = "\<lambda>s. last_utterance (ag_log s) = u"])
    show "disp_ok (\<lambda>s. last_utterance (ag_log s) = u \<and> supersedes cf s) (co_modify (cancel_timer Drain))
        (\<lambda>a s. last_utterance (ag_log s) = u)"
      by (rule disp_modify) (simp add: agent_frame agent_inv_audio)
    show "disp_ok (\<lambda>s. last_utterance (ag_log s) = u) (co_then (interrupt_current_turn cf)
       (co_then (co_modify (\<lambda>s. s\<lparr>ag_response := None, ag_awaiting := True\<rparr>)) (co_return ())))
       (\<lambda>a s. last_utterance (ag_log s) = u)"
    proof (rule disp_then [OF disp_interrupt])
      show "quiet_but UNIV s s' \<Longrightarrow> last_utterance (ag_log s) = u \<Longrightarrow> last_utterance (ag_log s') = u" for s s'
        by (rule last_utterance_stays)
      show "disp_ok (\<lambda>s. last_utterance (ag_log s) = u \<and> speech_free s)
         (co_then (co_modify (\<lambda>s. s\<lparr>ag_response := None, ag_awaiting := True\<rparr>)) (co_return ()))
         (\<lambda>a s. last_utterance (ag_log s) = u)"
        by (rule disp_then [where S = "\<lambda>s. last_utterance (ag_log s) = u"], rule disp_modify)
           (auto simp: agent_inv_audio speech_free_audio intro: disp_return)
    qed
  qed
  show "disp_ok (\<lambda>s. last_utterance (ag_log s) = u \<and> \<not> supersedes cf s)
     (co_modify (\<lambda>s. on_output arm_for_next_turn (s\<lparr>ag_awaiting := False\<rparr>))) (\<lambda>a s. last_utterance (ag_log s) = u)"
    by (rule disp_modify) (simp add: agent_frame agent_inv_audio)
qed

lemma disp_start_turn: "disp_ok (\<lambda>s. last_utterance (ag_log s) = Some full) (start_turn full) (\<lambda>a s. True)"
  unfolding start_turn_def co_seq.simps
proof (rule disp_then [OF disp_cancel_turn])
  show "quiet_but UNIV s s' \<Longrightarrow> last_utterance (ag_log s) = Some full \<Longrightarrow> last_utterance (ag_log s') = Some full" for s s'
    by (rule last_utterance_stays)
  show "disp_ok (\<lambda>s. last_utterance (ag_log s) = Some full \<and> ag_live s = {})
     (co_then (co_modify (\<lambda>s. create_turn full (arm_timer ThinkingWatchdog (enter_state CThinking s)))) (co_return ()))
     (\<lambda>a s. True)"
    by (rule disp_then [where S = "\<lambda>s. True"], rule disp_modify)
       (auto simp: create_turn_def agent_frame agent_inv_audio intro: disp_return)
qed

lemma disp_utterance_end: "disp_ok P (utterance_end cf final) (\<lambda>a s. True)"
  unfolding utterance_end_def
proof (rule disp_with)
  fix full
  let ?K = "\<lambda>s. last_utterance (ag_log s) = Some full"
  show "disp_ok (\<lambda>s. P s \<and> join_segments (ag_pending s) final = full)
     (co_then (co_modify (take_utterance final))
       (co_then (co_seq [supersede_reply cf, co_modify fresh_utterance_round, hook ''on_user_utterance''])
         (if is_exit cf full \<or> is_stop cf full then stop_or_exit cf full else start_turn full))) (\<lambda>a s. True)"
    unfolding co_seq.simps
  proof (rule disp_then [where S = ?K])
    show "disp_ok (\<lambda>s. P s \<and> join_segments (ag_pending s) final = full) (co_modify (take_utterance final)) (\<lambda>a. ?K)"
      by (rule disp_modify) (auto simp: take_utterance_def Let_def agent_frame agent_inv_audio)
    show "disp_ok ?K (co_then (co_then (supersede_reply cf) (co_then (co_modify fresh_utterance_round)
        (co_then (hook ''on_user_utterance'') (co_return ()))))
       (if is_exit cf full \<or> is_stop cf full then stop_or_exit cf full else start_turn full)) (\<lambda>a s. True)"
    proof (rule disp_then [where S = ?K])
      show "disp_ok ?K (co_then (supersede_reply cf) (co_then (co_modify fresh_utterance_round)
          (co_then (hook ''on_user_utterance'') (co_return ())))) (\<lambda>a. ?K)"
        by (rule disp_then [OF disp_supersede disp_quiet [OF _ last_utterance_stays]])
           (intro co_rules quiet_simp_modify; auto dest: agent_inv_log simp: agent_frame)+
      show "disp_ok ?K (if is_exit cf full \<or> is_stop cf full then stop_or_exit cf full else start_turn full) (\<lambda>a s. True)"
        using disp_start_turn [of full] by (auto intro: disp_quiet_any co_rules)
    qed
  qed
qed

lemma disp_asr_final: "disp_ok P (asr_final cf t c d) (\<lambda>a s. True)"
  unfolding asr_final_def
proof (rule disp_with)
  fix had_eos
  show "disp_ok (\<lambda>s. P s \<and> ag_eos s = had_eos)
     (co_then (co_modify (\<lambda>s. (cancel_timer StallWatchdog (cancel_timer AsrWatchdog s))\<lparr>ag_eos := False\<rparr>))
       (co_when (\<lambda>s. d \<and> ag_pending s = []) (co_modify (duplicate_final cf))
         (co_then (if c then reconnect_after_final cf else co_return ())
           (co_when (ignored_final cf had_eos t) (low_signal_final cf had_eos)
             (co_when (mid_utterance cf had_eos) (segment_final (if d then [] else t))
               (utterance_end cf (if d then [] else t))))))) (\<lambda>a s. True)"
    by (rule disp_then [where S = "\<lambda>s. True"] disp_when disp_segment_final disp_utterance_end |
        (rule disp_quiet_any, (intro co_rules quiet_simp_modify; auto dest: agent_inv_log simp: agent_frame); fail))+
qed

subsection \<open>Speech of a reply\<close>

lemma disp_tts_audio: "disp_ok (\<lambda>s. \<not> ag_awaiting s) (tts_audio cf pcm sr) (\<lambda>a s. True)"
  unfolding tts_audio_def co_seq.simps
proof (rule disp_when)
  show "disp_ok (\<lambda>s. \<not> ag_awaiting s \<and> (ag_drop_sentence s \<or> ag_state s = CBargedIn)) (co_return ()) (\<lambda>a s. True)"
    by (rule disp_return) simp
  have p: "ag_pending (first_frame sr s) = ag_pending s \<and> ag_log (first_frame sr s) = ag_log s \<and> ag_turn (first_frame sr s) = ag_turn s
      \<and> ag_live (first_frame sr s) = ag_live s \<and> ag_awaiting (first_frame sr s) = ag_awaiting s
      \<and> no_speech (ag_audio (first_frame sr s)) = no_speech (ag_audio s)" for s
    by (simp add: first_frame_def agent_frame)
  have q: "keeps (quiet_contract TDispatch) (co_modify (first_frame sr))"
    by (rule quiet_simp_modify) (auto simp: p dest: agent_inv_log)
  show "disp_ok (\<lambda>s. \<not> ag_awaiting s \<and> \<not> (ag_drop_sentence s \<or> ag_state s = CBargedIn))
     (co_then (co_modify (first_frame sr)) (co_then (hook ''on_tts_audio_frame'')
       (co_then (co_modify (on_output (play (cf_resample cf) pcm))) (co_return ())))) (\<lambda>a s. True)"
  proof (rule disp_weaken [where P = "\<lambda>s. \<not> ag_awaiting s" and Q = "\<lambda>a s. True"])
    show "disp_ok (\<lambda>s. \<not> ag_awaiting s)
       (co_then (co_modify (first_frame sr)) (co_then (hook ''on_tts_audio_frame'')
         (co_then (co_modify (on_output (play (cf_resample cf) pcm))) (co_return ())))) (\<lambda>a s. True)"
      by (rule disp_quiet_then [OF q not_awaiting_stays], assumption+,
          rule disp_quiet_then [OF quiet_hook not_awaiting_stays], assumption+,
          rule disp_then [where S = "\<lambda>s. True"], rule disp_modify)
         (auto simp: agent_frame agent_inv_audio intro: disp_return)
  qed simp_all
qed

lemma disp_handle_event: "disp_ok (\<lambda>s. of_a_reply ev \<longrightarrow> \<not> ag_awaiting s) (handle_event cf ev) (\<lambda>a s. True)"
proof (cases ev)
  case (ASRFinal t c d)
  then show ?thesis by (simp add: disp_asr_final)
next
  case (TTSAudio pcm sr)
  then show ?thesis using disp_tts_audio by simp
qed (simp_all add: co_seq.simps, (rule disp_quiet_any, (intro co_rules quiet_simp_modify; auto dest: agent_inv_log simp: agent_frame))+)

lemma disp_asleep_event: "disp_ok (\<lambda>s. of_a_reply ev \<longrightarrow> \<not> ag_awaiting s) (asleep_event cf ev) (\<lambda>a s. True)"
  using disp_handle_event [of ev cf] by (cases ev) (auto intro: disp_quiet_any co_rules)

lemma disp_dispatch_one: "disp_ok (\<lambda>s. True) (dispatch_one cf ev) (\<lambda>a s. True)"
  unfolding dispatch_one_def
proof (rule disp_when)
  show "disp_ok (\<lambda>s. True \<and> ag_awaiting s \<and> of_a_reply ev) (co_return ()) (\<lambda>a s. True)" by (rule disp_return) simp
  let ?K = "\<lambda>s. of_a_reply ev \<longrightarrow> \<not> ag_awaiting s"
  have k: "quiet_but UNIV s s' \<Longrightarrow> ?K s \<Longrightarrow> ?K s'" for s s' using not_awaiting_stays by blast
  have "disp_ok ?K (co_then (readvertise_if_advanced cf)
      (co_when (\<lambda>s. ag_state s = CSleeping) (asleep_event cf ev) (handle_event cf ev))) (\<lambda>a s. True)"
  proof (rule disp_quiet_then [OF _ k])
    show "disp_ok ?K (co_when (\<lambda>s. ag_state s = CSleeping) (asleep_event cf ev) (handle_event cf ev)) (\<lambda>a s. True)"
      by (rule disp_when; rule disp_weaken [OF disp_asleep_event] disp_weaken [OF disp_handle_event]; simp)
  qed (intro co_rules)
  then show "disp_ok (\<lambda>s. True \<and> \<not> (ag_awaiting s \<and> of_a_reply ev)) (co_then (readvertise_if_advanced cf)
      (co_when (\<lambda>s. ag_state s = CSleeping) (asleep_event cf ev) (handle_event cf ev))) (\<lambda>a s. True)"
    by (rule disp_weaken) auto
qed

section \<open>All tasks\<close>

lemma quiet_code_ok:
  assumes "keeps (quiet_contract t) m" and "\<And>s. agent_inv s \<Longrightarrow> P s \<Longrightarrow> task_own t s"
  shows "co_ok (task_contract t) (\<lambda>s. agent_inv s \<and> P s) m (\<lambda>a. agent_inv) (\<lambda>e. agent_inv)"
  by (rule co_ok_weaken [OF quiet_ok [OF assms(1)]]) (use assms(2) in auto)

lemma end_turn_ok: "co_ok (task_contract (TTurn n)) (\<lambda>s. agent_inv s \<and> n \<in> ag_live s) (co_modify (end_turn n)) (\<lambda>a. agent_inv) R"
  by (rule task.ok_modify) (auto simp: end_turn_def quiet_but_def agent_inv_audio speech_free_audio)

lemma turn_task_ok:
  "co_ok (task_contract (TTurn n)) (\<lambda>s. agent_inv s \<and> n \<in> ag_live s) (turn_task cf n acts ending) (\<lambda>a. agent_inv) (\<lambda>e. agent_inv)"
  unfolding turn_task_def
proof (rule task.ok_then [OF task.ok_try end_turn_ok])
  let ?I = "\<lambda>s. agent_inv s \<and> n \<in> ag_live s"
  show "co_ok (task_contract (TTurn n)) ?I (run_user_utterance cf acts ending) (\<lambda>a. ?I) (\<lambda>e. ?I)"
    using quiet_ok [OF quiet_run_user_utterance, of "TTurn n"] by simp
  fix e show "co_ok (task_contract (TTurn n)) ?I (co_then (co_modify (end_turn n)) (co_raise e)) (\<lambda>a. ?I) (\<lambda>e. agent_inv)"
    by (rule task.ok_then [OF end_turn_ok]) (rule task.ok_raise, simp)
qed

lemma never_starts: "co_ok C (\<lambda>s. False) m Q R"
  by (simp add: co_ok_def)

lemma task_code_ok:
  "co_ok (task_contract t) (\<lambda>s. agent_inv s \<and> task_may_start t ev s) (task_code cf t ev) (\<lambda>a. agent_inv) (\<lambda>e. agent_inv)"
proof (cases ev)
  case (Hears e)
  have d: "disp_ok (\<lambda>s. True) (ignoring (dispatch_one cf e)) (\<lambda>a s. True)"
    unfolding ignoring_def by (rule disp_catching [OF disp_dispatch_one]) (rule disp_return, simp)
  show ?thesis
  proof (cases "t = TDispatch")
    case True
    then show ?thesis using d by (simp add: Hears task_code_def task_may_start_def disp_ok_def)
  next
    case False
    then show ?thesis by (simp add: Hears task_may_start_def co_ok_def)
  qed
next
  case (RunsTurn acts ending)
  then show ?thesis using turn_task_ok by (cases t) (simp_all add: task_code_def task_may_start_def co_ok_def)
next
  case TurnNeverBegins
  then show ?thesis using end_turn_ok by (cases t) (simp_all add: task_code_def task_may_start_def co_ok_def)
next
  case (DeviceFetches n)
  have "keeps (quiet_contract t) (co_modify (on_output (\<lambda>a. snd (output_callback n a))))"
    by (rule quiet_simp_modify) (auto dest: agent_inv_log simp: agent_frame no_speech_fetched)
  then show ?thesis
    by (simp add: DeviceFetches task_code_def, intro quiet_code_ok) (auto simp: task_may_start_def)
next
  case (ClockAt n)
  have "keeps (quiet_contract t) (co_modify (\<lambda>s. s\<lparr>ag_clock := max n (ag_clock s)\<rparr>))"
    by (rule quiet_simp_modify) (auto dest: agent_inv_log)
  then show ?thesis by (simp add: ClockAt task_code_def, intro quiet_code_ok) (auto simp: task_may_start_def)
next
  case (LinkIs l)
  have "keeps (quiet_contract t) (co_modify (\<lambda>s. s\<lparr>ag_link := l\<rparr>))"
    by (rule quiet_simp_modify) (auto dest: agent_inv_log)
  then show ?thesis by (simp add: LinkIs task_code_def, intro quiet_code_ok) (auto simp: task_may_start_def)
next
  case Fires
  then show ?thesis
    by (cases t) (auto simp: task_code_def task_may_start_def intro!: quiet_code_ok never_starts co_rules)
next
  case (RunsTool tool ok)
  then show ?thesis
    by (cases t) (auto simp: task_code_def task_may_start_def intro!: quiet_code_ok never_starts co_rules)
next
  case (Controls c)
  have "co_ok (task_contract (TControl m)) (\<lambda>s. agent_inv s \<and> True) (control_code cf c) (\<lambda>a. agent_inv) (\<lambda>e. agent_inv)" for m
    by (rule quiet_code_ok [OF quiet_control_code]) simp
  then show ?thesis
    by (cases t) (simp_all add: Controls task_code_def task_may_start_def never_starts)
qed (auto simp: task_code_def task_may_start_def intro!: quiet_code_ok never_starts co_rules)

interpretation agent_loop: event_loop "task_code cf" task_may_start app_may_resume agent_inv task_own task_contract for cf
proof
  fix t u :: task and s s' :: agent and ev
  show "cn_inv (task_contract t) s \<longleftrightarrow> agent_inv s \<and> task_own t s" "cn_resume (task_contract t) = app_may_resume" by simp_all
  show "cn_rely (task_contract t) s s' \<Longrightarrow> task_own t s \<Longrightarrow> task_own t s'" by (cases t) simp_all
  show "t \<noteq> u \<Longrightarrow> cn_guar (task_contract t) s s' \<Longrightarrow> cn_rely (task_contract u) s s'"
    by (cases t; cases u) (auto simp: quiet_quiet_but quiet_def quiet_but_def)
  show "co_ok (task_contract t) (\<lambda>s. agent_inv s \<and> task_may_start t ev s) (task_code cf t ev) (\<lambda>a. agent_inv) (\<lambda>e. agent_inv)"
    by (rule task_code_ok)
qed

lemma new_agent_inv: "agent_inv (new_agent cf sr lk)"
  by (simp add: agent_inv_def new_agent_def)

lemma app_run_inv: "app_run cf (new_agent cf sr lk) es L \<Longrightarrow> agent_inv (lp_state L)"
  unfolding app_run_def by (rule agent_loop.always [OF _ new_agent_inv])

section \<open>A run\<close>

text \<open>A device whose words are five letters long, so that none is an interjection.\<close>

definition demo_text :: text_lib where
  "demo_text = \<lparr>tl_lower = id, tl_letter_or_digit = (\<lambda>c. True)\<rparr>"

definition demo_app :: app_config where
  "demo_app = \<lparr>cf_text = demo_text, cf_pipeline = AlwaysOn, cf_server_loop = False, cf_mode_barge_in = None, cf_barge_in = None,
     cf_barge_min_speaking_ms = 500, cf_barge_min_chars = 2, cf_drive_eos = False, cf_vad_speech_min_ms = 200,
     cf_vad_silence_ms = 600, cf_chunk_ms = 100, cf_ptt_no_vad_silence = True, cf_wake_single_turn = False,
     cf_wake_timeout = False, cf_stall_eos = False, cf_drain = False, cf_drain_timeout_ms = 10000,
     cf_stop_to_sleep = False, cf_reconnect_on_wake = False, cf_wake_mic_skip_ms = 0, cf_drop_while_speaking = False,
     cf_duplicate_window_ms = 0, cf_client_vad = True, cf_gate = False, cf_gate_hangover_ms = 250, cf_gate_drive_eos = False,
     cf_gate_min_speech_ms = 250, cf_gate_eos_delay_ms = 0, cf_gain = (\<lambda>c. c), cf_stop_words = [], cf_exit_words = [], cf_wake_phrases = [], cf_wake_reply = [],
     cf_exit_reply = [], cf_no_final_text = [], cf_wake_tone = None, cf_sleep_tone = None, cf_v2 = False, cf_guard = False,
     cf_resample = (\<lambda>a b pcm. pcm)\<rparr>"

definition demo_link :: link where
  "demo_link = \<lparr>lk_ws = Some 1, lk_gen = 1, lk_healthy = True, lk_reconnecting = False, lk_evicted = False, lk_idle_ms = 0\<rparr>"

definition demo_hello :: cptext where
  "demo_hello = [104, 101, 108, 108, 111]"

lemma interjections_short: "t \<in> set interjections \<Longrightarrow> length t \<le> 4"
proof -
  have "list_all (\<lambda>t. length t \<le> 4) interjections" by (simp add: interjections_def cp_of_def)
  then show "t \<in> set interjections \<Longrightarrow> length t \<le> 4" by (simp add: list_all_iff)
qed

lemma hello_is_no_signal: "cp_strip demo_hello = demo_hello" "\<not> low_signal demo_text demo_hello" "\<not> is_stop demo_app demo_hello" "\<not> is_exit demo_app demo_hello"
proof -
  show s: "cp_strip demo_hello = demo_hello" by code_simp
  have "demo_hello \<notin> set interjections" using interjections_short [of demo_hello] by (auto simp: demo_hello_def)
  then show "\<not> low_signal demo_text demo_hello"
    using s by (simp add: low_signal_def strip_for_signal_def demo_text_def) (simp add: demo_hello_def)
  show "\<not> is_stop demo_app demo_hello" by (simp add: is_stop_def demo_app_def says_one_of_def Let_def)
  show "\<not> is_exit demo_app demo_hello"
    by (simp add: is_exit_def demo_app_def is_exit_intent_def says_one_of_def strip_wake_prefix_def Let_def)
qed

lemma demo_app_fields:
  "cf_text demo_app = demo_text" "cf_pipeline demo_app = AlwaysOn" "cf_server_loop demo_app = False"
  "cf_mode_barge_in demo_app = None" "cf_barge_in demo_app = None" "cf_barge_min_speaking_ms demo_app = 500"
  "cf_barge_min_chars demo_app = 2" "cf_drive_eos demo_app = False" "cf_vad_speech_min_ms demo_app = 200"
  "cf_vad_silence_ms demo_app = 600" "cf_chunk_ms demo_app = 100" "cf_ptt_no_vad_silence demo_app = True"
  "cf_wake_single_turn demo_app = False" "cf_wake_timeout demo_app = False" "cf_stall_eos demo_app = False"
  "cf_drain demo_app = False" "cf_drain_timeout_ms demo_app = 10000" "cf_stop_to_sleep demo_app = False"
  "cf_reconnect_on_wake demo_app = False" "cf_wake_mic_skip_ms demo_app = 0"
  "cf_drop_while_speaking demo_app = False" "cf_duplicate_window_ms demo_app = 0" "cf_client_vad demo_app = True" "cf_stop_words demo_app = []"
  "cf_exit_words demo_app = []" "cf_wake_phrases demo_app = []" "cf_wake_reply demo_app = []"
  "cf_exit_reply demo_app = []" "cf_no_final_text demo_app = []" "cf_wake_tone demo_app = None"
  "cf_sleep_tone demo_app = None" "cf_v2 demo_app = False" "cf_guard demo_app = False"
  "cf_resample demo_app = (\<lambda>a b pcm. pcm)"
  by (simp_all add: demo_app_def)

lemmas agent_code =
  fun_cong [OF hook_def] fun_cong [OF catching_def] fun_cong [OF ignoring_def] fun_cong [OF cancel_turn_def]
  fun_cong [OF readvertise_def] fun_cong [OF readvertise_if_advanced_def] fun_cong [OF dispatch_one_def]
  fun_cong [OF asr_final_def] fun_cong [OF utterance_end_def] fun_cong [OF supersede_reply_def]
  fun_cong [OF start_turn_def] fun_cong [OF interrupt_current_turn_def] fun_cong [OF tts_audio_def]
  fun_cong [OF turn_task_def] fun_cong [OF run_user_utterance_def]

lemmas agent_ops = enter_state_def on_output_def on_vad_def log_deed_def cancel_timer_def start_timer_def arm_timer_def
  take_utterance_def create_turn_def fresh_utterance_round_def first_frame_def interrupted_def arm_barge_in_eos_def
  play_def stop_playback_def set_output_sample_rate_def arm_for_next_turn_def playback_position_ms_def is_playing_def

text \<open>A reply is playing when the user says something else: it is superseded, and a turn begins.\<close>

definition demo_app_events :: "(task, happening, aexn) loop_event list" where
  "demo_app_events =
     [Begin TDispatch (Hears (TTSAudio [1, 2] 16000)), Resume TDispatch None,
      Begin TDispatch (Hears (ASRFinal demo_hello False False)), Resume TDispatch None, Resume TDispatch (Some Failed),
      Resume TDispatch None, Begin (TTurn 1) (RunsTurn [Wait] None)]"

definition demo_agent :: agent where
  "demo_agent = new_agent demo_app 16000 demo_link"

lemma demo_run:
  "\<exists>L. app_run demo_app demo_agent demo_app_events L \<and> lp_tasks L (TTurn 1) \<noteq> None \<and> ag_awaiting (lp_state L)
     \<and> ag_turn (lp_state L) = Some 1 \<and> ag_log (lp_state L) = [Utterance demo_hello demo_hello] @ Turn 1 demo_hello # []"
proof -
  have "\<exists>L. loop_nexts (task_code demo_app) task_may_start app_may_resume demo_app_events (idle_loop demo_agent) = Some L
      \<and> lp_tasks L (TTurn 1) \<noteq> None \<and> ag_awaiting (lp_state L)
      \<and> ag_turn (lp_state L) = Some 1 \<and> ag_log (lp_state L) = [Utterance demo_hello demo_hello] @ Turn 1 demo_hello # []"
    by (simp add: demo_app_events_def demo_agent_def idle_loop_def task_may_start_def task_code_def co_run agent_code app_may_resume_def
        new_agent_def supersedes_def barge_in_enabled_def ignored_final_def mid_utterance_def agent_ops Let_def join_segments_def
        hello_is_no_signal demo_app_fields demo_link_def cong: if_weak_cong option.case_cong_weak)
  then show ?thesis unfolding app_run_def by (blast intro: loop_nexts_steps)
qed

section \<open>What holds in every run\<close>



text \<open>C35: In every run, while the reply that a new utterance has superseded is not replaced yet, none of the
  assistant's speech is waiting to be played.\<close>

theorem superseded_reply_is_silent:
  assumes "app_run cf (new_agent cf sr lk) es L" and "ag_awaiting (lp_state L)"
  shows "filter fst (au_buffer (ag_audio (lp_state L))) = []"
  using app_run_inv [OF assms(1)] assms(2) by (simp add: agent_inv_def speech_free_def)

theorem superseded_reply_is_silent_witness:
  "\<exists>L. app_run demo_app demo_agent demo_app_events L \<and> ag_awaiting (lp_state L)
     \<and> filter fst (au_buffer (ag_audio (lp_state L))) = []"
  using demo_run superseded_reply_is_silent unfolding demo_agent_def by blast

text \<open>The segments kept since the last utterance was handed over or dropped.\<close>

fun kept_after :: "cptext list \<Rightarrow> deed \<Rightarrow> cptext list" where
  "kept_after ks (Kept t) = ks @ [t]"
| "kept_after ks Dropped = []"
| "kept_after ks (Utterance f full) = []"
| "kept_after ks (Turn n t) = ks"
| "kept_after ks SentEos = ks"

definition kept_segments :: "deed list \<Rightarrow> cptext list" where
  "kept_segments ds = foldl kept_after [] ds"

definition letters :: "cptext \<Rightarrow> cptext" where
  "letters t = filter (\<lambda>c. \<not> cp_isspace c) t"

lemma pending_letters: "letters (pending_of ds) = concat (map letters (kept_segments ds))"
proof (induction ds rule: rev_induct)
  case (snoc d ds)
  have "kept_segments (ds @ [d]) = kept_after (kept_segments ds) d" by (simp add: kept_segments_def)
  then show ?case using snoc by (cases d) (simp_all add: letters_def join_segments_keeps)
qed (simp add: kept_segments_def letters_def)

fun is_utterance :: "deed \<Rightarrow> bool" where
  "is_utterance (Utterance f t) = True"
| "is_utterance d = False"

lemma last_utterance_split:
  "last_utterance ds = Some t \<Longrightarrow> \<exists>us f vs. ds = us @ Utterance f t # vs \<and> list_all (\<lambda>d. \<not> is_utterance d) vs"
proof (induction ds rule: rev_induct)
  case (snoc d ds)
  show ?case
  proof (cases "is_utterance d")
    case True
    then obtain g where "d = Utterance g t" using snoc.prems by (cases d) auto
    then show ?thesis by (intro exI [of _ ds] exI [of _ g] exI [of _ "[]"]) simp
  next
    case False
    then have "last_utterance ds = Some t" using snoc.prems by (cases d) auto
    then obtain us f vs where "ds = us @ Utterance f t # vs" "list_all (\<lambda>d. \<not> is_utterance d) vs"
      using snoc.IH by blast
    then show ?thesis using False by (intro exI [of _ us] exI [of _ f] exI [of _ "vs @ [d]"]) simp
  qed
qed simp

text \<open>C36: In every run, the text of a language-model turn is the last utterance that was handed over, and its
  characters are those of the segments kept for it and of its final, in order, none lost and none twice;
  segments of an utterance that was dropped or handed over before are not among them.\<close>

theorem turns_say_what_was_heard:
  assumes "app_run cf (new_agent cf sr lk) es L" and "ag_log (lp_state L) = as @ Turn n t # bs"
  shows "\<exists>us f vs. as = us @ Utterance f t # vs \<and> list_all (\<lambda>d. \<not> is_utterance d) vs
     \<and> letters t = concat (map letters (kept_segments us)) @ letters f"
proof -
  have ok: "log_ok (ag_log (lp_state L))" using app_run_inv [OF assms(1)] by (simp add: agent_inv_def)
  then have "deed_ok as (Turn n t)" using assms(2) unfolding log_ok_def by blast
  then have "last_utterance as = Some t" by simp
  from last_utterance_split [OF this]
  obtain us f vs where as: "as = us @ Utterance f t # vs" and vs: "list_all (\<lambda>d. \<not> is_utterance d) vs" by blast
  have "ag_log (lp_state L) = us @ Utterance f t # (vs @ Turn n t # bs)" using assms(2) as by simp
  then have "deed_ok us (Utterance f t)" using ok unfolding log_ok_def by blast
  then have "letters t = letters (pending_of us) @ letters f" by (simp add: letters_def join_segments_keeps)
  then show ?thesis using as vs pending_letters by metis
qed

theorem turns_say_what_was_heard_witness:
  "\<exists>L us f vs. app_run demo_app demo_agent demo_app_events L \<and> ag_log (lp_state L) = [Utterance demo_hello demo_hello, Turn 1 demo_hello]
     \<and> [Utterance demo_hello demo_hello] = us @ Utterance f demo_hello # vs \<and> letters demo_hello = concat (map letters (kept_segments us)) @ letters f"
proof -
  obtain L where L: "app_run demo_app demo_agent demo_app_events L" "ag_log (lp_state L) = [Utterance demo_hello demo_hello] @ Turn 1 demo_hello # []"
    using demo_run by blast
  show ?thesis using turns_say_what_was_heard [OF L(1) [unfolded demo_agent_def] L(2)] L by fastforce
qed

section \<open>Recovery\<close>

text \<open>
  A contract that asks nothing of anybody: other tasks may do anything while the code is suspended.
\<close>

definition free_contract :: "(agent, ag_op, aexn) contract" where
  "free_contract = \<lparr>cn_inv = (\<lambda>s. True), cn_rely = (\<lambda>s t. True), cn_guar = (\<lambda>s t. True), cn_resume = app_may_resume\<rparr>"

interpretation free: rely_guarantee free_contract
  by unfold_locales (simp_all add: free_contract_def)

lemma free_simps [simp]:
  "cn_inv free_contract s" "cn_rely free_contract s t" "cn_guar free_contract s t" "cn_resume free_contract = app_may_resume"
  by (simp_all add: free_contract_def)

definition only_cancelled :: "aexn \<Rightarrow> agent \<Rightarrow> bool" where
  "only_cancelled e s \<longleftrightarrow> e = Cancelled"

lemma free_ignoring: "co_ok free_contract P (ignoring m) (\<lambda>a s. True) only_cancelled"
  if "co_ok free_contract P m (\<lambda>a s. True) (\<lambda>e s. True)"
  unfolding ignoring_def catching_def
  by (rule free.ok_try [OF that]) (auto simp: only_cancelled_def intro: free.ok_raise free.ok_return)

lemma free_hook: "co_ok free_contract P (hook h) (\<lambda>a s. True) only_cancelled"
  unfolding hook_def by (rule free.ok_await) (auto simp: app_may_resume_def only_cancelled_def)

lemma free_await: "co_ok free_contract P (co_await op) (\<lambda>a s. True) (\<lambda>e s. True)"
  by (rule free.ok_await) simp_all

lemma free_cancel_turn: "co_ok free_contract P cancel_turn (\<lambda>a s. True) R"
  unfolding cancel_turn_def
proof (rule free.ok_with)
  fix t
  show "co_ok free_contract (\<lambda>s. P s \<and> ag_turn s = t)
     (case t of None \<Rightarrow> co_return ()
      | Some n \<Rightarrow> co_when (\<lambda>s. n \<in> ag_live s) (co_try (co_await (OpJoinTurn n)) (\<lambda>e. co_return ())) (co_return ()))
     (\<lambda>a s. True) R"
    by (cases t) (auto intro!: free.ok_return free.ok_when free.ok_try [OF free_await])
qed

lemma free_readvertise: "co_ok free_contract P (readvertise cf) (\<lambda>a s. True) only_cancelled"
  unfolding readvertise_def co_seq.simps
  by (auto intro!: free.ok_return free_ignoring free.ok_then [OF free_await] free.ok_modify
      free.ok_then [where S = "\<lambda>s. True"])

lemma free_weaken: "co_ok free_contract P m (\<lambda>a s. True) only_cancelled \<Longrightarrow> co_ok free_contract P m (\<lambda>a s. True) (\<lambda>e s. True)"
  by (erule co_ok_weaken) simp_all


text \<open>When the watchdog of a reply that never came fires, the conversation is given back whatever fails on the
  way: unless it is cancelled, it ends with the agent idle, the next end of utterance and the next first
  frame awaited afresh, and the sleep timer running where there is one.\<close>

lemma thinking_watchdog_recovers:
  "co_ok free_contract (\<lambda>s. ag_state s = CThinking) (thinking_watchdog cf)
     (\<lambda>a s. ag_state s = CIdle \<and> \<not> ag_eos s \<and> \<not> ag_first_tts s \<and> (cf_pipeline cf = AlwaysOn \<or> timer_unfinished SleepTimer s))
     (\<lambda>e s. e = Cancelled)"
proof -
  have k: "ag_state (arm_timer k s) = ag_state s" "ag_eos (arm_timer k s) = ag_eos s" "ag_first_tts (arm_timer k s) = ag_first_tts s"
    "timer_unfinished k (arm_timer k s)" for k s
    by (simp_all add: arm_timer_def start_timer_def cancel_timer_def timer_unfinished_def split: option.split)
  have over: "ag_state (thinking_over cf s) = CIdle \<and> \<not> ag_eos (thinking_over cf s) \<and> \<not> ag_first_tts (thinking_over cf s)
      \<and> (cf_pipeline cf = AlwaysOn \<or> timer_unfinished SleepTimer (thinking_over cf s))" for s
    by (simp add: thinking_over_def reset_sleep_timer_def enter_state_def k)
  have r: "co_ok free_contract (\<lambda>s. True) (co_seq [co_await OpReconnect, co_modify count_reconnect, hook ''on_slv_reconnect'', readvertise cf])
      (\<lambda>a s. True) (\<lambda>e s. True)"
    unfolding co_seq.simps
    by (rule free.ok_then [OF free_await], rule free.ok_then [OF free.ok_modify], simp,
        rule free.ok_then [OF free_weaken [OF free_hook]], rule free.ok_then [OF free_weaken [OF free_readvertise]],
        rule free.ok_return) simp
  show ?thesis unfolding thinking_watchdog_def co_seq.simps
    by (rule free.ok_when, rule free.ok_return, simp,
        rule free.ok_then [OF free_cancel_turn],
        rule free.ok_then [OF co_ok_weaken [OF free_ignoring [OF free_await]]], assumption, assumption,
        simp add: only_cancelled_def,
        rule free.ok_then [OF co_ok_weaken [OF free_ignoring [OF r [unfolded co_seq.simps]]]], assumption, assumption,
        simp add: only_cancelled_def, rule free.ok_then [OF free.ok_modify free.ok_return])
       (use over in auto)
qed

end
