(* ===== verification/Download.thy ===== *)
theory Download
  imports Json Auth
begin

text \<open>
  The download of model artifacts (\<open>server/core/hf_artifacts.py\<close>): which redirects are followed,
  the plain download through a temporary sibling, manifests, the check of the members of an archive,
  and the resumable download with its part and state files.

  A resumable download is verified in every run: what is at the destination has the size and digest
  asked for.  As long as the network does not corrupt bytes, what a crash leaves is a beginning of
  the file, and a later call goes on from there.

  Disk.  A file is the list of its bytes.  The resumable download owns three paths, the part file,
  the state file and the destination; each of its writes is one \<^emph>\<open>disk operation\<close>, and a run is
  the list of the operations it performs.  The process may be killed between any two of them, or in
  the middle of one (\<open>leaves\<close>).  \<open>sha\<close> stands for \<open>hashlib.sha256(...).hexdigest()\<close>.  What the
  network answers is an argument; so is whether a deadline has passed where the code reads its clock.
  Checks that a path is a regular file and still the one that was opened, the wait between two
  retries, and writes the system cuts short are not modelled.
\<close>

section \<open>Names and places\<close>

definition id_char :: "char \<Rightarrow> bool" where
  "id_char c \<longleftrightarrow>
     (let n = (of_char c :: nat)
      in (65 \<le> n \<and> n \<le> 90) \<or> (97 \<le> n \<and> n \<le> 122) \<or> (48 \<le> n \<and> n \<le> 57) \<or>
         c \<in> {CHR ''_'', CHR ''.'', CHR ''-''})"

text \<open>\<open>re.sub("[^A-Za-z0-9_.-]+", "-", value)\<close>; \<open>gap\<close> says that a run is being dropped.\<close>

fun dash_runs :: "bool \<Rightarrow> string \<Rightarrow> string" where
  "dash_runs gap [] = []"
| "dash_runs gap (c # cs) =
     (if id_char c then c # dash_runs False cs
      else if gap then dash_runs True cs
      else CHR ''-'' # dash_runs True cs)"

definition slash_dashes :: "string \<Rightarrow> string" where
  "slash_dashes s = concat (map (\<lambda>c. if c = CHR ''/'' then ''--'' else [c]) s)"

definition dot_dash :: "char \<Rightarrow> bool" where
  "dot_dash c \<longleftrightarrow> c = CHR ''.'' \<or> c = CHR ''-''"

definition canonical_model_id :: "string \<Rightarrow> string" where
  "canonical_model_id m =
     (let v = strip_by dot_dash (dash_runs False (slash_dashes (py_strip m)))
      in if v = [] then ''model'' else v)"

definition is_slash :: "char \<Rightarrow> bool" where
  "is_slash c \<longleftrightarrow> c = CHR ''/''"

definition env_nonempty :: "env_map \<Rightarrow> string \<Rightarrow> string \<Rightarrow> string" where
  "env_nonempty env k d = (case env k of None \<Rightarrow> d | Some v \<Rightarrow> (if v = [] then d else v))"

definition endpoint_of :: "env_map \<Rightarrow> string option \<Rightarrow> string" where
  "endpoint_of env e =
     rstrip_by is_slash
       (if e \<noteq> None \<and> e \<noteq> Some [] then the e
        else env_nonempty env ''HF_ARTIFACT_ENDPOINT'' (env_nonempty env ''HF_ENDPOINT'' ''https://huggingface.co''))"

definition repo_of :: "env_map \<Rightarrow> string" where
  "repo_of env =
     strip_by is_slash (case env ''HF_ARTIFACT_REPO'' of
        None \<Rightarrow> ''harvestsu/seeed-local-voice-artifacts'' | Some v \<Rightarrow> v)"

definition revision_of :: "env_map \<Rightarrow> string option \<Rightarrow> string" where
  "revision_of env r =
     strip_by is_slash
       (if r \<noteq> None \<and> r \<noteq> Some [] then the r else env_nonempty env ''HF_ARTIFACT_REVISION'' ''main'')"

definition file_url :: "env_map \<Rightarrow> string \<Rightarrow> string option \<Rightarrow> string option \<Rightarrow> string option \<Rightarrow> string" where
  "file_url env rel repo revision endpoint =
     endpoint_of env endpoint @ ''/'' @
     strip_by is_slash (if repo \<noteq> None \<and> repo \<noteq> Some [] then the repo else repo_of env) @
     ''/resolve/'' @ revision_of env revision @ ''/'' @ lstrip_by is_slash rel"

section \<open>Redirects\<close>

text \<open>A URL as \<open>urlsplit\<close> gives it: its scheme and its host name (\<open>None\<close> or empty when it has none).
  On host names \<open>casefold\<close> is lower case.\<close>

record url_parts =
  up_scheme :: string
  up_host :: "string option"

definition host_listed :: "string set \<Rightarrow> url_parts \<Rightarrow> bool" where
  "host_listed allowed u \<longleftrightarrow>
     up_scheme u \<in> {''http'', ''https''} \<and>
     (case up_host u of None \<Rightarrow> False | Some h \<Rightarrow> h \<noteq> [] \<and> py_lower h \<in> allowed)"

text \<open>\<open>_open\<close> refuses an endpoint that is not listed, and \<open>_AllowedRedirect\<close> each redirect that
  leaves the list or falls back to plain HTTP.\<close>

definition open_allowed :: "string set option \<Rightarrow> url_parts \<Rightarrow> bool" where
  "open_allowed allowed u = (case allowed of None \<Rightarrow> True | Some hosts \<Rightarrow> host_listed hosts u)"

definition redirect_allowed :: "string set option \<Rightarrow> string \<Rightarrow> url_parts \<Rightarrow> bool" where
  "redirect_allowed allowed initial u =
     (case allowed of None \<Rightarrow> True
      | Some hosts \<Rightarrow> host_listed hosts u \<and> \<not> (initial = ''https'' \<and> up_scheme u \<noteq> ''https''))"

text \<open>The URLs an opener visits: the first, then each redirect that is followed; \<open>Inl\<close> names the one
  that was refused.\<close>

fun follow :: "string set option \<Rightarrow> string \<Rightarrow> url_parts \<Rightarrow> url_parts list \<Rightarrow> url_parts + url_parts" where
  "follow allowed initial u [] = Inr u"
| "follow allowed initial u (v # vs) =
     (if redirect_allowed allowed initial v then follow allowed initial v vs else Inl v)"

definition open_url :: "string set option \<Rightarrow> url_parts \<Rightarrow> url_parts list \<Rightarrow> url_parts + url_parts" where
  "open_url allowed u vs =
     (if open_allowed allowed u then follow allowed (up_scheme u) u vs else Inl u)"

text \<open>A status 308 is handled like a 307: only a GET or a HEAD is sent on, and its method is kept.\<close>

definition redirect_method :: "nat \<Rightarrow> string \<Rightarrow> string option" where
  "redirect_method code meth =
     (if code = 308 then (if meth = ''GET'' \<or> meth = ''HEAD'' then Some meth else None)
      else if (code \<in> {301, 302, 303, 307} \<and> (meth = ''GET'' \<or> meth = ''HEAD'')) \<or>
              (code \<in> {301, 302, 303} \<and> meth = ''POST'')
      then Some ''GET'' else None)"

lemma follow_stays_listed:
  "follow (Some hosts) initial u vs = Inr w \<Longrightarrow> host_listed hosts u \<Longrightarrow> (initial = ''https'' \<longrightarrow> up_scheme u = ''https'')
   \<Longrightarrow> host_listed hosts w \<and> (initial = ''https'' \<longrightarrow> up_scheme w = ''https'')"
  by (induction vs arbitrary: u) (auto simp: redirect_allowed_def split: if_splits)

lemma open_stays_listed:
  "open_url (Some hosts) u vs = Inr w \<Longrightarrow>
   host_listed hosts w \<and> (up_scheme u = ''https'' \<longrightarrow> up_scheme w = ''https'')"
  by (rule follow_stays_listed [where initial = "up_scheme u" and u = u and vs = vs])
     (auto simp: open_url_def open_allowed_def split: if_splits)

section \<open>The plain download\<close>

type_synonym file_bytes = "nat list"

record plain_disk =
  pd_tmp :: "file_bytes option"
  pd_dest :: "file_bytes option"

datatype artifact_error =
    EndpointNotListed | NotFound | HttpError | NetworkError | SizeMismatch | HashMismatch
  | RemainedOnHub
  | LockMissing | LockInvalid | DestMismatch | LockDeadline
  | StateInvalid | IdentityMismatch | PartialSize | StateSchema | CommittedInvalid
  | BlockEntry | CommittedOffset | NoTrustedState | StatePartMismatch | BlockHash
  | DeadlineExceeded | Not206 | RangeMismatch | NotFixedLength | ShortBody
  | FinalMismatch | OpenFailed | ReadFailed | LengthNotANumber | NoDescriptor

text \<open>What the opener and the copy into the temporary file yield: an HTTP status error, a network
  error, a refused redirect, or a response with the bytes copied and whether an \<open>OSError\<close> broke the
  copy.\<close>

datatype plain_reply =
    PlainHttp nat
  | PlainNetwork
  | PlainRefused
  | PlainBody "string option" file_bytes bool

definition big_on_hub :: "bool \<Rightarrow> int \<Rightarrow> string option \<Rightarrow> bool" where
  "big_on_hub restricted want_len host \<longleftrightarrow>
     restricted \<and> want_len > 10 * 1024 * 1024 \<and>
     py_lower (case host of None \<Rightarrow> [] | Some h \<Rightarrow> h) = ''huggingface.co''"

definition no_tmp :: "plain_disk \<Rightarrow> plain_disk" where
  "no_tmp d = d\<lparr>pd_tmp := None\<rparr>"

definition plain_verify ::
  "(file_bytes \<Rightarrow> string) \<Rightarrow> int option \<Rightarrow> string option \<Rightarrow> file_bytes \<Rightarrow> artifact_error option" where
  "plain_verify sha want_len digest b =
     (if want_len \<noteq> None \<and> int (length b) \<noteq> the want_len then Some SizeMismatch
      else if digest \<noteq> None \<and> digest \<noteq> Some [] \<and> sha b \<noteq> the digest then Some HashMismatch
      else None)"

definition download_file ::
  "(file_bytes \<Rightarrow> string) \<Rightarrow> bool \<Rightarrow> int option \<Rightarrow> string option \<Rightarrow> plain_reply \<Rightarrow> plain_disk
   \<Rightarrow> artifact_error option \<times> plain_disk" where
  "download_file sha restricted want_len digest r d =
     (case r of
        PlainHttp code \<Rightarrow> (Some (if code = 404 then NotFound else HttpError), no_tmp d)
      | PlainNetwork \<Rightarrow> (Some NetworkError, no_tmp d)
      | PlainRefused \<Rightarrow> (Some EndpointNotListed, d)
      | PlainBody host b broken \<Rightarrow>
          if want_len \<noteq> None \<and> big_on_hub restricted (the want_len) host then (Some RemainedOnHub, no_tmp d)
          else if broken then (Some NetworkError, no_tmp d)
          else (case plain_verify sha want_len digest b of
                  Some e \<Rightarrow> (Some e, no_tmp d)
                | None \<Rightarrow> (None, \<lparr>pd_tmp = None, pd_dest = Some b\<rparr>)))"

text \<open>A failed download leaves the destination as it was; a completed one puts a file there that has
  the size and the digest asked for.\<close>

lemma plain_failure_keeps_dest:
  "download_file sha restricted want_len digest r d = (Some e, d') \<Longrightarrow> pd_dest d' = pd_dest d"
  by (auto simp: download_file_def no_tmp_def split: plain_reply.splits if_splits option.splits)

lemma plain_success_verified:
  "download_file sha restricted want_len digest r d = (None, d') \<Longrightarrow>
   \<exists>b. pd_dest d' = Some b \<and> (want_len \<noteq> None \<longrightarrow> want_len = Some (int (length b))) \<and>
       (digest \<noteq> None \<and> digest \<noteq> Some [] \<longrightarrow> digest = Some (sha b))"
  by (auto simp: download_file_def plain_verify_def split: plain_reply.splits if_splits option.splits)

section \<open>The manifest\<close>

text \<open>What the request of a manifest yields; a body is decoded by \<open>loads\<close>, \<open>None\<close> when it is no JSON.\<close>

datatype manifest_error = ManifestNotFound | ManifestHttp nat | ManifestNetwork | ManifestInvalid | ManifestNoObject

datatype manifest_reply = ManifestStatus nat | ManifestUnreachable | ManifestText string

definition manifest_source :: "env_map \<Rightarrow> string \<Rightarrow> string option \<Rightarrow> string option \<Rightarrow> string \<Rightarrow> json" where
  "manifest_source env model repo revision rel =
     JObj [(''model_id'', JStr model),
       (''repo'', JStr (strip_by is_slash (if repo \<noteq> None \<and> repo \<noteq> Some [] then the repo else repo_of env))),
       (''revision'', JStr (revision_of env revision)), (''path'', JStr rel)]"

definition fetch_manifest ::
  "(string \<Rightarrow> json option) \<Rightarrow> env_map \<Rightarrow> string \<Rightarrow> string option \<Rightarrow> string option \<Rightarrow> string option
   \<Rightarrow> manifest_reply \<Rightarrow> manifest_error + jdict" where
  "fetch_manifest loads env model repo revision path r =
     (let rel = (if path \<noteq> None \<and> path \<noteq> Some [] then the path else ''models/'' @ model @ ''/manifest.json'')
      in case r of
           ManifestStatus code \<Rightarrow> Inl (if code = 404 then ManifestNotFound else ManifestHttp code)
         | ManifestUnreachable \<Rightarrow> Inl ManifestNetwork
         | ManifestText txt \<Rightarrow>
             (case loads txt of
                None \<Rightarrow> Inl ManifestInvalid
              | Some (JObj m) \<Rightarrow> Inr (jsetdefault ''_source'' (manifest_source env model repo revision rel) m)
              | Some _ \<Rightarrow> Inl ManifestNoObject))"

section \<open>Members of an archive\<close>

text \<open>\<open>Path(name).parts\<close> of a relative name: its components, without the empty ones and the single
  dots.\<close>

definition path_parts :: "string \<Rightarrow> string list" where
  "path_parts s = filter (\<lambda>p. p \<noteq> [] \<and> p \<noteq> ''.'') (split_on (CHR ''/'') s)"

definition unsafe_member :: "string \<Rightarrow> bool" where
  "unsafe_member name \<longleftrightarrow> py_startswith name ''/'' \<or> ''..'' \<in> set (path_parts name)"

definition first_unsafe :: "string list \<Rightarrow> string option" where
  "first_unsafe names = List.find unsafe_member names"

text \<open>Where a member lands: the walk from the extraction directory, \<open>..\<close> going up; \<open>None\<close> is outside
  of it.\<close>

fun walk_path :: "string list \<Rightarrow> string list \<Rightarrow> string list option" where
  "walk_path dir [] = Some dir"
| "walk_path dir (p # ps) =
     (if p = ''..'' then (if dir = [] then None else walk_path (butlast dir) ps)
      else walk_path (dir @ [p]) ps)"

lemma walk_down: "''..'' \<notin> set ps \<Longrightarrow> walk_path dir ps = Some (dir @ ps)"
  by (induction ps arbitrary: dir) auto

lemma safe_members_stay_inside:
  "first_unsafe names = None \<Longrightarrow> n \<in> set names \<Longrightarrow> walk_path [] (path_parts n) = Some (path_parts n)"
  by (auto simp: first_unsafe_def find_None_iff unsafe_member_def walk_down)

text \<open>\<open>download_and_extract_tarball\<close>: the archive is downloaded beside the destination, checked, extracted,
  and its top-level items replace those of the same name.  \<open>extract\<close> stands for \<open>tarfile\<close>: the names of
  the members, and the items that extracting them yields.\<close>

datatype extract_error = ArchiveError artifact_error | UnsafeMember string

definition install_items :: "(string \<times> 'f) list \<Rightarrow> (string \<Rightarrow> 'f option) \<Rightarrow> string \<Rightarrow> 'f option" where
  "install_items items dir = foldl (\<lambda>f (name, x). f(name := Some x)) dir items"

definition extract_tarball ::
  "(file_bytes \<Rightarrow> string) \<Rightarrow> (file_bytes \<Rightarrow> string list \<times> (string \<times> 'f) list) \<Rightarrow> int option \<Rightarrow> string option
   \<Rightarrow> plain_reply \<Rightarrow> (string \<Rightarrow> 'f option) \<Rightarrow> extract_error option \<times> (string \<Rightarrow> 'f option)" where
  "extract_tarball sha extract len digest r dir =
     (case download_file sha False len digest r \<lparr>pd_tmp = None, pd_dest = None\<rparr> of
        (Some e, d) \<Rightarrow> (Some (ArchiveError e), dir)
      | (None, d) \<Rightarrow>
          (let (names, items) = extract (the (pd_dest d))
           in case first_unsafe names of
                Some name \<Rightarrow> (Some (UnsafeMember name), dir)
              | None \<Rightarrow> (None, install_items items dir)))"

lemma extract_failure_keeps_dir: "extract_tarball sha extract len digest r dir = (Some e, dir') \<Longrightarrow> dir' = dir"
  by (auto simp: extract_tarball_def split: option.splits prod.splits)

section \<open>The resumable download: its disk\<close>

text \<open>The state file holds a JSON text; \<open>Some None\<close> is one that does not decode.\<close>

record dl_disk =
  dk_part :: "file_bytes option"
  dk_state :: "json option option"
  dk_dest :: "file_bytes option"

datatype disk_op =
    CreatePart
  | WritePart file_bytes
  | TruncatePart nat
  | PutState jdict
  | PartToDest
  | RemoveState

definition apply_op :: "disk_op \<Rightarrow> dl_disk \<Rightarrow> dl_disk" where
  "apply_op op d =
     (case op of
        CreatePart \<Rightarrow> d\<lparr>dk_part := Some []\<rparr>
      | WritePart b \<Rightarrow> d\<lparr>dk_part := map_option (\<lambda>p. p @ b) (dk_part d)\<rparr>
      | TruncatePart n \<Rightarrow> d\<lparr>dk_part := map_option (take n) (dk_part d)\<rparr>
      | PutState m \<Rightarrow> d\<lparr>dk_state := Some (Some (JObj m))\<rparr>
      | PartToDest \<Rightarrow> d\<lparr>dk_part := None, dk_dest := dk_part d\<rparr>
      | RemoveState \<Rightarrow> d\<lparr>dk_state := None\<rparr>)"

text \<open>What an operation may leave when the process is killed in the middle of it: a write that is
  not yet synced leaves any bytes behind the old end.  The state file is written under another name
  and renamed, so it is replaced or not.\<close>

inductive torn :: "disk_op \<Rightarrow> dl_disk \<Rightarrow> dl_disk \<Rightarrow> bool" where
  torn_write: "dk_part d = Some p \<Longrightarrow> torn (WritePart b) d (d\<lparr>dk_part := Some (p @ junk)\<rparr>)"

inductive_cases torn_E: "torn op d e"

text \<open>The disks a run that performs \<open>ops\<close> from \<open>d\<close> can leave: after all of them, after some, or with
  the next one torn.\<close>

inductive leaves :: "disk_op list \<Rightarrow> dl_disk \<Rightarrow> dl_disk \<Rightarrow> bool" where
  leaves_here: "leaves ops d d"
| leaves_torn: "torn op d e \<Longrightarrow> leaves (op # ops) d e"
| leaves_next: "leaves ops (apply_op op d) e \<Longrightarrow> leaves (op # ops) d e"

inductive_cases leaves_NilE: "leaves [] d e"
inductive_cases leaves_ConsE: "leaves (op # ops) d e"

abbreviation apply_ops :: "disk_op list \<Rightarrow> dl_disk \<Rightarrow> dl_disk" where
  "apply_ops ops d \<equiv> foldl (\<lambda>x op. apply_op op x) d ops"

lemma leaves_all: "leaves ops d (apply_ops ops d)"
  by (induction ops arbitrary: d) (auto intro: leaves.intros)

lemma leaves_append:
  "leaves (xs @ ys) d e \<longleftrightarrow> leaves xs d e \<or> leaves ys (apply_ops xs d) e"
proof (induction xs arbitrary: d)
  case Nil
  show ?case by (auto elim: leaves_NilE intro: leaves_here)
next
  case (Cons x xs)
  show ?case by (auto elim!: leaves_ConsE simp: Cons.IH intro: leaves.intros)
qed

lemma leaves_single: "leaves [op] d e \<longleftrightarrow> e = d \<or> torn op d e \<or> e = apply_op op d"
  by (auto elim!: leaves_ConsE leaves_NilE intro: leaves.intros)

section \<open>The resumable download: a run\<close>

definition block_size :: nat where
  "block_size = 2 ^ 20"

definition window_size :: nat where
  "window_size = 8 * 2 ^ 20"

lemma block_size_pos: "0 < block_size"
  by (simp add: block_size_def)

record dl_config =
  dl_identity :: string
  dl_size :: "int option"
  dl_sha :: "string option"
  dl_restricted :: bool
  dl_deadline :: bool
  dl_max_retries :: nat

definition want_size :: "dl_config \<Rightarrow> int" where
  "want_size cfg = (case dl_size cfg of None \<Rightarrow> 0 | Some n \<Rightarrow> n)"

definition want_sha :: "dl_config \<Rightarrow> string" where
  "want_sha cfg = (case dl_sha cfg of None \<Rightarrow> [] | Some s \<Rightarrow> py_lower s)"

text \<open>What a server does with one request: the opener fails, or there is a response.  The body is a
  stream of bytes and what each read finds of it: a number of bytes, or an error (a broken
  connection, a passed deadline, no socket to put a timeout on).  After the last read the
  connection is closed.\<close>

datatype read_result = Ready nat | ReadError artifact_error

record response =
  rs_host :: "string option"
  rs_status :: int
  rs_range :: "string option"
  rs_length :: "string option"
  rs_encoding :: bool
  rs_body :: file_bytes
  rs_reads :: "read_result list"

record exchange =
  at_late :: bool
  at_reply :: "response option"
  at_late_after :: bool

text \<open>The state of a run: the disk and the operations performed on it, the ranges requested, and the
  local variables \<open>committed\<close> and \<open>metadata\<close>.\<close>

record dl_run =
  rn_disk :: dl_disk
  rn_log :: "disk_op list"
  rn_asked :: "(int \<times> int) list"
  rn_committed :: int
  rn_meta :: jdict

definition perform :: "disk_op \<Rightarrow> dl_run \<Rightarrow> dl_run" where
  "perform op s = s\<lparr>rn_disk := apply_op op (rn_disk s), rn_log := rn_log s @ [op]\<rparr>"

definition part_len :: "dl_run \<Rightarrow> int" where
  "part_len s = (case dk_part (rn_disk s) of None \<Rightarrow> 0 | Some p \<Rightarrow> int (length p))"

subsection \<open>The state file\<close>

definition hex_char :: "char \<Rightarrow> bool" where
  "hex_char c \<longleftrightarrow> (let n = (of_char c :: nat) in (48 \<le> n \<and> n \<le> 57) \<or> (97 \<le> n \<and> n \<le> 102))"

definition hex64 :: "string \<Rightarrow> bool" where
  "hex64 s \<longleftrightarrow> length s = 64 \<and> list_all hex_char s"

definition hex64_any_case :: "string \<Rightarrow> bool" where
  "hex64_any_case s \<longleftrightarrow>
     length s = 64 \<and>
     list_all (\<lambda>c. hex_char c \<or> (let n = (of_char c :: nat) in 65 \<le> n \<and> n \<le> 70)) s"

text \<open>\<open>value == n\<close> in Python, for a decoded value and an integer.\<close>

definition equals_int :: "json \<Rightarrow> int \<Rightarrow> bool" where
  "equals_int j n =
     (case j of JInt m \<Rightarrow> m = n | JBool b \<Rightarrow> (if b then 1 else 0) = n | JFloat f \<Rightarrow> f = Fin (of_int n)
      | _ \<Rightarrow> False)"

text \<open>\<open>re.fullmatch("[0-9a-f]{64}", str(digest))\<close>: a string, or a number of 64 decimal digits.\<close>

definition digest_like :: "json \<Rightarrow> bool" where
  "digest_like j =
     (case j of JStr s \<Rightarrow> hex64 s | JInt n \<Rightarrow> 10 ^ 63 \<le> n \<and> n < 10 ^ 64 | _ \<Rightarrow> False)"

definition block_entry :: "int \<Rightarrow> json \<Rightarrow> (int \<times> json) option" where
  "block_entry expected_offset e =
     (case e of
        JObj d \<Rightarrow>
          (if set (map fst d) = {''offset'', ''size'', ''sha256''}
           then (case (jget ''offset'' d, jget ''size'' d) of
                   (JInt off, JInt n) \<Rightarrow>
                     (if 0 < n \<and> off = expected_offset \<and> digest_like (jget ''sha256'' d)
                      then Some (n, jget ''sha256'' d) else None)
                 | _ \<Rightarrow> None)
           else None)
      | _ \<Rightarrow> None)"

fun block_entries :: "int \<Rightarrow> json list \<Rightarrow> (int \<times> (int \<times> json) list) option" where
  "block_entries off [] = Some (off, [])"
| "block_entries off (e # es) =
     (case block_entry off e of
        None \<Rightarrow> None
      | Some (n, h) \<Rightarrow>
          (case block_entries (off + n) es of
             None \<Rightarrow> None
           | Some (summed, bs) \<Rightarrow> Some (summed, (n, h) # bs)))"

definition meta_mine :: "dl_config \<Rightarrow> jdict \<Rightarrow> bool" where
  "meta_mine cfg m \<longleftrightarrow>
     jget ''identity'' m = JStr (dl_identity cfg) \<and>
     equals_int (jget ''expected_size'' m) (want_size cfg) \<and>
     jget ''expected_sha256'' m = JStr (want_sha cfg)"

definition legacy_mismatch :: "jdict \<Rightarrow> file_bytes option \<Rightarrow> bool" where
  "legacy_mismatch m part \<longleftrightarrow>
     jget ''schema'' m \<noteq> JStr ''strict-resume-v2'' \<and>
     (case (jget ''committed'' m, part) of
        (JInt c, Some p) \<Rightarrow> int (length p) \<noteq> c
      | _ \<Rightarrow> False)"

definition meta_v2 :: "jdict \<Rightarrow> bool" where
  "meta_v2 m \<longleftrightarrow>
     jget ''schema'' m = JStr ''strict-resume-v2'' \<and> jget ''status'' m = JStr ''active'' \<and>
     equals_int (jget ''block_size'' m) (int block_size) \<and>
     (case jget ''blocks'' m of JArr _ \<Rightarrow> True | _ \<Rightarrow> False)"

text \<open>The checks of a state file; the result is the dictionary, its \<open>committed\<close> and its blocks.\<close>

definition read_state ::
  "dl_config \<Rightarrow> file_bytes option \<Rightarrow> json option \<Rightarrow> artifact_error + (jdict \<times> int \<times> (int \<times> json) list)" where
  "read_state cfg part j =
     (case j of
        Some (JObj m) \<Rightarrow>
          if \<not> meta_mine cfg m then Inl IdentityMismatch
          else if legacy_mismatch m part then Inl PartialSize
          else if \<not> meta_v2 m then Inl StateSchema
          else (case jget ''committed'' m of
                  JInt c \<Rightarrow>
                    (case block_entries 0 (case jget ''blocks'' m of JArr es \<Rightarrow> es | _ \<Rightarrow> []) of
                       None \<Rightarrow> Inl BlockEntry
                     | Some (summed, bs) \<Rightarrow> if c \<noteq> summed then Inl CommittedOffset else Inr (m, c, bs))
                | _ \<Rightarrow> Inl CommittedInvalid)
      | _ \<Rightarrow> Inl StateInvalid)"

definition fresh_meta :: "dl_config \<Rightarrow> jdict" where
  "fresh_meta cfg =
     [(''schema'', JStr ''strict-resume-v2''), (''status'', JStr ''active''),
      (''identity'', JStr (dl_identity cfg)), (''expected_size'', JInt (want_size cfg)),
      (''expected_sha256'', JStr (want_sha cfg)), (''block_size'', JInt (int block_size)),
      (''committed'', JInt 0), (''blocks'', JArr [])]"

text \<open>The committed blocks are hashed again, one after the other.\<close>

fun blocks_match :: "(file_bytes \<Rightarrow> string) \<Rightarrow> file_bytes \<Rightarrow> (int \<times> json) list \<Rightarrow> bool" where
  "blocks_match sha p [] = True"
| "blocks_match sha p ((n, h) # bs) =
     (let chunk = take (nat n) p
      in int (length chunk) = n \<and> JStr (sha chunk) = h \<and> blocks_match sha (drop (nat n) p) bs)"

text \<open>From the lock to the first request: the state is read or created, and a part file that is longer
  than what is committed is cut.\<close>

definition load_state :: "(file_bytes \<Rightarrow> string) \<Rightarrow> dl_config \<Rightarrow> dl_run \<Rightarrow> artifact_error option \<times> dl_run" where
  "load_state sha cfg s =
     (let part = dk_part (rn_disk s)
      in case dk_state (rn_disk s) of
           None \<Rightarrow>
             if part \<noteq> None then (Some NoTrustedState, s)
             else (None, (perform (PutState (fresh_meta cfg)) (perform CreatePart s))
                           \<lparr>rn_committed := 0, rn_meta := fresh_meta cfg\<rparr>)
         | Some j \<Rightarrow>
             (case read_state cfg part j of
                Inl e \<Rightarrow> (Some e, s)
              | Inr (m, c, bs) \<Rightarrow>
                  let s' = s\<lparr>rn_committed := c, rn_meta := m\<rparr>
                  in if c < 0 \<or> c > want_size cfg \<or> (part = None \<and> c \<noteq> 0) then (Some StatePartMismatch, s')
                     else (case part of
                             None \<Rightarrow> (None, s')
                           | Some p \<Rightarrow>
                               if int (length p) < c then (Some PartialSize, s')
                               else if c \<noteq> 0 \<and> \<not> blocks_match sha p bs then (Some BlockHash, s')
                               else (None, if int (length p) > c then perform (TruncatePart (nat c)) s'
                                           else s'))))"

subsection \<open>One request\<close>

definition content_range :: "string \<Rightarrow> (nat \<times> nat \<times> nat) option" where
  "content_range s =
     (if \<not> py_startswith s ''bytes '' then None
      else let t = drop 6 s;
               a = takeWhile is_digit_char t;
               u = dropWhile is_digit_char t;
               b = takeWhile is_digit_char (drop 1 u);
               v = dropWhile is_digit_char (drop 1 u);
               c = drop 1 v
           in if py_startswith u ''-'' \<and> py_startswith v ''/'' \<and> list_all is_digit_char c
              then (case (digits_value False 0 a, digits_value False 0 b, digits_value False 0 c) of
                      (Some x, Some y, Some z) \<Rightarrow> Some (x, y, z)
                    | _ \<Rightarrow> None)
              else None)"

text \<open>The checks of a response to the request of bytes \<open>c\<close> to \<open>e\<close>.  \<open>int(...)\<close> of the length raises
  \<open>ValueError\<close>, which the retry loop does not catch.\<close>

definition range_ok :: "dl_config \<Rightarrow> int \<Rightarrow> int \<Rightarrow> response \<Rightarrow> int \<Rightarrow> bool" where
  "range_ok cfg c e r len \<longleftrightarrow>
     (case content_range (case rs_range r of None \<Rightarrow> [] | Some s \<Rightarrow> s) of
        None \<Rightarrow> False
      | Some (x, y, z) \<Rightarrow> int x = c \<and> int y = e \<and> int z = want_size cfg) \<and>
     len = e - c + 1"

definition check_response :: "dl_config \<Rightarrow> int \<Rightarrow> int \<Rightarrow> response \<Rightarrow> artifact_error option" where
  "check_response cfg c e r =
     (if big_on_hub (dl_restricted cfg) (want_size cfg) (rs_host r) then Some RemainedOnHub
      else if rs_status r \<noteq> 206 then Some Not206
      else (case py_int (case rs_length r of None \<Rightarrow> ''-1'' | Some s \<Rightarrow> s) of
              None \<Rightarrow> Some LengthNotANumber
            | Some len \<Rightarrow>
                if \<not> range_ok cfg c e r len then Some RangeMismatch
                else if dl_deadline cfg \<and> rs_encoding r then Some NotFixedLength
                else None))"

text \<open>A block reaches the part file, then the state file: both are synced.\<close>

definition block_json :: "(file_bytes \<Rightarrow> string) \<Rightarrow> int \<Rightarrow> file_bytes \<Rightarrow> json" where
  "block_json sha off b =
     JObj [(''offset'', JInt off), (''size'', JInt (int (length b))), (''sha256'', JStr (sha b))]"

definition meta_add :: "(file_bytes \<Rightarrow> string) \<Rightarrow> int \<Rightarrow> file_bytes \<Rightarrow> jdict \<Rightarrow> jdict" where
  "meta_add sha c b m =
     dict_put ''committed'' (JInt (c + int (length b)))
       (dict_put ''blocks''
          (JArr ((case jget ''blocks'' m of JArr es \<Rightarrow> es | _ \<Rightarrow> []) @ [block_json sha c b])) m)"

definition commit_block :: "(file_bytes \<Rightarrow> string) \<Rightarrow> file_bytes \<Rightarrow> dl_run \<Rightarrow> dl_run" where
  "commit_block sha b s =
     (let c = rn_committed s;
          m = meta_add sha c b (rn_meta s);
          w = perform (WritePart b) s
      in perform (PutState m) (w\<lparr>rn_committed := c + int (length b), rn_meta := m\<rparr>))"

text \<open>Whole blocks are committed as soon as they are there.\<close>

function commit_blocks ::
  "(file_bytes \<Rightarrow> string) \<Rightarrow> int \<Rightarrow> file_bytes \<Rightarrow> dl_run \<Rightarrow> file_bytes \<times> dl_run" where
  "commit_blocks sha e pending s =
     (if block_size \<le> length pending \<and> rn_committed s < e + 1
      then commit_blocks sha e (drop block_size pending) (commit_block sha (take block_size pending) s)
      else (pending, s))"
  by auto
termination
  by (relation "measure (\<lambda>(sha, e, pending, s). length pending)") (use block_size_pos in auto)

declare commit_blocks.simps [simp del]

text \<open>The reads of a body: each asks for at most a block and at most what is left of the range.\<close>

primrec read_range ::
  "(file_bytes \<Rightarrow> string) \<Rightarrow> int \<Rightarrow> read_result list \<Rightarrow> file_bytes \<Rightarrow> file_bytes \<Rightarrow> dl_run
   \<Rightarrow> artifact_error option \<times> file_bytes \<times> dl_run" where
  "read_range sha e [] body pending s = (None, pending, s)"
| "read_range sha e (r # rs) body pending s =
     (let left = e - rn_committed s - int (length pending) + 1
      in if left \<le> 0 then (None, pending, s)
         else (case r of
                 ReadError x \<Rightarrow> (Some x, pending, s)
               | Ready k \<Rightarrow>
                   let n = min k (nat (min (int block_size) left));
                       data = take n body
                   in if data = [] then (None, pending, s)
                      else let (pending', s') = commit_blocks sha e (pending @ data) s
                           in read_range sha e rs (drop n body) pending' s'))"

text \<open>The whole of one \<open>try\<close>: what it raises, if anything, and the run after it.\<close>

definition take_body :: "(file_bytes \<Rightarrow> string) \<Rightarrow> int \<Rightarrow> response \<Rightarrow> dl_run \<Rightarrow> artifact_error option \<times> dl_run" where
  "take_body sha e r s =
     (case read_range sha e (rs_reads r) (rs_body r) [] s of
        (Some x, pending, s') \<Rightarrow> (Some x, s')
      | (None, pending, s') \<Rightarrow>
          let s'' = (if pending \<noteq> [] \<and> rn_committed s' + int (length pending) = e + 1
                     then commit_block sha pending s' else s')
          in (if rn_committed s'' < e + 1 then Some ShortBody else None, s''))"

definition range_end :: "dl_config \<Rightarrow> dl_run \<Rightarrow> int" where
  "range_end cfg s = min (want_size cfg - 1) (rn_committed s + int window_size - 1)"

definition try_range ::
  "(file_bytes \<Rightarrow> string) \<Rightarrow> dl_config \<Rightarrow> response option \<Rightarrow> dl_run \<Rightarrow> artifact_error option \<times> dl_run" where
  "try_range sha cfg reply s =
     (case reply of
        None \<Rightarrow> (Some OpenFailed, s)
      | Some r \<Rightarrow>
          (case check_response cfg (rn_committed s) (range_end cfg s) r of
             Some x \<Rightarrow> (Some x, s)
           | None \<Rightarrow>
               if dk_part (rn_disk s) = None then (Some NoDescriptor, s)
               else take_body sha (range_end cfg s) r s))"

subsection \<open>The retry loop\<close>

text \<open>\<open>except (HTTPError, URLError, OSError, ArtifactError)\<close>\<close>

definition caught :: "artifact_error \<Rightarrow> bool" where
  "caught x \<longleftrightarrow> x \<noteq> LengthNotANumber \<and> x \<noteq> NoDescriptor"

definition cut_tail :: "dl_run \<Rightarrow> dl_run" where
  "cut_tail s = (if part_len s > rn_committed s then perform (TruncatePart (nat (rn_committed s))) s else s)"

text \<open>\<open>server c e\<close> is what happens when bytes \<open>c\<close> to \<open>e\<close> are requested; the list has one server for each
  turn of the loop.  Out of the list the process is still waiting (\<open>None\<close>).\<close>

type_synonym server = "int \<Rightarrow> int \<Rightarrow> exchange"

definition ask_range :: "dl_config \<Rightarrow> dl_run \<Rightarrow> dl_run" where
  "ask_range cfg s = s\<lparr>rn_asked := rn_asked s @ [(rn_committed s, range_end cfg s)]\<rparr>"

fun fetch_ranges ::
  "(file_bytes \<Rightarrow> string) \<Rightarrow> dl_config \<Rightarrow> server list \<Rightarrow> nat \<Rightarrow> dl_run
   \<Rightarrow> artifact_error option option \<times> dl_run" where
  "fetch_ranges sha cfg [] retries s =
     (if rn_committed s < want_size cfg then (None, s) else (Some None, s))"
| "fetch_ranges sha cfg (srv # srvs) retries s =
     (if \<not> rn_committed s < want_size cfg then (Some None, s)
      else let a = srv (rn_committed s) (range_end cfg s)
           in if dl_deadline cfg \<and> at_late a then (Some (Some DeadlineExceeded), s)
              else (case try_range sha cfg (at_reply a) (ask_range cfg s) of
                      (None, s') \<Rightarrow> fetch_ranges sha cfg srvs 0 s'
                    | (Some x, s') \<Rightarrow>
                        if \<not> caught x then (Some (Some x), s')
                        else let s'' = cut_tail s'
                             in if dl_deadline cfg \<and> at_late_after a then (Some (Some DeadlineExceeded), s'')
                                else if dl_max_retries cfg < retries + 1 then (Some (Some x), s'')
                                else fetch_ranges sha cfg srvs (retries + 1) s''))"

text \<open>The last check, on the whole part file, and the rename.\<close>

definition finish_run ::
  "(file_bytes \<Rightarrow> string) \<Rightarrow> dl_config \<Rightarrow> bool \<Rightarrow> dl_run \<Rightarrow> artifact_error option \<times> dl_run" where
  "finish_run sha cfg late s =
     (case dk_part (rn_disk s) of
        None \<Rightarrow> (Some NoDescriptor, s)
      | Some p \<Rightarrow>
          if int (length p) \<noteq> want_size cfg then (Some FinalMismatch, s)
          else if dl_deadline cfg \<and> late then (Some DeadlineExceeded, s)
          else if sha p \<noteq> want_sha cfg then (Some FinalMismatch, s)
          else (None, perform RemoveState (perform PartToDest s)))"

text \<open>What is done under the lock.\<close>

definition locked_run ::
  "(file_bytes \<Rightarrow> string) \<Rightarrow> dl_config \<Rightarrow> server list \<Rightarrow> bool \<Rightarrow> dl_disk
   \<Rightarrow> artifact_error option option \<times> dl_run" where
  "locked_run sha cfg srvs late d =
     (let s = \<lparr>rn_disk = d, rn_log = [], rn_asked = [], rn_committed = 0, rn_meta = []\<rparr>
      in case load_state sha cfg s of
           (Some x, s1) \<Rightarrow> (Some (Some x), s1)
         | (None, s1) \<Rightarrow>
             (case fetch_ranges sha cfg srvs 0 s1 of
                (Some None, s2) \<Rightarrow> (let (r, s3) = finish_run sha cfg late s2 in (Some r, s3))
              | other \<Rightarrow> other))"

text \<open>What is done before the lock is asked for: \<open>Some (Some x)\<close> is an error, \<open>Some None\<close> that the file is
  there already, \<open>None\<close> that the lock is needed.\<close>

definition before_lock ::
  "(file_bytes \<Rightarrow> string) \<Rightarrow> dl_config \<Rightarrow> dl_disk \<Rightarrow> artifact_error option option" where
  "before_lock sha cfg d =
     (if dl_size cfg = None \<or> dl_sha cfg = None then Some (Some LockMissing)
      else if want_size cfg \<le> 0 \<or> \<not> hex64_any_case (the (dl_sha cfg)) then Some (Some LockInvalid)
      else (case dk_dest d of
              None \<Rightarrow> None
            | Some b \<Rightarrow>
                if int (length b) = want_size cfg \<and> sha b = want_sha cfg then Some None
                else Some (Some DestMismatch)))"

text \<open>A call of \<open>_download_file_resumable\<close> that finds the lock free; \<open>lock_late\<close>: the deadline had
  passed before.\<close>

definition download_resumable ::
  "(file_bytes \<Rightarrow> string) \<Rightarrow> dl_config \<Rightarrow> bool \<Rightarrow> server list \<Rightarrow> bool \<Rightarrow> dl_disk
   \<Rightarrow> artifact_error option option \<times> dl_run" where
  "download_resumable sha cfg lock_late srvs late d =
     (let s = \<lparr>rn_disk = d, rn_log = [], rn_asked = [], rn_committed = 0, rn_meta = []\<rparr>
      in case before_lock sha cfg d of
           Some r \<Rightarrow> (Some r, s)
         | None \<Rightarrow>
             if dl_deadline cfg \<and> lock_late then (Some (Some LockDeadline), s)
             else locked_run sha cfg srvs late d)"

section \<open>What is never renamed to the destination\<close>

definition verified_dest :: "(file_bytes \<Rightarrow> string) \<Rightarrow> dl_config \<Rightarrow> dl_disk \<Rightarrow> bool" where
  "verified_dest sha cfg d \<longleftrightarrow>
     (case dk_dest d of None \<Rightarrow> True
      | Some b \<Rightarrow> int (length b) = want_size cfg \<and> sha b = want_sha cfg)"

text \<open>The disks that calls of one download leave, over any number of processes, each of which may be
  killed at any point, with any servers.  The check before the lock and the work under it are two
  steps: another process may have run in between.\<close>

inductive dl_reach :: "(file_bytes \<Rightarrow> string) \<Rightarrow> dl_config \<Rightarrow> bool \<Rightarrow> dl_disk \<Rightarrow> bool" for sha cfg where
  reach_start: "dk_dest d = None \<Longrightarrow> dl_reach sha cfg False d"
| reach_check: "dl_reach sha cfg w d \<Longrightarrow> before_lock sha cfg d = None \<Longrightarrow> dl_reach sha cfg True d"
| reach_run: "dl_reach sha cfg True d \<Longrightarrow> leaves (rn_log (snd (locked_run sha cfg srvs late d))) d e
    \<Longrightarrow> dl_reach sha cfg True e"

definition unrenamed :: "dl_disk \<Rightarrow> dl_run \<Rightarrow> bool" where
  "unrenamed d s \<longleftrightarrow> rn_disk s = apply_ops (rn_log s) d \<and> PartToDest \<notin> set (rn_log s)"

lemma unrenamed_perform: "unrenamed d s \<Longrightarrow> op \<noteq> PartToDest \<Longrightarrow> unrenamed d (perform op s)"
  by (simp add: unrenamed_def perform_def)

lemma unrenamed_fields [simp]:
  "unrenamed d (s\<lparr>rn_committed := c\<rparr>) = unrenamed d s" "unrenamed d (s\<lparr>rn_meta := m\<rparr>) = unrenamed d s"
  "unrenamed d (s\<lparr>rn_asked := a\<rparr>) = unrenamed d s"
  by (simp_all add: unrenamed_def)

lemma unrenamed_commit_block: "unrenamed d s \<Longrightarrow> unrenamed d (commit_block sha b s)"
  by (simp add: commit_block_def unrenamed_perform Let_def)

lemma unrenamed_commit_blocks: "unrenamed d s \<Longrightarrow> unrenamed d (snd (commit_blocks sha e pending s))"
  by (induction sha e pending s rule: commit_blocks.induct)
     (subst commit_blocks.simps, simp add: unrenamed_commit_block)

lemma unrenamed_read_range: "unrenamed d s \<Longrightarrow> unrenamed d (snd (snd (read_range sha e rs body pending s)))"
proof (induction rs arbitrary: body pending s)
  case (Cons r rs)
  have "unrenamed d (snd (commit_blocks sha e (pending @ xs) s))" for xs
    using Cons.prems by (rule unrenamed_commit_blocks)
  then show ?case
    using Cons by (simp add: Let_def split_beta split: read_result.split)
qed simp

lemma unrenamed_take_body: "unrenamed d s \<Longrightarrow> unrenamed d (snd (take_body sha e r s))"
  using unrenamed_read_range [of d s sha e "rs_reads r" "rs_body r" "[]"]
  by (auto simp: take_body_def Let_def unrenamed_commit_block split: option.splits prod.splits)

lemma unrenamed_try_range: "unrenamed d s \<Longrightarrow> unrenamed d (snd (try_range sha cfg reply s))"
  by (auto simp: try_range_def unrenamed_take_body split: option.split)

lemma unrenamed_cut_tail: "unrenamed d s \<Longrightarrow> unrenamed d (cut_tail s)"
  by (simp add: cut_tail_def unrenamed_perform)

lemma unrenamed_fetch: "unrenamed d s \<Longrightarrow> unrenamed d (snd (fetch_ranges sha cfg srvs r s))"
proof (induction srvs arbitrary: r s)
  case (Cons srv srvs)
  have "unrenamed d (snd (try_range sha cfg (at_reply (srv (rn_committed s) (range_end cfg s))) (ask_range cfg s)))"
    using Cons.prems by (simp add: unrenamed_try_range ask_range_def)
  then show ?case
    using Cons by (auto simp: Let_def unrenamed_cut_tail split: prod.split option.split)
qed simp

lemma unrenamed_load: "unrenamed d s \<Longrightarrow> unrenamed d (snd (load_state sha cfg s))"
  by (auto simp: load_state_def Let_def unrenamed_perform split: option.split sum.split prod.split)

lemma leaves_keeps_dest: "leaves ops d e \<Longrightarrow> PartToDest \<notin> set ops \<Longrightarrow> dk_dest e = dk_dest d"
  by (induction rule: leaves.induct) (auto simp: apply_op_def elim!: torn_E split: disk_op.splits)

lemma verified_dest_same_dest: "dk_dest e = dk_dest d \<Longrightarrow> verified_dest sha cfg d \<Longrightarrow> verified_dest sha cfg e"
  by (simp add: verified_dest_def)

lemma unrenamed_settles:
  "unrenamed d s \<Longrightarrow> verified_dest sha cfg d \<Longrightarrow> leaves (rn_log s) d e \<Longrightarrow> verified_dest sha cfg e"
  by (metis unrenamed_def leaves_keeps_dest verified_dest_same_dest)

lemma finish_settles:
  assumes "unrenamed d s" "verified_dest sha cfg d" "leaves (rn_log (snd (finish_run sha cfg late s))) d e"
  shows "verified_dest sha cfg e"
proof (cases "fst (finish_run sha cfg late s)")
  case None
  then obtain p where p: "dk_part (rn_disk s) = Some p" "int (length p) = want_size cfg" "sha p = want_sha cfg"
    and f: "finish_run sha cfg late s = (None, perform RemoveState (perform PartToDest s))"
    by (auto simp: finish_run_def split: option.splits if_splits)
  have "leaves (rn_log s) d e \<or> leaves [PartToDest, RemoveState] (rn_disk s) e"
    using assms(1,3) by (simp add: f perform_def leaves_append unrenamed_def flip: append.assoc)
  then show ?thesis
  proof
    assume "leaves [PartToDest, RemoveState] (rn_disk s) e"
    then show ?thesis
      using p unrenamed_settles [OF assms(1,2) leaves_all] assms(1)
      by (auto simp: verified_dest_def apply_op_def unrenamed_def elim!: leaves_ConsE leaves_NilE torn_E)
  qed (rule unrenamed_settles [OF assms(1,2)])
next
  case (Some x)
  then have "snd (finish_run sha cfg late s) = s"
    by (auto simp: finish_run_def split: option.splits if_splits)
  then show ?thesis using assms unrenamed_settles by auto
qed

lemma locked_run_settles:
  assumes "verified_dest sha cfg d" "leaves (rn_log (snd (locked_run sha cfg srvs late d))) d e"
  shows "verified_dest sha cfg e"
proof -
  define s where "s = \<lparr>rn_disk = d, rn_log = [], rn_asked = [], rn_committed = 0, rn_meta = []\<rparr>"
  obtain r1 s1 where l: "load_state sha cfg s = (r1, s1)" by fastforce
  have "unrenamed d s" by (simp add: unrenamed_def s_def)
  then have q1: "unrenamed d s1" using unrenamed_load l by (metis snd_conv)
  obtain r2 s2 where f: "fetch_ranges sha cfg srvs 0 s1 = (r2, s2)" by fastforce
  have q2: "unrenamed d s2" using unrenamed_fetch [OF q1] f by (metis snd_conv)
  show ?thesis
    using assms(2) unrenamed_settles [OF q1 assms(1)] unrenamed_settles [OF q2 assms(1)] finish_settles [OF q2 assms(1)]
    by (auto simp: locked_run_def l f Let_def simp flip: s_def split: option.splits prod.splits)
      (metis snd_conv)
qed

lemma reach_verified: "dl_reach sha cfg w d \<Longrightarrow> verified_dest sha cfg d"
proof (induction rule: dl_reach.induct)
  case (reach_start d)
  then show ?case by (simp add: verified_dest_def)
qed (auto intro: locked_run_settles)

section \<open>Resuming: what a crash leaves is a beginning of the file\<close>

text \<open>A server of the file \<open>F\<close> may fail, answer what it likes or break off; but a response that passes the
  checks carries bytes of the file, and what it raises is what the loop catches.\<close>

definition honest_server :: "dl_config \<Rightarrow> file_bytes \<Rightarrow> server \<Rightarrow> bool" where
  "honest_server cfg F srv \<longleftrightarrow>
     (\<forall>c e r. at_reply (srv c e) = Some r \<longrightarrow>
        (check_response cfg c e r = None \<longrightarrow>
           prefix (rs_body r) (drop (nat c) F) \<and> (\<forall>x. ReadError x \<in> set (rs_reads r) \<longrightarrow> caught x)) \<and>
        check_response cfg c e r \<noteq> Some LengthNotANumber)"

text \<open>A response that serves the whole range that was asked for.\<close>

definition full_response :: "dl_config \<Rightarrow> file_bytes \<Rightarrow> int \<Rightarrow> int \<Rightarrow> response \<Rightarrow> bool" where
  "full_response cfg F c e r \<longleftrightarrow>
     check_response cfg c e r = None \<and> rs_body r = take (nat (e + 1 - c)) (drop (nat c) F) \<and>
     nat (e + 1 - c) \<le> length (rs_reads r) \<and> (\<forall>x\<in>set (rs_reads r). \<exists>k. x = Ready (Suc k))"

definition good_server :: "dl_config \<Rightarrow> file_bytes \<Rightarrow> server \<Rightarrow> bool" where
  "good_server cfg F srv \<longleftrightarrow>
     (\<forall>c. 0 \<le> c \<and> c < want_size cfg \<longrightarrow>
        (\<exists>r. at_reply (srv c (min (want_size cfg - 1) (c + int window_size - 1))) = Some r \<and>
             full_response cfg F c (min (want_size cfg - 1) (c + int window_size - 1)) r))"

text \<open>The file that is wanted, and digests as \<open>hexdigest\<close> gives them.\<close>

definition file_wanted :: "(file_bytes \<Rightarrow> string) \<Rightarrow> dl_config \<Rightarrow> file_bytes \<Rightarrow> bool" where
  "file_wanted sha cfg F \<longleftrightarrow>
     want_size cfg = int (length F) \<and> F \<noteq> [] \<and> sha F = want_sha cfg \<and>
     dl_size cfg \<noteq> None \<and> (\<exists>h. dl_sha cfg = Some h \<and> hex64_any_case h)"

inductive honest_reach :: "(file_bytes \<Rightarrow> string) \<Rightarrow> dl_config \<Rightarrow> file_bytes \<Rightarrow> bool \<Rightarrow> dl_disk \<Rightarrow> bool"
  for sha cfg F where
  honest_start: "honest_reach sha cfg F False \<lparr>dk_part = None, dk_state = None, dk_dest = None\<rparr>"
| honest_check: "honest_reach sha cfg F w d \<Longrightarrow> before_lock sha cfg d = None \<Longrightarrow> honest_reach sha cfg F True d"
| honest_run: "honest_reach sha cfg F True d \<Longrightarrow> list_all (honest_server cfg F) srvs \<Longrightarrow>
    leaves (rn_log (snd (locked_run sha cfg srvs late d))) d e \<Longrightarrow> honest_reach sha cfg F True e"

subsection \<open>The invariant\<close>

definition meta_of :: "(file_bytes \<Rightarrow> string) \<Rightarrow> dl_config \<Rightarrow> file_bytes \<Rightarrow> jdict \<Rightarrow> int \<Rightarrow> bool" where
  "meta_of sha cfg F m c \<longleftrightarrow>
     meta_mine cfg m \<and> meta_v2 m \<and> jget ''committed'' m = JInt c \<and> 0 \<le> c \<and> c \<le> int (length F) \<and>
     (\<exists>es bs. jget ''blocks'' m = JArr es \<and> block_entries 0 es = Some (c, bs) \<and> blocks_match sha F bs)"

definition resumable :: "(file_bytes \<Rightarrow> string) \<Rightarrow> dl_config \<Rightarrow> file_bytes \<Rightarrow> dl_disk \<Rightarrow> bool" where
  "resumable sha cfg F d \<longleftrightarrow>
     (dk_dest d = None \<or> dk_dest d = Some F) \<and>
     (case dk_state d of
        None \<Rightarrow> dk_part d = None \<or> dk_part d = Some []
      | Some j \<Rightarrow> (\<exists>m c. j = Some (JObj m) \<and> meta_of sha cfg F m c \<and>
          (case dk_part d of
             None \<Rightarrow> c = int (length F) \<and> dk_dest d = Some F
           | Some p \<Rightarrow> c \<le> int (length p) \<and> take (nat c) p = take (nat c) F)))"

lemma block_entries_snoc:
  "block_entries off (es @ [e]) =
     (case block_entries off es of
        None \<Rightarrow> None
      | Some (s, bs) \<Rightarrow> (case block_entry s e of None \<Rightarrow> None | Some (n, h) \<Rightarrow> Some (s + n, bs @ [(n, h)])))"
  by (induction es arbitrary: off) (auto split: option.splits prod.splits)

lemma block_entry_pos: "block_entry off e = Some (n, h) \<Longrightarrow> 0 < n"
  by (auto simp: block_entry_def Let_def split: json.splits if_splits)

lemma block_entries_sum:
  "block_entries off es = Some (s, bs) \<Longrightarrow> s = off + sum_list (map fst bs) \<and> (\<forall>b\<in>set bs. 0 < fst b)"
proof (induction es arbitrary: off s bs)
  case (Cons e es)
  then obtain n h bs' where e: "block_entry off e = Some (n, h)" "block_entries (off + n) es = Some (s, bs')" "bs = (n, h) # bs'"
    by (auto split: option.splits prod.splits)
  then show ?case using Cons.IH [OF e(2)] block_entry_pos [OF e(1)] by simp
qed simp

lemma sum_list_pos: "\<forall>b\<in>set bs. (0::int) < fst b \<Longrightarrow> 0 \<le> sum_list (map fst bs)"
  by (induction bs) auto

lemma blocks_match_snoc:
  "\<forall>b\<in>set bs. 0 < fst b \<Longrightarrow>
   blocks_match sha p (bs @ [(n, h)]) \<longleftrightarrow>
     blocks_match sha p bs \<and> blocks_match sha (drop (nat (sum_list (map fst bs))) p) [(n, h)]"
proof (induction bs arbitrary: p)
  case (Cons b bs)
  obtain k g where b: "b = (k, g)" by fastforce
  have "nat (sum_list (map fst bs) + k) = nat (sum_list (map fst bs)) + nat k"
    using Cons.prems b by (intro nat_add_distrib sum_list_pos) auto
  then show ?case
    using Cons by (simp add: b Let_def add.commute)
qed simp

lemma blocks_match_take:
  "blocks_match sha F bs \<Longrightarrow> \<forall>b\<in>set bs. 0 < fst b \<Longrightarrow>
   take (nat (sum_list (map fst bs))) p = take (nat (sum_list (map fst bs))) F \<Longrightarrow> blocks_match sha p bs"
proof (induction bs arbitrary: p F)
  case (Cons b bs)
  obtain k g where b: "b = (k, g)" by fastforce
  have "nat (k + sum_list (map fst bs)) = nat k + nat (sum_list (map fst bs))"
    using Cons.prems b by (intro nat_add_distrib sum_list_pos) auto
  with Cons.prems(3) have eq: "take (nat k + nat (sum_list (map fst bs))) p = take (nat k + nat (sum_list (map fst bs))) F"
    by (simp add: b)
  have "take (nat k) p = take (nat k) F"
    using arg_cong [OF eq, of "take (nat k)"] by simp
  moreover have "take (nat (sum_list (map fst bs))) (drop (nat k) p) = take (nat (sum_list (map fst bs))) (drop (nat k) F)"
    using arg_cong [OF eq, of "drop (nat k)"] by (simp add: drop_take)
  moreover have "blocks_match sha (drop (nat k) F) bs"
    using Cons.prems(1) by (simp add: b Let_def)
  ultimately have "blocks_match sha (drop (nat k) p) bs"
    using Cons.IH Cons.prems(2) by fastforce
  then show ?case
    using Cons.prems(1) \<open>take (nat k) p = take (nat k) F\<close> by (simp add: b Let_def)
qed simp

lemma meta_mine_put: "k \<notin> {''identity'', ''expected_size'', ''expected_sha256''} \<Longrightarrow>
   meta_mine cfg (dict_put k v m) = meta_mine cfg m"
  by (auto simp: meta_mine_def)

lemma meta_of_fresh: "meta_of sha cfg F (fresh_meta cfg) 0"
  by (simp add: meta_of_def meta_mine_def meta_v2_def fresh_meta_def jget_or_def equals_int_def)

lemma meta_of_add:
  assumes "meta_of sha cfg F m c" "\<forall>b. hex64 (sha b)" "b \<noteq> []" "prefix b (drop (nat c) F)"
  shows "meta_of sha cfg F (meta_add sha c b m) (c + int (length b))"
proof -
  obtain es bs where es: "jget ''blocks'' m = JArr es" "block_entries 0 es = Some (c, bs)" "blocks_match sha F bs"
    using assms(1) by (auto simp: meta_of_def)
  have sum: "c = sum_list (map fst bs)" "\<forall>b\<in>set bs. 0 < fst b"
    using block_entries_sum [OF es(2)] by auto
  have "block_entry c (block_json sha c b) = Some (int (length b), JStr (sha b))"
    using assms(2,3) by (auto simp: block_entry_def block_json_def jget_or_def digest_like_def)
  then have be: "block_entries 0 (es @ [block_json sha c b]) = Some (c + int (length b), bs @ [(int (length b), JStr (sha b))])"
    by (simp add: block_entries_snoc es(2))
  have "take (length b) (drop (nat c) F) = b"
    using assms(4) by (auto simp: prefix_def)
  then have "blocks_match sha F (bs @ [(int (length b), JStr (sha b))])"
    using es(3) sum by (simp add: blocks_match_snoc Let_def)
  moreover have "nat c + length b \<le> length F"
    using prefix_length_le [OF assms(4)] assms(3) assms(1)
    by (cases "nat c \<le> length F") (auto simp: meta_of_def)
  ultimately show ?thesis
    using assms(1) be es(1)
    by (auto simp: meta_of_def meta_add_def meta_mine_put meta_v2_def)
qed

subsection \<open>A run keeps it\<close>

definition kept :: "(dl_disk \<Rightarrow> bool) \<Rightarrow> dl_disk \<Rightarrow> dl_run \<Rightarrow> bool" where
  "kept Inv d s \<longleftrightarrow> rn_disk s = apply_ops (rn_log s) d \<and> (\<forall>e. leaves (rn_log s) d e \<longrightarrow> Inv e)"

lemma kept_fields [simp]:
  "kept Inv d (s\<lparr>rn_committed := c\<rparr>) = kept Inv d s" "kept Inv d (s\<lparr>rn_meta := m\<rparr>) = kept Inv d s"
  "kept Inv d (s\<lparr>rn_asked := a\<rparr>) = kept Inv d s"
  by (simp_all add: kept_def)

lemma kept_perform:
  "kept Inv d s \<Longrightarrow> Inv (apply_op op (rn_disk s)) \<Longrightarrow> (\<And>e. torn op (rn_disk s) e \<Longrightarrow> Inv e) \<Longrightarrow> kept Inv d (perform op s)"
  using leaves_all [of "rn_log s" d] by (auto simp: kept_def perform_def leaves_append leaves_single)

definition on_track :: "(file_bytes \<Rightarrow> string) \<Rightarrow> dl_config \<Rightarrow> file_bytes \<Rightarrow> dl_disk \<Rightarrow> dl_run \<Rightarrow> bool" where
  "on_track sha cfg F d s \<longleftrightarrow>
     kept (resumable sha cfg F) d s \<and> meta_of sha cfg F (rn_meta s) (rn_committed s) \<and>
     dk_state (rn_disk s) = Some (Some (JObj (rn_meta s))) \<and>
     dk_part (rn_disk s) = Some (take (nat (rn_committed s)) F) \<and>
     dk_dest (rn_disk s) \<in> {None, Some F}"

lemma perform_simps [simp]:
  "rn_disk (perform op s) = apply_op op (rn_disk s)" "rn_committed (perform op s) = rn_committed s"
  "rn_meta (perform op s) = rn_meta s" "rn_asked (perform op s) = rn_asked s"
  by (simp_all add: perform_def)

lemma commit_block_simps [simp]:
  "rn_committed (commit_block sha b s) = rn_committed s + int (length b)"
  "rn_asked (commit_block sha b s) = rn_asked s"
  "dk_dest (rn_disk (commit_block sha b s)) = dk_dest (rn_disk s)"
  by (simp_all add: commit_block_def Let_def apply_op_def)

lemma resumable_part:
  "dk_state d = Some (Some (JObj m)) \<Longrightarrow> meta_of sha cfg F m c \<Longrightarrow> dk_part d = Some p \<Longrightarrow>
   c \<le> int (length p) \<Longrightarrow> take (nat c) p = take (nat c) F \<Longrightarrow> dk_dest d \<in> {None, Some F} \<Longrightarrow>
   resumable sha cfg F d"
  by (auto simp: resumable_def)

lemma meta_of_bounds: "meta_of sha cfg F m c \<Longrightarrow> 0 \<le> c \<and> c \<le> int (length F)"
  by (simp add: meta_of_def)

lemma track_commit:
  assumes hex: "\<forall>b. hex64 (sha b)" and t: "on_track sha cfg F d s"
    and b: "b \<noteq> []" "prefix b (drop (nat (rn_committed s)) F)"
  shows "on_track sha cfg F d (commit_block sha b s)"
proof -
  let ?c = "rn_committed s" and ?w = "perform (WritePart b) s"
  let ?c' = "?c + int (length b)" and ?m = "meta_add sha ?c b (rn_meta s)"
  have c: "0 \<le> ?c" "?c \<le> int (length F)"
    and m0: "meta_of sha cfg F (rn_meta s) ?c" and st: "dk_state (rn_disk s) = Some (Some (JObj (rn_meta s)))"
    and p: "dk_part (rn_disk s) = Some (take (nat ?c) F)" and dst: "dk_dest (rn_disk s) \<in> {None, Some F}"
    using t by (auto simp: on_track_def meta_of_def)
  have m: "meta_of sha cfg F ?m ?c'"
    using meta_of_add [OF m0 hex b] .
  have part: "take (nat ?c) F @ b = take (nat ?c') F"
    using b(2) c by (auto simp: prefix_def nat_add_distrib take_add)
  have any: "resumable sha cfg F (rn_disk s\<lparr>dk_part := Some (take (nat ?c) F @ junk)\<rparr>)" for junk
    by (rule resumable_part [OF _ m0, where p = "take (nat ?c) F @ junk"]) (use st dst c in \<open>auto simp: min_def\<close>)
  have w: "kept (resumable sha cfg F) d ?w"
    using t any p by (intro kept_perform) (auto simp: on_track_def apply_op_def elim!: torn_E)
  have "resumable sha cfg F (apply_op (PutState ?m) (rn_disk ?w))"
    by (rule resumable_part [OF _ m, where p = "take (nat ?c') F"]) (use meta_of_bounds [OF m] dst p part in \<open>auto simp: apply_op_def min_def\<close>)
  then have "kept (resumable sha cfg F) d (commit_block sha b s)"
    unfolding commit_block_def Let_def using w by (intro kept_perform) (auto elim: torn_E)
  then show ?thesis
    using t m part by (simp add: on_track_def commit_block_def Let_def apply_op_def)
qed

lemma track_blocks:
  assumes "\<forall>b. hex64 (sha b)" "on_track sha cfg F d s" "prefix (pending @ body) (drop (nat (rn_committed s)) F)"
    and "commit_blocks sha e pending s = (pending', s')"
  shows "on_track sha cfg F d s' \<and> prefix (pending' @ body) (drop (nat (rn_committed s')) F) \<and>
    rn_committed s' + int (length pending') = rn_committed s + int (length pending) \<and> rn_asked s' = rn_asked s"
  using assms
proof (induction sha e pending s rule: commit_blocks.induct)
  case (1 sha e pending s)
  note hex = "1.prems"(1) and t = "1.prems"(2) and pre = "1.prems"(3) and run = "1.prems"(4)
  show ?case
  proof (cases "block_size \<le> length pending \<and> rn_committed s < e + 1")
    case False
    then have "commit_blocks sha e pending s = (pending, s)" by (subst commit_blocks.simps) auto
    then show ?thesis using t pre run by simp
  next
    case True
    let ?b = "take block_size pending"
    have len: "length ?b = block_size" using True by simp
    have c: "0 \<le> rn_committed s" using t by (simp add: on_track_def meta_of_def)
    obtain zs where zs: "drop (nat (rn_committed s)) F = pending @ body @ zs"
      using pre by (auto simp: prefix_def)
    have b: "?b \<noteq> []" "prefix ?b (drop (nat (rn_committed s)) F)"
      using len block_size_pos by (auto simp: zs intro: prefix_prefix take_is_prefix)
    have "drop block_size (drop (nat (rn_committed s)) F) = drop block_size pending @ body @ zs"
      using True by (simp add: zs)
    then have pre': "prefix (drop block_size pending @ body) (drop (nat (rn_committed s + int block_size)) F)"
      using c by (simp add: nat_add_distrib add.commute)
    have step: "commit_blocks sha e pending s = commit_blocks sha e (drop block_size pending) (commit_block sha ?b s)"
      using True by (subst commit_blocks.simps) simp
    show ?thesis
      using "1.IH" [OF True hex track_commit [OF hex t b]] pre' run True len
      by (simp add: step)
  qed
qed

lemma read_range_ready:
  "0 < left \<Longrightarrow> left = e - rn_committed s - int (length pending) + 1 \<Longrightarrow>
   n = min k (nat (min (int block_size) left)) \<Longrightarrow>
   read_range sha e (Ready k # rs) body pending s =
     (if take n body = [] then (None, pending, s)
      else case commit_blocks sha e (pending @ take n body) s of
             (pending', s') \<Rightarrow> read_range sha e rs (drop n body) pending' s')"
  by (simp only: read_range.simps Let_def read_result.case if_False not_le [symmetric] refl)

lemma track_body:
  assumes "\<forall>b. hex64 (sha b)" "on_track sha cfg F d s" "prefix (pending @ body) (drop (nat (rn_committed s)) F)"
    and "read_range sha e rs body pending s = (r, pending', s')"
  shows "on_track sha cfg F d s' \<and> prefix pending' (drop (nat (rn_committed s')) F) \<and>
    rn_asked s' = rn_asked s \<and>
    (\<forall>x. r = Some x \<longrightarrow> ReadError x \<in> set rs)"
  using assms(2-4)
proof (induction rs arbitrary: body pending s)
  case Nil
  then show ?case by (auto simp: prefix_def)
next
  case (Cons q rs)
  show ?case
  proof (cases "e - rn_committed s - int (length pending) + 1 \<le> 0 \<or> (\<exists>x. q = ReadError x)")
    case True
    then show ?thesis using Cons.prems by (auto simp: prefix_def Let_def split: if_splits)
  next
    case False
    then obtain k where k: "q = Ready k" by (cases q) auto
    define n where "n = min k (nat (min (int block_size) (e - rn_committed s - int (length pending) + 1)))"
    obtain pend2 s2 where c: "commit_blocks sha e (pending @ take n body) s = (pend2, s2)" by fastforce
    have pre: "prefix ((pending @ take n body) @ drop n body) (drop (nat (rn_committed s)) F)"
      using Cons.prems(2) by simp
    note tb = track_blocks [OF assms(1) Cons.prems(1) pre c]
    have step: "read_range sha e (q # rs) body pending s =
      (if take n body = [] then (None, pending, s) else read_range sha e rs (drop n body) pend2 s2)"
      unfolding k by (subst read_range_ready [OF _ refl n_def]) (use False c in auto)
    show ?thesis
    proof (cases "take n body = []")
      case True
      then show ?thesis using Cons.prems step by (auto simp: prefix_def)
    next
      case ne: False
      then have "read_range sha e rs (drop n body) pend2 s2 = (r, pending', s')"
        using Cons.prems(3) step by simp
      from Cons.IH [OF _ _ this] tb show ?thesis by auto
    qed
  qed
qed

lemma track_take:
  assumes hex: "\<forall>b. hex64 (sha b)" and t: "on_track sha cfg F d s"
    and body: "prefix (rs_body r) (drop (nat (rn_committed s)) F)" and run: "take_body sha e r s = (x, s')"
  shows "on_track sha cfg F d s' \<and> rn_asked s' = rn_asked s \<and>
    (\<forall>y. x = Some y \<longrightarrow> y = ShortBody \<or> ReadError y \<in> set (rs_reads r))"
proof -
  obtain x1 pending s1 where b: "read_range sha e (rs_reads r) (rs_body r) [] s = (x1, pending, s1)"
    by (metis prod_cases3)
  note tb = track_body [OF hex t _ b]
  then have tb: "on_track sha cfg F d s1" "prefix pending (drop (nat (rn_committed s1)) F)"
    "rn_asked s1 = rn_asked s" "\<And>y. x1 = Some y \<Longrightarrow> ReadError y \<in> set (rs_reads r)"
    using body by auto
  have "pending \<noteq> [] \<Longrightarrow> on_track sha cfg F d (commit_block sha pending s1)"
    using track_commit [OF hex tb(1) _ tb(2)] .
  then show ?thesis
    using run tb by (auto simp: take_body_def b Let_def split: option.splits if_splits)
qed

lemma track_try:
  assumes hex: "\<forall>b. hex64 (sha b)" and t: "on_track sha cfg F d s"
    and srv: "honest_server cfg F srv" and run: "try_range sha cfg (at_reply (srv (rn_committed s) (range_end cfg s))) s = (x, s')"
  shows "on_track sha cfg F d s' \<and> rn_asked s' = rn_asked s \<and> (\<forall>y. x = Some y \<longrightarrow> caught y)"
proof -
  have part: "dk_part (rn_disk s) \<noteq> None" using t by (simp add: on_track_def)
  show ?thesis
  proof (cases "at_reply (srv (rn_committed s) (range_end cfg s))")
    case None
    then show ?thesis using run t by (auto simp: try_range_def caught_def)
  next
    case (Some r)
    note h = srv [unfolded honest_server_def, rule_format, OF Some]
    show ?thesis
    proof (cases "check_response cfg (rn_committed s) (range_end cfg s) r")
      case None
      then show ?thesis
        using run part Some h track_take [OF hex t, of r "range_end cfg s" x s']
        by (auto simp: try_range_def caught_def)
    next
      case (Some y)
      then have "y \<noteq> NoDescriptor"
        by (auto simp: check_response_def split: option.splits if_splits)
      then show ?thesis
        using run t Some \<open>at_reply _ = Some r\<close> h by (auto simp: try_range_def caught_def)
    qed
  qed
qed

lemma track_no_tail: "on_track sha cfg F d s \<Longrightarrow> cut_tail s = s"
  by (auto simp: on_track_def cut_tail_def part_len_def dest: meta_of_bounds)

lemma track_ask: "on_track sha cfg F d (ask_range cfg s) = on_track sha cfg F d s"
  by (simp add: on_track_def ask_range_def)

lemma ask_simps [simp]: "rn_committed (ask_range cfg s) = rn_committed s" "range_end cfg (ask_range cfg s) = range_end cfg s"
  by (simp_all add: ask_range_def range_end_def)

lemma track_fetch:
  assumes hex: "\<forall>b. hex64 (sha b)"
  shows "on_track sha cfg F d s \<Longrightarrow> list_all (honest_server cfg F) srvs \<Longrightarrow>
    fetch_ranges sha cfg srvs n s = (x, s') \<Longrightarrow> on_track sha cfg F d s'"
proof (induction srvs arbitrary: n s)
  case (Cons srv srvs)
  let ?a = "srv (rn_committed s) (range_end cfg s)"
  obtain x1 s1 where tr: "try_range sha cfg (at_reply ?a) (ask_range cfg s) = (x1, s1)" by fastforce
  have "on_track sha cfg F d s1"
    using track_try [OF hex, of cfg F d "ask_range cfg s" srv x1 s1] Cons.prems tr by (simp add: track_ask)
  then show ?case
    using Cons.prems Cons.IH tr by (auto simp: Let_def track_no_tail split: option.splits if_splits)
qed (auto split: if_splits)

lemma hex_chars_lower: "hex64_any_case h \<Longrightarrow> hex64_any_case (py_lower h)"
  by (auto simp: hex64_any_case_def list_all_iff py_lower_def lower_char_def hex_char_def Let_def)

definition start_run :: "dl_disk \<Rightarrow> dl_run" where
  "start_run d = \<lparr>rn_disk = d, rn_log = [], rn_asked = [], rn_committed = 0, rn_meta = []\<rparr>"

lemma start_run_simps [simp]:
  "rn_disk (start_run d) = d" "rn_log (start_run d) = []" "rn_asked (start_run d) = []"
  by (simp_all add: start_run_def)

lemma kept_start: "Inv d \<Longrightarrow> kept Inv d (start_run d)"
  by (auto simp: kept_def start_run_def elim: leaves_NilE)

lemma read_state_meta:
  assumes "meta_of sha cfg F m c"
  shows "\<exists>bs. read_state cfg part (Some (JObj m)) = Inr (m, c, bs) \<and>
    c = sum_list (map fst bs) \<and> (\<forall>b\<in>set bs. 0 < fst b) \<and> blocks_match sha F bs"
proof -
  obtain es bs where "jget ''blocks'' m = JArr es" "block_entries 0 es = Some (c, bs)" "blocks_match sha F bs"
    using assms by (auto simp: meta_of_def)
  moreover have "\<not> legacy_mismatch m part"
    using assms by (simp add: meta_of_def legacy_mismatch_def meta_v2_def)
  ultimately show ?thesis
    using assms block_entries_sum [of 0 es c bs] by (auto simp: meta_of_def read_state_def)
qed

lemma load_resumable:
  assumes inv: "resumable sha cfg F d" and want: "file_wanted sha cfg F"
    and run: "load_state sha cfg (start_run d) = (x, s)"
  shows "kept (resumable sha cfg F) d s \<and> (x = None \<longrightarrow> on_track sha cfg F d s)"
proof (cases "dk_state d")
  case None
  have size: "want_size cfg = int (length F)" using want by (simp add: file_wanted_def)
  have k0: "kept (resumable sha cfg F) d (start_run d)" by (rule kept_start) (rule inv)
  show ?thesis
  proof (cases "dk_part d")
    case pNone: None
    let ?c = "perform CreatePart (start_run d)" and ?m = "fresh_meta cfg"
    have dst: "dk_dest d \<in> {None, Some F}" using inv by (auto simp: resumable_def)
    have "kept (resumable sha cfg F) d ?c"
      using k0 None dst by (intro kept_perform) (auto simp: apply_op_def resumable_def elim: torn_E)
    moreover have "resumable sha cfg F (apply_op (PutState ?m) (rn_disk ?c))"
      by (rule resumable_part [OF _ meta_of_fresh, where p = "[]"]) (use dst in \<open>auto simp: apply_op_def\<close>)
    ultimately have "kept (resumable sha cfg F) d (perform (PutState ?m) ?c)"
      by (rule kept_perform) (auto elim: torn_E)
    then show ?thesis
      using run None pNone dst
      by (auto simp: load_state_def on_track_def meta_of_fresh apply_op_def)
  next
    case (Some p)
    then show ?thesis using run None k0 by (auto simp: load_state_def)
  qed
next
  case (Some j)
  have size: "want_size cfg = int (length F)" "F \<noteq> []" using want by (auto simp: file_wanted_def)
  have k0: "kept (resumable sha cfg F) d (start_run d)" by (rule kept_start) (rule inv)
  obtain m c where j: "j = Some (JObj m)" and m: "meta_of sha cfg F m c"
    and p: "case dk_part d of None \<Rightarrow> c = int (length F) \<and> dk_dest d = Some F
            | Some p \<Rightarrow> c \<le> int (length p) \<and> take (nat c) p = take (nat c) F"
    using inv Some by (auto simp: resumable_def)
  obtain bs where rd: "read_state cfg (dk_part d) (Some (JObj m)) = Inr (m, c, bs)"
    and bs: "c = sum_list (map fst bs)" "\<forall>b\<in>set bs. 0 < fst b" "blocks_match sha F bs"
    using read_state_meta [OF m] by metis
  have c: "0 \<le> c" "c \<le> want_size cfg" using meta_of_bounds [OF m] size by auto
  have dst: "dk_dest d \<in> {None, Some F}" using inv by (auto simp: resumable_def)
  show ?thesis
  proof (cases "dk_part d")
    case pNone: None
    then show ?thesis using run Some j rd c p k0 size
      by (auto simp: load_state_def on_track_def Let_def split: if_splits)
  next
    case pSome: (Some q)
    let ?s = "start_run d\<lparr>rn_committed := c, rn_meta := m\<rparr>"
    have q: "c \<le> int (length q)" "take (nat c) q = take (nat c) F" using p pSome by auto
    have match: "blocks_match sha q bs"
      using blocks_match_take [OF bs(3,2)] q bs(1) by simp
    have cut: "resumable sha cfg F (apply_op (TruncatePart (nat c)) (rn_disk ?s))"
      by (rule resumable_part [OF _ m, where p = "take (nat c) F"])
        (use Some j pSome q c size dst in \<open>auto simp: apply_op_def min_def\<close>)
    have kc: "kept (resumable sha cfg F) d (perform (TruncatePart (nat c)) ?s)"
      using k0 cut by (intro kept_perform) (auto elim: torn_E)
    have s: "x = None \<and> s = (if int (length q) > c then perform (TruncatePart (nat c)) ?s else ?s)"
      using run Some j pSome rd c q match by (auto simp: load_state_def Let_def)
    have qq: "q = take (nat c) F" if "\<not> int (length q) > c"
      using that q c by simp
    show ?thesis
      using s kc k0 m Some j pSome q dst qq
      by (auto simp: on_track_def apply_op_def)
  qed
qed

lemma finish_resumable:
  assumes t: "on_track sha cfg F d s" and want: "file_wanted sha cfg F"
    and run: "finish_run sha cfg late s = (x, s')"
  shows "kept (resumable sha cfg F) d s' \<and> (rn_committed s = want_size cfg \<and> \<not> dl_deadline cfg \<longrightarrow>
    x = None \<and> dk_dest (rn_disk s') = Some F \<and> rn_asked s' = rn_asked s)"
proof -
  let ?c = "rn_committed s"
  have c: "0 \<le> ?c" "?c \<le> int (length F)" and m: "meta_of sha cfg F (rn_meta s) ?c"
    using t by (auto simp: on_track_def meta_of_def)
  have p: "dk_part (rn_disk s) = Some (take (nat ?c) F)" using t by (simp add: on_track_def)
  have k: "kept (resumable sha cfg F) d s" using t by (simp add: on_track_def)
  show ?thesis
  proof (cases "?c = want_size cfg")
    case False
    then show ?thesis using run p k c want by (auto simp: finish_run_def file_wanted_def)
  next
    case True
    then have F: "take (nat ?c) F = F" "?c = int (length F)" using want by (auto simp: file_wanted_def)
    let ?w = "perform PartToDest s"
    have "resumable sha cfg F (rn_disk ?w)"
      using t p F m by (auto simp: resumable_def on_track_def apply_op_def)
    then have kw: "kept (resumable sha cfg F) d ?w"
      using k by (intro kept_perform) (auto elim: torn_E)
    have "kept (resumable sha cfg F) d (perform RemoveState ?w)"
      by (rule kept_perform [OF kw]) (use p F in \<open>auto simp: resumable_def apply_op_def elim: torn_E\<close>)
    then show ?thesis
      using run p k F want by (auto simp: finish_run_def file_wanted_def apply_op_def split: if_splits)
  qed
qed

lemma locked_resumable:
  assumes hex: "\<forall>b. hex64 (sha b)" and want: "file_wanted sha cfg F"
    and inv: "resumable sha cfg F d" and srvs: "list_all (honest_server cfg F) srvs"
  shows "kept (resumable sha cfg F) d (snd (locked_run sha cfg srvs late d))"
proof -
  obtain x1 s1 where l: "load_state sha cfg (start_run d) = (x1, s1)" by fastforce
  obtain x2 s2 where f: "fetch_ranges sha cfg srvs 0 s1 = (x2, s2)" by fastforce
  obtain x3 s3 where fin: "finish_run sha cfg late s2 = (x3, s3)" by fastforce
  have lk: "kept (resumable sha cfg F) d s1" "x1 = None \<Longrightarrow> on_track sha cfg F d s1"
    using load_resumable [OF inv want l] by auto
  have fk: "x1 = None \<Longrightarrow> on_track sha cfg F d s2"
    using track_fetch [OF hex _ srvs f] lk(2) by blast
  have nk: "x1 = None \<Longrightarrow> kept (resumable sha cfg F) d s3"
    using finish_resumable [OF fk want fin] by blast
  show ?thesis
    using lk fk nk by (auto simp: locked_run_def l [unfolded start_run_def] f fin Let_def on_track_def split: option.split)
qed

lemma honest_reach_resumable:
  assumes "\<forall>b. hex64 (sha b)" "file_wanted sha cfg F"
  shows "honest_reach sha cfg F w d \<Longrightarrow> resumable sha cfg F d"
proof (induction rule: honest_reach.induct)
  case (honest_run d srvs late e)
  then show ?case using locked_resumable [OF assms] by (auto simp: kept_def)
qed (auto simp: resumable_def)

subsection \<open>A run gets there\<close>

lemma commit_blocks_sum:
  "commit_blocks sha e pending s = (pending', s') \<Longrightarrow>
   rn_committed s' + int (length pending') = rn_committed s + int (length pending) \<and>
   rn_committed s \<le> rn_committed s' \<and> rn_asked s' = rn_asked s"
proof (induction sha e pending s rule: commit_blocks.induct)
  case (1 sha e pending s)
  show ?case
  proof (cases "block_size \<le> length pending \<and> rn_committed s < e + 1")
    case True
    then have "commit_blocks sha e (drop block_size pending) (commit_block sha (take block_size pending) s) = (pending', s')"
      using "1.prems" by (subst (asm) commit_blocks.simps) simp
    from "1.IH" [OF True this] True show ?thesis by auto
  next
    case False
    then show ?thesis using "1.prems" by (subst (asm) commit_blocks.simps) auto
  qed
qed

lemma read_range_grows:
  "read_range sha e rs body pending s = (r, pending', s') \<Longrightarrow>
   rn_committed s \<le> rn_committed s' \<and> rn_asked s' = rn_asked s"
proof (induction rs arbitrary: body pending s)
  case (Cons q rs)
  then show ?case
    by (auto simp: Let_def split: if_splits read_result.splits prod.splits dest!: commit_blocks_sum)
      (metis order_trans)+
qed simp

lemma take_body_grows: "take_body sha e r s = (x, s') \<Longrightarrow> rn_committed s \<le> rn_committed s' \<and> rn_asked s' = rn_asked s"
  by (auto simp: take_body_def Let_def split: option.splits prod.splits if_splits dest!: read_range_grows)

lemma try_range_grows: "try_range sha cfg reply s = (x, s') \<Longrightarrow> rn_committed s \<le> rn_committed s' \<and> rn_asked s' = rn_asked s"
  by (auto simp: try_range_def split: option.splits if_splits dest!: take_body_grows)

lemma cut_tail_simps [simp]: "rn_committed (cut_tail s) = rn_committed s" "rn_asked (cut_tail s) = rn_asked s"
  by (simp_all add: cut_tail_def)

text \<open>Only bytes beyond what is committed are asked for.\<close>

lemma fetch_asks_beyond:
  "fetch_ranges sha cfg srvs n s = (x, s') \<Longrightarrow> \<forall>(a, b)\<in>set (rn_asked s). c \<le> a \<Longrightarrow> c \<le> rn_committed s \<Longrightarrow>
   \<forall>(a, b)\<in>set (rn_asked s'). c \<le> a"
proof (induction srvs arbitrary: n s)
  case (Cons srv srvs)
  obtain x1 s1 where tr: "try_range sha cfg (at_reply (srv (rn_committed s) (range_end cfg s))) (ask_range cfg s) = (x1, s1)"
    by fastforce
  have "c \<le> rn_committed s1" "\<forall>(a, b)\<in>set (rn_asked s1). c \<le> a"
    using try_range_grows [OF tr] Cons.prems by (auto simp: ask_range_def)
  then show ?case
    using Cons.prems Cons.IH [of _ s1] Cons.IH [of _ "cut_tail s1"] tr
    by (auto simp: Let_def split: option.splits if_splits)
qed (auto split: if_splits)

lemma read_range_full:
  assumes "\<forall>x\<in>set rs. \<exists>k. x = Ready (Suc k)" "length body \<le> length rs"
    and "e - rn_committed s - int (length pending) + 1 = int (length body)"
    and "read_range sha e rs body pending s = (r, pending', s')"
  shows "r = None \<and> rn_committed s' + int (length pending') = e + 1"
  using assms
proof (induction rs arbitrary: body pending s)
  case Nil
  then show ?case by simp
next
  case (Cons q rs)
  show ?case
  proof (cases "body = []")
    case True
    then show ?thesis using Cons.prems(3,4) by (auto simp: Let_def)
  next
    case False
    obtain k where k: "q = Ready (Suc k)" using Cons.prems(1) by auto
    define n where "n = min (Suc k) (nat (min (int block_size) (int (length body))))"
    have n: "0 < n" "n \<le> length body" using False block_size_pos by (auto simp: n_def min_def)
    obtain pend2 s2 where c: "commit_blocks sha e (pending @ take n body) s = (pend2, s2)" by fastforce
    have b: "read_range sha e rs (drop n body) pend2 s2 = (r, pending', s')"
      using Cons.prems(4) unfolding k
      by (subst (asm) read_range_ready [OF _ Cons.prems(3) [symmetric] n_def]) (use False n c in auto)
    have e2: "e - rn_committed s2 - int (length pend2) + 1 = int (length (drop n body))"
      using commit_blocks_sum [OF c] n Cons.prems(3) by simp
    have l2: "length (drop n body) \<le> length rs" using n Cons.prems(2) by simp
    show ?thesis using Cons.IH [OF _ l2 e2 b] Cons.prems(1) by simp
  qed
qed

lemma take_body_full:
  assumes "\<forall>x\<in>set (rs_reads r). \<exists>k. x = Ready (Suc k)" "length (rs_body r) \<le> length (rs_reads r)"
    and "e - rn_committed s + 1 = int (length (rs_body r))" "take_body sha e r s = (x, s')"
  shows "x = None \<and> rn_committed s' = e + 1"
proof -
  obtain x1 pending s1 where b: "read_range sha e (rs_reads r) (rs_body r) [] s = (x1, pending, s1)"
    by (metis prod_cases3)
  have "x1 = None \<and> rn_committed s1 + int (length pending) = e + 1"
    using read_range_full [OF assms(1,2) _ b] assms(3) by simp
  then show ?thesis
    using assms(4) by (auto simp: take_body_def b Let_def split: if_splits)
qed

lemma try_range_full:
  assumes t: "on_track sha cfg F d s" and size: "want_size cfg = int (length F)"
    and srv: "good_server cfg F srv" and more: "rn_committed s < want_size cfg"
    and run: "try_range sha cfg (at_reply (srv (rn_committed s) (range_end cfg s))) s = (x, s')"
  shows "x = None \<and> rn_committed s' = range_end cfg s + 1"
proof -
  let ?c = "rn_committed s" and ?e = "range_end cfg s"
  have c: "0 \<le> ?c" using t by (simp add: on_track_def meta_of_def)
  obtain r where r: "at_reply (srv ?c ?e) = Some r" and full: "full_response cfg F ?c ?e r"
    using srv c more unfolding good_server_def range_end_def by blast
  have e: "?c \<le> ?e" "?e < int (length F)" using more size by (auto simp: range_end_def window_size_def)
  have len: "length (rs_body r) = nat (?e + 1 - ?c)"
    using full c e by (auto simp: full_response_def)
  have "take_body sha ?e r s = (x, s')"
    using run full r t by (simp add: try_range_def full_response_def on_track_def)
  then show ?thesis
    using take_body_full [of r ?e s sha x s'] full len e by (auto simp: full_response_def)
qed

text \<open>Between two turns in which the server serves its range there are at most \<open>max_retries\<close> others.\<close>

fun patient :: "nat \<Rightarrow> nat \<Rightarrow> bool list \<Rightarrow> bool" where
  "patient m r [] = True"
| "patient m r (True # gs) = patient m 0 gs"
| "patient m r (False # gs) = (r < m \<and> patient m (r + 1) gs)"

lemma patient_mono: "patient m r gs \<Longrightarrow> r' \<le> r \<Longrightarrow> patient m r' gs"
  by (induction m r gs arbitrary: r' rule: patient.induct) auto

definition serves :: "dl_config \<Rightarrow> file_bytes \<Rightarrow> bool \<Rightarrow> server \<Rightarrow> bool" where
  "serves cfg F good srv \<longleftrightarrow> honest_server cfg F srv \<and> (good \<longrightarrow> good_server cfg F srv)"

lemma fetch_completes:
  assumes hex: "\<forall>b. hex64 (sha b)" and size: "want_size cfg = int (length F)" and dl: "\<not> dl_deadline cfg"
  shows "on_track sha cfg F d s \<Longrightarrow> list_all2 (serves cfg F) gs srvs \<Longrightarrow> patient (dl_max_retries cfg) n gs \<Longrightarrow>
    want_size cfg - rn_committed s \<le> int window_size * int (count_list gs True) \<Longrightarrow>
    \<exists>s'. fetch_ranges sha cfg srvs n s = (Some None, s') \<and> on_track sha cfg F d s' \<and> rn_committed s' = want_size cfg"
proof (induction srvs arbitrary: n s gs)
  case Nil
  then show ?case using meta_of_bounds [of sha cfg F] size by (fastforce simp: on_track_def)
next
  case (Cons srv srvs)
  obtain g gs' where gs: "gs = g # gs'" and srv: "serves cfg F g srv" and rest: "list_all2 (serves cfg F) gs' srvs"
    using Cons.prems(2) by (auto simp: list_all2_Cons2)
  have c: "rn_committed s \<le> want_size cfg"
    using Cons.prems(1) size by (simp add: on_track_def meta_of_def)
  show ?case
  proof (cases "rn_committed s < want_size cfg")
    case False
    then show ?thesis using c Cons.prems(1) by simp
  next
    case True
    obtain x1 s1 where tr: "try_range sha cfg (at_reply (srv (rn_committed s) (range_end cfg s))) (ask_range cfg s) = (x1, s1)"
      by fastforce
    have ta: "on_track sha cfg F d (ask_range cfg s)" using Cons.prems(1) by (simp add: track_ask)
    have t1: "on_track sha cfg F d s1" "\<And>y. x1 = Some y \<Longrightarrow> caught y"
      using track_try [OF hex ta, of srv x1 s1] srv tr by (auto simp: serves_def)
    have grow: "rn_committed s \<le> rn_committed s1" using try_range_grows [OF tr] by simp
    have good: "g \<Longrightarrow> x1 = None \<and> rn_committed s1 = range_end cfg s + 1"
      using try_range_full [OF ta size, of srv x1 s1] srv tr True by (auto simp: serves_def)
    have left: "want_size cfg - rn_committed s1 \<le> int window_size * int (count_list gs' True)"
      using Cons.prems(4) good grow by (cases g) (auto simp: gs range_end_def algebra_simps min_def split: if_splits)
    show ?thesis
    proof (cases x1)
      case None
      have "patient (dl_max_retries cfg) 0 gs'"
        using Cons.prems(3) by (cases g) (auto simp: gs intro: patient_mono)
      from Cons.IH [OF t1(1) rest this left] None show ?thesis
        using True tr dl by (simp add: Let_def)
    next
      case (Some y)
      then have "\<not> g" using good by auto
      then have "n < dl_max_retries cfg" "patient (dl_max_retries cfg) (n + 1) gs'"
        using Cons.prems(3) by (auto simp: gs)
      from Cons.IH [OF t1(1) rest this(2) left] this Some show ?thesis
        using True tr dl t1 by (simp add: Let_def track_no_tail)
    qed
  qed
qed

section \<open>Downloads\<close>

definition committed_of :: "dl_disk \<Rightarrow> int" where
  "committed_of d =
     (case dk_state d of
        Some (Some (JObj m)) \<Rightarrow> (case jget ''committed'' m of JInt c \<Rightarrow> c | _ \<Rightarrow> 0)
      | _ \<Rightarrow> 0)"

text \<open>The disk on which no later call can go on: the part file was created and its state was not.\<close>

definition orphaned :: "dl_disk \<Rightarrow> bool" where
  "orphaned d \<longleftrightarrow> dk_dest d = None \<and> dk_state d = None \<and> dk_part d \<noteq> None"

lemma before_lock_wanted:
  "file_wanted sha cfg F \<Longrightarrow> before_lock sha cfg d =
     (case dk_dest d of None \<Rightarrow> None
      | Some b \<Rightarrow> if int (length b) = want_size cfg \<and> sha b = want_sha cfg then Some None else Some (Some DestMismatch))"
  by (auto simp: before_lock_def file_wanted_def want_size_def split: option.splits)

lemma orphaned_run: "orphaned d \<Longrightarrow> locked_run sha cfg srvs late d = (Some (Some NoTrustedState), start_run d)"
  by (auto simp: orphaned_def locked_run_def load_state_def start_run_def)

lemma load_committed:
  assumes "resumable sha cfg F d" "file_wanted sha cfg F" "dk_dest d = None" "\<not> orphaned d"
  shows "\<exists>s. load_state sha cfg (start_run d) = (None, s) \<and> on_track sha cfg F d s \<and>
    rn_committed s = committed_of d \<and> rn_asked s = []"
proof -
  obtain x s where l: "load_state sha cfg (start_run d) = (x, s)" by fastforce
  have x: "x = None \<and> rn_committed s = committed_of d \<and> rn_asked s = []"
  proof (cases "dk_state d")
    case None
    then show ?thesis using l assms(3,4)
      by (auto simp: load_state_def orphaned_def committed_of_def)
  next
    case (Some j)
    then obtain m c p where j: "j = Some (JObj m)" and m: "meta_of sha cfg F m c" and p: "dk_part d = Some p"
      and cp: "c \<le> int (length p)" "take (nat c) p = take (nat c) F"
      using assms(1,3) by (auto simp: resumable_def split: option.splits)
    obtain bs where "read_state cfg (Some p) (Some (JObj m)) = Inr (m, c, bs)" "c = sum_list (map fst bs)"
      "\<forall>b\<in>set bs. 0 < fst b" "blocks_match sha F bs"
      using read_state_meta [OF m] by metis
    moreover have "jget ''committed'' m = JInt c" "0 \<le> c" "c \<le> want_size cfg"
      using m assms(2) by (auto simp: meta_of_def file_wanted_def)
    ultimately show ?thesis
      using l Some j p cp blocks_match_take [of sha F bs p]
      by (auto simp: load_state_def Let_def committed_of_def)
  qed
  then show ?thesis using l load_resumable [OF assms(1,2) l] by simp
qed

text \<open>C38: Whatever the servers answer, however many processes try, and wherever each of them is
  killed, the destination of a resumable download is absent or a file of the expected size and
  digest; that also holds when the part file and the state file were left by something else.\<close>

theorem download_is_verified:
  "dl_reach sha cfg w d \<Longrightarrow> dk_dest d = Some b \<Longrightarrow> int (length b) = want_size cfg \<and> sha b = want_sha cfg"
  using reach_verified [of sha cfg w d] by (simp add: verified_dest_def)



text \<open>The exception can happen: a call that is killed after it created the part file and before the
  first state was renamed into place leaves a disk on which every later call fails, whatever the
  server, without a request and without a change.\<close>

lemma crash_before_first_state_is_permanent:
  assumes "file_wanted sha cfg F"
  shows "\<exists>d. honest_reach sha cfg F True d \<and> orphaned d \<and>
    (\<forall>srvs late. download_resumable sha cfg False srvs late d = (Some (Some NoTrustedState), start_run d))"
proof -
  let ?start = "\<lparr>dk_part = None, dk_state = None, dk_dest = None\<rparr>"
  let ?d = "?start\<lparr>dk_part := Some []\<rparr>"
  have b: "before_lock sha cfg ?start = None" "before_lock sha cfg ?d = None"
    using assms by (simp_all add: before_lock_wanted)
  have log: "rn_log (snd (locked_run sha cfg [] False ?start)) = [CreatePart, PutState (fresh_meta cfg)]"
    using assms by (simp add: locked_run_def load_state_def perform_def file_wanted_def)
  have "leaves [CreatePart, PutState (fresh_meta cfg)] ?start ?d"
    by (rule leaves_next) (simp add: apply_op_def leaves_here)
  then have "honest_reach sha cfg F True ?d"
    using honest_run [OF honest_check [OF honest_start b(1)], where srvs = "[]" and late = False and e = ?d] log by simp
  moreover have "orphaned ?d" by (simp add: orphaned_def)
  ultimately show ?thesis
    using b(2) by (auto simp: download_resumable_def orphaned_run start_run_def intro!: exI [of _ ?d])
qed


text \<open>Bytes that were committed are never fetched again: when they are not those of the file, every later
  call that keeps its state ends with the same error, without a request.\<close>

lemma wrong_bytes_stay:
  assumes "dk_state d = Some (Some (JObj m))" "dk_part d = Some p" "int (length p) = want_size cfg"
    and "read_state cfg (Some p) (Some (JObj m)) = Inr (m, want_size cfg, bs)" "blocks_match sha p bs"
    and "sha p \<noteq> want_sha cfg"
  shows "locked_run sha cfg srvs False d =
    (Some (Some FinalMismatch), start_run d\<lparr>rn_committed := want_size cfg, rn_meta := m\<rparr>)"
proof -
  let ?s = "start_run d\<lparr>rn_committed := want_size cfg, rn_meta := m\<rparr>"
  have "load_state sha cfg (start_run d) = (None, ?s)"
    using assms by (simp add: load_state_def Let_def flip: assms(3))
  moreover have "fetch_ranges sha cfg srvs 0 ?s = (Some None, ?s)"
    by (cases srvs) simp_all
  moreover have "finish_run sha cfg False ?s = (Some FinalMismatch, ?s)"
    using assms by (simp add: finish_run_def)
  ultimately show ?thesis by (simp add: locked_run_def start_run_def)
qed

text \<open>A call that is killed between the rename and the removal of the state leaves a state without a part
  file; once the destination has been deleted, no call downloads it again.\<close>

lemma stale_state_stays:
  assumes "dk_state d = Some (Some (JObj m))" "dk_part d = None" "0 < want_size cfg"
    and "read_state cfg None (Some (JObj m)) = Inr (m, want_size cfg, bs)"
  shows "fst (locked_run sha cfg srvs late d) = Some (Some StatePartMismatch)"
  using assms by (simp add: locked_run_def load_state_def Let_def)

section \<open>A download of three bytes\<close>

definition demo_sha :: "file_bytes \<Rightarrow> string" where
  "demo_sha b = replicate 64 (CHR ''a'')"

definition demo_cfg :: dl_config where
  "demo_cfg = \<lparr>dl_identity = ''m'', dl_size = Some 3, dl_sha = Some (replicate 64 (CHR ''A'')),
     dl_restricted = False, dl_deadline = False, dl_max_retries = 1\<rparr>"

definition demo_server :: server where
  "demo_server c e = \<lparr>at_late = False, at_reply = Some \<lparr>rs_host = None, rs_status = 206,
     rs_range = Some (if c = 0 then ''bytes 0-2/3'' else if c = 1 then ''bytes 1-2/3'' else ''bytes 2-2/3''),
     rs_length = Some (if c = 0 then ''3'' else if c = 1 then ''2'' else ''1''),
     rs_encoding = False, rs_body = drop (nat c) [5, 6, 7], rs_reads = [Ready 2, Ready 1, Ready 1]\<rparr>,
     at_late_after = False\<rparr>"

definition demo_dead :: server where
  "demo_dead c e = \<lparr>at_late = False, at_reply = None, at_late_after = False\<rparr>"

definition demo_start :: dl_disk where
  "demo_start = \<lparr>dk_part = None, dk_state = None, dk_dest = None\<rparr>"

definition demo_crashed :: dl_disk where
  "demo_crashed = \<lparr>dk_part = Some [5, 9], dk_state = Some (Some (JObj (fresh_meta demo_cfg))), dk_dest = None\<rparr>"

lemma demo_ranges:
  "content_range ''bytes 0-2/3'' = Some (0, 2, 3)" "content_range ''bytes 1-2/3'' = Some (1, 2, 3)"
  "content_range ''bytes 2-2/3'' = Some (2, 2, 3)"
  by (simp_all add: content_range_def py_startswith_def is_digit_char_def digit_val_def Let_def)

lemma demo_lengths: "py_int ''3'' = Some 3" "py_int ''2'' = Some 2" "py_int ''1'' = Some 1"
  by (simp_all add: py_eval py_int_def py_strip_def strip_by_def rstrip_by_def lstrip_by_def cp_isspace_def
      is_digit_char_def digit_val_def Let_def)

lemma lower_A: "lower_char (CHR ''A'') = CHR ''a''"
  by code_simp

lemma demo_wanted: "file_wanted demo_sha demo_cfg [5, 6, 7]"
  by (simp add: file_wanted_def demo_sha_def demo_cfg_def want_size_def want_sha_def hex64_any_case_def
      hex_char_def py_lower_def lower_A list_all_iff)

lemma demo_hex: "\<forall>b. hex64 (demo_sha b)"
  by (simp add: demo_sha_def hex64_def hex_char_def list_all_iff)

lemma demo_size: "want_size demo_cfg = 3" "dl_restricted demo_cfg = False" "\<not> dl_deadline demo_cfg"
  by (simp_all add: demo_cfg_def want_size_def)

lemma demo_want: "want_sha demo_cfg = replicate 64 (CHR ''a'')"
  by (simp add: demo_cfg_def want_sha_def py_lower_def lower_A)

lemma demo_log:
  "rn_log (snd (locked_run demo_sha demo_cfg [demo_server] False demo_start)) =
     [CreatePart, PutState (fresh_meta demo_cfg), WritePart [5, 6, 7],
      PutState (meta_add demo_sha 0 [5, 6, 7] (fresh_meta demo_cfg)), PartToDest, RemoveState]"
  by (simp add: locked_run_def load_state_def perform_def demo_size demo_start_def demo_server_def range_end_def
      window_size_def try_range_def ask_range_def check_response_def big_on_hub_def demo_ranges demo_lengths
      range_ok_def take_body_def commit_blocks.simps block_size_def commit_block_def demo_want finish_run_def
      apply_op_def demo_sha_def Let_def)


lemma demo_before: "before_lock demo_sha demo_cfg demo_start = None"
  by (simp add: before_lock_wanted [OF demo_wanted] demo_start_def)

lemma demo_honest: "honest_server demo_cfg [5, 6, 7] demo_server" "honest_server demo_cfg [5, 6, 7] demo_dead"
  by (auto simp: honest_server_def demo_server_def demo_dead_def check_response_def demo_lengths big_on_hub_def
      demo_size split: if_splits)

lemma demo_good: "good_server demo_cfg [5, 6, 7] demo_server"
proof -
  have "c = 0 \<or> c = 1 \<or> c = 2" if "0 \<le> c \<and> c < (3 :: int)" for c
    using that by auto
  then show ?thesis
    unfolding good_server_def demo_size
    by (auto simp: demo_server_def full_response_def check_response_def big_on_hub_def demo_size demo_ranges
        demo_lengths range_ok_def window_size_def)
qed

lemma demo_crash: "honest_reach demo_sha demo_cfg [5, 6, 7] True demo_crashed"
proof -
  have "torn (WritePart [5, 6, 7]) (apply_ops [CreatePart, PutState (fresh_meta demo_cfg)] demo_start) demo_crashed"
    using torn_write [of "apply_ops [CreatePart, PutState (fresh_meta demo_cfg)] demo_start" "[]" "[5, 6, 7]" "[5, 9]"]
    by (simp add: apply_op_def demo_start_def demo_crashed_def)
  then have "leaves (rn_log (snd (locked_run demo_sha demo_cfg [demo_server] False demo_start))) demo_start demo_crashed"
    unfolding demo_log by (intro leaves_next leaves_torn) (simp_all add: leaves_torn)
  then show ?thesis
    by (intro honest_run [OF honest_check [OF honest_start [folded demo_start_def] demo_before]])
      (auto simp: demo_honest)
qed

lemma demo_completes:
  "dl_reach demo_sha demo_cfg True \<lparr>dk_part = None, dk_state = None, dk_dest = Some [5, 6, 7]\<rparr>"
proof -
  have "dl_reach demo_sha demo_cfg True demo_start"
    by (rule reach_check [OF reach_start demo_before]) (simp add: demo_start_def)
  moreover have "leaves (rn_log (snd (locked_run demo_sha demo_cfg [demo_server] False demo_start))) demo_start
      \<lparr>dk_part = None, dk_state = None, dk_dest = Some [5, 6, 7]\<rparr>"
    unfolding demo_log
    using leaves_all [of "[CreatePart, PutState (fresh_meta demo_cfg), WritePart [5, 6, 7],
        PutState (meta_add demo_sha 0 [5, 6, 7] (fresh_meta demo_cfg)), PartToDest, RemoveState]" demo_start]
    by (simp add: apply_op_def demo_start_def)
  ultimately show ?thesis by (rule reach_run)
qed

lemma demo_patient: "patient (dl_max_retries demo_cfg) 0 [False, True]"
  by (simp add: demo_cfg_def)

theorem download_is_verified_witness:
  "dl_reach demo_sha demo_cfg True \<lparr>dk_part = None, dk_state = None, dk_dest = Some [5, 6, 7]\<rparr> \<and>
   int (length [5::nat, 6, 7]) = want_size demo_cfg"
  using download_is_verified [OF demo_completes, of "[5, 6, 7]"] demo_completes by simp



end
