(* ===== verification/Spec2Isabelle.thy ===== *)
theory Spec2Isabelle
  imports Prelude Capability Limiter InferGate BackendManager Coordinator Watchdog Segmenter Vad WorkerIO Auth
    SentenceBuffers Json Realtime Execution TtsStream Serving RealtimeProvider
    AgentSession Modes Captions VadGate ToolRegistry V2Proxy Actions AsrStream AsrSlots SlvClient ClientServer
    PyText RkLlm Coroutines AgentText AgentApp AgentRuns Download
begin

text \<open>
  A model of the core of the openvoicestream server and agent (Python, below \<open>src/\<close>), with the
  theorems that make it correct.  Paths below are relative to \<open>src/\<close>.

  \<^bold>\<open>The program.\<close>  The server (\<open>server/\<close>) offers speech recognition and synthesis over HTTP and
  WebSockets on small accelerators, so most of its own logic is about admission and exclusive use:
  how many sessions may exist, who may use which backend, when a backend may be exchanged, and what
  happens to all of that when a client vanishes.  Around it are the pieces that cut audio and text
  (voice activity, long uploads, sentences), the Realtime V2 protocol, and the relay to external
  realtime services.  The agent (\<open>agent/ovs_agent/\<close>) is the client with a microphone: it gates
  utterances, keeps the conversation, drives a language model with tools and switches modes.  Beside
  them run services of their own, among them a language model on an accelerator card (\<open>services/\<close>).

  \<^bold>\<open>Theories, in the order a request meets them.\<close>
  \<^item> \<open>Prelude\<close>: Python strings, numbers and environment; the locales \<open>fold_invariant\<close> and
    \<open>rel_invariant\<close> that every stateful component is interpreted in; \<open>steps_rel\<close>, the finite runs of
    a step relation.  \<open>Json\<close>: decoded JSON values and dictionaries with Python's truth values and
    conversions.
  \<^item> \<open>Capability\<close> (\<open>concurrency_capability.py\<close>, \<open>capability_resolver.py\<close>): from backend declarations
    and the environment to session, executor and gate sizes; the lemmas say that settings only lower
    what the backends declare.
  \<^item> \<open>Limiter\<close> (\<open>session_limiter.py\<close>), \<open>InferGate\<close> (\<open>asr_infer_gate.py\<close>), \<open>Auth\<close> (\<open>api_auth.py\<close>):
    admission; tokens and permits are conserved in every interleaving, the queue is first in first out.
  \<^item> \<open>BackendManager\<close> (\<open>backend_manager.py\<close>), \<open>Coordinator\<close> (\<open>coordinator.py\<close>): the life cycle of a
    backend with hot reload as a step relation whose steps are the code between two awaits; no step
    unloads a backend that a counted request uses.
  \<^item> \<open>Execution\<close> (\<open>api_execution.py\<close>): one request as a trace of leases and calls, and the Kokoro
    protocol that joins the native thread before the leases go.  \<open>TtsStream\<close> (\<open>tts_stream\<close> in
    \<open>main.py\<close>): the pipeline of sentences, and the cleanup of a stream whose threads outlive it.
    \<open>Serving\<close> composes: the product of the manager with the calls of its requests.  Its locale
    \<open>joined_call\<close> states what a call must promise (once it has ended, its thread is not running) and
    proves once that no reload unloads a backend under a running thread; it is interpreted for the
    Kokoro protocol and for the streaming cleanup.  The plain executor call does not satisfy it, and
    a lemma at the end of this file shows the run in which recognition is unloaded in use.
  \<^item> \<open>Watchdog\<close> (\<open>gpu_watchdog.py\<close>), \<open>WorkerIO\<close> (\<open>worker_io.py\<close>): health of the accelerator with
    hysteresis; the multiplexer of requests over one worker process.
  \<^item> \<open>Vad\<close> (\<open>vad.py\<close>), \<open>Segmenter\<close> (\<open>asr_segmenter.py\<close>), \<open>SentenceBuffers\<close> (\<open>v2v.py\<close> and the Wyoming
    \<open>clause.py\<close>): the results do not depend on how the input is cut into blocks; nothing is lost.
  \<^item> \<open>Realtime\<close> (\<open>v2v.py\<close>): \<open>session.update\<close> and the event adapter, which refines the abstract
    lifecycle of a response.  \<open>RealtimeProvider\<close> (\<open>realtime_provider.py\<close>, \<open>realtime_relay.py\<close>): base64,
    the adapters of two services and the relay, one step per message.
  \<^item> \<open>V2Proxy\<close> (\<open>_RealtimeV2WebSocketProxy\<close> in \<open>main.py\<close>): the proxy between a V2 client and the voice
    engine, with the timers that evict a dead peer; its events keep the lifecycle of \<open>Realtime\<close> when
    client and engine interleave.
  \<^item> \<open>AsrStream\<close> (\<open>_asr_stream_backend\<close>): a streaming recognition session, written with the actions of
    \<open>Actions\<close> (state, exceptions, \<open>try\<close>/\<open>finally\<close>) and proved with the triples there: every log of a
    session follows one machine, and the recogniser is fed the audio in order.  \<open>AsrSlots\<close>
    (\<open>_AsrSlotJobs\<close>, \<open>asr_stream\<close>): worker threads within the width of \<open>InferGate\<close>, and what a
    connection gives back.
  \<^item> \<open>SlvClient\<close> (\<open>slv_client.py\<close>): the agent's end of the socket, frames, handshake, reconnection.
    \<open>ClientServer\<close> composes it with \<open>V2Proxy\<close>: both protocol versions say the same to the engine, and
    the client's response in progress is the server's.
  \<^item> \<open>RkLlm\<close> (\<open>services/rk1828-llm\<close>, over \<open>PyText\<close>: searching, UTF-8 with its incremental decoder,
    little-endian numbers): the server of the language model and, across the process boundary, the
    worker's parser; frames, tool calls and prompts.
  \<^item> \<open>AgentSession\<close> (\<open>session.py\<close>, \<open>tools/runner.py\<close>, \<open>app_mode.py\<close>): history, trimming, rollback,
    and a turn of the dialogue.  \<open>Modes\<close> (\<open>app_mode.py\<close>, \<open>modes/\<close>): the mode manager with overlapping
    switches.  \<open>Captions\<close> (\<open>streaming_translate/committer.py\<close>), \<open>VadGate\<close> (\<open>audio/vad_gate.py\<close>),
    \<open>ToolRegistry\<close> (\<open>tools/registry.py\<close>).
  \<^item> \<open>AgentApp\<close> (\<open>app_base.py\<close>, with \<open>AgentText\<close> for what is read out of a transcript): the agent's
    conversation, every coroutine that works on it, its timers, microphone and speaker.  The coroutines
    are written with the combinators of \<open>Coroutines\<close>, a rely-guarantee logic for code that awaits:
    a contract is proved of each piece alone, and its locale \<open>event_loop\<close> concludes for all
    interleavings.  \<open>AgentRuns\<close> interprets it: one language-model turn at a time, a superseded reply stays
    silent, a turn's text is what was heard, and what sleep and the thinking watchdog leave behind.
  \<^item> \<open>Download\<close> (\<open>hf_artifacts.py\<close>): artifacts and their resumable download.  Every write is an operation
    on a modelled disk, and a process may be killed between two of them or within one; the destination
    is always verified, and what a crash leaves is resumed without fetching a committed byte again.

  \<^bold>\<open>How code is read.\<close>  A class is a record, its methods functions from state to state; an
  exception is a value (\<open>option\<close>, a sum, or an \<open>exn\<close>).  An asynchronous function is cut where it
  awaits: the pieces are the steps of an \<open>inductive\<close> relation, so every interleaving the event loop can
  produce is a run, cancellation at an await included.  Threads are steps of their own.  Backends,
  profile loaders, detectors, tokenizers, clients and numerical libraries are parameters; of Python's
  own library what is used is modelled, except for \<open>repr\<close>, \<open>json\<close> and the texts of exceptions, which
  are parameters.  Seconds and scores are reals or integers, not rounded doubles.

  \<^bold>\<open>Loops.\<close>  Structural recursion wherever there is a list.  The slicing loop of \<open>Segmenter\<close> and the
  emit loops of \<open>SentenceBuffers\<close> could run for ever for all the code says, so they are
  \<open>partial_function (option)\<close>, and their termination is proved as \<open>\<exists>r. loop x = Some r\<close>.  No theorem
  rests on fuel.

  \<^bold>\<open>Not modelled, and why.\<close>  The route handlers and the start-up of \<open>main.py\<close> beyond the parts named
  above, and the voice WebSocket, whose loop is in the package \<open>voxedge\<close>, which is not in the
  repository (like the turn driver of the agent, taken here as any sequence of calls).  The choice of
  model files, logging, metrics and capability reports: tables, input and output.  The kernels
  of diarization and embeddings, audio features, perception and kinematics of the robot arm: numerical
  code over numpy.  Of the agent: start-up and shutdown, the watchdogs of link, microphone and wake
  source, and the dashboard's debugging endpoints (one of them dispatches in a second task, which the
  agent's properties exclude).  Dashboards, hardware drivers and scripts.

  \<^bold>\<open>Plan.\<close>  The request validation of \<open>main.py\<close>; the
  OpenAI-compatible endpoints; profiles and their composition; the echo filter.
\<close>

section \<open>Properties that span components\<close>

text \<open>C14: Synthesis on a Kokoro backend under hot reload: however requests, native calls,
  disconnections, cancellations, reloads and their timeouts interleave, when a step of the
  manager unloads a backend, no native synthesis of any request is still running.\<close>
theorem kokoro_never_unloaded_in_use:
  assumes "new_manager name ref p = Inr m0"
    and "steps_rel (serve_step kok_step kok_begin kok_ended) \<lparr>sv_mgr = m0, sv_call = Map.empty\<rparr> es s"
    and "serve_step kok_step kok_begin kok_ended s e s'"
    and "Unload b \<in> set (drop (length (m_log (sv_mgr s))) (m_log (sv_mgr s')))"
    and "sv_call s r = Some (b', c)"
  shows "kk_future c \<noteq> None"
  using kokoro.no_unload_while_running [OF assms(2) new_manager_inv [OF assms(1)] assms(3-5)]
  by (simp add: kok_running_def)

text \<open>A run for the witness: one synthesis from its beginning to its end, then a reload.\<close>

definition demo_kok :: "nat kok" where
  "demo_kok = (kok_start False False)\<lparr>kk_future := Some (NOk 1)\<rparr>"

definition demo_kok_end :: "nat kok" where
  "demo_kok_end = demo_kok\<lparr>kk_owner := OwnerDone (ROk 1), kk_request := Ended (ROk 1)\<rparr>"

lemma demo_kok_run:
  "steps_rel kok_step (kok_start False False)
     [NativeEnds (NOk 1), OwnerRuns, OwnerRuns, OwnerRuns, RequestRuns] demo_kok_end"
proof -
  let ?k = "\<lambda>own. demo_kok\<lparr>kk_owner := own\<rparr>"
  have "kok_step (kok_start False False) (NativeEnds (NOk 1)) demo_kok"
    unfolding demo_kok_def by (rule kok_step.native_ends) (simp add: kok_start_def)
  moreover have "kok_step demo_kok OwnerRuns (?k (JoinWatcher (ROk 1)))"
    "kok_step (?k (JoinWatcher (ROk 1))) OwnerRuns (?k (JoinFuture (ROk 1)))"
    "kok_step (?k (JoinFuture (ROk 1))) OwnerRuns (?k (OwnerDone (ROk 1)))"
    by (rule kok_step.owner_runs; simp add: demo_kok_def kok_start_def take_future_def)+
  moreover have "kok_step (?k (OwnerDone (ROk 1))) RequestRuns demo_kok_end"
    by (rule kok_step.request_runs) (simp add: demo_kok_end_def demo_kok_def kok_start_def request_step_def)
  ultimately show ?thesis by (blast intro: steps_rel.intros)
qed

theorem kokoro_never_unloaded_in_use_witness:
  "\<exists>s s'. serve_step kok_step kok_begin kok_ended s (SvManager (EvDrained demo_swap :: (nat, unit) mgr_event)) s' \<and>
     Unload 7 \<in> set (drop (length (m_log (sv_mgr s))) (m_log (sv_mgr s'))) \<and>
     sv_call s 1 = Some (7, demo_kok_end) \<and> kk_future demo_kok_end \<noteq> None"
proof -
  have "kok_start False False \<in> kok_begin" "kok_ended demo_kok_end"
    by (auto simp: kok_begin_def demo_kok_end_def kok_ended_def)
  from reload_after_call [where cstep=kok_step and begin_states=kok_begin and ended=kok_ended, OF demo_kok_run this] obtain m0 s s' and es :: "(nat, unit, nat kok_event) serve_event list"
    where "new_manager ''asr'' None (Some ''base'') = Inr m0"
      "steps_rel (serve_step kok_step kok_begin kok_ended) \<lparr>sv_mgr = m0, sv_call = Map.empty\<rparr> es s"
      "serve_step kok_step kok_begin kok_ended s (SvManager (EvDrained demo_swap) :: (nat, unit, nat kok_event) serve_event) s'"
      "Unload 7 \<in> set (drop (length (m_log (sv_mgr s))) (m_log (sv_mgr s')))"
      "sv_call s 1 = Some (7, demo_kok_end)" by blast
  with kokoro_never_unloaded_in_use [OF this] show ?thesis by blast
qed

text \<open>C17: The same for streams: in every interleaving of streams (their threads, disconnections,
  cleanups, loop shutdowns) with reloads, when a step of the manager unloads a backend no
  executor thread of any stream is using it.\<close>
theorem streaming_never_unloaded_in_use:
  assumes "new_manager name ref p = Inr m0"
    and "steps_rel (serve_step stream_step {stream_start} stream_ended) \<lparr>sv_mgr = m0, sv_call = Map.empty\<rparr> es s"
    and "serve_step stream_step {stream_start} stream_ended s e s'"
    and "Unload b \<in> set (drop (length (m_log (sv_mgr s))) (m_log (sv_mgr s')))"
    and "sv_call s r = Some (b', c)"
  shows "list_all (\<lambda>j. jb_thread j \<noteq> TUsing) (st_jobs c)"
  using streaming.no_unload_while_running [OF assms(2) new_manager_inv [OF assms(1)] assms(3-5)]
  by (auto simp: stream_running_def using_jobs_def list_all_length)

definition demo_stream_end :: stream where
  "demo_stream_end = \<lparr>st_flag = True, st_jobs = [new_job], st_cleanup = CReleased, st_releases = 1\<rparr>"

lemma demo_stream_run: "steps_rel stream_step stream_start [Submit, BeginCleanup, Snapshot, DrainEnd] demo_stream_end"
proof -
  let ?c = "\<lambda>c. \<lparr>st_flag = True, st_jobs = [new_job], st_cleanup = c, st_releases = 0\<rparr>"
  have "stream_step stream_start Submit (stream_start\<lparr>st_jobs := [new_job]\<rparr>)"
    using stream_step.submit [of stream_start] by (simp add: stream_start_def)
  moreover have "stream_step (stream_start\<lparr>st_jobs := [new_job]\<rparr>) BeginCleanup (?c CCreated)"
    using stream_step.begin_cleanup [of "stream_start\<lparr>st_jobs := [new_job]\<rparr>"]
    by (simp add: begin_cleanup_def stream_start_def)
  moreover have "stream_step (?c CCreated) Snapshot (?c (CDrain []))"
    using stream_step.snapshot [of "?c CCreated"]
    by (simp add: snapshot_jobs_def job_selected_def job_started_def new_job_def)
  moreover have "stream_step (?c (CDrain [])) DrainEnd demo_stream_end"
    using stream_step.drain_end [of "?c (CDrain [])"] by (simp add: release_resources_def demo_stream_end_def)
  ultimately show ?thesis by (blast intro: steps_rel.intros)
qed

theorem streaming_never_unloaded_in_use_witness:
  "\<exists>s s'. serve_step stream_step {stream_start} stream_ended s
       (SvManager (EvDrained demo_swap :: (nat, unit) mgr_event)) s' \<and>
     Unload 7 \<in> set (drop (length (m_log (sv_mgr s))) (m_log (sv_mgr s'))) \<and>
     sv_call s 1 = Some (7, demo_stream_end) \<and> list_all (\<lambda>j. jb_thread j \<noteq> TUsing) (st_jobs demo_stream_end)"
proof -
  have "stream_start \<in> {stream_start}" "stream_ended demo_stream_end"
    by (simp_all add: stream_ended_def demo_stream_end_def)
  from reload_after_call [where cstep=stream_step and begin_states="{stream_start}" and ended=stream_ended, OF demo_stream_run this] obtain m0 s s' and es :: "(nat, unit, stream_event) serve_event list"
    where "new_manager ''asr'' None (Some ''base'') = Inr m0"
      "steps_rel (serve_step stream_step {stream_start} stream_ended) \<lparr>sv_mgr = m0, sv_call = Map.empty\<rparr> es s"
      "serve_step stream_step {stream_start} stream_ended s (SvManager (EvDrained demo_swap) :: (nat, unit, stream_event) serve_event) s'"
      "Unload 7 \<in> set (drop (length (m_log (sv_mgr s))) (m_log (sv_mgr s')))"
      "sv_call s 1 = Some (7, demo_stream_end)" by blast
  with streaming_never_unloaded_in_use [OF this] show ?thesis by blast
qed

text \<open>Recognition is different: on any READY and idle manager that accepts a reload, a request whose
  client goes away right after the decode began leaves its context at once, and the reload then
  unloads the backend while the decode thread is still running on it.\<close>
theorem recognition_unloaded_in_use:
  fixes m :: "'b manager" and pc :: "('b, 'p) precheck"
  assumes "m_state m = READY" and "m_current m = Some b" and "m_requests m = []" and "m_inflight m = 0"
    and "reload_precheck pc ref m = None"
  shows "\<exists>s s' c. steps_rel (serve_step plain_step {plain_start :: 'v plain} plain_ended)
           \<lparr>sv_mgr = m, sv_call = Map.empty\<rparr>
           [SvBegin r, SvCall r CancelRequest, SvLeave r, SvManager (EvReload pc ref)] s \<and>
         serve_step plain_step {plain_start} plain_ended s (SvManager (EvDrained so :: ('b, 'p) mgr_event)) s' \<and>
         Unload b \<in> set (drop (length (m_log (sv_mgr s))) (m_log (sv_mgr s'))) \<and>
         sv_call s r = Some (b, c) \<and> pl_future c = None"
proof -
  let ?step = "serve_step plain_step {plain_start :: 'v plain} plain_ended"
  let ?c = "plain_start\<lparr>pl_request := Ended RCancelled\<rparr> :: 'v plain"
  define m1 where "m1 = m\<lparr>m_inflight := 1, m_requests := [(r, b)]\<rparr>"
  define m2 where "m2 = snd (reload_enter pc ref m)"
  define rl where "rl = the (m_reload m2)"
  define s1 where "s1 = \<lparr>sv_mgr = m1, sv_call = [r \<mapsto> (b, plain_start :: 'v plain)]\<rparr>"
  define s2 where "s2 = \<lparr>sv_mgr = m1, sv_call = [r \<mapsto> (b, ?c)]\<rparr>"
  define s3 where "s3 = \<lparr>sv_mgr = m, sv_call = [r \<mapsto> (b, ?c)]\<rparr>"
  define s4 where "s4 = \<lparr>sv_mgr = m2, sv_call = [r \<mapsto> (b, ?c)]\<rparr>"
  note idle = acquire_release_idle [OF assms(1-4), of r]
  have st1: "?step \<lparr>sv_mgr = m, sv_call = Map.empty\<rparr> (SvBegin r) s1"
    using serve_step.sv_begin [of "\<lparr>sv_mgr = m, sv_call = Map.empty\<rparr>" r b m1 "plain_start :: 'v plain" "{plain_start}"]
      idle(1) by (simp add: s1_def m1_def)
  have st2: "?step s1 (SvCall r CancelRequest) s2"
    using serve_step.sv_call [of s1 r b plain_start plain_step CancelRequest ?c]
      plain_step.plain_cancel [of plain_start] by (simp add: s1_def s2_def plain_start_def)
  have st3: "?step s2 (SvLeave r) s3"
    using serve_step.sv_leave [of s2 r b ?c plain_ended] idle(2)
    by (simp add: s2_def s3_def m1_def plain_ended_def)
  have st4: "?step s3 (SvManager (EvReload pc ref)) s4"
    using serve_step.sv_manager [of s3 "EvReload pc ref" m2] step_reload [of m pc ref]
    by (simp add: s3_def s4_def m2_def)
  have rl: "m_reload m2 = Some rl" "rl_old rl = b" "m_inflight m2 = 0"
    using reload_enter_accepts [OF assms(5)] assms(2,4) by (auto simp: m2_def rl_def)
  have st5: "mgr_step (sv_mgr s4) (EvDrained so :: ('b, 'p) mgr_event) (snd (reload_swap so rl m2))"
    using step_drained [OF rl(1,3)] unfolding s4_def serving.select_convs .
  have "?step s4 (SvManager (EvDrained so :: ('b, 'p) mgr_event)) (s4\<lparr>sv_mgr := snd (reload_swap so rl m2)\<rparr>)"
    by (rule serve_step.sv_manager [OF st5]) simp
  moreover have "steps_rel ?step \<lparr>sv_mgr = m, sv_call = Map.empty\<rparr>
      [SvBegin r, SvCall r CancelRequest, SvLeave r, SvManager (EvReload pc ref)] s4"
    using st1 st2 st3 st4 by (blast intro: steps_rel.intros)
  moreover have "Unload b \<in> set (drop (length (m_log m2)) (m_log (snd (reload_swap so rl m2))))"
    using reload_swap_unloads [of rl m2 so] rl(2) by simp
  moreover have "sv_call s4 r = Some (b, ?c)" "pl_future ?c = None" by (simp_all add: s4_def plain_start_def)
  moreover have "sv_mgr s4 = m2" by (simp add: s4_def)
  ultimately show ?thesis
    by (intro exI [of _ s4] exI [of _ "s4\<lparr>sv_mgr := snd (reload_swap so rl m2)\<rparr>"] exI [of _ ?c]) simp
qed


theorem recognition_unloaded_in_use_witness:
  "m_state demo_ready = READY \<and>
   (\<exists>s s' c. steps_rel (serve_step plain_step {plain_start :: unit plain} plain_ended)
           \<lparr>sv_mgr = demo_ready, sv_call = Map.empty\<rparr>
           [SvBegin 1, SvCall 1 CancelRequest, SvLeave 1, SvManager (EvReload demo_pc None)] s \<and>
         serve_step plain_step {plain_start} plain_ended s
           (SvManager (EvDrained demo_swap :: (nat, unit) mgr_event)) s' \<and>
         Unload 7 \<in> set (drop (length (m_log (sv_mgr s))) (m_log (sv_mgr s'))) \<and>
         sv_call s 1 = Some (7, c) \<and> pl_future c = None)"
proof -
  note ready = demo_ready_facts
  from recognition_unloaded_in_use [OF ready] ready(1) show ?thesis by blast
qed

end
